(* ===== verification/Nex_Prelude.thy ===== *)
theory Nex_Prelude
  imports Complex_Main "HOL-Library.Word" "HOL-Library.AList" "HOL-Library.State_Monad"
begin

text \<open>
  Shared vocabulary of the development.

  \<^item> Machine integers are words of the width the Go source gives them; a Go \<open>int\<close> that only
    holds a length is a \<open>nat\<close>, any other Go \<open>int\<close> is an \<open>int\<close>.
  \<^item> A Go string is a \<open>string\<close> (a list of bytes); a \<open>[]byte\<close> is a list of 8-bit words. A nil
    slice and an empty slice are the same list.
  \<^item> A Go map is an association list with distinct keys (\<open>gm_wf\<close>). Go visits a map in an
    unspecified order, so a loop whose effect depends on the order takes the visiting order as
    an argument.
  \<^item> A clock reading is an integer number of nanoseconds.
\<close>

section \<open>Types and rule collections\<close>

type_synonym byte = "8 word"
type_synonym u16 = "16 word"
type_synonym u32 = "32 word"
type_synonym u64 = "64 word"
type_synonym pid = u64
type_synonym gid = u32
type_synonym gotime = int
type_synonym ('k, 'v) gomap = "('k \<times> 'v) list"

named_theorems wire_simps \<open>lengths and values of wire encodings\<close>
named_theorems gomap_simps \<open>lookup, key and size facts of the Go map operations\<close>

section \<open>Go maps\<close>

abbreviation gm_get :: "('k, 'v) gomap \<Rightarrow> 'k \<Rightarrow> 'v option" where
  "gm_get m k \<equiv> map_of m k"

abbreviation gm_put :: "'k \<Rightarrow> 'v \<Rightarrow> ('k, 'v) gomap \<Rightarrow> ('k, 'v) gomap" where
  "gm_put k v m \<equiv> AList.update k v m"

abbreviation gm_del :: "'k \<Rightarrow> ('k, 'v) gomap \<Rightarrow> ('k, 'v) gomap" where
  "gm_del k m \<equiv> AList.delete k m"

definition gm_keys :: "('k, 'v) gomap \<Rightarrow> 'k list" where
  "gm_keys m = map fst m"

definition gm_wf :: "('k, 'v) gomap \<Rightarrow> bool" where
  "gm_wf m \<longleftrightarrow> distinct (map fst m)"

definition gm_has :: "('k, 'v) gomap \<Rightarrow> 'k \<Rightarrow> bool" where
  "gm_has m k \<longleftrightarrow> k \<in> set (map fst m)"

text \<open>A visiting order of a map: every key exactly once.\<close>

definition visits :: "'k list \<Rightarrow> ('k, 'v) gomap \<Rightarrow> bool" where
  "visits ord m \<longleftrightarrow> distinct ord \<and> set ord = set (map fst m)"

section \<open>Little-endian bytes\<close>

primrec le_bytes :: "nat \<Rightarrow> nat \<Rightarrow> byte list" where
  "le_bytes 0 n = []"
| "le_bytes (Suc k) n = of_nat n # le_bytes k (n div 256)"

fun le_nat :: "byte list \<Rightarrow> nat" where
  "le_nat [] = 0"
| "le_nat (b # bs) = unat b + 256 * le_nat bs"

definition byte_of_char :: "char \<Rightarrow> byte" where
  "byte_of_char c = of_nat (of_char c)"

definition char_of_byte :: "byte \<Rightarrow> char" where
  "char_of_byte b = char_of (unat b)"

text \<open>The value a Go \<open>int64\<close> holds after an operation whose exact result is \<open>i\<close>.\<close>

definition wrap64 :: "int \<Rightarrow> int" where
  "wrap64 i = signed_take_bit 63 i"

section \<open>Reachable states of a transition system\<close>

inductive reach :: "('s \<Rightarrow> bool) \<Rightarrow> ('s \<Rightarrow> 's \<Rightarrow> bool) \<Rightarrow> 's \<Rightarrow> bool"
  for ini :: "'s \<Rightarrow> bool" and step :: "'s \<Rightarrow> 's \<Rightarrow> bool" where
  reach_init: "ini s \<Longrightarrow> reach ini step s"
| reach_step: "reach ini step s \<Longrightarrow> step s t \<Longrightarrow> reach ini step t"

text \<open>What a component has to prove for a property to hold in every reachable state.\<close>

locale inductive_invariant =
  fixes ini :: "'s \<Rightarrow> bool" and step :: "'s \<Rightarrow> 's \<Rightarrow> bool" and inv :: "'s \<Rightarrow> bool"
  assumes inv_init: "ini s \<Longrightarrow> inv s"
    and inv_step: "inv s \<Longrightarrow> step s t \<Longrightarrow> inv t"
begin

lemma reachable_inv: "reach ini step s \<Longrightarrow> inv s"
  by (induction rule: reach.induct) (auto intro: inv_init inv_step)

end

section \<open>Lemmas on Go maps\<close>

lemma gm_wf_Nil [simp]: "gm_wf []"
  by (simp add: gm_wf_def)

lemma gm_has_Nil [simp]: "\<not> gm_has [] k"
  by (simp add: gm_has_def)

lemma gm_wf_put [simp, intro]: "gm_wf m \<Longrightarrow> gm_wf (gm_put k v m)"
  by (simp add: gm_wf_def AList.distinct_update)

lemma gm_wf_del [simp, intro]: "gm_wf m \<Longrightarrow> gm_wf (gm_del k m)"
  by (simp add: gm_wf_def AList.distinct_delete)

lemma gm_wf_filter [simp, intro]: "gm_wf m \<Longrightarrow> gm_wf (filter P m)"
  by (auto simp: gm_wf_def distinct_map inj_on_def)

lemma gm_get_put [gomap_simps, simp]:
  "gm_get (gm_put k v m) k' = (if k' = k then Some v else gm_get m k')"
  by (simp add: AList.update_conv')

lemma gm_get_del [gomap_simps, simp]:
  "gm_get (gm_del k m) k' = (if k' = k then None else gm_get m k')"
  by (simp add: AList.delete_conv')

lemma gm_get_fold_del [gomap_simps]: "gm_get (fold gm_del ks m) k = (if k \<in> set ks then None else gm_get m k)"
  by (induction ks arbitrary: m) auto

lemma gm_has_put [gomap_simps, simp]: "gm_has (gm_put k v m) k' \<longleftrightarrow> k' = k \<or> gm_has m k'"
  using AList.dom_update [of k v m] by (auto simp: gm_has_def)

lemma gm_has_del [gomap_simps, simp]: "gm_has (gm_del k m) k' \<longleftrightarrow> k' \<noteq> k \<and> gm_has m k'"
  by (auto simp: gm_has_def AList.delete_keys simp flip: set_map)

lemma gm_has_get: "gm_has m k \<longleftrightarrow> gm_get m k \<noteq> None"
  by (auto simp: gm_has_def map_of_eq_None_iff image_iff)

lemma gm_get_Some_in: "gm_get m k = Some v \<Longrightarrow> (k, v) \<in> set m"
  by (rule map_of_SomeD)

lemma gm_in_get: "gm_wf m \<Longrightarrow> (k, v) \<in> set m \<Longrightarrow> gm_get m k = Some v"
  by (simp add: gm_wf_def)

lemma gm_in_put:
  "gm_wf m \<Longrightarrow> (k', v') \<in> set (gm_put k v m) \<longleftrightarrow> (if k' = k then v' = v else (k', v') \<in> set m)"
  using map_of_eq_Some_iff [of "gm_put k v m" k' v'] map_of_eq_Some_iff [of m k' v']
  by (auto simp: gm_wf_def AList.distinct_update)

lemma gm_in_del: "(k', v') \<in> set (gm_del k m) \<longleftrightarrow> k' \<noteq> k \<and> (k', v') \<in> set m"
  by (auto simp: AList.delete_eq)

lemma length_gm_put [gomap_simps]:
  "length (gm_put k v m) = (if gm_has m k then length m else Suc (length m))"
  by (induction m) (auto simp: gm_has_def)

lemma length_gm_del_le [simp]: "length (gm_del k m) \<le> length m"
  by (rule AList.length_delete_le)

lemma gm_del_absent [simp]: "\<not> gm_has m k \<Longrightarrow> gm_del k m = m"
  by (simp add: gm_has_def)

lemma length_gm_del [gomap_simps]:
  assumes "gm_wf m"
  shows "length (gm_del k m) = (if gm_has m k then length m - 1 else length m)"
proof -
  have "distinct (map fst (gm_del k m))"
    using assms by (simp add: gm_wf_def AList.distinct_delete)
  then have "length (gm_del k m) = card (set (map fst (gm_del k m)))"
    using distinct_card [of "map fst (gm_del k m)"] by simp
  also have "set (map fst (gm_del k m)) = fst ` set m - {k}"
    by (simp only: AList.delete_keys set_removeAll set_map)
  finally have "length (gm_del k m) = card (fst ` set m - {k})" .
  moreover have "length m = card (fst ` set m)"
    using assms distinct_card [of "map fst m"] by (simp add: gm_wf_def)
  ultimately show ?thesis
    by (auto simp: gm_has_def)
qed

section \<open>Lemmas on bytes\<close>

lemma length_le_bytes [wire_simps, simp]: "length (le_bytes k n) = k"
  by (induction k arbitrary: n) auto

lemma le_nat_le_bytes: "le_nat (le_bytes k n) = n mod 256 ^ k"
proof (induction k arbitrary: n)
  case 0
  then show ?case by simp
next
  case (Suc k)
  have "le_nat (le_bytes (Suc k) n) = n mod 256 + 256 * ((n div 256) mod 256 ^ k)"
    by (simp add: Suc.IH unat_of_nat)
  also have "\<dots> = n mod (256 * 256 ^ k)"
    by (simp add: mod_mult2_eq)
  finally show ?case by simp
qed

lemma le_nat_bound: "le_nat bs < 256 ^ length bs"
proof (induction bs)
  case Nil
  then show ?case by simp
next
  case (Cons b bs)
  have "unat b < 256"
    using unsigned_less [of b, where ?'a = nat] by simp
  with Cons show ?case by simp
qed

lemma le_bytes_le_nat: "le_bytes (length bs) (le_nat bs) = bs"
proof (induction bs)
  case Nil
  then show ?case by simp
next
  case (Cons b bs)
  have b: "unat b < 256"
    using unsigned_less [of b, where ?'a = nat] by simp
  then have "(unat b + 256 * le_nat bs) div 256 = le_nat bs"
    by simp
  moreover have "(256 :: byte) = 0"
    by simp
  then have "(of_nat (unat b + 256 * le_nat bs) :: byte) = b"
    by (simp only: of_nat_add of_nat_mult of_nat_numeral) simp
  ultimately show ?case
    using Cons by simp
qed

lemma le_bytes_inj: "le_bytes k m = le_bytes k n \<Longrightarrow> m < 256 ^ k \<Longrightarrow> n < 256 ^ k \<Longrightarrow> m = n"
  by (metis le_nat_le_bytes mod_less)

lemma char_of_byte_of_char [simp]: "char_of_byte (byte_of_char c) = c"
proof -
  have "(of_char c :: nat) mod 256 = of_char c"
    by (rule of_char_mod_256)
  then show ?thesis
    by (simp add: char_of_byte_def byte_of_char_def unat_of_nat)
qed

lemma map_char_of_byte_of_char [simp]: "map (char_of_byte \<circ> byte_of_char) s = s"
  by (simp add: map_idI)

lemma wrap64_id: "- (2 ^ 63) \<le> i \<Longrightarrow> i < 2 ^ 63 \<Longrightarrow> wrap64 i = i"
  by (simp add: wrap64_def signed_take_bit_int_eq_self)

lemma u32_less_Suc:
  assumes "w \<noteq> (0xFFFFFFFF :: u32)"
  shows "w < w + 1"
proof -
  have "unat w < 2 ^ 32" "unat w \<noteq> 4294967295"
    using assms unsigned_less [of w, where ?'a = nat] by (simp_all add: word_unat_eq_iff)
  then show ?thesis
    by (simp add: word_less_nat_alt unat_word_ariths)
qed

end
