(* ===== verification/Nex_Stream.thy ===== *)
theory Nex_Stream
  imports Nex_Prelude
begin

text \<open>
  The wire streams of \<^verbatim>\<open>nextendo-nex/stream.go\<close> and the settings of
  \<^verbatim>\<open>nextendo-nex/settings.go\<close> that drive them.

  A \<open>StreamOut\<close> is an append-only buffer, so each of its methods is modelled by the bytes it
  appends (\<open>out_U8\<close>, \<open>out_String\<close>, \<dots>) and a sequence of calls by their concatenation. A
  \<open>StreamIn\<close> is the record \<open>stream_in\<close>; its methods are computations of the state monad over
  it (\<open>in_U8\<close>, \<open>in_String\<close>, \<dots>). The only error a stream records is
  \<open>io.ErrUnexpectedEOF\<close>, so the \<open>err\<close> field is a flag. A float is its bit pattern.

  The locale \<open>codec\<close> is the contract between a pair of a writer and a reader; the laws of lists
  and maps (\<open>WriteList\<close>/\<open>ReadList\<close>, \<open>WriteMap\<close>/\<open>ReadMap\<close>) are proved once inside it
  and the codec of every field type is an interpretation of it.
\<close>

section \<open>Settings\<close>

record settings =
  NexVersion :: int
  ClientVersion :: int
  StructHeader :: bool
  PIDSize :: int
  AccessKey :: string
  PrudpVersion :: int
  PrudpMinorVersion :: int
  SupportedFunctions :: int
  Transport :: int
  Compression :: int
  Encryption :: int
  ResendTimeout :: rat
  ResendLimit :: int
  PingTimeout :: rat
  FragmentSize :: int
  MaxSubstreamID :: int
  KerberosKeySize :: int
  KerberosKeyDerivation :: int
  KerberosTicketVersion :: int

definition KeyDerivationOld :: int where "KeyDerivationOld = 0"
definition KeyDerivationNew :: int where "KeyDerivationNew = 1"

definition NewSwitchSettings :: "string \<Rightarrow> int \<Rightarrow> settings" where
  "NewSwitchSettings accessKey nexVersion =
     \<lparr>NexVersion = nexVersion, ClientVersion = 0, StructHeader = True, PIDSize = 8,
      AccessKey = accessKey, PrudpVersion = 2, PrudpMinorVersion = 5, SupportedFunctions = 0,
      Transport = 2, Compression = 0, Encryption = 0, ResendTimeout = 5, ResendLimit = 0,
      PingTimeout = 5, FragmentSize = 1300, MaxSubstreamID = 0,
      KerberosKeySize = 32, KerberosKeyDerivation = KeyDerivationNew, KerberosTicketVersion = 1\<rparr>"

section \<open>StreamOut: the bytes each method appends\<close>

definition out_U8 :: "byte \<Rightarrow> byte list" where
  "out_U8 v = [v]"

definition out_U16 :: "u16 \<Rightarrow> byte list" where
  "out_U16 v = le_bytes 2 (unat v)"

definition out_U32 :: "u32 \<Rightarrow> byte list" where
  "out_U32 v = le_bytes 4 (unat v)"

definition out_U64 :: "u64 \<Rightarrow> byte list" where
  "out_U64 v = le_bytes 8 (unat v)"

text \<open>The signed and floating-point writers only reinterpret the bits.\<close>

definition out_S64 :: "u64 \<Rightarrow> byte list" where
  "out_S64 v = out_U64 v"

definition out_Double :: "u64 \<Rightarrow> byte list" where
  "out_Double v = out_U64 v"

definition out_Bool :: "bool \<Rightarrow> byte list" where
  "out_Bool v = (if v then out_U8 1 else out_U8 0)"

definition out_PID :: "settings \<Rightarrow> pid \<Rightarrow> byte list" where
  "out_PID s v = (if PIDSize s = 8 then out_U64 v else out_U32 (ucast v))"

definition out_String :: "string \<Rightarrow> byte list" where
  "out_String str =
     (let dat = map byte_of_char str @ [0] in out_U16 (of_nat (length dat)) @ dat)"

definition out_Buffer :: "byte list \<Rightarrow> byte list" where
  "out_Buffer b = out_U32 (of_nat (length b)) @ b"

definition out_QBuffer :: "byte list \<Rightarrow> byte list" where
  "out_QBuffer b = out_U16 (of_nat (length b)) @ b"

definition out_DateTime :: "u64 \<Rightarrow> byte list" where
  "out_DateTime v = out_U64 v"

definition WriteList :: "('a \<Rightarrow> byte list) \<Rightarrow> 'a list \<Rightarrow> byte list" where
  "WriteList f xs = out_U32 (of_nat (length xs)) @ concat (map f xs)"

text \<open>The pairs are written in the order in which Go visits the map.\<close>

definition WriteMap :: "('k \<Rightarrow> byte list) \<Rightarrow> ('v \<Rightarrow> byte list) \<Rightarrow> ('k, 'v) gomap \<Rightarrow> byte list" where
  "WriteMap kf vf m = out_U32 (of_nat (length m)) @ concat (map (\<lambda>(k, v). kf k @ vf v) m)"

section \<open>StreamIn\<close>

record stream_in =
  si_data :: "byte list"
  si_pos :: nat
  si_err :: bool

type_synonym 'a reader = "(stream_in, 'a) state"

abbreviation ret :: "'a \<Rightarrow> 'a reader" where
  "ret \<equiv> State_Monad.return"

definition NewStreamIn :: "byte list \<Rightarrow> stream_in" where
  "NewStreamIn dat = \<lparr>si_data = dat, si_pos = 0, si_err = False\<rparr>"

definition in_Err :: "stream_in \<Rightarrow> bool" where
  "in_Err s = si_err s"

definition in_EOF :: "stream_in \<Rightarrow> bool" where
  "in_EOF s \<longleftrightarrow> si_pos s \<ge> length (si_data s)"

definition in_Remaining :: "stream_in \<Rightarrow> int" where
  "in_Remaining s = int (length (si_data s)) - int (si_pos s)"

definition in_Read :: "int \<Rightarrow> byte list reader" where
  "in_Read n = State (\<lambda>s.
     if si_err s \<or> n < 0 \<or> int (si_pos s) + n > int (length (si_data s))
     then ([], if \<not> si_err s \<and> n \<noteq> 0 then s\<lparr>si_err := True\<rparr> else s)
     else (take (nat n) (drop (si_pos s) (si_data s)), s\<lparr>si_pos := si_pos s + nat n\<rparr>))"

definition in_ReadAll :: "byte list reader" where
  "in_ReadAll = State (\<lambda>s. run_state (in_Read (in_Remaining s)) s)"

definition in_U8 :: "byte reader" where
  "in_U8 = do { b \<leftarrow> in_Read 1; ret (if length b < 1 then 0 else b ! 0) }"

definition in_U16 :: "u16 reader" where
  "in_U16 = do { b \<leftarrow> in_Read 2; ret (if length b < 2 then 0 else of_nat (le_nat b)) }"

definition in_U32 :: "u32 reader" where
  "in_U32 = do { b \<leftarrow> in_Read 4; ret (if length b < 4 then 0 else of_nat (le_nat b)) }"

definition in_U64 :: "u64 reader" where
  "in_U64 = do { b \<leftarrow> in_Read 8; ret (if length b < 8 then 0 else of_nat (le_nat b)) }"

definition in_S64 :: "u64 reader" where
  "in_S64 = in_U64"

definition in_Double :: "u64 reader" where
  "in_Double = in_U64"

definition in_Bool :: "bool reader" where
  "in_Bool = do { b \<leftarrow> in_U8; ret (b \<noteq> 0) }"

definition in_PID :: "settings \<Rightarrow> pid reader" where
  "in_PID s = (if PIDSize s = 8 then in_U64 else do { v \<leftarrow> in_U32; ret (ucast v) })"

definition in_String :: "string reader" where
  "in_String = do {
     len \<leftarrow> in_U16;
     if len = 0 then ret []
     else do {
       b \<leftarrow> in_Read (uint len);
       ret (if length b < unat len then []
            else map char_of_byte (if b ! (length b - 1) = 0 then take (length b - 1) b else b))
     } }"

definition in_Buffer :: "byte list reader" where
  "in_Buffer = do { n \<leftarrow> in_U32; in_Read (uint n) }"

definition in_QBuffer :: "byte list reader" where
  "in_QBuffer = do { n \<leftarrow> in_U16; in_Read (uint n) }"

definition in_DateTime :: "u64 reader" where
  "in_DateTime = in_U64"

definition in_Substream :: "stream_in reader" where
  "in_Substream = do { b \<leftarrow> in_Buffer; ret (NewStreamIn b) }"

definition in_fail :: "'a \<Rightarrow> 'a reader" where
  "in_fail v = State (\<lambda>s. (v, s\<lparr>si_err := True\<rparr>))"

primrec read_n :: "nat \<Rightarrow> 'a reader \<Rightarrow> 'a list reader" where
  "read_n 0 f = ret []"
| "read_n (Suc n) f = do { x \<leftarrow> f; xs \<leftarrow> read_n n f; ret (x # xs) }"

definition ReadList :: "'a reader \<Rightarrow> 'a list reader" where
  "ReadList f = do {
     n \<leftarrow> in_U32;
     s \<leftarrow> State_Monad.get;
     if uint n > in_Remaining s then in_fail [] else read_n (unat n) f }"

primrec read_pairs :: "nat \<Rightarrow> 'k reader \<Rightarrow> 'v reader \<Rightarrow> ('k, 'v) gomap \<Rightarrow> ('k, 'v) gomap reader" where
  "read_pairs 0 kf vf m = ret m"
| "read_pairs (Suc n) kf vf m = do { k \<leftarrow> kf; v \<leftarrow> vf; read_pairs n kf vf (gm_put k v m) }"

definition ReadMap :: "'k reader \<Rightarrow> 'v reader \<Rightarrow> ('k, 'v) gomap reader" where
  "ReadMap kf vf = do {
     n \<leftarrow> in_U32;
     s \<leftarrow> State_Monad.get;
     if uint n > in_Remaining s then in_fail [] else read_pairs (unat n) kf vf [] }"

section \<open>What a reader consumes\<close>

text \<open>
  \<open>reads r bs v\<close>: wherever the bytes \<open>bs\<close> stand at the cursor of a stream without error, the
  reader \<open>r\<close> returns \<open>v\<close>, consumes exactly \<open>bs\<close> and records no error.
\<close>

definition stream_at :: "byte list \<Rightarrow> byte list \<Rightarrow> stream_in" where
  "stream_at pre suf = \<lparr>si_data = pre @ suf, si_pos = length pre, si_err = False\<rparr>"

definition reads :: "'a reader \<Rightarrow> byte list \<Rightarrow> 'a \<Rightarrow> bool" where
  "reads r bs v \<longleftrightarrow>
     (\<forall>pre rest. run_state r (stream_at pre (bs @ rest)) = (v, stream_at (pre @ bs) rest))"

lemma readsI:
  "(\<And>pre rest. run_state r (stream_at pre (bs @ rest)) = (v, stream_at (pre @ bs) rest)) \<Longrightarrow> reads r bs v"
  by (simp add: reads_def)

lemma readsD:
  "reads r bs v \<Longrightarrow> run_state r (stream_at pre (bs @ rest)) = (v, stream_at (pre @ bs) rest)"
  by (simp add: reads_def)

lemma NewStreamIn_stream_at: "NewStreamIn bs = stream_at [] bs"
  by (simp add: NewStreamIn_def stream_at_def)

lemma in_Remaining_stream_at [simp]: "in_Remaining (stream_at pre suf) = int (length suf)"
  by (simp add: in_Remaining_def stream_at_def)

lemma si_err_stream_at [simp]: "si_err (stream_at pre suf) = False"
  by (simp add: stream_at_def)

lemma reads_ret: "reads (ret v) [] v"
  by (simp add: reads_def)

lemma reads_bind:
  assumes "reads r a v" and "reads (f v) b w"
  shows "reads (r \<bind> f) (a @ b) w"
  using assms by (simp add: reads_def)

lemma reads_bind_ret: "reads r a v \<Longrightarrow> g v = w \<Longrightarrow> reads (r \<bind> (\<lambda>x. ret (g x))) a w"
  using reads_bind [of r a v "\<lambda>x. ret (g x)", OF _ reads_ret [of "g v"]] by auto

lemma reads_in_Read: "n = int (length bs) \<Longrightarrow> reads (in_Read n) bs bs"
  by (simp add: reads_def in_Read_def stream_at_def)

lemma reads_get_bind:
  assumes "\<And>pre rest. reads (f (stream_at pre (bs @ rest))) bs v"
  shows "reads (State_Monad.get \<bind> f) bs v"
  using assms by (simp add: reads_def)

section \<open>The codec contract\<close>

locale codec =
  fixes enc :: "'a \<Rightarrow> byte list" and dec :: "'a reader" and ok :: "'a \<Rightarrow> bool"
  assumes dec_enc: "ok v \<Longrightarrow> reads dec (enc v) v"
begin

lemma read_n_concat: "list_all ok xs \<Longrightarrow> reads (read_n (length xs) dec) (concat (map enc xs)) xs"
proof (induction xs)
  case Nil
  then show ?case by (simp add: reads_ret)
next
  case (Cons x xs)
  then have "reads (read_n (length xs) dec \<bind> (\<lambda>ys. ret (x # ys))) (concat (map enc xs)) (x # xs)"
    by (auto intro: reads_bind_ret)
  moreover have "reads dec (enc x) x"
    using Cons.prems by (simp add: dec_enc)
  ultimately show ?case
    by (simp add: reads_bind)
qed

lemma decode_fresh: "ok v \<Longrightarrow> fst (run_state dec (NewStreamIn (enc v @ rest))) = v"
  using readsD [OF dec_enc, of v "[]" rest] by (simp add: NewStreamIn_stream_at)

lemma decode_no_error: "ok v \<Longrightarrow> \<not> si_err (snd (run_state dec (NewStreamIn (enc v @ rest))))"
  using readsD [OF dec_enc, of v "[]" rest] by (simp add: NewStreamIn_stream_at)

lemma enc_inj: "ok v \<Longrightarrow> ok w \<Longrightarrow> enc v = enc w \<Longrightarrow> v = w"
  using decode_fresh [of v "[]"] decode_fresh [of w "[]"] by simp

end

text \<open>
  \<open>ReadList\<close> and \<open>ReadMap\<close> refuse a count larger than the bytes that remain, so their
  laws need elements that occupy at least one byte.
\<close>

locale nonempty_codec = codec +
  assumes enc_nonempty: "enc v \<noteq> []"
begin

lemma length_concat_enc: "length xs \<le> length (concat (map enc xs))"
proof (induction xs)
  case Nil
  then show ?case by simp
next
  case (Cons x xs)
  moreover have "1 \<le> length (enc x)"
    using enc_nonempty [of x] by (cases "enc x") auto
  ultimately show ?case
    by simp
qed

end

lemma reads_le_bytes:
  assumes "n < 256 ^ k"
  shows "reads (in_Read (int k) \<bind> (\<lambda>b. ret (if length b < k then z else f (le_nat b)))) (le_bytes k n) (f n)"
  using assms by (intro reads_bind_ret [OF reads_in_Read]) (simp_all add: le_nat_le_bytes)

lemma reads_U8: "reads in_U8 (out_U8 v) v"
  unfolding in_U8_def out_U8_def by (rule reads_bind_ret [OF reads_in_Read]) auto

lemma unat_lt_bytes:
  "unat (v2 :: u16) < 256 ^ 2" "unat (v4 :: u32) < 256 ^ 4" "unat (v8 :: u64) < 256 ^ 8"
  using unsigned_less [of v2, where ?'a = nat] unsigned_less [of v4, where ?'a = nat]
    unsigned_less [of v8, where ?'a = nat] by simp_all

lemma reads_U16: "reads in_U16 (out_U16 v) v"
  using reads_le_bytes [OF unat_lt_bytes(1) [of v], of 0 "of_nat :: nat \<Rightarrow> u16"] by (simp add: in_U16_def out_U16_def)

lemma reads_U32: "reads in_U32 (out_U32 v) v"
  using reads_le_bytes [OF unat_lt_bytes(2) [of v], of 0 "of_nat :: nat \<Rightarrow> u32"] by (simp add: in_U32_def out_U32_def)

lemma reads_U64: "reads in_U64 (out_U64 v) v"
  using reads_le_bytes [OF unat_lt_bytes(3) [of v], of 0 "of_nat :: nat \<Rightarrow> u64"] by (simp add: in_U64_def out_U64_def)

lemma length_out [wire_simps, simp]:
  "length (out_U8 a) = 1" "length (out_U16 b) = 2" "length (out_U32 c) = 4" "length (out_U64 d) = 8"
  by (simp_all add: out_U8_def out_U16_def out_U32_def out_U64_def)

lemma reads_S64: "reads in_S64 (out_S64 v) v"
  by (simp add: in_S64_def out_S64_def reads_U64)

lemma reads_Double: "reads in_Double (out_Double v) v"
  by (simp add: in_Double_def out_Double_def reads_U64)

lemma reads_DateTime: "reads in_DateTime (out_DateTime v) v"
  by (simp add: in_DateTime_def out_DateTime_def reads_U64)

lemma reads_Bool: "reads in_Bool (out_Bool v) v"
  unfolding in_Bool_def out_Bool_def by (cases v) (auto intro!: reads_bind_ret reads_U8)

text \<open>A 4-byte PID survives only when it fits in 32 bits.\<close>

definition pid_ok :: "settings \<Rightarrow> pid \<Rightarrow> bool" where
  "pid_ok s v \<longleftrightarrow> PIDSize s = 8 \<or> unat v < 2 ^ 32"

lemma reads_PID: "pid_ok s v \<Longrightarrow> reads (in_PID s) (out_PID s v) v"
proof (cases "PIDSize s = 8")
  case True
  then show ?thesis by (simp add: in_PID_def out_PID_def reads_U64)
next
  case False
  assume "pid_ok s v"
  with False have "unat v < 2 ^ 32" by (simp add: pid_ok_def)
  then have "(ucast (ucast v :: u32) :: u64) = v"
    by (simp add: word_unat_eq_iff unsigned_ucast_eq unsigned_take_bit_eq take_bit_nat_eq_self)
  with False show ?thesis
    unfolding in_PID_def out_PID_def by (auto intro!: reads_bind_ret reads_U32)
qed

lemma uint_of_nat_word: "n < 2 ^ LENGTH('a::len) \<Longrightarrow> uint (of_nat n :: 'a word) = int n"
  by (simp add: uint_word_of_int_eq unsigned_of_nat take_bit_nat_eq_self)

lemma unat_of_nat_word: "n < 2 ^ LENGTH('a::len) \<Longrightarrow> unat (of_nat n :: 'a word) = n"
  by (simp add: unsigned_of_nat take_bit_nat_eq_self)

definition buffer_ok :: "byte list \<Rightarrow> bool" where
  "buffer_ok b \<longleftrightarrow> length b < 2 ^ 32"

lemma reads_Buffer: "buffer_ok b \<Longrightarrow> reads in_Buffer (out_Buffer b) b"
  unfolding in_Buffer_def out_Buffer_def buffer_ok_def
  by (rule reads_bind [OF reads_U32]) (simp add: reads_in_Read uint_of_nat_word)

definition qbuffer_ok :: "byte list \<Rightarrow> bool" where
  "qbuffer_ok b \<longleftrightarrow> length b < 2 ^ 16"

lemma reads_QBuffer: "qbuffer_ok b \<Longrightarrow> reads in_QBuffer (out_QBuffer b) b"
  unfolding in_QBuffer_def out_QBuffer_def qbuffer_ok_def
  by (rule reads_bind [OF reads_U16]) (simp add: reads_in_Read uint_of_nat_word)

text \<open>The length field counts the terminator, so a string has at most 65534 bytes.\<close>

definition string_ok :: "string \<Rightarrow> bool" where
  "string_ok str \<longleftrightarrow> length str + 1 < 2 ^ 16"

lemma reads_String: "string_ok str \<Longrightarrow> reads in_String (out_String str) str"
proof -
  assume "string_ok str"
  then have len: "length str + 1 < 2 ^ 16" by (simp add: string_ok_def)
  let ?dat = "map byte_of_char str @ [0 :: byte]"
  let ?n = "of_nat (length ?dat) :: u16"
  have n: "unat ?n = length str + 1" "uint ?n = int (length ?dat)"
    using len by (simp_all add: unat_of_nat_word uint_of_nat_word del: of_nat_Suc)
  have ne: "?n \<noteq> 0"
    using n by (metis add_is_0 one_neq_zero unsigned_0)
  have "reads (in_Read (uint ?n) \<bind> (\<lambda>b. ret (if length b < unat ?n then []
          else map char_of_byte (if b ! (length b - 1) = 0 then take (length b - 1) b else b)))) ?dat str"
    using n by (intro reads_bind_ret [OF reads_in_Read]) (simp_all add: nth_append)
  with ne show ?thesis
    unfolding in_String_def out_String_def Let_def by (intro reads_bind [OF reads_U16]) simp
qed

section \<open>Lists and maps of encodable elements\<close>

lemma reads_counted:
  assumes "n < 2 ^ 32" and "n \<le> length bs" and "reads (f n) bs v"
  shows "reads (in_U32 \<bind> (\<lambda>c. State_Monad.get \<bind> (\<lambda>s.
            if uint c > in_Remaining s then in_fail d else f (unat c)))) (out_U32 (of_nat n) @ bs) v"
  using assms
  by (intro reads_bind [OF reads_U32] reads_get_bind) (simp add: uint_of_nat_word unat_of_nat_word)

context nonempty_codec
begin

lemma reads_list:
  "list_all ok xs \<Longrightarrow> length xs < 2 ^ 32 \<Longrightarrow> reads (ReadList dec) (WriteList enc xs) xs"
  unfolding ReadList_def WriteList_def
  using length_concat_enc read_n_concat by (intro reads_counted) auto

end

lemma gm_put_absent: "\<not> gm_has m k \<Longrightarrow> gm_put k v m = m @ [(k, v)]"
  by (induction m) (auto simp: gm_has_def)

locale map_codec = key: nonempty_codec kenc kdec kok + val: codec venc vdec vok
  for kenc :: "'k \<Rightarrow> byte list" and kdec kok
  and venc :: "'v \<Rightarrow> byte list" and vdec vok
begin

lemma reads_pairs:
  assumes "gm_wf (acc @ m)" and "list_all (\<lambda>(k, v). kok k \<and> vok v) m"
  shows "reads (read_pairs (length m) kdec vdec acc) (concat (map (\<lambda>(k, v). kenc k @ venc v) m)) (acc @ m)"
  using assms
proof (induction m arbitrary: acc)
  case Nil
  then show ?case by (simp add: reads_ret)
next
  case (Cons p m)
  obtain k v where p: "p = (k, v)" by (cases p)
  with Cons.prems have kv: "kok k" "vok v" and m: "list_all (\<lambda>(k, v). kok k \<and> vok v) m" and fresh: "\<not> gm_has acc k"
    by (auto simp: gm_wf_def gm_has_def)
  have "reads (read_pairs (length m) kdec vdec (gm_put k v acc))
     (concat (map (\<lambda>(k, v). kenc k @ venc v) m)) (acc @ p # m)"
    using Cons.IH [of "acc @ [(k, v)]"] Cons.prems m fresh p by (simp add: gm_put_absent)
  with p kv show ?case
    by (simp add: reads_bind [OF key.dec_enc] reads_bind [OF val.dec_enc])
qed

lemma reads_map:
  assumes "gm_wf m" and "list_all (\<lambda>(k, v). kok k \<and> vok v) m" and "length m < 2 ^ 32"
  shows "reads (ReadMap kdec vdec) (WriteMap kenc venc m) m"
proof -
  let ?bs = "concat (map (\<lambda>(k, v). kenc k @ venc v) m)"
  have "length m \<le> length ?bs"
  proof (induction m)
    case (Cons p m)
    have "1 \<le> length (kenc (fst p))"
      using key.enc_nonempty [of "fst p"] by (cases "kenc (fst p)") auto
    with Cons show ?case by (auto simp: split_beta)
  qed simp
  moreover have "reads (read_pairs (length m) kdec vdec []) ?bs m"
    using reads_pairs [of "[]" m] assms by simp
  ultimately show ?thesis
    unfolding ReadMap_def WriteMap_def using assms(3) by (intro reads_counted)
qed

end

section \<open>The primitive types satisfy the contract\<close>

lemma le_bytes_nonempty: "0 < k \<Longrightarrow> le_bytes k n \<noteq> []"
  by (cases k) auto

lemma out_word_nonempty [simp]:
  "out_U8 a \<noteq> []" "out_U16 b \<noteq> []" "out_U32 c \<noteq> []" "out_U64 d \<noteq> []"
  by (simp_all add: out_U8_def out_U16_def out_U32_def out_U64_def le_bytes_nonempty)

lemma out_nonempty [simp]:
  "out_Bool e \<noteq> []" "out_PID s p \<noteq> []" "out_String str \<noteq> []" "out_Buffer bs \<noteq> []" "out_QBuffer qs \<noteq> []"
  by (simp_all add: out_Bool_def out_PID_def out_String_def out_Buffer_def out_QBuffer_def)

interpretation u8c: nonempty_codec out_U8 in_U8 "\<lambda>_. True"
  by unfold_locales (simp_all add: reads_U8)

interpretation u16c: nonempty_codec out_U16 in_U16 "\<lambda>_. True"
  by unfold_locales (simp_all add: reads_U16)

interpretation u32c: nonempty_codec out_U32 in_U32 "\<lambda>_. True"
  by unfold_locales (simp_all add: reads_U32)

interpretation u64c: nonempty_codec out_U64 in_U64 "\<lambda>_. True"
  by unfold_locales (simp_all add: reads_U64)

interpretation boolc: nonempty_codec out_Bool in_Bool "\<lambda>_. True"
  by unfold_locales (simp_all add: reads_Bool)

interpretation pidc: nonempty_codec "out_PID s" "in_PID s" "pid_ok s" for s
  by unfold_locales (simp_all add: reads_PID)

interpretation strc: nonempty_codec out_String in_String string_ok
  by unfold_locales (simp_all add: reads_String)

interpretation bufc: nonempty_codec out_Buffer in_Buffer buffer_ok
  by unfold_locales (simp_all add: reads_Buffer)

interpretation qbufc: nonempty_codec out_QBuffer in_QBuffer qbuffer_ok
  by unfold_locales (simp_all add: reads_QBuffer)

lemmas prim_reads = reads_U8 reads_U16 reads_U32 reads_U64 reads_S64 reads_Double reads_DateTime
  reads_Bool reads_PID reads_String reads_Buffer reads_QBuffer

section \<open>Errors are sticky\<close>

text \<open>
  Once a stream has recorded an error, a reader returns the zero value of its type and leaves
  the stream as it is.
\<close>

definition zero_after_error :: "'a reader \<Rightarrow> 'a \<Rightarrow> bool" where
  "zero_after_error r z \<longleftrightarrow>
     (\<forall>s. si_err s \<longrightarrow> si_pos s \<le> length (si_data s) \<longrightarrow> run_state r s = (z, s))"

lemma zero_ret: "zero_after_error (ret z) z"
  by (simp add: zero_after_error_def)

lemma zero_bind: "zero_after_error r y \<Longrightarrow> zero_after_error (f y) z \<Longrightarrow> zero_after_error (r \<bind> f) z"
  by (simp add: zero_after_error_def)

lemma run_Read_err [simp]: "si_err s \<Longrightarrow> run_state (in_Read n) s = ([], s)"
  by (simp add: in_Read_def)

lemma zero_Read: "zero_after_error (in_Read n) []"
  by (simp add: zero_after_error_def)

lemma zero_prims:
  "zero_after_error in_U8 0" "zero_after_error in_U16 0" "zero_after_error in_U32 0"
  "zero_after_error in_U64 0" "zero_after_error in_Bool False" "zero_after_error (in_PID st) 0"
  "zero_after_error in_String []" "zero_after_error in_Buffer []" "zero_after_error in_QBuffer []"
  by (simp_all add: zero_after_error_def in_U8_def in_U16_def in_U32_def in_U64_def in_Bool_def
      in_PID_def in_String_def in_Buffer_def in_QBuffer_def)

lemma zero_ReadList: "zero_after_error (ReadList f) []"
  using zero_prims(3) by (auto simp: zero_after_error_def ReadList_def in_Remaining_def)

lemma zero_ReadMap: "zero_after_error (ReadMap kf vf) []"
  using zero_prims(3) by (auto simp: zero_after_error_def ReadMap_def in_Remaining_def)

end
