(* ===== verification/Nex_Types.thy ===== *)
theory Nex_Types
  imports Nex_Stream
begin

unbundle bit_operations_syntax

text \<open>
  The value types of \<^verbatim>\<open>nextendo-nex/types.go\<close>: the structure framing, result codes, the
  packed \<open>DateTime\<close>, \<open>StationURL\<close>, \<open>ResultRange\<close>, \<open>Variant\<close> and \<open>DataHolder\<close>, with the
  result codes of \<^verbatim>\<open>nextendo-nex/resultcodes.go\<close>.

  A Go \<open>Structure\<close> is a list of levels, each with a version, a saver and a loader. The framing of
  one level is \<open>write_level\<close>/\<open>read_level\<close>; a structure is written by the concatenation of its
  levels and read by its level readers in order. With struct headers on, the loader of a level
  runs on a fresh substream whose error flag nobody reads, as in the source.
\<close>

section \<open>Structure framing\<close>

definition write_level :: "settings \<Rightarrow> byte \<Rightarrow> byte list \<Rightarrow> byte list" where
  "write_level s version body =
     (if StructHeader s then out_U8 version @ out_Buffer body else body)"

definition WriteStructure :: "settings \<Rightarrow> (byte \<times> byte list) list \<Rightarrow> byte list" where
  "WriteStructure s levels = concat (map (\<lambda>(version, body). write_level s version body) levels)"

definition read_level :: "settings \<Rightarrow> 'a reader \<Rightarrow> 'a reader" where
  "read_level s load =
     (if StructHeader s then do {
        _ \<leftarrow> in_U8;
        sub \<leftarrow> in_Substream;
        ret (fst (run_state load sub)) }
      else load)"

section \<open>Result codes\<close>

definition ResultErrorMask :: u32 where "ResultErrorMask = push_bit 31 1"

definition SuccessResult :: "u32 \<Rightarrow> u32" where
  "SuccessResult code = code AND NOT ResultErrorMask"

definition ErrorResult :: "u32 \<Rightarrow> u32" where
  "ErrorResult code = code OR ResultErrorMask"

definition IsSuccess :: "u32 \<Rightarrow> bool" where
  "IsSuccess code \<longleftrightarrow> code AND ResultErrorMask = 0"

definition IsError :: "u32 \<Rightarrow> bool" where
  "IsError code \<longleftrightarrow> code AND ResultErrorMask \<noteq> 0"

definition ResultCoreUnknown :: u32 where "ResultCoreUnknown = 0x00010001"
definition ResultCoreNotImplemented :: u32 where "ResultCoreNotImplemented = 0x00010002"
definition ResultCoreAccessDenied :: u32 where "ResultCoreAccessDenied = 0x00010006"
definition ResultCoreInvalidArgument :: u32 where "ResultCoreInvalidArgument = 0x0001000A"
definition ResultRendezVousSessionVoid :: u32 where "ResultRendezVousSessionVoid = 0x00030073"
definition ResultRendezVousSessionFull :: u32 where "ResultRendezVousSessionFull = 0x000300C8"
definition ResultAuthTokenParseError :: u32 where "ResultAuthTokenParseError = 0x00680002"
definition ResultAuthUnknown :: u32 where "ResultAuthUnknown = 0x0068000E"

section \<open>DateTime\<close>

definition dt_Second :: "u64 \<Rightarrow> int" where "dt_Second d = uint (d AND 63)"
definition dt_Minute :: "u64 \<Rightarrow> int" where "dt_Minute d = uint (drop_bit 6 d AND 63)"
definition dt_Hour :: "u64 \<Rightarrow> int" where "dt_Hour d = uint (drop_bit 12 d AND 31)"
definition dt_Day :: "u64 \<Rightarrow> int" where "dt_Day d = uint (drop_bit 17 d AND 31)"
definition dt_Month :: "u64 \<Rightarrow> int" where "dt_Month d = uint (drop_bit 22 d AND 15)"
definition dt_Year :: "u64 \<Rightarrow> int" where "dt_Year d = uint (drop_bit 26 d)"

definition MakeDateTime :: "int \<Rightarrow> int \<Rightarrow> int \<Rightarrow> int \<Rightarrow> int \<Rightarrow> int \<Rightarrow> u64" where
  "MakeDateTime year month day hour minute second =
     of_int second OR push_bit 6 (of_int minute) OR push_bit 12 (of_int hour) OR
     push_bit 17 (of_int day) OR push_bit 22 (of_int month) OR push_bit 26 (of_int year)"

section \<open>Go's string and number functions\<close>

text \<open>\<open>strings.Index(s, sep)\<close>: the first position of \<open>sep\<close>, or none.\<close>

fun str_index :: "string \<Rightarrow> string \<Rightarrow> nat option" where
  "str_index sep [] = (if sep = [] then Some 0 else None)"
| "str_index sep (c # cs) =
     (if take (length sep) (c # cs) = sep then Some 0 else map_option Suc (str_index sep cs))"

text \<open>\<open>strings.Split(s, c)\<close> for a one-character separator.\<close>

fun str_split :: "char \<Rightarrow> string \<Rightarrow> string list" where
  "str_split c [] = [[]]"
| "str_split c (x # xs) =
     (if x = c then [] # str_split c xs
      else (case str_split c xs of [] \<Rightarrow> [[x]] | y # ys \<Rightarrow> (x # y) # ys))"

text \<open>\<open>strings.SplitN(s, c, 2)\<close>, when it has two parts.\<close>

fun str_cut :: "char \<Rightarrow> string \<Rightarrow> (string \<times> string) option" where
  "str_cut c [] = None"
| "str_cut c (x # xs) =
     (if x = c then Some ([], xs) else map_option (\<lambda>(a, b). (x # a, b)) (str_cut c xs))"

fun str_join :: "string \<Rightarrow> string list \<Rightarrow> string" where
  "str_join sep [] = []"
| "str_join sep [x] = x"
| "str_join sep (x # xs) = x @ sep @ str_join sep xs"

definition digit_char :: "nat \<Rightarrow> char" where
  "digit_char d = ''0123456789'' ! d"

fun nat_str :: "nat \<Rightarrow> string" where
  "nat_str n = (if n < 10 then [digit_char n] else nat_str (n div 10) @ [digit_char (n mod 10)])"

declare nat_str.simps [simp del]

definition Itoa :: "int \<Rightarrow> string" where
  "Itoa i = (if i < 0 then CHR ''-'' # nat_str (nat (- i)) else nat_str (nat i))"

definition is_digit :: "char \<Rightarrow> bool" where
  "is_digit c \<longleftrightarrow> 48 \<le> (of_char c :: nat) \<and> (of_char c :: nat) \<le> 57"

fun digits_val :: "nat \<Rightarrow> string \<Rightarrow> nat" where
  "digits_val acc [] = acc"
| "digits_val acc (c # cs) = digits_val (10 * acc + (of_char c - 48)) cs"

text \<open>
  \<open>strconv.Atoi\<close>: the value and whether there was no error. A syntax error gives 0; a value
  out of the range of a 64-bit \<open>int\<close> gives the nearest bound, with an error.
\<close>

definition Atoi :: "string \<Rightarrow> int \<times> bool" where
  "Atoi s =
     (let neg = (s \<noteq> [] \<and> hd s = CHR ''-'');
          ds = (if s \<noteq> [] \<and> (hd s = CHR ''-'' \<or> hd s = CHR ''+'') then tl s else s)
      in if ds = [] \<or> \<not> list_all is_digit ds then (0, False)
         else let v = int (digits_val 0 ds)
              in if neg then (if v > 2 ^ 63 then (- (2 ^ 63), False) else (- v, True))
                 else (if v \<ge> 2 ^ 63 then (2 ^ 63 - 1, False) else (v, True)))"

section \<open>StationURL\<close>

record station_url =
  su_Scheme :: string
  su_keys :: "string list"
  su_params :: "(string, string) gomap"

definition NewStationURL :: "string \<Rightarrow> station_url" where
  "NewStationURL scheme =
     \<lparr>su_Scheme = (if scheme = '''' then ''prudp'' else scheme), su_keys = [], su_params = []\<rparr>"

definition su_Set :: "string \<Rightarrow> string \<Rightarrow> station_url \<Rightarrow> station_url" where
  "su_Set k v u =
     u\<lparr>su_keys := (if gm_has (su_params u) k then su_keys u else su_keys u @ [k]),
       su_params := gm_put k v (su_params u)\<rparr>"

definition su_SetInt :: "string \<Rightarrow> int \<Rightarrow> station_url \<Rightarrow> station_url" where
  "su_SetInt k v u = su_Set k (Itoa v) u"

definition su_Get :: "station_url \<Rightarrow> string \<Rightarrow> string" where
  "su_Get u k = (case gm_get (su_params u) k of None \<Rightarrow> '''' | Some v \<Rightarrow> v)"

definition su_GetInt :: "station_url \<Rightarrow> string \<Rightarrow> int" where
  "su_GetInt u k = fst (Atoi (su_Get u k))"

definition su_Has :: "station_url \<Rightarrow> string \<Rightarrow> bool" where
  "su_Has u k = gm_has (su_params u) k"

definition su_Remove :: "string \<Rightarrow> station_url \<Rightarrow> station_url" where
  "su_Remove k u =
     (if \<not> gm_has (su_params u) k then u
      else u\<lparr>su_params := gm_del k (su_params u), su_keys := remove1 k (su_keys u)\<rparr>)"

definition su_Copy :: "station_url \<Rightarrow> station_url" where
  "su_Copy u = \<lparr>su_Scheme = su_Scheme u, su_keys = su_keys u, su_params = su_params u\<rparr>"

definition su_String :: "station_url \<Rightarrow> string" where
  "su_String u =
     (let joined = str_join '';'' (map (\<lambda>k. k @ ''='' @ su_Get u k) (su_keys u))
      in if su_Scheme u \<noteq> '''' then su_Scheme u @ '':/'' @ joined else joined)"

definition set_field :: "string \<Rightarrow> station_url \<Rightarrow> station_url" where
  "set_field f u = (case str_cut CHR ''='' f of None \<Rightarrow> u | Some (k, v) \<Rightarrow> su_Set k v u)"

definition ParseStationURL :: "string \<Rightarrow> station_url" where
  "ParseStationURL s =
     (let u = \<lparr>su_Scheme = '''', su_keys = [], su_params = []\<rparr>
      in case str_index '':/'' s of
           None \<Rightarrow> u
         | Some i \<Rightarrow>
             (let u' = u\<lparr>su_Scheme := take i s\<rparr>; fields = drop (i + 2) s
              in if fields = '''' then u' else fold set_field (str_split CHR '';'' fields) u'))"

definition out_StationURL :: "station_url \<Rightarrow> byte list" where
  "out_StationURL u = out_String (su_String u)"

definition in_StationURL :: "station_url reader" where
  "in_StationURL = do { str \<leftarrow> in_String; ret (ParseStationURL str) }"

section \<open>ResultRange, Variant, DataHolder\<close>

record result_range =
  rr_Offset :: u32
  rr_Size :: u32

definition save_ResultRange :: "result_range \<Rightarrow> byte list" where
  "save_ResultRange r = out_U32 (rr_Offset r) @ out_U32 (rr_Size r)"

definition load_ResultRange :: "result_range reader" where
  "load_ResultRange = do { a \<leftarrow> in_U32; b \<leftarrow> in_U32; ret \<lparr>rr_Offset = a, rr_Size = b\<rparr> }"

definition VariantNil :: byte where "VariantNil = 0"
definition VariantInt64 :: byte where "VariantInt64 = 1"
definition VariantDouble :: byte where "VariantDouble = 2"
definition VariantBool :: byte where "VariantBool = 3"
definition VariantString :: byte where "VariantString = 4"
definition VariantDateTime :: byte where "VariantDateTime = 5"
definition VariantUint64 :: byte where "VariantUint64 = 6"

record variant =
  v_Type :: byte
  v_Int :: u64
  v_Double :: u64
  v_Bool :: bool
  v_String :: string
  v_Date :: u64
  v_Uint :: u64

definition zero_variant :: variant where
  "zero_variant = \<lparr>v_Type = 0, v_Int = 0, v_Double = 0, v_Bool = False, v_String = '''', v_Date = 0, v_Uint = 0\<rparr>"

definition out_Variant :: "variant \<Rightarrow> byte list" where
  "out_Variant v = out_U8 (v_Type v) @
     (if v_Type v = VariantInt64 then out_S64 (v_Int v)
      else if v_Type v = VariantDouble then out_Double (v_Double v)
      else if v_Type v = VariantBool then out_Bool (v_Bool v)
      else if v_Type v = VariantString then out_String (v_String v)
      else if v_Type v = VariantDateTime then out_DateTime (v_Date v)
      else if v_Type v = VariantUint64 then out_U64 (v_Uint v)
      else [])"

definition in_Variant :: "variant reader" where
  "in_Variant = do {
     t \<leftarrow> in_U8;
     let v = zero_variant\<lparr>v_Type := t\<rparr>;
     if t = VariantInt64 then do { x \<leftarrow> in_S64; ret (v\<lparr>v_Int := x\<rparr>) }
     else if t = VariantDouble then do { x \<leftarrow> in_Double; ret (v\<lparr>v_Double := x\<rparr>) }
     else if t = VariantBool then do { x \<leftarrow> in_Bool; ret (v\<lparr>v_Bool := x\<rparr>) }
     else if t = VariantString then do { x \<leftarrow> in_String; ret (v\<lparr>v_String := x\<rparr>) }
     else if t = VariantDateTime then do { x \<leftarrow> in_DateTime; ret (v\<lparr>v_Date := x\<rparr>) }
     else if t = VariantUint64 then do { x \<leftarrow> in_U64; ret (v\<lparr>v_Uint := x\<rparr>) }
     else ret v }"

text \<open>The body of a \<open>DataHolder\<close> is the written structure, empty when there is none.\<close>

definition out_AnyData :: "string \<Rightarrow> byte list \<Rightarrow> byte list" where
  "out_AnyData name body =
     out_String name @ out_U32 (of_nat (length body + 4)) @ out_Buffer body"

section \<open>Framing laws\<close>

context codec
begin

lemma reads_level:
  assumes "ok v" and "buffer_ok (enc v)"
  shows "reads (read_level s dec) (write_level s version (enc v)) v"
proof (cases "StructHeader s")
  case True
  have "reads in_Substream (out_Buffer (enc v)) (NewStreamIn (enc v))"
    unfolding in_Substream_def by (rule reads_bind_ret [OF reads_Buffer [OF assms(2)] refl])
  moreover have "fst (run_state dec (NewStreamIn (enc v))) = v"
    using decode_fresh [of v "[]"] assms(1) by simp
  ultimately show ?thesis
    using True unfolding read_level_def write_level_def
    by (auto intro!: reads_bind [OF reads_U8] reads_bind_ret)
next
  case False
  then show ?thesis
    using dec_enc [OF assms(1)] by (simp add: read_level_def write_level_def)
qed

end

text \<open>
  What a header does to errors: whatever the level's loader met inside the substream, the
  enclosing stream reports no error as soon as the version byte and the announced length are
  there.
\<close>

lemma read_level_err:
  assumes "StructHeader s" and "buffer_ok body"
  shows "run_state (read_level s load) (stream_at pre (out_U8 v @ out_Buffer body @ rest)) =
    (fst (run_state load (NewStreamIn body)), stream_at (pre @ out_U8 v @ out_Buffer body) rest)"
proof -
  have "reads in_Substream (out_Buffer body) (NewStreamIn body)"
    unfolding in_Substream_def by (rule reads_bind_ret [OF reads_Buffer [OF assms(2)] refl])
  then have "reads (read_level s load) (out_U8 v @ out_Buffer body) (fst (run_state load (NewStreamIn body)))"
    using assms(1) unfolding read_level_def by (auto intro!: reads_bind [OF reads_U8] reads_bind_ret)
  from readsD [OF this] show ?thesis by simp
qed

section \<open>Result codes\<close>

lemma ResultErrorMask_power: "ResultErrorMask = 2 ^ 31"
  by (simp add: ResultErrorMask_def)

lemma IsError_iff: "IsError c \<longleftrightarrow> bit c 31"
  by (simp only: IsError_def ResultErrorMask_power and_exp_eq_0_iff_not_bit not_not)

lemma IsSuccess_iff: "IsSuccess c \<longleftrightarrow> \<not> bit c 31"
  using IsError_iff [of c] by (auto simp: IsSuccess_def IsError_def)

lemma IsError_ErrorResult: "IsError (ErrorResult c)"
  by (simp add: IsError_iff ErrorResult_def ResultErrorMask_def bit_simps)

lemma IsSuccess_SuccessResult: "IsSuccess (SuccessResult c)"
  by (simp add: IsSuccess_iff SuccessResult_def ResultErrorMask_def bit_simps)

section \<open>DateTime packs and unpacks\<close>

lemma unat_or_push_bit:
  fixes x y :: "'a::len word"
  assumes "unat x < 2 ^ k" and "unat y < 2 ^ n" and "k + n \<le> LENGTH('a)"
  shows "unat (x OR push_bit k y) = unat x + 2 ^ k * unat y"
    and "unat (x OR push_bit k y) < 2 ^ (k + n)"
proof -
  have disj: "x AND push_bit k y = 0"
  proof (rule bit_word_eqI)
    fix i
    have "bit x i \<Longrightarrow> i < k"
      using assms(1) by (metis (no_types) bit_take_bit_iff take_bit_nat_eq_self_iff unsigned_take_bit_eq word_unat_eq_iff)
    then show "bit (x AND push_bit k y) i = bit (0 :: 'a word) i"
      by (auto simp: bit_simps)
  qed
  have small: "unat x + 2 ^ k * unat y < 2 ^ (k + n)"
  proof -
    have "unat y + 1 \<le> 2 ^ n" using assms(2) by simp
    then have "2 ^ k * (unat y + 1) \<le> (2 ^ k * 2 ^ n :: nat)" by (rule mult_le_mono2)
    with assms(1) show ?thesis by (simp add: power_add)
  qed
  also have "(2 :: nat) ^ (k + n) \<le> 2 ^ LENGTH('a)"
    using assms(3) by (simp add: power_increasing)
  finally have fit: "unat x + 2 ^ k * unat y < 2 ^ LENGTH('a)" .
  have "unat (push_bit k y) = take_bit LENGTH('a) (push_bit k (unat y))"
    by (rule unsigned_push_bit_eq)
  then have "unat (push_bit k y) = 2 ^ k * unat y"
    using fit by (simp add: push_bit_nat_def take_bit_nat_eq_self mult.commute)
  then show eq: "unat (x OR push_bit k y) = unat x + 2 ^ k * unat y"
    using fit disjunctive_add_eq_or [OF disj]
    by (simp add: unat_word_ariths flip: disjunctive_add_eq_or [OF disj])
  with small show "unat (x OR push_bit k y) < 2 ^ (k + n)" by simp
qed

lemma uint_drop_bit_div: "uint (drop_bit k d) = uint d div 2 ^ k"
proof -
  have "take_bit LENGTH('a) (uint d) = uint d" for d :: "'a::len word"
    by (simp add: take_bit_int_eq_self)
  then show ?thesis
    by (simp only: unsigned_drop_bit_eq) (simp only: drop_bit_eq_div)
qed

lemma uint_field: "uint (drop_bit k d AND mask n) = (uint d div 2 ^ k) mod 2 ^ n"
proof -
  have "uint (drop_bit k d AND mask n) = take_bit n (uint (drop_bit k d))"
    by (simp add: unsigned_take_bit_eq flip: take_bit_eq_mask)
  then show ?thesis
    by (simp only: uint_drop_bit_div take_bit_eq_mod)
qed

definition dt_valid :: "int \<Rightarrow> int \<Rightarrow> int \<Rightarrow> int \<Rightarrow> int \<Rightarrow> int \<Rightarrow> bool" where
  "dt_valid year month day hour minute second \<longleftrightarrow>
     0 \<le> second \<and> second < 64 \<and> 0 \<le> minute \<and> minute < 64 \<and> 0 \<le> hour \<and> hour < 32 \<and>
     0 \<le> day \<and> day < 32 \<and> 0 \<le> month \<and> month < 16 \<and> 0 \<le> year \<and> year < 2 ^ 38"

lemma unat_of_int: "0 \<le> i \<Longrightarrow> i < 2 ^ LENGTH('a::len) \<Longrightarrow> unat (of_int i :: 'a word) = nat i"
  by (simp add: unsigned_of_int take_bit_int_eq_self)

lemma MakeDateTime_value:
  assumes "dt_valid year month day hour minute second"
  shows "uint (MakeDateTime year month day hour minute second) =
    second + 2 ^ 6 * minute + 2 ^ 12 * hour + 2 ^ 17 * day + 2 ^ 22 * month + 2 ^ 26 * year"
proof -
  let ?w = "of_int :: int \<Rightarrow> u64"
  have f: "unat (?w second) = nat second" "unat (?w minute) = nat minute" "unat (?w hour) = nat hour"
    "unat (?w day) = nat day" "unat (?w month) = nat month" "unat (?w year) = nat year"
    using assms by (simp_all add: dt_valid_def unat_of_int)
  have b: "unat (?w second) < 2 ^ 6" "unat (?w minute) < 2 ^ 6" "unat (?w hour) < 2 ^ 5"
    "unat (?w day) < 2 ^ 5" "unat (?w month) < 2 ^ 4" "unat (?w year) < 2 ^ 38"
    using assms f by (simp_all add: dt_valid_def nat_less_iff)
  note s1 = unat_or_push_bit [OF b(1) b(2)]
  note s2 = unat_or_push_bit [OF s1(2) b(3)]
  note s3 = unat_or_push_bit [OF s2(2) b(4)]
  note s4 = unat_or_push_bit [OF s3(2) b(5)]
  note s5 = unat_or_push_bit [OF s4(2) b(6)]
  have "unat (MakeDateTime year month day hour minute second) =
     nat second + 2 ^ 6 * nat minute + 2 ^ 12 * nat hour + 2 ^ 17 * nat day + 2 ^ 22 * nat month + 2 ^ 26 * nat year"
    using s1(1) s2(1) s3(1) s4(1) s5(1) f by (simp add: MakeDateTime_def or.assoc)
  then have "int (unat (MakeDateTime year month day hour minute second)) =
     int (nat second + 2 ^ 6 * nat minute + 2 ^ 12 * nat hour + 2 ^ 17 * nat day + 2 ^ 22 * nat month + 2 ^ 26 * nat year)"
    by simp
  then show ?thesis
    using assms by (simp add: dt_valid_def)
qed

lemma mixed_radix:
  fixes a b :: int
  assumes "0 \<le> a" and "a < m"
  shows "(a + m * b) div m = b" and "(a + m * b) mod m = a"
  using assms by auto

lemma dt_masks: "(63 :: u64) = mask 6" "(31 :: u64) = mask 5" "(15 :: u64) = mask 4"
  by (simp_all add: mask_eq_exp_minus_1)

lemma dt_fields:
  "dt_Second d = uint d mod 2 ^ 6" "dt_Minute d = (uint d div 2 ^ 6) mod 2 ^ 6"
  "dt_Hour d = (uint d div 2 ^ 12) mod 2 ^ 5" "dt_Day d = (uint d div 2 ^ 17) mod 2 ^ 5"
  "dt_Month d = (uint d div 2 ^ 22) mod 2 ^ 4" "dt_Year d = uint d div 2 ^ 26"
proof -
  show "dt_Second d = uint d mod 2 ^ 6"
    using uint_field [of 0 d 6] by (simp only: dt_Second_def dt_masks) simp
  show "dt_Year d = uint d div 2 ^ 26"
    unfolding dt_Year_def by (rule uint_drop_bit_div)
qed (simp_all only: dt_Minute_def dt_Hour_def dt_Day_def dt_Month_def dt_masks uint_field)

lemma dt_roundtrip:
  assumes "dt_valid year month day hour minute second"
  defines "d \<equiv> MakeDateTime year month day hour minute second"
  shows "dt_Year d = year" "dt_Month d = month" "dt_Day d = day"
    "dt_Hour d = hour" "dt_Minute d = minute" "dt_Second d = second"
proof -
  have v: "uint d = second + 64 * (minute + 64 * (hour + 32 * (day + 32 * (month + 16 * year))))"
    unfolding d_def using MakeDateTime_value [OF assms(1)] by simp
  have b: "0 \<le> second" "second < 64" "0 \<le> minute" "minute < 64" "0 \<le> hour" "hour < 32"
    "0 \<le> day" "day < 32" "0 \<le> month" "month < 16"
    using assms(1) by (simp_all add: dt_valid_def)
  note q = mixed_radix(1) [OF b(1,2)] mixed_radix(1) [OF b(3,4)] mixed_radix(1) [OF b(5,6)]
    mixed_radix(1) [OF b(7,8)] mixed_radix(1) [OF b(9,10)]
  note r = mixed_radix(2) [OF b(1,2)] mixed_radix(2) [OF b(3,4)] mixed_radix(2) [OF b(5,6)]
    mixed_radix(2) [OF b(7,8)] mixed_radix(2) [OF b(9,10)]
  have p: "uint d div 2 ^ 12 = uint d div 64 div 64" "uint d div 2 ^ 17 = uint d div 64 div 64 div 32"
    "uint d div 2 ^ 22 = uint d div 64 div 64 div 32 div 32"
    "uint d div 2 ^ 26 = uint d div 64 div 64 div 32 div 32 div 16" "(2 :: int) ^ 6 = 64"
    "(2 :: int) ^ 5 = 32" "(2 :: int) ^ 4 = 16"
    by simp_all
  show "dt_Year d = year" "dt_Month d = month" "dt_Day d = day"
    "dt_Hour d = hour" "dt_Minute d = minute" "dt_Second d = second"
    by (simp_all only: dt_fields p) (simp_all only: v q r)
qed

text \<open>Packed times compare as the tuples they hold.\<close>

lemma mixed_radix_less:
  fixes a b a' b' :: int
  assumes "0 \<le> a" "a < m" "0 \<le> a'" "a' < m"
  shows "a + m * b < a' + m * b' \<longleftrightarrow> b < b' \<or> b = b' \<and> a < a'"
proof (cases "b = b'")
  case False
  show ?thesis
  proof (cases "b < b'")
    case True
    then have "m * (b + 1) \<le> m * b'" using assms by (intro mult_left_mono) auto
    then show ?thesis using assms True by (simp add: algebra_simps)
  next
    case nless: False
    with False have "m * (b' + 1) \<le> m * b" using assms by (intro mult_left_mono) auto
    then show ?thesis using assms nless False by (simp add: algebra_simps)
  qed
qed simp

section \<open>StationURL laws\<close>

definition su_wf :: "station_url \<Rightarrow> bool" where
  "su_wf u \<longleftrightarrow> distinct (su_keys u) \<and> su_keys u = map fst (su_params u)"

lemma map_fst_update: "map fst (gm_put k v m) = (if gm_has m k then map fst m else map fst m @ [k])"
  by (induction m) (auto simp: gm_has_def)

lemma remove1_delete: "distinct (map fst m) \<Longrightarrow> map fst (gm_del k m) = remove1 k (map fst m)"
  by (simp add: AList.delete_keys distinct_remove1_removeAll)

lemma su_wf_New: "su_wf (NewStationURL scheme)"
  by (simp add: su_wf_def NewStationURL_def)

lemma su_wf_Set: "su_wf u \<Longrightarrow> su_wf (su_Set k v u)"
  by (auto simp: su_wf_def su_Set_def map_fst_update gm_has_def)

lemma su_wf_Remove: "su_wf u \<Longrightarrow> su_wf (su_Remove k u)"
  by (auto simp: su_wf_def su_Remove_def remove1_delete)

lemma su_wf_set_field: "su_wf u \<Longrightarrow> su_wf (set_field f u)"
  by (auto simp: set_field_def su_wf_Set split: option.split)

lemma su_wf_Parse: "su_wf (ParseStationURL s)"
proof -
  have "su_wf u \<Longrightarrow> su_wf (fold set_field fs u)" for fs u
    by (induction fs arbitrary: u) (auto intro: su_wf_set_field)
  moreover have "su_wf \<lparr>su_Scheme = sch, su_keys = [], su_params = []\<rparr>" for sch
    by (simp add: su_wf_def)
  ultimately show ?thesis
    by (simp add: ParseStationURL_def Let_def split: option.split)
qed

lemma su_Get_Set [simp]: "su_Get (su_Set k v u) k' = (if k' = k then v else su_Get u k')"
  by (simp add: su_Get_def su_Set_def)

lemma su_Get_Remove [simp]: "su_Get (su_Remove k u) k' = (if k' = k then [] else su_Get u k')"
  by (auto simp: su_Get_def su_Remove_def gm_has_get split: option.split)

lemma su_Has_Set [simp]: "su_Has (su_Set k v u) k' \<longleftrightarrow> k' = k \<or> su_Has u k'"
  by (simp add: su_Has_def su_Set_def)

lemma su_Has_Remove [simp]: "su_Has (su_Remove k u) k' \<longleftrightarrow> k' \<noteq> k \<and> su_Has u k'"
  by (auto simp: su_Has_def su_Remove_def)

text \<open>Texts that the syntax of a station URL can carry.\<close>

definition su_printable :: "station_url \<Rightarrow> bool" where
  "su_printable u \<longleftrightarrow> su_wf u \<and> su_Scheme u \<noteq> [] \<and> CHR '':'' \<notin> set (su_Scheme u) \<and>
     (\<forall>(k, v) \<in> set (su_params u). CHR ''='' \<notin> set k \<and> CHR '';'' \<notin> set k \<and> CHR '';'' \<notin> set v)"

lemma str_index_scheme: "CHR '':'' \<notin> set sch \<Longrightarrow> str_index '':/'' (sch @ '':/'' @ rest) = Some (length sch)"
proof (induction sch)
  case Nil
  then show ?case by simp
next
  case (Cons c sch)
  then show ?case by (cases sch) auto
qed

lemma str_cut_append: "c \<notin> set k \<Longrightarrow> str_cut c (k @ c # v) = Some (k, v)"
  by (induction k) auto

lemma str_split_none: "c \<notin> set x \<Longrightarrow> str_split c x = [x]"
  by (induction x) auto

lemma str_split_append: "c \<notin> set x \<Longrightarrow> str_split c (x @ c # y) = x # str_split c y"
  by (induction x) auto

lemma str_split_join:
  "xs \<noteq> [] \<Longrightarrow> \<forall>x \<in> set xs. c \<notin> set x \<Longrightarrow> str_split c (str_join [c] xs) = xs"
  by (induction "[c]" xs rule: str_join.induct) (auto simp: str_split_none str_split_append)

lemma fold_set_fields:
  assumes "distinct (map fst ps)" and "\<forall>(k, v) \<in> set ps. CHR ''='' \<notin> set k"
    and "\<forall>(k, v) \<in> set ps. \<not> gm_has (su_params u) k"
  shows "fold set_field (map (\<lambda>(k, v). k @ ''='' @ v) ps) u =
    u\<lparr>su_keys := su_keys u @ map fst ps, su_params := su_params u @ ps\<rparr>"
  using assms
proof (induction ps arbitrary: u)
  case Nil
  then show ?case by simp
next
  case (Cons p ps)
  obtain k v where p: "p = (k, v)" by (cases p)
  have "set_field (k @ ''='' @ v) u = su_Set k v u"
    using Cons.prems p by (simp add: set_field_def str_cut_append)
  also have "\<dots> = u\<lparr>su_keys := su_keys u @ [k], su_params := su_params u @ [(k, v)]\<rparr>"
    using Cons.prems p by (simp add: su_Set_def gm_put_absent)
  finally have 1: "set_field (k @ ''='' @ v) u = \<dots>" .
  have "fold set_field (map (\<lambda>(k, v). k @ ''='' @ v) ps) (set_field (k @ ''='' @ v) u) =
    (set_field (k @ ''='' @ v) u)\<lparr>su_keys := su_keys (set_field (k @ ''='' @ v) u) @ map fst ps,
       su_params := su_params (set_field (k @ ''='' @ v) u) @ ps\<rparr>"
    using Cons.prems p unfolding 1 by (intro Cons.IH) (auto simp: gm_has_def rev_image_eqI)
  then show ?case
    unfolding 1 using p 1 by simp
qed

lemma Parse_String:
  assumes "su_printable u"
  shows "ParseStationURL (su_String u) = u"
proof -
  have wf: "distinct (map fst (su_params u))" "su_keys u = map fst (su_params u)"
    using assms by (auto simp: su_printable_def su_wf_def)
  let ?fs = "map (\<lambda>(k, v). k @ ''='' @ v) (su_params u)"
  have "map (\<lambda>k. k @ ''='' @ su_Get u k) (su_keys u) = ?fs"
    using wf by (auto simp: su_Get_def)
  then have str: "su_String u = su_Scheme u @ '':/'' @ str_join '';'' ?fs"
    using assms by (simp add: su_String_def su_printable_def)
  have fold: "fold set_field ?fs \<lparr>su_Scheme = su_Scheme u, su_keys = [], su_params = []\<rparr> = u"
    using assms wf by (subst fold_set_fields) (auto simp: su_printable_def gm_has_def)
  have idx: "str_index '':/'' (su_String u) = Some (length (su_Scheme u))"
    using assms unfolding str su_printable_def by (intro str_index_scheme) auto
  show ?thesis
  proof (cases "su_params u")
    case Nil
    then show ?thesis using idx fold by (simp add: ParseStationURL_def str)
  next
    case (Cons p ps)
    have "str_split CHR '';'' (str_join '';'' ?fs) = ?fs"
      using assms Cons by (intro str_split_join) (auto simp: su_printable_def)
    moreover have "str_join '';'' ?fs \<noteq> []"
      using Cons by (cases p, cases ps) auto
    ultimately show ?thesis
      using idx fold by (simp add: ParseStationURL_def str Let_def)
  qed
qed

section \<open>Numbers in texts\<close>

lemma of_char_digit: "d < 10 \<Longrightarrow> (of_char (digit_char d) :: nat) = 48 + d"
  by (auto simp: digit_char_def less_Suc_eq numeral_eq_Suc)

lemma is_digit_digit_char: "d < 10 \<Longrightarrow> is_digit (digit_char d)"
  by (simp add: is_digit_def of_char_digit)

lemma digits_val_append: "digits_val acc (xs @ ys) = digits_val (digits_val acc xs) ys"
  by (induction acc xs rule: digits_val.induct) auto

lemma nat_str_digits: "list_all is_digit (nat_str n) \<and> nat_str n \<noteq> []"
  by (induction n rule: nat_str.induct)
    (subst nat_str.simps, auto simp: is_digit_digit_char nat_str.simps)

lemma digits_val_nat_str: "digits_val 0 (nat_str n) = n"
proof (induction n rule: nat_str.induct)
  case (1 n)
  show ?case
  proof (cases "n < 10")
    case True
    then show ?thesis by (subst nat_str.simps) (simp add: of_char_digit)
  next
    case False
    then have "digits_val 0 (nat_str n) = 10 * (n div 10) + n mod 10"
      using 1 by (subst nat_str.simps) (simp add: digits_val_append of_char_digit)
    then show ?thesis by simp
  qed
qed

lemma hd_nat_str: "is_digit (hd (nat_str n))"
  using nat_str_digits [of n] by (cases "nat_str n") auto

lemma not_sign: "is_digit c \<Longrightarrow> c \<noteq> CHR ''-'' \<and> c \<noteq> CHR ''+''"
  by (auto simp: is_digit_def)

lemma Atoi_Itoa:
  assumes "- (2 ^ 63) \<le> i" and "i < 2 ^ 63"
  shows "Atoi (Itoa i) = (i, True)"
proof (cases "i < 0")
  case True
  then show ?thesis
    using assms nat_str_digits [of "nat (- i)"] digits_val_nat_str [of "nat (- i)"]
    by (simp add: Atoi_def Itoa_def Let_def)
next
  case False
  then show ?thesis
    using assms nat_str_digits [of "nat i"] digits_val_nat_str [of "nat i"] not_sign [OF hd_nat_str [of "nat i"]]
    by (simp add: Atoi_def Itoa_def Let_def)
qed

lemma GetInt_SetInt: "- (2 ^ 63) \<le> i \<Longrightarrow> i < 2 ^ 63 \<Longrightarrow> su_GetInt (su_SetInt k i u) k = i"
  by (simp add: su_GetInt_def su_SetInt_def Atoi_Itoa)

section \<open>Codecs of the value types\<close>

lemma reads_StationURL:
  "su_printable u \<Longrightarrow> string_ok (su_String u) \<Longrightarrow> reads in_StationURL (out_StationURL u) u"
  unfolding in_StationURL_def out_StationURL_def
  by (rule reads_bind_ret [OF reads_String]) (auto simp: Parse_String)

lemma reads_ResultRange: "reads load_ResultRange (save_ResultRange r) r"
  unfolding load_ResultRange_def save_ResultRange_def
  by (intro reads_bind [OF reads_U32] reads_bind_ret [OF reads_U32]) simp

text \<open>A variant is written by its tag: only the tagged field survives.\<close>

definition variant_ok :: "variant \<Rightarrow> bool" where
  "variant_ok v \<longleftrightarrow> string_ok (v_String v) \<and>
     (v_Type v = VariantInt64 \<or> v_Int v = 0) \<and> (v_Type v = VariantDouble \<or> v_Double v = 0) \<and>
     (v_Type v = VariantBool \<or> \<not> v_Bool v) \<and> (v_Type v = VariantString \<or> v_String v = []) \<and>
     (v_Type v = VariantDateTime \<or> v_Date v = 0) \<and> (v_Type v = VariantUint64 \<or> v_Uint v = 0)"

lemmas variant_tags = VariantNil_def VariantInt64_def VariantDouble_def VariantBool_def
  VariantString_def VariantDateTime_def VariantUint64_def

lemma reads_Variant:
  assumes "variant_ok v"
  shows "reads in_Variant (out_Variant v) v"
  unfolding in_Variant_def out_Variant_def Let_def
proof (rule reads_bind [OF reads_U8])
  note ret0 = reads_ret [of v]
  have str: "string_ok (v_String v)"
    using assms by (simp add: variant_ok_def)
  show "reads
     (if v_Type v = VariantInt64 then do { x \<leftarrow> in_S64; ret (zero_variant\<lparr>v_Type := v_Type v, v_Int := x\<rparr>) }
     else if v_Type v = VariantDouble then do { x \<leftarrow> in_Double; ret (zero_variant\<lparr>v_Type := v_Type v, v_Double := x\<rparr>) }
     else if v_Type v = VariantBool then do { x \<leftarrow> in_Bool; ret (zero_variant\<lparr>v_Type := v_Type v, v_Bool := x\<rparr>) }
     else if v_Type v = VariantString then do { x \<leftarrow> in_String; ret (zero_variant\<lparr>v_Type := v_Type v, v_String := x\<rparr>) }
     else if v_Type v = VariantDateTime then do { x \<leftarrow> in_DateTime; ret (zero_variant\<lparr>v_Type := v_Type v, v_Date := x\<rparr>) }
     else if v_Type v = VariantUint64 then do { x \<leftarrow> in_U64; ret (zero_variant\<lparr>v_Type := v_Type v, v_Uint := x\<rparr>) }
     else ret (zero_variant\<lparr>v_Type := v_Type v\<rparr>))
     (if v_Type v = VariantInt64 then out_S64 (v_Int v)
      else if v_Type v = VariantDouble then out_Double (v_Double v)
      else if v_Type v = VariantBool then out_Bool (v_Bool v)
      else if v_Type v = VariantString then out_String (v_String v)
      else if v_Type v = VariantDateTime then out_DateTime (v_Date v)
      else if v_Type v = VariantUint64 then out_U64 (v_Uint v)
      else []) v"
    using assms ret0 by (cases v)
     (auto simp: variant_ok_def zero_variant_def variant_tags
       intro!: reads_bind_ret [OF reads_S64] reads_bind_ret [OF reads_Double] reads_bind_ret [OF reads_Bool]
         reads_bind_ret [OF reads_String] reads_bind_ret [OF reads_DateTime] reads_bind_ret [OF reads_U64])
qed

interpretation varc: nonempty_codec out_Variant in_Variant variant_ok
  by unfold_locales (rule reads_Variant, assumption, simp only: out_Variant_def out_U8_def, simp)

interpretation rrc: codec save_ResultRange load_ResultRange "\<lambda>_. True"
  by unfold_locales (rule reads_ResultRange)

interpretation strvar: map_codec out_String in_String string_ok out_Variant in_Variant variant_ok
  by unfold_locales

section \<open>Properties\<close>

lemma MakeDateTime_less:
  assumes "dt_valid y mo d h mi se" and "dt_valid y' mo' d' h' mi' se'"
  shows "MakeDateTime y mo d h mi se < MakeDateTime y' mo' d' h' mi' se' \<longleftrightarrow>
    y < y' \<or> y = y' \<and> (mo < mo' \<or> mo = mo' \<and> (d < d' \<or> d = d' \<and>
      (h < h' \<or> h = h' \<and> (mi < mi' \<or> mi = mi' \<and> se < se'))))"
proof -
  have v: "uint (MakeDateTime y mo d h mi se) =
      se + 64 * (mi + 64 * (h + 32 * (d + 32 * (mo + 16 * y))))"
    if "dt_valid y mo d h mi se" for y mo d h mi se
    using MakeDateTime_value [OF that] by simp
  show ?thesis
    unfolding word_less_def v [OF assms(1)] v [OF assms(2)]
    using assms by (simp only: mixed_radix_less dt_valid_def) auto
qed

text \<open>
  Packing a calendar time is faithful. Every field read back from a packed time is the field
  that went in, and two packed times compare, as unsigned numbers, exactly as their
  year-month-day-hour-minute-second tuples do, for fields within their bit ranges.
\<close>

lemma MakeDateTime_faithful:
  assumes "dt_valid y mo d h mi se" and "dt_valid y' mo' d' h' mi' se'"
  shows "(dt_Year (MakeDateTime y mo d h mi se), dt_Month (MakeDateTime y mo d h mi se),
      dt_Day (MakeDateTime y mo d h mi se), dt_Hour (MakeDateTime y mo d h mi se),
      dt_Minute (MakeDateTime y mo d h mi se), dt_Second (MakeDateTime y mo d h mi se)) =
      (y, mo, d, h, mi, se) \<and>
    (MakeDateTime y mo d h mi se < MakeDateTime y' mo' d' h' mi' se' \<longleftrightarrow>
      y < y' \<or> y = y' \<and> (mo < mo' \<or> mo = mo' \<and> (d < d' \<or> d = d' \<and>
        (h < h' \<or> h = h' \<and> (mi < mi' \<or> mi = mi' \<and> se < se')))))"
  using dt_roundtrip [OF assms(1)] MakeDateTime_less [OF assms] by simp

lemma MakeDateTime_faithful_example:
  "dt_valid 2026 3 14 15 9 26 \<and> dt_valid 2026 4 1 0 0 0 \<and>
   dt_Month (MakeDateTime 2026 3 14 15 9 26) = 3 \<and>
   MakeDateTime 2026 3 14 15 9 26 < MakeDateTime 2026 4 1 0 0 0"
  using MakeDateTime_faithful [of 2026 3 14 15 9 26 2026 4 1 0 0 0] by (simp add: dt_valid_def)

text \<open>
  C20: station URLs survive the wire. A URL with a scheme whose texts avoid the separators of the
  syntax is read back from its printed form, keys in the same order; and whatever text is parsed,
  the result keeps the invariant that the key order lists exactly the parameters, once each, which
  \<open>Set\<close> and \<open>Remove\<close> preserve.
\<close>

theorem StationURL_roundtrip:
  assumes "su_printable u" and "string_ok (su_String u)" and "su_wf w"
  shows "ParseStationURL (su_String u) = u \<and>
    run_state in_StationURL (NewStreamIn (out_StationURL u @ rest)) = (u, stream_at (out_StationURL u) rest) \<and>
    su_wf (ParseStationURL s) \<and> su_wf (su_Set k v w) \<and> su_wf (su_Remove k w) \<and>
    \<not> su_Has (su_Remove k w) k"
  using assms readsD [OF reads_StationURL [OF assms(1,2)], of "[]" rest]
  by (simp add: Parse_String su_wf_Parse su_wf_Set su_wf_Remove NewStreamIn_stream_at)

definition sample_url :: station_url where
  "sample_url = su_Set ''type'' ''11'' (su_SetInt ''port'' 49152 (su_Set ''address'' ''10.0.0.7'' (NewStationURL ''prudps'')))"

theorem StationURL_roundtrip_witness:
  "su_printable sample_url \<and> string_ok (su_String sample_url) \<and>
   ParseStationURL (su_String sample_url) = sample_url \<and>
   \<not> su_Has (su_Remove ''type'' sample_url) ''type''"
proof -
  note url = sample_url_def su_Set_def su_SetInt_def NewStationURL_def gm_has_def Itoa_def nat_str.simps digit_char_def
  have 1: "su_printable sample_url"
    by (simp add: url su_printable_def su_wf_def)
  have 2: "string_ok (su_String sample_url)"
    by (simp add: url string_ok_def su_String_def su_Get_def)
  have 3: "su_wf sample_url"
    by (simp add: url su_wf_def)
  show ?thesis
    using StationURL_roundtrip [OF 1 2 3] 1 2 by simp
qed

end
