(* ===== verification/Nex_RMC.thy ===== *)
theory Nex_RMC
  imports Nex_Types
begin

unbundle bit_operations_syntax

text \<open>
  Remote method calls, \<^verbatim>\<open>nextendo-nex/rmc.go\<close>: the message, its three constructors, the encoder and
  the parser. \<open>ParseRMC\<close> returns none where the source returns an error.
\<close>

section \<open>Messages\<close>

datatype rmc_mode = RMCRequest | RMCResponse

record rmc_message =
  rm_Settings :: settings
  rm_Mode :: rmc_mode
  rm_Protocol :: u16
  rm_Method :: u32
  rm_CallID :: u32
  rm_Result :: u32
  rm_Body :: "byte list"
  rm_IsError :: bool

definition NewRMCRequest :: "settings \<Rightarrow> u16 \<Rightarrow> u32 \<Rightarrow> u32 \<Rightarrow> byte list \<Rightarrow> rmc_message" where
  "NewRMCRequest s protocol method callID body =
     \<lparr>rm_Settings = s, rm_Mode = RMCRequest, rm_Protocol = protocol, rm_Method = method,
      rm_CallID = callID, rm_Result = 0, rm_Body = body, rm_IsError = False\<rparr>"

definition NewRMCSuccess :: "settings \<Rightarrow> u16 \<Rightarrow> u32 \<Rightarrow> u32 \<Rightarrow> byte list \<Rightarrow> rmc_message" where
  "NewRMCSuccess s protocol method callID body =
     \<lparr>rm_Settings = s, rm_Mode = RMCResponse, rm_Protocol = protocol, rm_Method = method,
      rm_CallID = callID, rm_Result = 0, rm_Body = body, rm_IsError = False\<rparr>"

definition NewRMCError :: "settings \<Rightarrow> u16 \<Rightarrow> u32 \<Rightarrow> u32 \<Rightarrow> rmc_message" where
  "NewRMCError s protocol callID errorCode =
     \<lparr>rm_Settings = s, rm_Mode = RMCResponse, rm_Protocol = protocol, rm_Method = 0,
      rm_CallID = callID, rm_Result = errorCode OR ResultErrorMask, rm_Body = [], rm_IsError = True\<rparr>"

definition notImplemented :: "settings \<Rightarrow> u16 \<Rightarrow> rmc_message \<Rightarrow> rmc_message" where
  "notImplemented s proto req = NewRMCError s proto (rm_CallID req) ResultCoreNotImplemented"

section \<open>Encoder\<close>

definition rmc_flag :: "rmc_message \<Rightarrow> byte" where
  "rmc_flag m = (if rm_Mode m = RMCRequest then 0x80 else 0)"

definition rmc_header :: "rmc_message \<Rightarrow> byte list" where
  "rmc_header m =
     (if rm_Protocol m < 0x80 then out_U8 (ucast (rm_Protocol m) OR rmc_flag m)
      else out_U8 (0x7F OR rmc_flag m) @ out_U16 (rm_Protocol m))"

definition rmc_payload :: "rmc_message \<Rightarrow> byte list" where
  "rmc_payload m = rmc_header m @
     (if rm_Mode m = RMCRequest then out_U32 (rm_CallID m) @ out_U32 (rm_Method m) @ rm_Body m
      else if rm_IsError m then
        out_Bool False @ out_U32 (rm_Result m OR ResultErrorMask) @ out_U32 (rm_CallID m)
      else out_Bool True @ out_U32 (rm_CallID m) @ out_U32 (rm_Method m OR 0x8000) @ rm_Body m)"

definition rmc_Encode :: "rmc_message \<Rightarrow> byte list" where
  "rmc_Encode m = out_U32 (of_nat (length (rmc_payload m))) @ rmc_payload m"

section \<open>Parser\<close>

definition rmc_proto :: "byte \<Rightarrow> u16 reader" where
  "rmc_proto b =
     (let p = ucast (b AND NOT 0x80) :: u16 in if p = 0x7F then in_U16 else ret p)"

definition rmc_rest :: "settings \<Rightarrow> byte \<Rightarrow> u16 \<Rightarrow> rmc_message reader" where
  "rmc_rest s proto protocol =
     (if proto AND 0x80 \<noteq> 0 then do {
        callID \<leftarrow> in_U32;
        method \<leftarrow> in_U32;
        body \<leftarrow> in_ReadAll;
        ret (NewRMCRequest s protocol method callID body) }
      else do {
        ok \<leftarrow> in_Bool;
        if ok then do {
          callID \<leftarrow> in_U32;
          method \<leftarrow> in_U32;
          body \<leftarrow> in_ReadAll;
          ret (NewRMCSuccess s protocol (method AND NOT 0x8000) callID body) }
        else do {
          result \<leftarrow> in_U32;
          callID \<leftarrow> in_U32;
          ret \<lparr>rm_Settings = s, rm_Mode = RMCResponse, rm_Protocol = protocol, rm_Method = 0,
               rm_CallID = callID, rm_Result = result, rm_Body = [], rm_IsError = True\<rparr> } })"

definition rmc_fields :: "settings \<Rightarrow> rmc_message reader" where
  "rmc_fields s = do { proto \<leftarrow> in_U8; protocol \<leftarrow> rmc_proto proto; rmc_rest s proto protocol }"

definition ParseRMC :: "settings \<Rightarrow> byte list \<Rightarrow> rmc_message option" where
  "ParseRMC s dat =
     (let (len, st) = run_state in_U32 (NewStreamIn dat)
      in if uint len \<noteq> int (length dat) - 4 then None
         else let (m, st') = run_state (rmc_fields s) st
              in if in_Err st' then None else Some m)"

section \<open>Round trip\<close>

lemma run_in_ReadAll: "run_state in_ReadAll (stream_at pre rest) = (rest, stream_at (pre @ rest) [])"
  using readsD [OF reads_in_Read [OF refl], of rest pre "[]"]
  by (simp add: in_ReadAll_def in_Remaining_def stream_at_def)

lemma bit_128: "bit (128 :: byte) n \<longleftrightarrow> n = 7"
proof -
  have "(128 :: byte) = 2 ^ 7"
    by simp
  then show ?thesis
    by (simp only: bit_exp_iff) auto
qed

lemma low_byte_bits:
  fixes q :: byte
  assumes "unat q < 128"
  shows "(q OR 128) AND NOT 128 = q" "q AND NOT 128 = q" "(q OR 128) AND 128 \<noteq> 0" "q AND 128 = 0"
proof -
  have "q = take_bit 7 q"
    using assms by (simp add: word_unat_eq_iff unsigned_take_bit_eq take_bit_nat_eq_self)
  then have q: "bit q n \<Longrightarrow> n < 7" for n
    by (metis bit_take_bit_iff)
  define c :: byte where "c = 128"
  have c: "bit c n \<longleftrightarrow> n = 7" for n
    unfolding c_def by (rule bit_128)
  have "(q OR c) AND NOT c = q" "q AND NOT c = q" "q AND c = 0"
    by (auto intro!: bit_eqI simp: bit_simps c dest: q)
  then show "(q OR 128) AND NOT 128 = q" "q AND NOT 128 = q" "q AND 128 = 0"
    by (simp_all only: c_def)
qed simp

text \<open>The protocol byte and the escape, read back.\<close>

lemma reads_rmc_header:
  fixes p :: u16 and fl :: byte
  assumes p: "p \<noteq> 0x7F" and fl: "fl = 0 \<or> fl = 128"
    and b: "b = (if p < 0x80 then ucast p else 0x7F) OR fl"
  shows "reads (rmc_proto b) (if p < 0x80 then [] else out_U16 p) p" and "b AND 128 \<noteq> 0 \<longleftrightarrow> fl = 128"
proof -
  define q :: byte where "q = (if p < 0x80 then ucast p else 0x7F)"
  have "unat p < 65536"
    using unsigned_less [of p, where ?'a = nat] by simp
  then have q: "unat q < 128" "p < 0x80 \<Longrightarrow> unat q = unat p"
    by (auto simp: q_def word_less_nat_alt unsigned_ucast_eq unsigned_take_bit_eq take_bit_nat_eq_self)
  have bq: "b AND NOT 128 = q"
    using low_byte_bits(1,2) [OF q(1)] fl b by (auto simp: q_def)
  show "b AND 128 \<noteq> 0 \<longleftrightarrow> fl = 128"
    using low_byte_bits(3,4) [OF q(1)] fl b by (auto simp: q_def)
  show "reads (rmc_proto b) (if p < 0x80 then [] else out_U16 p) p"
  proof (cases "p < 0x80")
    case True
    have "(ucast q :: u16) = p"
      using q(2) [OF True] True
      by (simp add: word_unat_eq_iff unsigned_ucast_eq unsigned_take_bit_eq word_less_nat_alt take_bit_nat_eq_self)
    then show ?thesis
      using True p bq by (simp add: rmc_proto_def reads_ret)
  next
    case False
    then have "(ucast q :: u16) = 0x7F"
      by (simp add: q_def)
    then show ?thesis
      using False bq by (simp add: rmc_proto_def reads_U16)
  qed
qed

text \<open>The messages the three constructors build, with bodies that fit the length field.\<close>

definition rmc_wf :: "rmc_message \<Rightarrow> bool" where
  "rmc_wf m \<longleftrightarrow> rm_Protocol m \<noteq> 0x7F \<and> length (rm_Body m) < 2 ^ 32 - 12 \<and>
     (case rm_Mode m of
        RMCRequest \<Rightarrow> \<not> rm_IsError m \<and> rm_Result m = 0
      | RMCResponse \<Rightarrow>
          (if rm_IsError m then IsError (rm_Result m) \<and> rm_Method m = 0 \<and> rm_Body m = []
           else rm_Result m = 0 \<and> rm_Method m AND 0x8000 = 0))"

lemma IsError_or: "IsError c \<Longrightarrow> c OR ResultErrorMask = c"
  unfolding IsError_iff ResultErrorMask_power by (rule bit_eqI) (auto simp only: bit_or_iff bit_exp_iff)

lemma method_bit:
  fixes m :: u32
  assumes "m AND 0x8000 = 0"
  shows "(m OR 0x8000) AND NOT 0x8000 = m"
proof -
  have "\<not> (bit m n \<and> bit (0x8000 :: u32) n)" for n
    using assms bit_and_iff [of m "0x8000" n] by simp
  then show ?thesis
    by (auto simp: bit_eq_iff bit_simps)
qed

lemma length_rmc_header: "length (rmc_header m) \<le> 3"
  by (simp add: rmc_header_def)

lemma rmc_header_split:
  "rmc_header m = out_U8 ((if rm_Protocol m < 0x80 then ucast (rm_Protocol m) else 0x7F) OR rmc_flag m) @
     (if rm_Protocol m < 0x80 then [] else out_U16 (rm_Protocol m))"
  by (simp add: rmc_header_def)

definition rmc_tail :: "rmc_message \<Rightarrow> byte list" where
  "rmc_tail m = drop (length (rmc_header m)) (rmc_payload m)"

lemma rmc_payload_split: "rmc_payload m = rmc_header m @ rmc_tail m"
  by (simp add: rmc_tail_def rmc_payload_def)

lemma rmc_rest_tail:
  assumes "rmc_wf m" and "b AND 128 \<noteq> 0 \<longleftrightarrow> rm_Mode m = RMCRequest"
  shows "run_state (rmc_rest (rm_Settings m) b (rm_Protocol m)) (stream_at pre (rmc_tail m)) =
    (m, stream_at (pre @ rmc_tail m) [])"
proof -
  note rd = readsD [OF reads_U32] readsD [OF reads_U32, of _ _ "[]", simplified] readsD [OF reads_Bool] run_in_ReadAll
  show ?thesis
  proof (cases "rm_Mode m")
    case RMCRequest
    then show ?thesis
      using assms
      by (simp add: rmc_rest_def rmc_tail_def rmc_payload_def rd NewRMCRequest_def rmc_wf_def)
  next
    case RMCResponse
    then show ?thesis
      using assms
      by (cases "rm_IsError m")
        (simp_all add: rmc_rest_def rmc_tail_def rmc_payload_def rd NewRMCSuccess_def rmc_wf_def method_bit [simplified] IsError_or)
  qed
qed

lemma rmc_fields_payload:
  assumes "rmc_wf m"
  shows "run_state (rmc_fields (rm_Settings m)) (stream_at pre (rmc_payload m)) =
    (m, stream_at (pre @ rmc_payload m) [])"
proof -
  define b where "b = (if rm_Protocol m < 0x80 then ucast (rm_Protocol m) else 0x7F) OR rmc_flag m"
  have fl: "rmc_flag m = 0 \<or> rmc_flag m = 128" and p: "rm_Protocol m \<noteq> 0x7F"
    using assms by (auto simp: rmc_flag_def rmc_wf_def)
  note hdr = reads_rmc_header [OF p fl, of b, OF b_def]
  have "b AND 128 \<noteq> 0 \<longleftrightarrow> rm_Mode m = RMCRequest"
    using hdr(2) by (simp add: rmc_flag_def)
  note rest = rmc_rest_tail [OF assms this]
  show ?thesis
    using readsD [OF reads_U8, of pre b "(if rm_Protocol m < 0x80 then [] else out_U16 (rm_Protocol m)) @ rmc_tail m"]
      readsD [OF hdr(1), of "pre @ out_U8 b" "rmc_tail m"] rest [of "pre @ rmc_header m"]
    by (simp add: rmc_payload_split rmc_header_split rmc_fields_def b_def)
qed

lemma ParseRMC_Encode:
  assumes "rmc_wf m"
  shows "ParseRMC (rm_Settings m) (rmc_Encode m) = Some m"
proof -
  have len: "length (rmc_payload m) < 2 ^ 32"
    using assms length_rmc_header [of m]
    by (auto simp: rmc_payload_def rmc_wf_def out_Bool_def split: rmc_mode.splits)
  have "run_state in_U32 (NewStreamIn (rmc_Encode m)) =
     (of_nat (length (rmc_payload m)), stream_at (out_U32 (of_nat (length (rmc_payload m)))) (rmc_payload m))"
    using readsD [OF reads_U32, of "[]"] by (simp add: rmc_Encode_def NewStreamIn_stream_at)
  then show ?thesis
    using len rmc_fields_payload [OF assms] uint_of_nat_word [of "length (rmc_payload m)", where 'a = 32]
    by (simp add: ParseRMC_def rmc_Encode_def in_Err_def)
qed

section \<open>Properties\<close>

text \<open>
  C12: RMC messages survive the wire. Every request, success response and error response the
  constructors build parses back to itself, provided the protocol is not the escape value
  \<open>0x7F\<close>, the response bit of the method is free and the body fits the length field.
\<close>

theorem RMC_roundtrip:
  assumes "protocol \<noteq> 0x7F" and "length body < 2 ^ 32 - 12" and "method AND 0x8000 = 0"
  shows "ParseRMC s (rmc_Encode (NewRMCRequest s protocol any_method callID body)) =
      Some (NewRMCRequest s protocol any_method callID body) \<and>
    ParseRMC s (rmc_Encode (NewRMCSuccess s protocol method callID body)) =
      Some (NewRMCSuccess s protocol method callID body) \<and>
    ParseRMC s (rmc_Encode (NewRMCError s protocol callID code)) =
      Some (NewRMCError s protocol callID code)"
proof -
  have "IsError (code OR ResultErrorMask)"
    using IsError_ErrorResult [of code] by (simp add: ErrorResult_def)
  then show ?thesis
    using assms ParseRMC_Encode [of "NewRMCRequest s protocol any_method callID body"]
      ParseRMC_Encode [of "NewRMCSuccess s protocol method callID body"]
      ParseRMC_Encode [of "NewRMCError s protocol callID code"]
    by (simp add: rmc_wf_def NewRMCRequest_def NewRMCSuccess_def NewRMCError_def)
qed

theorem RMC_roundtrip_witness:
  "ParseRMC (NewSwitchSettings ''09c1c475'' 40000)
     (rmc_Encode (NewRMCSuccess (NewSwitchSettings ''09c1c475'' 40000) 0x6D 0x28 7 [1, 2, 3])) =
   Some (NewRMCSuccess (NewSwitchSettings ''09c1c475'' 40000) 0x6D 0x28 7 [1, 2, 3])"
  using RMC_roundtrip [of "0x6D" "[1, 2, 3]" "0x28" "NewSwitchSettings ''09c1c475'' 40000" 0 7 0] by simp

end
