(* ===== verification/Nex_Sessions.thy ===== *)
theory Nex_Sessions
  imports Nex_RMC
begin

unbundle bit_operations_syntax

text \<open>
  The matchmaking structures: \<^verbatim>\<open>matchmaking.go\<close> (\<open>Gathering\<close>, \<open>MatchmakeParam\<close>,
  \<open>MatchmakeSession\<close>, \<open>AutoMatchmakeParam\<close>), the search and update structures of
  \<^verbatim>\<open>matchmaking_acnh.go\<close>, \<open>SimplePlayingSession\<close> of \<^verbatim>\<open>matchmaking_handlers.go\<close> and
  \<open>NotificationEvent\<close> of \<^verbatim>\<open>notification.go\<close>. For every structure \<open>S\<close>, \<open>save_S\<close> gives the bytes
  of its own level, \<open>add_S\<close> those of the whole framed structure, and \<open>load_S\<close>, \<open>extract_S\<close> read
  them. An embedded Go struct is a field.
\<close>

section \<open>Gathering\<close>

record Gathering =
  gt_ID :: u32
  gt_OwnerPID :: u64
  gt_HostPID :: u64
  gt_MinParticipants :: u16
  gt_MaxParticipants :: u16
  gt_ParticipationPolicy :: u32
  gt_PolicyArgument :: u32
  gt_Flags :: u32
  gt_State :: u32
  gt_Description :: string

definition save_Gathering :: "settings \<Rightarrow> Gathering \<Rightarrow> byte list" where
  "save_Gathering s g =
     out_U32 (gt_ID g) @ out_PID s (gt_OwnerPID g) @ out_PID s (gt_HostPID g) @
     out_U16 (gt_MinParticipants g) @ out_U16 (gt_MaxParticipants g) @
     out_U32 (gt_ParticipationPolicy g) @ out_U32 (gt_PolicyArgument g) @
     out_U32 (gt_Flags g) @ out_U32 (gt_State g) @ out_String (gt_Description g)"

definition load_Gathering :: "settings \<Rightarrow> Gathering reader" where
  "load_Gathering s = do {
     i \<leftarrow> in_U32; owner \<leftarrow> in_PID s; host \<leftarrow> in_PID s; minP \<leftarrow> in_U16; maxP \<leftarrow> in_U16;
     policy \<leftarrow> in_U32; arg \<leftarrow> in_U32; flags \<leftarrow> in_U32; st \<leftarrow> in_U32; desc \<leftarrow> in_String;
     ret \<lparr>gt_ID = i, gt_OwnerPID = owner, gt_HostPID = host, gt_MinParticipants = minP,
          gt_MaxParticipants = maxP, gt_ParticipationPolicy = policy, gt_PolicyArgument = arg,
          gt_Flags = flags, gt_State = st, gt_Description = desc\<rparr> }"

section \<open>MatchmakeParam\<close>

type_synonym MatchmakeParam = "(string, variant) gomap"

definition save_MatchmakeParam :: "MatchmakeParam \<Rightarrow> byte list" where
  "save_MatchmakeParam p = WriteMap out_String out_Variant p"

definition load_MatchmakeParam :: "MatchmakeParam reader" where
  "load_MatchmakeParam = ReadMap in_String in_Variant"

definition add_MatchmakeParam :: "settings \<Rightarrow> MatchmakeParam \<Rightarrow> byte list" where
  "add_MatchmakeParam s p = write_level s 0 (save_MatchmakeParam p)"

definition extract_MatchmakeParam :: "settings \<Rightarrow> MatchmakeParam reader" where
  "extract_MatchmakeParam s = read_level s load_MatchmakeParam"

section \<open>MatchmakeBlockListParam\<close>

record MatchmakeBlockListParam =
  bl_Options :: u32

definition save_MatchmakeBlockListParam :: "MatchmakeBlockListParam \<Rightarrow> byte list" where
  "save_MatchmakeBlockListParam p = out_U32 (bl_Options p)"

definition load_MatchmakeBlockListParam :: "MatchmakeBlockListParam reader" where
  "load_MatchmakeBlockListParam = do { opts \<leftarrow> in_U32; ret \<lparr>bl_Options = opts\<rparr> }"

section \<open>MatchmakeSession\<close>

record MatchmakeSession =
  ms_Gathering :: Gathering
  ms_GameMode :: u32
  ms_Attribs :: "u32 list"
  ms_OpenParticipation :: bool
  ms_MatchmakeSystem :: u32
  ms_ApplicationData :: "byte list"
  ms_NumParticipants :: u32
  ms_ProgressScore :: byte
  ms_SessionKey :: "byte list"
  ms_Option :: u32
  ms_Param :: MatchmakeParam
  ms_StartedTime :: u64
  ms_UserPassword :: string
  ms_ReferGID :: u32
  ms_UserPasswordEnabled :: bool
  ms_SystemPasswordEnabled :: bool
  ms_Codeword :: string

abbreviation ms_ID :: "MatchmakeSession \<Rightarrow> u32" where
  "ms_ID m \<equiv> gt_ID (ms_Gathering m)"

abbreviation ms_OwnerPID :: "MatchmakeSession \<Rightarrow> u64" where
  "ms_OwnerPID m \<equiv> gt_OwnerPID (ms_Gathering m)"

abbreviation ms_MaxParticipants :: "MatchmakeSession \<Rightarrow> u16" where
  "ms_MaxParticipants m \<equiv> gt_MaxParticipants (ms_Gathering m)"

definition save_MatchmakeSession :: "settings \<Rightarrow> MatchmakeSession \<Rightarrow> byte list" where
  "save_MatchmakeSession s m =
     out_U32 (ms_GameMode m) @ WriteList out_U32 (ms_Attribs m) @ out_Bool (ms_OpenParticipation m) @
     out_U32 (ms_MatchmakeSystem m) @ out_Buffer (ms_ApplicationData m) @ out_U32 (ms_NumParticipants m) @
     out_U8 (ms_ProgressScore m) @ out_Buffer (ms_SessionKey m) @ out_U32 (ms_Option m) @
     add_MatchmakeParam s (ms_Param m) @ out_DateTime (ms_StartedTime m) @ out_String (ms_UserPassword m) @
     out_U32 (ms_ReferGID m) @ out_Bool (ms_UserPasswordEnabled m) @ out_Bool (ms_SystemPasswordEnabled m) @
     out_String (ms_Codeword m)"

definition load_MatchmakeSession :: "settings \<Rightarrow> Gathering \<Rightarrow> MatchmakeSession reader" where
  "load_MatchmakeSession s g = do {
     mode \<leftarrow> in_U32; attribs \<leftarrow> ReadList in_U32; opn \<leftarrow> in_Bool; sys \<leftarrow> in_U32; app \<leftarrow> in_Buffer;
     num \<leftarrow> in_U32; score \<leftarrow> in_U8; key \<leftarrow> in_Buffer; opt \<leftarrow> in_U32; param \<leftarrow> extract_MatchmakeParam s;
     started \<leftarrow> in_DateTime; pw \<leftarrow> in_String; refer \<leftarrow> in_U32; upw \<leftarrow> in_Bool; spw \<leftarrow> in_Bool;
     code \<leftarrow> in_String;
     ret \<lparr>ms_Gathering = g, ms_GameMode = mode, ms_Attribs = attribs, ms_OpenParticipation = opn,
          ms_MatchmakeSystem = sys, ms_ApplicationData = app, ms_NumParticipants = num,
          ms_ProgressScore = score, ms_SessionKey = key, ms_Option = opt, ms_Param = param,
          ms_StartedTime = started, ms_UserPassword = pw, ms_ReferGID = refer,
          ms_UserPasswordEnabled = upw, ms_SystemPasswordEnabled = spw, ms_Codeword = code\<rparr> }"

definition add_MatchmakeSession :: "settings \<Rightarrow> MatchmakeSession \<Rightarrow> byte list" where
  "add_MatchmakeSession s m =
     WriteStructure s [(0, save_Gathering s (ms_Gathering m)), (0, save_MatchmakeSession s m)]"

definition extract_MatchmakeSession :: "settings \<Rightarrow> MatchmakeSession reader" where
  "extract_MatchmakeSession s = do {
     g \<leftarrow> read_level s (load_Gathering s);
     read_level s (load_MatchmakeSession s g) }"

definition add_AutoMatchmakeParam :: "settings \<Rightarrow> MatchmakeSession \<Rightarrow> byte list" where
  "add_AutoMatchmakeParam s m = write_level s 0 (add_MatchmakeSession s m)"

definition extract_AutoMatchmakeParam :: "settings \<Rightarrow> MatchmakeSession reader" where
  "extract_AutoMatchmakeParam s = read_level s (extract_MatchmakeSession s)"

section \<open>Search criteria, participant search, partial update\<close>

record MatchmakeSessionSearchCriteria =
  sc_Attribs :: "string list"
  sc_GameMode :: string
  sc_MinParticipants :: string
  sc_MaxParticipants :: string
  sc_MatchmakeSystem :: string
  sc_VacantOnly :: bool
  sc_ExcludeLocked :: bool
  sc_ExcludeNonHostPID :: bool
  sc_SelectionMethod :: u32
  sc_VacantParticipants :: u16
  sc_Param :: MatchmakeParam
  sc_ExcludeUserPassword :: bool
  sc_ExcludeSysPassword :: bool
  sc_ReferGID :: u32
  sc_Codeword :: string
  sc_Range :: result_range

definition zero_criteria :: MatchmakeSessionSearchCriteria where
  "zero_criteria = \<lparr>sc_Attribs = [], sc_GameMode = [], sc_MinParticipants = [], sc_MaxParticipants = [],
     sc_MatchmakeSystem = [], sc_VacantOnly = False, sc_ExcludeLocked = False, sc_ExcludeNonHostPID = False,
     sc_SelectionMethod = 0, sc_VacantParticipants = 0, sc_Param = [], sc_ExcludeUserPassword = False,
     sc_ExcludeSysPassword = False, sc_ReferGID = 0, sc_Codeword = [], sc_Range = \<lparr>rr_Offset = 0, rr_Size = 0\<rparr>\<rparr>"

definition save_SearchCriteria :: "settings \<Rightarrow> MatchmakeSessionSearchCriteria \<Rightarrow> byte list" where
  "save_SearchCriteria s c =
     WriteList out_String (sc_Attribs c) @ out_String (sc_GameMode c) @ out_String (sc_MinParticipants c) @
     out_String (sc_MaxParticipants c) @ out_String (sc_MatchmakeSystem c) @ out_Bool (sc_VacantOnly c) @
     out_Bool (sc_ExcludeLocked c) @ out_Bool (sc_ExcludeNonHostPID c) @ out_U32 (sc_SelectionMethod c) @
     (if NexVersion s \<ge> 30500 then out_U16 (sc_VacantParticipants c) else []) @
     (if NexVersion s \<ge> 40000 then
        add_MatchmakeParam s (sc_Param c) @ out_Bool (sc_ExcludeUserPassword c) @
        out_Bool (sc_ExcludeSysPassword c) @ out_U32 (sc_ReferGID c) @ out_String (sc_Codeword c) @
        write_level s 0 (save_ResultRange (sc_Range c))
      else [])"

definition load_SearchCriteria :: "settings \<Rightarrow> MatchmakeSessionSearchCriteria reader" where
  "load_SearchCriteria s = do {
     attribs \<leftarrow> ReadList in_String; mode \<leftarrow> in_String; minP \<leftarrow> in_String; maxP \<leftarrow> in_String;
     sys \<leftarrow> in_String; vacant \<leftarrow> in_Bool; locked \<leftarrow> in_Bool; nonhost \<leftarrow> in_Bool; sel \<leftarrow> in_U32;
     vp \<leftarrow> (if NexVersion s \<ge> 30500 then in_U16 else ret 0);
     let c = zero_criteria\<lparr>sc_Attribs := attribs, sc_GameMode := mode, sc_MinParticipants := minP,
           sc_MaxParticipants := maxP, sc_MatchmakeSystem := sys, sc_VacantOnly := vacant,
           sc_ExcludeLocked := locked, sc_ExcludeNonHostPID := nonhost, sc_SelectionMethod := sel,
           sc_VacantParticipants := vp\<rparr>;
     if NexVersion s \<ge> 40000 then do {
       param \<leftarrow> extract_MatchmakeParam s; upw \<leftarrow> in_Bool; spw \<leftarrow> in_Bool; refer \<leftarrow> in_U32;
       code \<leftarrow> in_String; range \<leftarrow> read_level s load_ResultRange;
       ret (c\<lparr>sc_Param := param, sc_ExcludeUserPassword := upw, sc_ExcludeSysPassword := spw,
              sc_ReferGID := refer, sc_Codeword := code, sc_Range := range\<rparr>) }
     else ret c }"

record FindByParticipantParam =
  fp_PrincipalIDs :: "u64 list"
  fp_Options :: u32
  fp_BlockList :: u32

definition save_FindByParticipantParam :: "settings \<Rightarrow> FindByParticipantParam \<Rightarrow> byte list" where
  "save_FindByParticipantParam s p =
     WriteList (out_PID s) (fp_PrincipalIDs p) @ out_U32 (fp_Options p) @
     write_level s 0 (out_U32 (fp_BlockList p))"

definition load_FindByParticipantParam :: "settings \<Rightarrow> FindByParticipantParam reader" where
  "load_FindByParticipantParam s = do {
     pids \<leftarrow> ReadList (in_PID s); options \<leftarrow> in_U32; block \<leftarrow> read_level s in_U32;
     ret \<lparr>fp_PrincipalIDs = pids, fp_Options = options, fp_BlockList = block\<rparr> }"

definition save_FindByParticipantResult :: "settings \<Rightarrow> u64 \<Rightarrow> MatchmakeSession \<Rightarrow> byte list" where
  "save_FindByParticipantResult s pid m = out_PID s pid @ add_MatchmakeSession s m"

definition add_FindByParticipantResult :: "settings \<Rightarrow> u64 \<times> MatchmakeSession \<Rightarrow> byte list" where
  "add_FindByParticipantResult s r = write_level s 0 (save_FindByParticipantResult s (fst r) (snd r))"

definition load_FindByParticipantResult :: "settings \<Rightarrow> (u64 \<times> MatchmakeSession) reader" where
  "load_FindByParticipantResult s = do { pid \<leftarrow> in_PID s; m \<leftarrow> extract_MatchmakeSession s; ret (pid, m) }"

definition modFlagOpenParticipation :: u32 where "modFlagOpenParticipation = 0x2"
definition modFlagCodeword :: u32 where "modFlagCodeword = 0x4000"

record UpdateMatchmakeSessionParam =
  up_GID :: u32
  up_ModificationFlags :: u32
  up_Attributes :: "u32 list"
  up_OpenParticipation :: bool
  up_ApplicationBuffer :: "byte list"
  up_ProgressScore :: byte
  up_Param :: MatchmakeParam
  up_StartedTime :: u64
  up_UserPassword :: string
  up_GameMode :: u32
  up_Description :: string
  up_MinParticipants :: u16
  up_MaxParticipants :: u16
  up_MatchmakeSystem :: u32
  up_ParticipationPolicy :: u32
  up_PolicyArgument :: u32
  up_Codeword :: string

definition save_UpdateParam :: "settings \<Rightarrow> UpdateMatchmakeSessionParam \<Rightarrow> byte list" where
  "save_UpdateParam s p =
     out_U32 (up_GID p) @ out_U32 (up_ModificationFlags p) @ WriteList out_U32 (up_Attributes p) @
     out_Bool (up_OpenParticipation p) @ out_Buffer (up_ApplicationBuffer p) @ out_U8 (up_ProgressScore p) @
     add_MatchmakeParam s (up_Param p) @ out_DateTime (up_StartedTime p) @ out_String (up_UserPassword p) @
     out_U32 (up_GameMode p) @ out_String (up_Description p) @ out_U16 (up_MinParticipants p) @
     out_U16 (up_MaxParticipants p) @ out_U32 (up_MatchmakeSystem p) @ out_U32 (up_ParticipationPolicy p) @
     out_U32 (up_PolicyArgument p) @ out_String (up_Codeword p)"

definition load_UpdateParam :: "settings \<Rightarrow> UpdateMatchmakeSessionParam reader" where
  "load_UpdateParam s = do {
     gid \<leftarrow> in_U32; flags \<leftarrow> in_U32; attribs \<leftarrow> ReadList in_U32; opn \<leftarrow> in_Bool; app \<leftarrow> in_Buffer;
     score \<leftarrow> in_U8; param \<leftarrow> extract_MatchmakeParam s; started \<leftarrow> in_DateTime; pw \<leftarrow> in_String;
     mode \<leftarrow> in_U32; desc \<leftarrow> in_String; minP \<leftarrow> in_U16; maxP \<leftarrow> in_U16; sys \<leftarrow> in_U32;
     policy \<leftarrow> in_U32; arg \<leftarrow> in_U32; code \<leftarrow> in_String;
     ret \<lparr>up_GID = gid, up_ModificationFlags = flags, up_Attributes = attribs, up_OpenParticipation = opn,
          up_ApplicationBuffer = app, up_ProgressScore = score, up_Param = param, up_StartedTime = started,
          up_UserPassword = pw, up_GameMode = mode, up_Description = desc, up_MinParticipants = minP,
          up_MaxParticipants = maxP, up_MatchmakeSystem = sys, up_ParticipationPolicy = policy,
          up_PolicyArgument = arg, up_Codeword = code\<rparr> }"

definition extract_UpdateParam :: "settings \<Rightarrow> UpdateMatchmakeSessionParam reader" where
  "extract_UpdateParam s = read_level s (load_UpdateParam s)"

section \<open>Playing sessions and notifications\<close>

record SimplePlayingSession =
  ps_PrincipalID :: u64
  ps_GatheringID :: u32
  ps_GameMode :: u32
  ps_Attribute0 :: u32

definition save_PlayingSession :: "settings \<Rightarrow> SimplePlayingSession \<Rightarrow> byte list" where
  "save_PlayingSession s p =
     out_PID s (ps_PrincipalID p) @ out_U32 (ps_GatheringID p) @ out_U32 (ps_GameMode p) @ out_U32 (ps_Attribute0 p)"

definition load_PlayingSession :: "settings \<Rightarrow> SimplePlayingSession reader" where
  "load_PlayingSession s = do {
     pid \<leftarrow> in_PID s; gid \<leftarrow> in_U32; mode \<leftarrow> in_U32; attr0 \<leftarrow> in_U32;
     ret \<lparr>ps_PrincipalID = pid, ps_GatheringID = gid, ps_GameMode = mode, ps_Attribute0 = attr0\<rparr> }"

record NotificationEvent =
  ne_PIDSource :: u64
  ne_Type :: u32
  ne_Param1 :: u64
  ne_Param2 :: u64
  ne_StrParam :: string
  ne_Param3 :: u64

definition save_NotificationEvent :: "settings \<Rightarrow> NotificationEvent \<Rightarrow> byte list" where
  "save_NotificationEvent s n =
     out_PID s (ne_PIDSource n) @ out_U32 (ne_Type n) @ out_U64 (ne_Param1 n) @ out_U64 (ne_Param2 n) @
     out_String (ne_StrParam n) @ out_U64 (ne_Param3 n)"

definition load_NotificationEvent :: "settings \<Rightarrow> NotificationEvent reader" where
  "load_NotificationEvent s = do {
     src \<leftarrow> in_PID s; typ \<leftarrow> in_U32; p1 \<leftarrow> in_U64; p2 \<leftarrow> in_U64; str \<leftarrow> in_String; p3 \<leftarrow> in_U64;
     ret \<lparr>ne_PIDSource = src, ne_Type = typ, ne_Param1 = p1, ne_Param2 = p2, ne_StrParam = str, ne_Param3 = p3\<rparr> }"

definition add_NotificationEvent :: "settings \<Rightarrow> NotificationEvent \<Rightarrow> byte list" where
  "add_NotificationEvent s n = write_level s 0 (save_NotificationEvent s n)"

section \<open>The structures satisfy the codec contract\<close>

definition gathering_ok :: "settings \<Rightarrow> Gathering \<Rightarrow> bool" where
  "gathering_ok s g \<longleftrightarrow> pid_ok s (gt_OwnerPID g) \<and> pid_ok s (gt_HostPID g) \<and> string_ok (gt_Description g)"

definition param_ok :: "MatchmakeParam \<Rightarrow> bool" where
  "param_ok p \<longleftrightarrow> gm_wf p \<and> list_all (\<lambda>(k, v). string_ok k \<and> variant_ok v) p \<and> length p < 2 ^ 32"

definition framed_param_ok :: "MatchmakeParam \<Rightarrow> bool" where
  "framed_param_ok p \<longleftrightarrow> param_ok p \<and> buffer_ok (save_MatchmakeParam p)"

definition session_level_ok :: "Gathering \<Rightarrow> MatchmakeSession \<Rightarrow> bool" where
  "session_level_ok g m \<longleftrightarrow> ms_Gathering m = g \<and> length (ms_Attribs m) < 2 ^ 32 \<and>
     buffer_ok (ms_ApplicationData m) \<and> buffer_ok (ms_SessionKey m) \<and> framed_param_ok (ms_Param m) \<and>
     string_ok (ms_UserPassword m) \<and> string_ok (ms_Codeword m)"

definition session_ok :: "settings \<Rightarrow> MatchmakeSession \<Rightarrow> bool" where
  "session_ok s m \<longleftrightarrow> gathering_ok s (ms_Gathering m) \<and> session_level_ok (ms_Gathering m) m \<and>
     buffer_ok (save_Gathering s (ms_Gathering m)) \<and> buffer_ok (save_MatchmakeSession s m)"

lemmas reads_binds = reads_bind [OF reads_U8] reads_bind [OF reads_U16] reads_bind [OF reads_U32]
  reads_bind [OF reads_U64] reads_bind [OF reads_DateTime] reads_bind [OF reads_Bool]
  reads_bind [OF reads_PID] reads_bind [OF reads_String] reads_bind [OF reads_Buffer]

lemmas reads_lasts = reads_bind_ret [OF reads_U16] reads_bind_ret [OF reads_U32] reads_bind_ret [OF reads_U64]
  reads_bind_ret [OF reads_String]

interpretation gathc: codec "save_Gathering s" "load_Gathering s" "gathering_ok s" for s
proof
  fix g assume "gathering_ok s g"
  then show "reads (load_Gathering s) (save_Gathering s g) g"
    unfolding load_Gathering_def save_Gathering_def gathering_ok_def
    by (intro reads_binds reads_lasts) auto
qed

interpretation paramc: codec save_MatchmakeParam load_MatchmakeParam param_ok
  by unfold_locales (simp add: save_MatchmakeParam_def load_MatchmakeParam_def param_ok_def strvar.reads_map)

interpretation blockc: codec save_MatchmakeBlockListParam load_MatchmakeBlockListParam "\<lambda>_. True"
proof
  show "reads load_MatchmakeBlockListParam (save_MatchmakeBlockListParam p) p" for p
    unfolding load_MatchmakeBlockListParam_def save_MatchmakeBlockListParam_def
    by (intro reads_binds reads_lasts) auto
qed

lemma reads_MatchmakeParam: "framed_param_ok p \<Longrightarrow> reads (extract_MatchmakeParam s) (add_MatchmakeParam s p) p"
  unfolding extract_MatchmakeParam_def add_MatchmakeParam_def framed_param_ok_def
  by (rule paramc.reads_level) auto

interpretation sessl: codec "save_MatchmakeSession s" "load_MatchmakeSession s g" "session_level_ok g" for s g
proof
  fix m assume ok: "session_level_ok g m"
  then have attribs: "reads (ReadList in_U32) (WriteList out_U32 (ms_Attribs m)) (ms_Attribs m)"
    by (intro u32c.reads_list) (auto simp: session_level_ok_def list_all_iff)
  have param: "reads (extract_MatchmakeParam s) (add_MatchmakeParam s (ms_Param m)) (ms_Param m)"
    using ok by (simp add: session_level_ok_def reads_MatchmakeParam)
  show "reads (load_MatchmakeSession s g) (save_MatchmakeSession s m) m"
    using ok unfolding load_MatchmakeSession_def save_MatchmakeSession_def session_level_ok_def
    by (intro reads_binds reads_bind [OF attribs] reads_bind [OF param] reads_lasts) auto
qed

lemma reads_MatchmakeSession:
  assumes "session_ok s m"
  shows "reads (extract_MatchmakeSession s) (add_MatchmakeSession s m) m"
proof -
  have g: "reads (read_level s (load_Gathering s)) (write_level s 0 (save_Gathering s (ms_Gathering m))) (ms_Gathering m)"
    using assms by (intro gathc.reads_level) (auto simp: session_ok_def)
  have m: "reads (read_level s (load_MatchmakeSession s (ms_Gathering m))) (write_level s 0 (save_MatchmakeSession s m)) m"
    using assms by (intro sessl.reads_level) (auto simp: session_ok_def)
  show ?thesis
    unfolding extract_MatchmakeSession_def add_MatchmakeSession_def WriteStructure_def
    using reads_bind [OF g, of "\<lambda>g. read_level s (load_MatchmakeSession s g)", OF m] by simp
qed

lemma add_MatchmakeSession_nonempty: "add_MatchmakeSession s m \<noteq> []"
  by (simp add: add_MatchmakeSession_def WriteStructure_def write_level_def save_Gathering_def)

interpretation sessc: nonempty_codec "add_MatchmakeSession s" "extract_MatchmakeSession s" "session_ok s" for s
  by unfold_locales (simp_all add: reads_MatchmakeSession add_MatchmakeSession_nonempty)

lemma reads_AutoMatchmakeParam:
  assumes "session_ok s m" and "buffer_ok (add_MatchmakeSession s m)"
  shows "reads (extract_AutoMatchmakeParam s) (add_AutoMatchmakeParam s m) m"
  unfolding extract_AutoMatchmakeParam_def add_AutoMatchmakeParam_def by (rule sessc.reads_level [OF assms])

interpretation psc: codec "save_PlayingSession s" "load_PlayingSession s" "\<lambda>p. pid_ok s (ps_PrincipalID p)" for s
proof
  fix p :: SimplePlayingSession assume "pid_ok s (ps_PrincipalID p)"
  then show "reads (load_PlayingSession s) (save_PlayingSession s p) p"
    unfolding load_PlayingSession_def save_PlayingSession_def
    by (intro reads_binds reads_lasts) auto
qed

interpretation nevc: codec "save_NotificationEvent s" "load_NotificationEvent s"
    "\<lambda>n. pid_ok s (ne_PIDSource n) \<and> string_ok (ne_StrParam n)" for s
proof
  fix n :: NotificationEvent assume "pid_ok s (ne_PIDSource n) \<and> string_ok (ne_StrParam n)"
  then show "reads (load_NotificationEvent s) (save_NotificationEvent s n) n"
    unfolding load_NotificationEvent_def save_NotificationEvent_def
    by (intro reads_binds reads_lasts) auto
qed

interpretation fprc: codec "\<lambda>r. save_FindByParticipantResult s (fst r) (snd r)" "load_FindByParticipantResult s"
    "\<lambda>r. pid_ok s (fst r) \<and> session_ok s (snd r)" for s
proof
  fix r :: "u64 \<times> MatchmakeSession" assume "pid_ok s (fst r) \<and> session_ok s (snd r)"
  then show "reads (load_FindByParticipantResult s) (save_FindByParticipantResult s (fst r) (snd r)) r"
    unfolding load_FindByParticipantResult_def save_FindByParticipantResult_def
    by (intro reads_binds reads_bind_ret [OF reads_MatchmakeSession]) auto
qed

interpretation fppc: codec "save_FindByParticipantParam s" "load_FindByParticipantParam s"
    "\<lambda>p. list_all (pid_ok s) (fp_PrincipalIDs p) \<and> length (fp_PrincipalIDs p) < 2 ^ 32" for s
proof
  fix p :: FindByParticipantParam
  assume "list_all (pid_ok s) (fp_PrincipalIDs p) \<and> length (fp_PrincipalIDs p) < 2 ^ 32"
  then have pids: "reads (ReadList (in_PID s)) (WriteList (out_PID s) (fp_PrincipalIDs p)) (fp_PrincipalIDs p)"
    by (intro pidc.reads_list) auto
  have block: "reads (read_level s in_U32) (write_level s 0 (out_U32 (fp_BlockList p))) (fp_BlockList p)"
    by (intro u32c.reads_level) (auto simp: buffer_ok_def)
  show "reads (load_FindByParticipantParam s) (save_FindByParticipantParam s p) p"
    unfolding load_FindByParticipantParam_def save_FindByParticipantParam_def
    by (intro reads_bind [OF pids] reads_binds reads_bind_ret [OF block]) auto
qed

definition criteria_ok :: "settings \<Rightarrow> MatchmakeSessionSearchCriteria \<Rightarrow> bool" where
  "criteria_ok s c \<longleftrightarrow> NexVersion s \<ge> 40000 \<and> list_all string_ok (sc_Attribs c) \<and> length (sc_Attribs c) < 2 ^ 32 \<and>
     string_ok (sc_GameMode c) \<and> string_ok (sc_MinParticipants c) \<and> string_ok (sc_MaxParticipants c) \<and>
     string_ok (sc_MatchmakeSystem c) \<and> framed_param_ok (sc_Param c) \<and> string_ok (sc_Codeword c)"

interpretation critc: codec "save_SearchCriteria s" "load_SearchCriteria s" "criteria_ok s" for s
proof
  fix c assume ok: "criteria_ok s c"
  have attribs: "reads (ReadList in_String) (WriteList out_String (sc_Attribs c)) (sc_Attribs c)"
    using ok by (intro strc.reads_list) (auto simp: criteria_ok_def)
  have param: "reads (extract_MatchmakeParam s) (add_MatchmakeParam s (sc_Param c)) (sc_Param c)"
    using ok by (simp add: criteria_ok_def reads_MatchmakeParam)
  have range: "reads (read_level s load_ResultRange) (write_level s 0 (save_ResultRange (sc_Range c))) (sc_Range c)"
    by (intro rrc.reads_level) (auto simp: buffer_ok_def save_ResultRange_def)
  have v: "NexVersion s \<ge> 30500" "NexVersion s \<ge> 40000"
    using ok by (auto simp: criteria_ok_def)
  show "reads (load_SearchCriteria s) (save_SearchCriteria s c) c"
    using ok unfolding load_SearchCriteria_def save_SearchCriteria_def Let_def if_P [OF v(1)] if_P [OF v(2)]
      append_Nil2 criteria_ok_def
    by (intro reads_bind [OF attribs] reads_bind [OF param] reads_binds reads_bind_ret [OF range]) auto
qed

definition update_ok :: "UpdateMatchmakeSessionParam \<Rightarrow> bool" where
  "update_ok p \<longleftrightarrow> length (up_Attributes p) < 2 ^ 32 \<and> buffer_ok (up_ApplicationBuffer p) \<and>
     framed_param_ok (up_Param p) \<and> string_ok (up_UserPassword p) \<and> string_ok (up_Description p) \<and>
     string_ok (up_Codeword p)"

interpretation updc: codec "save_UpdateParam s" "load_UpdateParam s" update_ok for s
proof
  fix p assume ok: "update_ok p"
  have attribs: "reads (ReadList in_U32) (WriteList out_U32 (up_Attributes p)) (up_Attributes p)"
    using ok by (intro u32c.reads_list) (auto simp: update_ok_def list_all_iff)
  have param: "reads (extract_MatchmakeParam s) (add_MatchmakeParam s (up_Param p)) (up_Param p)"
    using ok by (simp add: update_ok_def reads_MatchmakeParam)
  show "reads (load_UpdateParam s) (save_UpdateParam s p) p"
    using ok unfolding load_UpdateParam_def save_UpdateParam_def update_ok_def
    by (intro reads_binds reads_bind [OF attribs] reads_bind [OF param] reads_lasts) auto
qed

section \<open>Properties\<close>

text \<open>
  C13: matchmake sessions survive the wire. A session whose texts and buffers fit their length
  fields is read back field by field from its framed encoding, whatever follows it, alone or in
  a list; so two different sessions never share an encoding.
\<close>

theorem MatchmakeSession_roundtrip:
  assumes "list_all (session_ok s) ms" and "length ms < 2 ^ 32" and "session_ok s m" and "session_ok s m'"
  shows "run_state (extract_MatchmakeSession s) (NewStreamIn (add_MatchmakeSession s m @ rest)) =
      (m, stream_at (add_MatchmakeSession s m) rest) \<and>
    run_state (ReadList (extract_MatchmakeSession s)) (NewStreamIn (WriteList (add_MatchmakeSession s) ms @ rest)) =
      (ms, stream_at (WriteList (add_MatchmakeSession s) ms) rest) \<and>
    (add_MatchmakeSession s m = add_MatchmakeSession s m' \<longrightarrow> m = m')"
  using assms readsD [OF sessc.dec_enc [OF assms(3)], of "[]" rest] readsD [OF sessc.reads_list, of s ms "[]" rest]
    sessc.enc_inj [of s m m']
  by (simp add: NewStreamIn_stream_at)

definition sample_session :: MatchmakeSession where
  "sample_session = \<lparr>ms_Gathering = \<lparr>gt_ID = 7, gt_OwnerPID = 1800000006, gt_HostPID = 1800000006,
       gt_MinParticipants = 2, gt_MaxParticipants = 12, gt_ParticipationPolicy = 0, gt_PolicyArgument = 0,
       gt_Flags = 0, gt_State = 1, gt_Description = ''lobby''\<rparr>,
     ms_GameMode = 2, ms_Attribs = [1, 4000, 0, 0, 0, 0], ms_OpenParticipation = True, ms_MatchmakeSystem = 1,
     ms_ApplicationData = [1, 2, 3], ms_NumParticipants = 1, ms_ProgressScore = 100, ms_SessionKey = [9, 8, 7],
     ms_Option = 0, ms_Param = [(''@SR'', zero_variant\<lparr>v_Type := VariantBool, v_Bool := True\<rparr>)],
     ms_StartedTime = 136000000000, ms_UserPassword = [], ms_ReferGID = 0, ms_UserPasswordEnabled = False,
     ms_SystemPasswordEnabled = False, ms_Codeword = ''ABCDE''\<rparr>"

lemmas length_composites = out_PID_def out_String_def out_Buffer_def out_DateTime_def out_Bool_def Let_def

lemma sample_session_ok: "session_ok (NewSwitchSettings [] 40000) sample_session"
  by (simp add: session_ok_def session_level_ok_def gathering_ok_def framed_param_ok_def param_ok_def
      sample_session_def buffer_ok_def string_ok_def pid_ok_def NewSwitchSettings_def gm_wf_def variant_ok_def
      zero_variant_def variant_tags save_Gathering_def save_MatchmakeSession_def add_MatchmakeParam_def
      save_MatchmakeParam_def WriteMap_def WriteList_def write_level_def out_Variant_def length_composites)

lemma sample_param_parses:
  "run_state (extract_AutoMatchmakeParam (NewSwitchSettings [] 40000))
     (NewStreamIn (add_AutoMatchmakeParam (NewSwitchSettings [] 40000) sample_session)) =
   (sample_session, stream_at (add_AutoMatchmakeParam (NewSwitchSettings [] 40000) sample_session) [])"
proof -
  have "buffer_ok (add_MatchmakeSession (NewSwitchSettings [] 40000) sample_session)"
    by (simp add: sample_session_def buffer_ok_def NewSwitchSettings_def add_MatchmakeSession_def WriteStructure_def
        zero_variant_def variant_tags save_Gathering_def save_MatchmakeSession_def add_MatchmakeParam_def
        save_MatchmakeParam_def WriteMap_def WriteList_def write_level_def out_Variant_def length_composites)
  from readsD [OF reads_AutoMatchmakeParam [OF sample_session_ok this], of "[]" "[]"] show ?thesis
    by (simp add: NewStreamIn_stream_at)
qed

theorem MatchmakeSession_roundtrip_witness:
  "session_ok (NewSwitchSettings [] 40000) sample_session \<and>
   fst (run_state (extract_MatchmakeSession (NewSwitchSettings [] 40000))
     (NewStreamIn (add_MatchmakeSession (NewSwitchSettings [] 40000) sample_session @ [1]))) = sample_session"
  using MatchmakeSession_roundtrip [of "NewSwitchSettings [] 40000" "[]" sample_session sample_session "[1]"] sample_session_ok
  by simp

text \<open>
  A request body is never found malformed past its frame. With structure headers on, decoding
  an auto-matchmake parameter records no error for any content of a frame of the announced
  length, however truncated: the error flags of the inner streams are dropped.
\<close>

lemma AutoMatchmakeParam_inner_errors_dropped:
  assumes "StructHeader s" and "buffer_ok body"
  shows "\<not> in_Err (snd (run_state (extract_AutoMatchmakeParam s) (NewStreamIn (out_U8 v @ out_Buffer body @ rest))))"
  using read_level_err [OF assms, of "extract_MatchmakeSession s" "[]" v rest]
  by (simp add: extract_AutoMatchmakeParam_def NewStreamIn_stream_at in_Err_def)

lemma AutoMatchmakeParam_inner_errors_dropped_example:
  "\<not> in_Err (snd (run_state (extract_AutoMatchmakeParam (NewSwitchSettings [] 40000))
      (NewStreamIn (out_U8 0 @ out_Buffer [1, 2] @ []))))"
  by (rule AutoMatchmakeParam_inner_errors_dropped) (simp_all add: NewSwitchSettings_def buffer_ok_def)

end
