(* ===== verification/Nex_Reservations.thy ===== *)
theory Nex_Reservations
  imports Nex_Sessions
begin

text \<open>
  The matchmaking store and its seats: the \<open>gathering\<close> and \<open>Matchmaking\<close> structs of
  \<^verbatim>\<open>nextendo-nex/matchmaking_handlers.go\<close> and the join reservations of
  \<^verbatim>\<open>nextendo-nex/matchmaking_reservations.go\<close>.

  A reservation is its expiry time. Every call of the clock is an argument \<open>now\<close>. The locale
  \<open>seat_store\<close> is what the join handlers rely on; the model's gathering is its interpretation.
  The hook \<open>OnFriendSessionCreated\<close> is a function the embedding server supplies; it is represented
  by the notifications it publishes. \<open>FriendName\<close>, which no handler reads, is left out.
\<close>

section \<open>State\<close>

record gathering =
  g_session :: MatchmakeSession
  g_participants :: "pid list"
  g_hostConnID :: u32
  g_code :: string
  g_reservations :: "(pid, gotime) gomap"

record matchmaking =
  m_FindByParticipantEnabled :: bool
  m_SessionPartPersists :: bool
  m_PublicStationFirst :: bool
  m_JoinRespExistingCount :: bool
  m_FriendPIDs :: "(pid \<Rightarrow> pid list) option"
  m_OnFriendSessionCreated :: "(pid \<Rightarrow> gid \<Rightarrow> (pid \<times> u32 \<times> NotificationEvent) list) option"
  m_notif :: "(pid, (u32, NotificationEvent) gomap) gomap"
  m_gatherings :: "(gid, gathering) gomap"
  m_byCode :: "(string, gid) gomap"
  m_nextGID :: u32
  m_codeRand :: u32
  m_reservationTTL :: int

definition defaultJoinReservationTTL :: int where
  "defaultJoinReservationTTL = 8 * 1000000000"

definition NewMatchmaking :: matchmaking where
  "NewMatchmaking = \<lparr>m_FindByParticipantEnabled = False, m_SessionPartPersists = False,
     m_PublicStationFirst = False, m_JoinRespExistingCount = False, m_FriendPIDs = None,
     m_OnFriendSessionCreated = None, m_notif = [],
     m_gatherings = [], m_byCode = [], m_nextGID = 1, m_codeRand = 0x1234,
     m_reservationTTL = defaultJoinReservationTTL\<rparr>"

section \<open>Participants\<close>

fun containsPID :: "pid list \<Rightarrow> pid \<Rightarrow> bool" where
  "containsPID [] p = False"
| "containsPID (x # xs) p = (if x = p then True else containsPID xs p)"

fun removePID :: "pid list \<Rightarrow> pid \<Rightarrow> pid list" where
  "removePID [] p = []"
| "removePID (x # xs) p = (if x \<noteq> p then x # removePID xs p else removePID xs p)"

section \<open>Reservations\<close>

definition SetJoinReservationTTL :: "int \<Rightarrow> matchmaking \<Rightarrow> matchmaking" where
  "SetJoinReservationTTL ttl m =
     m\<lparr>m_reservationTTL := (if ttl \<le> 0 then defaultJoinReservationTTL else ttl)\<rparr>"

definition expireJoinReservations :: "gotime \<Rightarrow> gathering \<Rightarrow> gathering" where
  "expireJoinReservations now g =
     g\<lparr>g_reservations := filter (\<lambda>(p, expires). now < expires) (g_reservations g)\<rparr>"

definition occupiedSeats :: "gotime \<Rightarrow> gathering \<Rightarrow> gathering \<times> nat" where
  "occupiedSeats now g =
     (let g' = expireJoinReservations now g in (g', length (g_participants g') + length (g_reservations g')))"

definition reserveJoin :: "gotime \<Rightarrow> int \<Rightarrow> gathering \<Rightarrow> pid \<Rightarrow> gathering \<times> bool" where
  "reserveJoin now ttl g p =
     (if containsPID (g_participants g) p then (g\<lparr>g_reservations := gm_del p (g_reservations g)\<rparr>, True)
      else
        let g1 = expireJoinReservations now g;
            held = g1\<lparr>g_reservations := gm_put p (now + ttl) (g_reservations g1)\<rparr>
        in if gm_has (g_reservations g1) p then (held, True)
           else if ms_MaxParticipants (g_session g1) > 0 \<and>
                   length (g_participants g1) + length (g_reservations g1) \<ge> unat (ms_MaxParticipants (g_session g1))
           then (g1, False)
           else (held, True))"

definition commitReservedJoin :: "gotime \<Rightarrow> gathering \<Rightarrow> pid \<Rightarrow> gathering \<times> bool" where
  "commitReservedJoin now g p =
     (let released = g\<lparr>g_reservations := gm_del p (g_reservations g)\<rparr>
      in if containsPID (g_participants g) p then (released, False)
         else case gm_get (g_reservations g) p of
                None \<Rightarrow> (released, False)
              | Some expires \<Rightarrow>
                  if \<not> now < expires then (released, False)
                  else (released\<lparr>g_participants := g_participants g @ [p]\<rparr>, True))"

definition ReserveJoin :: "gotime \<Rightarrow> gid \<Rightarrow> pid \<Rightarrow> matchmaking \<Rightarrow> matchmaking \<times> bool" where
  "ReserveJoin now gid p m =
     (if p = 0 then (m, False)
      else case gm_get (m_gatherings m) gid of
             None \<Rightarrow> (m, False)
           | Some g \<Rightarrow>
               let (g', ok) = reserveJoin now (m_reservationTTL m) g p
               in (m\<lparr>m_gatherings := gm_put gid g' (m_gatherings m)\<rparr>, ok))"

definition CancelJoinReservation :: "gid \<Rightarrow> pid \<Rightarrow> matchmaking \<Rightarrow> matchmaking" where
  "CancelJoinReservation gid p m =
     (case gm_get (m_gatherings m) gid of
        None \<Rightarrow> m
      | Some g \<Rightarrow>
          m\<lparr>m_gatherings := gm_put gid (g\<lparr>g_reservations := gm_del p (g_reservations g)\<rparr>) (m_gatherings m)\<rparr>)"

section \<open>Seats of one gathering\<close>

definition capacity :: "gathering \<Rightarrow> nat" where
  "capacity g = unat (ms_MaxParticipants (g_session g))"

definition seats :: "gathering \<Rightarrow> nat" where
  "seats g = length (g_participants g) + length (g_reservations g)"

text \<open>
  Participants are distinct and hold no reservation. The seats taken, committed or reserved,
  are within the capacity; a capacity of 0 means no limit.
\<close>

definition seats_inv :: "gathering \<Rightarrow> bool" where
  "seats_inv g \<longleftrightarrow> distinct (g_participants g) \<and> gm_wf (g_reservations g) \<and>
     (\<forall>p \<in> set (g_participants g). \<not> gm_has (g_reservations g) p) \<and>
     (capacity g > 0 \<longrightarrow> seats g \<le> capacity g)"

lemma containsPID_iff [simp]: "containsPID xs p \<longleftrightarrow> p \<in> set xs"
  by (induction xs p rule: containsPID.induct) auto

lemma removePID_eq: "removePID xs p = removeAll p xs"
  by (induction xs p rule: removePID.induct) auto

text \<open>Reservations that have not run out at a given time.\<close>

definition live_at :: "gotime \<Rightarrow> (pid \<rightharpoonup> gotime) \<Rightarrow> (pid \<rightharpoonup> gotime)" where
  "live_at now pend p = (case pend p of None \<Rightarrow> None | Some e \<Rightarrow> if now < e then Some e else None)"

section \<open>The seat contract\<close>

text \<open>
  What a join handler relies on, stated over the set of members and the map of pending
  reservations of a store \<open>'g\<close>.
\<close>

locale seat_store =
  fixes inv :: "'g \<Rightarrow> bool"
    and members :: "'g \<Rightarrow> pid set"
    and pend :: "'g \<Rightarrow> (pid \<rightharpoonup> gotime)"
    and cap :: "'g \<Rightarrow> nat"
    and reserve :: "gotime \<Rightarrow> int \<Rightarrow> 'g \<Rightarrow> pid \<Rightarrow> 'g \<times> bool"
    and commit :: "gotime \<Rightarrow> 'g \<Rightarrow> pid \<Rightarrow> 'g \<times> bool"
  assumes reserve_inv: "inv g \<Longrightarrow> inv (fst (reserve now ttl g p))"
    and commit_inv: "inv g \<Longrightarrow> inv (fst (commit now g p))"
    and reserve_members: "members (fst (reserve now ttl g p)) = members g"
    and reserve_result: "inv g \<Longrightarrow> snd (reserve now ttl g p) \<longleftrightarrow>
      p \<in> members g \<or> live_at now (pend g) p \<noteq> None \<or> cap g = 0 \<or>
      card (members g) + card (dom (live_at now (pend g))) < cap g"
    and reserve_pend: "inv g \<Longrightarrow> p \<notin> members g \<Longrightarrow> pend (fst (reserve now ttl g p)) =
      (if snd (reserve now ttl g p) then (live_at now (pend g))(p \<mapsto> now + ttl) else live_at now (pend g))"
    and commit_result: "inv g \<Longrightarrow> snd (commit now g p) \<longleftrightarrow> p \<notin> members g \<and> live_at now (pend g) p \<noteq> None"
    and commit_members: "members (fst (commit now g p)) = (if snd (commit now g p) then insert p (members g) else members g)"
    and commit_pend: "inv g \<Longrightarrow> pend (fst (commit now g p)) = (pend g)(p := None)"
    and cap_kept: "cap (fst (reserve now ttl g p)) = cap g" "cap (fst (commit now g p)) = cap g"
    and within: "inv g \<Longrightarrow> cap g > 0 \<Longrightarrow> finite (members g) \<and> card (members g) \<le> cap g"
begin

text \<open>The join of the handlers: reserve, then commit.\<close>

definition join :: "gotime \<Rightarrow> gotime \<Rightarrow> int \<Rightarrow> 'g \<Rightarrow> pid \<Rightarrow> 'g \<times> bool" where
  "join now1 now2 ttl g p =
     (let (g1, ok) = reserve now1 ttl g p in if ok then commit now2 g1 p else (g1, False))"

lemma join_inv: "inv g \<Longrightarrow> inv (fst (join now1 now2 ttl g p))"
  by (auto simp: join_def split_beta Let_def reserve_inv commit_inv)

lemma join_members: "members (fst (join now1 now2 ttl g p)) = (if snd (join now1 now2 ttl g p) then insert p (members g) else members g)"
  by (auto simp: join_def split_beta Let_def reserve_members commit_members)

lemma join_in_time:
  assumes "inv g" and "p \<notin> members g" and "snd (reserve now1 ttl g p)"
  shows "snd (join now1 now2 ttl g p) \<longleftrightarrow> now2 < now1 + ttl"
  using assms reserve_pend [OF assms(1,2), of now1 ttl] commit_result [OF reserve_inv [OF assms(1)], of now2 now1 ttl p p]
  by (auto simp: join_def split_beta Let_def reserve_members live_at_def)

lemma join_twice: "inv g \<Longrightarrow> p \<in> members g \<Longrightarrow> \<not> snd (join now1 now2 ttl g p)"
  using commit_result [OF reserve_inv, of g now2 now1 ttl p p] by (auto simp: join_def split_beta Let_def reserve_members)

lemma full_refused:
  assumes "inv g" and "p \<notin> members g" and "live_at now (pend g) p = None" and "cap g > 0"
    and "card (members g) + card (dom (live_at now (pend g))) \<ge> cap g"
  shows "\<not> snd (reserve now ttl g p)"
  using assms reserve_result [OF assms(1), of now ttl p] by auto

end

section \<open>The model's gatherings satisfy it\<close>

abbreviation pending :: "gathering \<Rightarrow> (pid \<rightharpoonup> gotime)" where
  "pending g \<equiv> map_of (g_reservations g)"

lemma card_dom_gm: "gm_wf m \<Longrightarrow> card (dom (map_of m)) = length m"
  using distinct_card [of "map fst m"] by (simp add: gm_wf_def dom_map_of_conv_image_fst)

lemma map_of_live: "gm_wf m \<Longrightarrow> map_of (filter (\<lambda>(p, e). now < e) m) = live_at now (map_of m)"
proof (induction m)
  case (Cons x m)
  then show ?case
    by (cases x) (auto simp: live_at_def gm_wf_def fun_eq_iff map_of_eq_None_iff image_iff split: option.splits)
qed (simp add: live_at_def fun_eq_iff)

lemma expire_simps [simp]:
  "g_session (expireJoinReservations now g) = g_session g"
  "g_participants (expireJoinReservations now g) = g_participants g"
  by (simp_all add: expireJoinReservations_def)

lemma pending_expire: "gm_wf (g_reservations g) \<Longrightarrow> pending (expireJoinReservations now g) = live_at now (pending g)"
  by (simp add: expireJoinReservations_def map_of_live)

lemma has_expire: "gm_has (g_reservations (expireJoinReservations now g)) p \<Longrightarrow> gm_has (g_reservations g) p"
  by (auto simp: expireJoinReservations_def gm_has_def)

lemma seats_inv_expire:
  assumes "seats_inv g"
  shows "seats_inv (expireJoinReservations now g)" and "seats (expireJoinReservations now g) \<le> seats g"
proof -
  show le: "seats (expireJoinReservations now g) \<le> seats g"
    by (simp add: seats_def expireJoinReservations_def)
  show "seats_inv (expireJoinReservations now g)"
    using assms le has_expire [of now g]
    by (auto simp: seats_inv_def capacity_def) (auto simp: expireJoinReservations_def)
qed

lemma seats_inv_del: "seats_inv g \<Longrightarrow> seats_inv (g\<lparr>g_reservations := gm_del p (g_reservations g)\<rparr>)"
  using length_gm_del_le [of p "g_reservations g"]
  by (auto simp: seats_inv_def seats_def capacity_def simp del: length_gm_del_le)

lemma reserveJoin_cases:
  obtains (member) "p \<in> set (g_participants g)" "reserveJoin now ttl g p = (g\<lparr>g_reservations := gm_del p (g_reservations g)\<rparr>, True)"
  | (held) g1 where "p \<notin> set (g_participants g)" "g1 = expireJoinReservations now g"
      "gm_has (g_reservations g1) p \<or> capacity g1 = 0 \<or> seats g1 < capacity g1"
      "reserveJoin now ttl g p = (g1\<lparr>g_reservations := gm_put p (now + ttl) (g_reservations g1)\<rparr>, True)"
  | (full) g1 where "p \<notin> set (g_participants g)" "g1 = expireJoinReservations now g"
      "\<not> gm_has (g_reservations g1) p" "capacity g1 > 0" "seats g1 \<ge> capacity g1" "reserveJoin now ttl g p = (g1, False)"
proof -
  let ?g = "expireJoinReservations now g"
  have pos: "ms_MaxParticipants (g_session g) > 0 \<longleftrightarrow> 0 < capacity ?g"
    by (simp add: word_less_nat_alt capacity_def)
  have cap: "unat (ms_MaxParticipants (g_session g)) = capacity ?g" and seats: "length (g_participants g) + length (g_reservations ?g) = seats ?g"
    by (simp_all add: capacity_def seats_def)
  consider "p \<in> set (g_participants g)"
    | "p \<notin> set (g_participants g)" "gm_has (g_reservations ?g) p \<or> capacity ?g = 0 \<or> seats ?g < capacity ?g"
    | "p \<notin> set (g_participants g)" "\<not> gm_has (g_reservations ?g) p" "capacity ?g > 0" "seats ?g \<ge> capacity ?g"
    by linarith
  then show thesis
  proof cases
    case 1
    then show ?thesis by (intro member) (simp_all add: reserveJoin_def)
  next
    case 2
    then show ?thesis by (intro held [OF 2(1) refl 2(2)]) (auto simp: reserveJoin_def Let_def pos cap seats)
  next
    case 3
    then show ?thesis by (intro full [OF 3(1) refl 3(2-4)]) (auto simp: reserveJoin_def Let_def pos cap seats)
  qed
qed

lemma seats_inv_put:
  assumes "seats_inv g" and "p \<notin> set (g_participants g)" and "gm_has (g_reservations g) p \<or> capacity g = 0 \<or> seats g < capacity g"
  shows "seats_inv (g\<lparr>g_reservations := gm_put p e (g_reservations g)\<rparr>)"
  using assms by (auto simp: seats_inv_def seats_def capacity_def length_gm_put)

lemma reserveJoin_inv: "seats_inv g \<Longrightarrow> seats_inv (fst (reserveJoin now ttl g p))"
  using seats_inv_expire(1) [of g now]
  by (cases rule: reserveJoin_cases [of p g now ttl]) (auto intro: seats_inv_del seats_inv_put)

lemma length_gm_del_has: "gm_wf m \<Longrightarrow> gm_get m p = Some e \<Longrightarrow> Suc (length (gm_del p m)) = length m"
  by (cases "m = []") (auto simp: length_gm_del gm_has_get)

lemma commitReservedJoin_inv: "seats_inv g \<Longrightarrow> seats_inv (fst (commitReservedJoin now g p))"
  using seats_inv_del [of g p] length_gm_del_has [of "g_reservations g" p]
  by (auto simp: commitReservedJoin_def Let_def seats_inv_def seats_def capacity_def split: option.splits)

interpretation gseats: seat_store seats_inv "\<lambda>g. set (g_participants g)" "\<lambda>g. pending g" capacity reserveJoin commitReservedJoin
proof
  fix g :: gathering and now ttl :: int and p :: pid
  show "seats_inv g \<Longrightarrow> seats_inv (fst (reserveJoin now ttl g p))"
    by (rule reserveJoin_inv)
  show "seats_inv g \<Longrightarrow> seats_inv (fst (commitReservedJoin now g p))"
    by (rule commitReservedJoin_inv)
  show "set (g_participants (fst (reserveJoin now ttl g p))) = set (g_participants g)"
    by (cases rule: reserveJoin_cases [of p g now ttl]) auto
  show "capacity (fst (reserveJoin now ttl g p)) = capacity g"
    by (cases rule: reserveJoin_cases [of p g now ttl]) (auto simp: capacity_def)
  show "capacity (fst (commitReservedJoin now g p)) = capacity g"
    by (auto simp: commitReservedJoin_def Let_def capacity_def split: option.split)
  show "set (g_participants (fst (commitReservedJoin now g p))) =
      (if snd (commitReservedJoin now g p) then insert p (set (g_participants g)) else set (g_participants g))"
    by (auto simp: commitReservedJoin_def Let_def split: option.split)
  show "seats_inv g \<Longrightarrow> pending (fst (commitReservedJoin now g p)) = (pending g)(p := None)"
    by (auto simp: commitReservedJoin_def Let_def fun_eq_iff split: option.split)
  show "seats_inv g \<Longrightarrow> snd (commitReservedJoin now g p) \<longleftrightarrow> p \<notin> set (g_participants g) \<and> live_at now (pending g) p \<noteq> None"
    by (auto simp: commitReservedJoin_def Let_def live_at_def split: option.split)
  show "seats_inv g \<Longrightarrow> capacity g > 0 \<Longrightarrow> finite (set (g_participants g)) \<and> card (set (g_participants g)) \<le> capacity g"
    by (auto simp: seats_inv_def seats_def distinct_card)
  assume inv: "seats_inv g"
  let ?g = "expireJoinReservations now g"
  have wf: "gm_wf (g_reservations g)" "gm_wf (g_reservations ?g)"
    using inv seats_inv_expire(1) [OF inv, of now] by (simp_all add: seats_inv_def)
  have has: "gm_has (g_reservations ?g) p \<longleftrightarrow> live_at now (pending g) p \<noteq> None"
    using pending_expire [OF wf(1), of now] by (simp add: gm_has_get)
  have seats: "seats ?g = card (set (g_participants g)) + card (dom (live_at now (pending g)))"
    using inv card_dom_gm [OF wf(2)] pending_expire [OF wf(1), of now] by (simp add: seats_def seats_inv_def distinct_card)
  have cap: "capacity ?g = capacity g"
    by (simp add: capacity_def)
  show "snd (reserveJoin now ttl g p) \<longleftrightarrow> p \<in> set (g_participants g) \<or> live_at now (pending g) p \<noteq> None \<or>
      capacity g = 0 \<or> card (set (g_participants g)) + card (dom (live_at now (pending g))) < capacity g"
    by (cases rule: reserveJoin_cases [of p g now ttl]) (use has seats cap in auto)
  assume "p \<notin> set (g_participants g)"
  then show "pending (fst (reserveJoin now ttl g p)) =
      (if snd (reserveJoin now ttl g p) then (live_at now (pending g))(p \<mapsto> now + ttl) else live_at now (pending g))"
    by (cases rule: reserveJoin_cases [of p g now ttl])
      (auto simp: fun_eq_iff simp flip: pending_expire [OF wf(1)])
qed

lemma live_at_le: "dom (live_at now pend) \<subseteq> dom pend"
  by (auto simp: live_at_def split: option.splits)

section \<open>Properties\<close>

text \<open>
  C10: what reserving and committing a seat do. A seat is granted exactly to a participant, to a
  player whose reservation still runs, or when a seat is free among committed and live reserved
  ones; a granted seat is held until the time of the grant plus the configured duration, expired
  reservations are dropped, and the participants do not change. A commit succeeds exactly for a
  non-participant whose reservation still runs, makes it a participant, and uses the reservation
  up either way. Both keep the seats within the capacity.
\<close>

theorem reserve_commit_spec:
  assumes "seats_inv g"
  shows "(snd (reserveJoin now ttl g p) \<longleftrightarrow> p \<in> set (g_participants g) \<or> live_at now (pending g) p \<noteq> None \<or>
      capacity g = 0 \<or> card (set (g_participants g)) + card (dom (live_at now (pending g))) < capacity g) \<and>
    (p \<notin> set (g_participants g) \<longrightarrow> pending (fst (reserveJoin now ttl g p)) =
      (if snd (reserveJoin now ttl g p) then (live_at now (pending g))(p \<mapsto> now + ttl) else live_at now (pending g))) \<and>
    set (g_participants (fst (reserveJoin now ttl g p))) = set (g_participants g) \<and>
    seats_inv (fst (reserveJoin now ttl g p)) \<and>
    (snd (commitReservedJoin now g p) \<longleftrightarrow> p \<notin> set (g_participants g) \<and> live_at now (pending g) p \<noteq> None) \<and>
    set (g_participants (fst (commitReservedJoin now g p))) =
      (if snd (commitReservedJoin now g p) then insert p (set (g_participants g)) else set (g_participants g)) \<and>
    pending (fst (commitReservedJoin now g p)) = (pending g)(p := None) \<and>
    seats_inv (fst (commitReservedJoin now g p))"
  using gseats.reserve_result [OF assms, of now ttl p] gseats.reserve_pend [OF assms, of p now ttl]
    gseats.reserve_members [of now ttl g p] gseats.reserve_inv [OF assms, of now ttl p]
    gseats.commit_result [OF assms, of now p] gseats.commit_members [of now g p]
    gseats.commit_pend [OF assms, of now p] gseats.commit_inv [OF assms, of now p]
  by simp

definition sample_gathering :: gathering where
  "sample_gathering = \<lparr>g_session = sample_session\<lparr>ms_Gathering := (ms_Gathering sample_session)\<lparr>gt_MaxParticipants := 3\<rparr>\<rparr>,
     g_participants = [11, 12], g_hostConnID = 1, g_code = [], g_reservations = [(13, 500)]\<rparr>"

lemma sample_gathering_inv: "seats_inv sample_gathering"
  by (simp add: seats_inv_def sample_gathering_def gm_wf_def gm_has_def capacity_def seats_def sample_session_def)

theorem reserve_commit_spec_witness:
  "seats_inv sample_gathering \<and> \<not> snd (reserveJoin 100 50 sample_gathering 14) \<and>
   snd (reserveJoin 600 50 sample_gathering 14) \<and> snd (commitReservedJoin 499 sample_gathering 13) \<and>
   \<not> snd (commitReservedJoin 500 sample_gathering 13)"
  using reserve_commit_spec [OF sample_gathering_inv, of 100 50 14] reserve_commit_spec [OF sample_gathering_inv, of 600 50 14]
    reserve_commit_spec [OF sample_gathering_inv, of 499 50 13] reserve_commit_spec [OF sample_gathering_inv, of 500 50 13]
    sample_gathering_inv
  by (simp add: sample_gathering_def live_at_def capacity_def sample_session_def dom_def)

lemma occupied_card:
  assumes "seats_inv g"
  shows "snd (occupiedSeats t g) = card (set (g_participants g)) + card (dom (live_at t (pending g)))"
proof -
  have wf: "gm_wf (g_reservations g)" "gm_wf (g_reservations (expireJoinReservations t g))"
    using assms seats_inv_expire(1) [OF assms, of t] by (simp_all add: seats_inv_def)
  show ?thesis
    using assms card_dom_gm [OF wf(2)] pending_expire [OF wf(1), of t] by (simp add: occupiedSeats_def Let_def seats_inv_def distinct_card)
qed

lemma live_at_delete: "dom (live_at t (pend(p := None))) = dom (live_at t pend) - {p}" "q \<noteq> p \<Longrightarrow> live_at t (pend(p := None)) q = live_at t pend q"
  by (auto simp: live_at_def split: option.splits if_splits)

text \<open>Whether \<open>q\<close> gets a seat, from the seats taken at the time.\<close>

lemma reserve_occupied:
  "seats_inv g \<Longrightarrow> snd (reserveJoin t ttl g q) \<longleftrightarrow>
     q \<in> set (g_participants g) \<or> live_at t (pending g) q \<noteq> None \<or> capacity g = 0 \<or> snd (occupiedSeats t g) < capacity g"
  using gseats.reserve_result [of g t ttl q] by (simp add: occupied_card)

text \<open>
  C15: a reservation takes one seat until it runs out or is cancelled, and none afterwards. When \<open>ReserveJoin\<close> has granted a seat
  to a player who does not take part yet, compare the store with the one where the reservation is cancelled, at any time \<open>t\<close>. Before
  the configured duration has passed one more seat is occupied, so that in a gathering full by then another player is refused
  whom the cancelled reservation would let in. From then on the same number of seats is occupied, and every other player gets the same answer: it is as if the
  abandoned reservation had been cancelled.
\<close>

theorem reservation_takes_one_seat:
  assumes "seats_inv g" and "gm_get (m_gatherings m) gid = Some g" and "p \<notin> set (g_participants g)"
    and "ReserveJoin now gid p m = (m1, True)" and "q \<noteq> 0" and "q \<noteq> p"
  defines "m2 \<equiv> CancelJoinReservation gid p m1" and "until \<equiv> now + m_reservationTTL m"
  shows "\<exists>g1 g2. gm_get (m_gatherings m1) gid = Some g1 \<and> gm_get (m_gatherings m2) gid = Some g2 \<and>
     snd (occupiedSeats t g1) = snd (occupiedSeats t g2) + (if t < until then 1 else 0) \<and>
     (t \<ge> until \<longrightarrow> snd (ReserveJoin t gid q m1) = snd (ReserveJoin t gid q m2)) \<and>
     (t < until \<and> snd (occupiedSeats t g1) = capacity g \<and> q \<notin> set (g_participants g) \<and> live_at t (pending g1) q = None \<longrightarrow>
        \<not> snd (ReserveJoin t gid q m1) \<and> snd (ReserveJoin t gid q m2))"
proof -
  let ?ttl = "m_reservationTTL m"
  define g1 where "g1 = fst (reserveJoin now ?ttl g p)"
  define g2 where "g2 = g1\<lparr>g_reservations := gm_del p (g_reservations g1)\<rparr>"
  have r: "snd (reserveJoin now ?ttl g p)" and m1: "m1 = m\<lparr>m_gatherings := gm_put gid g1 (m_gatherings m)\<rparr>"
    using assms(2,4) by (auto simp: ReserveJoin_def Let_def g1_def split: if_splits prod.splits)
  have get: "gm_get (m_gatherings m1) gid = Some g1" "gm_get (m_gatherings m2) gid = Some g2" "m_reservationTTL m1 = ?ttl" "m_reservationTTL m2 = ?ttl"
    by (simp_all add: m1 m2_def CancelJoinReservation_def g2_def)
  have inv: "seats_inv g1" "seats_inv g2"
    using reserveJoin_inv [OF assms(1)] seats_inv_del by (simp_all add: g1_def g2_def)
  have same: "capacity g1 = capacity g" "capacity g2 = capacity g" "set (g_participants g1) = set (g_participants g)" "g_participants g2 = g_participants g1"
    using gseats.cap_kept(1) [of now ?ttl g p] gseats.reserve_members [of now ?ttl g p] by (simp_all add: g1_def g2_def capacity_def)
  have pend: "pending g1 p = Some until" "pending g2 = (pending g1)(p := None)"
    using gseats.reserve_pend [OF assms(1,3), of now ?ttl] r by (simp_all add: g1_def g2_def until_def fun_eq_iff)
  have "finite (dom (live_at t (pending g1)))"
    using finite_subset [OF live_at_le finite_dom_map_of] .
  moreover have "p \<in> dom (live_at t (pending g1)) \<longleftrightarrow> t < until"
    using pend(1) by (simp add: live_at_def dom_def)
  ultimately have card: "card (dom (live_at t (pending g1))) = card (dom (live_at t (pending g2))) + (if t < until then 1 else 0)"
    unfolding pend(2) live_at_delete(1) using card.remove [of "dom (live_at t (pending g1))" p] by auto
  then have occ: "snd (occupiedSeats t g1) = snd (occupiedSeats t g2) + (if t < until then 1 else 0)"
    unfolding occupied_card [OF inv(1)] occupied_card [OF inv(2)] same by simp
  have q: "live_at t (pending g2) q = live_at t (pending g1) q"
    using assms(6) live_at_delete(2) pend(2) by simp
  have res: "snd (ReserveJoin t gid q m1) = snd (reserveJoin t ?ttl g1 q)" "snd (ReserveJoin t gid q m2) = snd (reserveJoin t ?ttl g2 q)"
    using assms(5) get by (simp_all add: ReserveJoin_def Let_def split_beta)
  show ?thesis
    unfolding res reserve_occupied [OF inv(1)] reserve_occupied [OF inv(2)] same q using get(1,2) occ
    by (intro exI [of _ g1] exI [of _ g2]) auto
qed

theorem reservation_takes_one_seat_witness:
  "let m = NewMatchmaking\<lparr>m_gatherings := [(7, sample_gathering)]\<rparr>; m1 = fst (ReserveJoin 600 7 14 m); m2 = CancelJoinReservation 7 14 m1
   in \<not> snd (ReserveJoin 700 7 15 m1) \<and> snd (ReserveJoin 700 7 15 m2) \<and> snd (ReserveJoin 8000000600 7 15 m1) = snd (ReserveJoin 8000000600 7 15 m2)"
proof -
  define m where "m = NewMatchmaking\<lparr>m_gatherings := [(7, sample_gathering)]\<rparr>"
  define m1 where "m1 = fst (ReserveJoin 600 7 14 m)"
  have g: "gm_get (m_gatherings m) 7 = Some sample_gathering" "m_reservationTTL m = 8000000000" "capacity sample_gathering = 3"
    "(14 :: pid) \<notin> set (g_participants sample_gathering)" "(15 :: pid) \<notin> set (g_participants sample_gathering)"
    by (simp_all add: m_def NewMatchmaking_def defaultJoinReservationTTL_def sample_gathering_def sample_session_def capacity_def)
  have r: "ReserveJoin 600 7 14 m = (m1, True)" and "gm_get (m_gatherings m1) 7 = Some (sample_gathering\<lparr>g_reservations := [(14, 8000000600)]\<rparr>)"
    using g(2) by (auto simp: m1_def m_def ReserveJoin_def reserveJoin_def expireJoinReservations_def Let_def sample_gathering_def sample_session_def word_less_nat_alt)
  moreover have "snd (occupiedSeats 700 (sample_gathering\<lparr>g_reservations := [(14, 8000000600)]\<rparr>)) = 3"
    by (simp add: occupiedSeats_def expireJoinReservations_def sample_gathering_def Let_def)
  ultimately show ?thesis
    using reservation_takes_one_seat [OF sample_gathering_inv g(1,4) r, of 15 700] reservation_takes_one_seat [OF sample_gathering_inv g(1,4) r, of 15 8000000600] g(2,3,5)
    by (auto simp add: Let_def live_at_def simp flip: m_def m1_def)
qed

end
