(* ===== verification/Nex_Endpoint.thy ===== *)
theory Nex_Endpoint
  imports Nex_RMC
begin

text \<open>
  Connections and the connection table of an endpoint: the \<open>Connection\<close> and \<open>Endpoint\<close> structs of
  \<^verbatim>\<open>nextendo-nex/endpoint.go\<close> with the operations on the table, the NAT properties and the stations,
  and the eviction of idle connections of \<^verbatim>\<open>nextendo-nex/reaper.go\<close>.

  A \<open>*Connection\<close> is a reference into \<open>ep_sockets\<close>, the connections created so far in order; the
  Go map \<open>connections\<close> maps connection ids to references, so a connection stored under two ids is
  one object. The per-protocol handlers are not in this record: they are the definitions of the
  component theories. \<open>close_conn\<close> reports whether \<open>OnDisconnect\<close> runs.
\<close>

section \<open>Connections and endpoints\<close>

datatype conn_state = stateConnecting | stateConnected | stateClosed

record connection =
  c_RemoteAddr :: string
  c_ID :: u32
  c_PID :: pid
  c_CID :: u32
  c_stationURLs :: "station_url list"
  c_natMapV :: u32
  c_natFilterV :: u32
  c_sessionKey :: "byte list"
  c_connectionSig :: "byte list"
  c_minorVersion :: byte
  c_supportedFunc :: u32
  c_srcType :: byte
  c_srcPort :: byte
  c_dstType :: byte
  c_dstPort :: byte
  c_recvBuf :: "byte list"
  c_fragBuf :: "byte list"
  c_outReliable :: u16
  c_outPing :: u16
  c_pending :: "(u16, byte list) gomap"
  c_state :: conn_state
  c_lastSeen :: gotime

type_synonym cref = nat

record endpoint =
  ep_Settings :: settings
  ep_Secure :: bool
  ep_SecureKey :: "byte list"
  ep_sockets :: "connection list"
  ep_connections :: "(u32, cref) gomap"
  ep_connCounter :: u32

definition NewEndpoint :: "settings \<Rightarrow> endpoint" where
  "NewEndpoint s = \<lparr>ep_Settings = s, ep_Secure = False, ep_SecureKey = [], ep_sockets = [],
     ep_connections = [], ep_connCounter = 0\<rparr>"

definition NewConnection :: "string \<Rightarrow> connection" where
  "NewConnection remoteAddr =
     \<lparr>c_RemoteAddr = remoteAddr, c_ID = 0, c_PID = 0, c_CID = 0, c_stationURLs = [], c_natMapV = 0,
      c_natFilterV = 0, c_sessionKey = [], c_connectionSig = [], c_minorVersion = 0, c_supportedFunc = 0,
      c_srcType = 0, c_srcPort = 0, c_dstType = 0, c_dstPort = 0, c_recvBuf = [], c_fragBuf = [],
      c_outReliable = 1, c_outPing = 1, c_pending = [], c_state = stateConnecting, c_lastSeen = 0\<rparr>"

definition conn_at :: "endpoint \<Rightarrow> cref \<Rightarrow> connection" where
  "conn_at ep r = ep_sockets ep ! r"

definition upd_conn :: "cref \<Rightarrow> (connection \<Rightarrow> connection) \<Rightarrow> endpoint \<Rightarrow> endpoint" where
  "upd_conn r f ep = ep\<lparr>ep_sockets := (ep_sockets ep)[r := f (conn_at ep r)]\<rparr>"

text \<open>A new transport socket: the server creates a connection for it.\<close>

definition open_socket :: "string \<Rightarrow> endpoint \<Rightarrow> endpoint" where
  "open_socket addr ep = ep\<lparr>ep_sockets := ep_sockets ep @ [NewConnection addr]\<rparr>"

definition registerConnection :: "cref \<Rightarrow> endpoint \<Rightarrow> endpoint" where
  "registerConnection r ep =
     (let n = ep_connCounter ep + 1; ep1 = upd_conn r (c_ID_update (\<lambda>_. n)) (ep\<lparr>ep_connCounter := n\<rparr>)
      in ep1\<lparr>ep_connections := gm_put n r (ep_connections ep1)\<rparr>)"

definition unregisterConnection :: "cref \<Rightarrow> endpoint \<Rightarrow> endpoint" where
  "unregisterConnection r ep =
     (if c_ID (conn_at ep r) = 0 then ep
      else ep\<lparr>ep_connections := gm_del (c_ID (conn_at ep r)) (ep_connections ep)\<rparr>)"

definition FindConnectionByID :: "endpoint \<Rightarrow> u32 \<Rightarrow> cref option" where
  "FindConnectionByID ep i = gm_get (ep_connections ep) i"

text \<open>One turn of the loop over the table: keep the connection with the highest id.\<close>

definition newest_of :: "endpoint \<Rightarrow> pid \<Rightarrow> u32 \<times> cref \<Rightarrow> cref option \<Rightarrow> cref option" where
  "newest_of ep p e newest =
     (if c_PID (conn_at ep (snd e)) = p then
        (case newest of
           None \<Rightarrow> Some (snd e)
         | Some r \<Rightarrow> if c_ID (conn_at ep (snd e)) > c_ID (conn_at ep r) then Some (snd e) else Some r)
      else newest)"

definition FindConnectionByPID :: "endpoint \<Rightarrow> pid \<Rightarrow> cref option" where
  "FindConnectionByPID ep p = fold (newest_of ep p) (ep_connections ep) None"

definition ConnectionIDs :: "endpoint \<Rightarrow> u32 list" where
  "ConnectionIDs ep = map fst (ep_connections ep)"

record ConnInfo =
  ci_PID :: pid
  ci_ID :: u32
  ci_Addr :: string

definition SnapshotConnections :: "u32 list \<Rightarrow> endpoint \<Rightarrow> ConnInfo list" where
  "SnapshotConnections ord ep =
     List.map_filter (\<lambda>i. map_option (\<lambda>r. let c = conn_at ep r in \<lparr>ci_PID = c_PID c, ci_ID = c_ID c, ci_Addr = c_RemoteAddr c\<rparr>)
       (gm_get (ep_connections ep) i)) ord"

section \<open>NAT properties and stations\<close>

definition SetNATProps :: "u32 \<Rightarrow> u32 \<Rightarrow> connection \<Rightarrow> connection" where
  "SetNATProps natMap natFilter c = c\<lparr>c_natMapV := natMap, c_natFilterV := natFilter\<rparr>"

definition NATProps :: "connection \<Rightarrow> u32 \<times> u32" where
  "NATProps c = (c_natMapV c, c_natFilterV c)"

fun station_nat :: "station_url list \<Rightarrow> u32 \<times> u32" where
  "station_nat [] = (0, 0)"
| "station_nat (u # us) =
     (let nm = su_GetInt u ''natm''; nf = su_GetInt u ''natf''
      in if nm \<noteq> 0 \<or> nf \<noteq> 0 then (of_int nm, of_int nf) else station_nat us)"

definition NATBehaviour :: "connection \<Rightarrow> u32 \<times> u32" where
  "NATBehaviour c =
     (if c_natMapV c \<noteq> 0 then (c_natMapV c, c_natFilterV c)
      else if c_natFilterV c \<noteq> 0 then (0, c_natFilterV c)
      else station_nat (c_stationURLs c))"

definition SetStations :: "station_url list \<Rightarrow> connection \<Rightarrow> connection" where
  "SetStations urls c = c\<lparr>c_stationURLs := urls\<rparr>"

section \<open>Closing and evicting\<close>

definition close_conn :: "cref \<Rightarrow> endpoint \<Rightarrow> endpoint \<times> bool" where
  "close_conn r ep =
     (if c_state (conn_at ep r) = stateClosed then (ep, False)
      else (unregisterConnection r (upd_conn r (c_state_update (\<lambda>_. stateClosed)) ep), True))"

text \<open>Closing several connections in turn, with the references whose \<open>OnDisconnect\<close> runs.\<close>

fun close_all :: "cref list \<Rightarrow> endpoint \<Rightarrow> endpoint \<times> cref list" where
  "close_all [] ep = (ep, [])"
| "close_all (r # rs) ep =
     (let (ep1, hook) = close_conn r ep; (ep2, hooks) = close_all rs ep1
      in (ep2, if hook then r # hooks else hooks))"

definition snapshotConns :: "endpoint \<Rightarrow> cref list" where
  "snapshotConns ep = map snd (ep_connections ep)"

definition IdleFor :: "gotime \<Rightarrow> connection \<Rightarrow> int" where
  "IdleFor now c = (if c_lastSeen c = 0 then 0 else now - c_lastSeen c)"

definition idle_conn :: "(cref \<Rightarrow> gotime) \<Rightarrow> int \<Rightarrow> endpoint \<Rightarrow> cref \<Rightarrow> bool" where
  "idle_conn now maxIdle ep r \<longleftrightarrow>
     (let idle = IdleFor (now r) (conn_at ep r) in idle > 0 \<and> idle \<ge> maxIdle)"

text \<open>
  \<open>now r\<close> is the reading of the clock when the loop comes to the connection \<open>r\<close>; closing a
  connection does not change when the others were last seen.
\<close>

definition ReapIdle :: "(cref \<Rightarrow> gotime) \<Rightarrow> int \<Rightarrow> endpoint \<Rightarrow> endpoint \<times> cref list \<times> nat" where
  "ReapIdle now maxIdle ep =
     (if maxIdle \<le> 0 then (ep, [], 0)
      else let victims = filter (idle_conn now maxIdle ep) (snapshotConns ep); (ep', hooks) = close_all victims ep
           in (ep', hooks, length victims))"

definition KickPID :: "pid \<Rightarrow> endpoint \<Rightarrow> endpoint \<times> cref list \<times> nat" where
  "KickPID p ep =
     (if p = 0 then (ep, [], 0)
      else let victims = filter (\<lambda>r. c_PID (conn_at ep r) = p) (snapshotConns ep); (ep', hooks) = close_all victims ep
           in (ep', hooks, length victims))"

definition KickConnection :: "u32 \<Rightarrow> endpoint \<Rightarrow> endpoint \<times> cref list \<times> bool" where
  "KickConnection i ep =
     (case find (\<lambda>r. c_ID (conn_at ep r) = i) (snapshotConns ep) of
        None \<Rightarrow> (ep, [], False)
      | Some r \<Rightarrow> (let (ep', hook) = close_conn r ep in (ep', if hook then [r] else [], True)))"

definition envSeconds :: "string \<Rightarrow> int \<Rightarrow> int" where
  "envSeconds v def =
     (if v \<noteq> '''' \<and> snd (Atoi v) \<and> fst (Atoi v) \<ge> 0 then wrap64 (fst (Atoi v) * 1000000000)
      else wrap64 (def * 1000000000))"

definition ReapIdleTimeout :: "string \<Rightarrow> int" where
  "ReapIdleTimeout v = envSeconds v 600"

section \<open>The newest connection of a player\<close>

definition newest_inv :: "endpoint \<Rightarrow> pid \<Rightarrow> (u32 \<times> cref) set \<Rightarrow> cref option \<Rightarrow> bool" where
  "newest_inv ep p es newest \<longleftrightarrow>
     (case newest of
        None \<Rightarrow> (\<forall>e \<in> es. c_PID (conn_at ep (snd e)) \<noteq> p)
      | Some r \<Rightarrow> r \<in> snd ` es \<and> c_PID (conn_at ep r) = p \<and>
          (\<forall>e \<in> es. c_PID (conn_at ep (snd e)) = p \<longrightarrow> c_ID (conn_at ep (snd e)) \<le> c_ID (conn_at ep r)))"

lemma newest_inv_step: "newest_inv ep p es newest \<Longrightarrow> newest_inv ep p (insert e es) (newest_of ep p e newest)"
  by (auto simp: newest_inv_def newest_of_def split: option.splits)

lemma newest_inv_fold: "newest_inv ep p es newest \<Longrightarrow> newest_inv ep p (es \<union> set xs) (fold (newest_of ep p) xs newest)"
proof (induction xs arbitrary: es newest)
  case Nil
  then show ?case by simp
next
  case (Cons x xs)
  then show ?case using Cons.IH [OF newest_inv_step [OF Cons.prems]] by simp
qed

lemma FindConnectionByPID_inv: "newest_inv ep p (set (ep_connections ep)) (FindConnectionByPID ep p)"
  using newest_inv_fold [of ep p "{}" None "ep_connections ep"]
  by (simp add: FindConnectionByPID_def newest_inv_def)

section \<open>Table invariant\<close>

definition conn_entry_ok :: "endpoint \<Rightarrow> u32 \<times> cref \<Rightarrow> bool" where
  "conn_entry_ok ep e \<longleftrightarrow> snd e < length (ep_sockets ep) \<and> c_ID (conn_at ep (snd e)) = fst e \<and>
     fst e \<noteq> 0 \<and> c_state (conn_at ep (snd e)) = stateConnected"

definition ep_wf :: "endpoint \<Rightarrow> bool" where
  "ep_wf ep \<longleftrightarrow> gm_wf (ep_connections ep) \<and> list_all (conn_entry_ok ep) (ep_connections ep)"

lemma conn_at_upd [simp]:
  "r < length (ep_sockets ep) \<Longrightarrow> conn_at (upd_conn r f ep) r' = (if r' = r then f (conn_at ep r) else conn_at ep r')"
  by (simp add: conn_at_def upd_conn_def)

lemma upd_conn_simps [simp]:
  "ep_connections (upd_conn r f ep) = ep_connections ep" "ep_connCounter (upd_conn r f ep) = ep_connCounter ep"
  "length (ep_sockets (upd_conn r f ep)) = length (ep_sockets ep)"
  by (simp_all add: upd_conn_def)

lemma conn_at_table [simp]:
  "conn_at (ep\<lparr>ep_connections := m\<rparr>) r = conn_at ep r" "conn_at (ep\<lparr>ep_connCounter := n\<rparr>) r = conn_at ep r"
  by (simp_all add: conn_at_def)

lemma ep_wf_New: "ep_wf (NewEndpoint s)"
  by (simp add: ep_wf_def NewEndpoint_def)

lemma ep_wf_open: "ep_wf ep \<Longrightarrow> ep_wf (open_socket addr ep)"
  by (auto simp: ep_wf_def open_socket_def list_all_iff conn_entry_ok_def conn_at_def nth_append)

lemma ep_wfD:
  assumes "ep_wf ep" and "(i, r) \<in> set (ep_connections ep)"
  shows "r < length (ep_sockets ep)" "c_ID (conn_at ep r) = i" "i \<noteq> 0" "c_state (conn_at ep r) = stateConnected"
  using assms by (auto simp: ep_wf_def list_all_iff conn_entry_ok_def)

lemma ep_wf_ref_unique: "ep_wf ep \<Longrightarrow> (i, r) \<in> set (ep_connections ep) \<Longrightarrow> (j, r) \<in> set (ep_connections ep) \<Longrightarrow> i = j"
  using ep_wfD(2) by blast

text \<open>A connection that is not in the table yet takes the next id.\<close>

lemma ep_wf_register:
  assumes "ep_wf ep" and "r < length (ep_sockets ep)" and "r \<notin> snd ` set (ep_connections ep)"
    and "ep_connCounter ep + 1 \<noteq> 0" and "\<not> gm_has (ep_connections ep) (ep_connCounter ep + 1)"
    and "c_state (conn_at ep r) = stateConnected"
  shows "ep_wf (registerConnection r ep)"
  using assms
  by (auto simp: ep_wf_def registerConnection_def Let_def list_all_iff conn_entry_ok_def gm_in_put
      upd_conn_def conn_at_def nth_list_update split: if_splits)

lemma close_conn_result:
  assumes "ep_wf ep" and "(i, r) \<in> set (ep_connections ep)"
  shows "snd (close_conn r ep)" "ep_connections (fst (close_conn r ep)) = gm_del i (ep_connections ep)"
    "ep_sockets (fst (close_conn r ep)) = (ep_sockets ep)[r := (conn_at ep r)\<lparr>c_state := stateClosed\<rparr>]"
  using ep_wfD [OF assms]
  by (simp_all add: close_conn_def unregisterConnection_def) (simp add: upd_conn_def)

lemma ep_wf_close:
  assumes wf: "ep_wf ep" and e: "(i, r) \<in> set (ep_connections ep)"
  shows "ep_wf (fst (close_conn r ep))"
proof -
  have "conn_entry_ok (fst (close_conn r ep)) (j, q)" if "(j, q) \<in> set (gm_del i (ep_connections ep))" for j q
  proof -
    from that have j: "j \<noteq> i" "(j, q) \<in> set (ep_connections ep)"
      by (simp_all add: gm_in_del)
    then have "q \<noteq> r"
      using ep_wf_ref_unique [OF wf] e by blast
    then show ?thesis
      using ep_wfD [OF wf j(2)] close_conn_result(3) [OF wf e] by (simp add: conn_entry_ok_def conn_at_def)
  qed
  then show ?thesis
    using wf close_conn_result(2) [OF wf e] by (auto simp: ep_wf_def list_all_iff)
qed

text \<open>Closing the connections of several entries removes exactly these entries.\<close>

lemma close_all_result:
  assumes "ep_wf ep" and "distinct rs" and "set rs \<subseteq> snd ` set (ep_connections ep)"
  shows "snd (close_all rs ep) = rs \<and> ep_wf (fst (close_all rs ep)) \<and>
    set (ep_connections (fst (close_all rs ep))) = {e \<in> set (ep_connections ep). snd e \<notin> set rs} \<and>
    (\<forall>r. r \<notin> set rs \<longrightarrow> conn_at (fst (close_all rs ep)) r = conn_at ep r)"
  using assms
proof (induction rs arbitrary: ep)
  case Nil
  then show ?case by simp
next
  case (Cons r rs)
  then obtain i where e: "(i, r) \<in> set (ep_connections ep)" by auto
  let ?ep = "fst (close_conn r ep)"
  note res = close_conn_result [OF Cons.prems(1) e]
  have ep: "ep_wf ?ep"
    by (rule ep_wf_close [OF Cons.prems(1) e])
  have del: "set (ep_connections ?ep) = {e \<in> set (ep_connections ep). snd e \<noteq> r}"
  proof -
    have "j \<noteq> i \<longleftrightarrow> q \<noteq> r" if "(j, q) \<in> set (ep_connections ep)" for j q
      using ep_wf_ref_unique [OF Cons.prems(1) e, of j] that e Cons.prems(1)
      by (metis ep_wf_def gm_in_get option.inject)
    then show ?thesis
      unfolding res(2) by (auto simp: gm_in_del)
  qed
  have "set rs \<subseteq> snd ` set (ep_connections ?ep)"
  proof
    fix x assume x: "x \<in> set rs"
    then obtain j where "(j, x) \<in> set (ep_connections ep)"
      using Cons.prems(3) by auto
    moreover have "x \<noteq> r"
      using x Cons.prems(2) by auto
    ultimately show "x \<in> snd ` set (ep_connections ?ep)"
      unfolding del by (auto intro: rev_image_eqI)
  qed
  note IH = Cons.IH [OF ep _ this]
  have "conn_at ?ep q = conn_at ep q" if "q \<noteq> r" for q
    using that res(3) by (simp add: conn_at_def)
  then show ?case
    using IH Cons.prems(2) res(1) del by (auto simp: split_beta Let_def)
qed

lemma distinct_snapshot: "ep_wf ep \<Longrightarrow> distinct (snapshotConns ep)"
  using ep_wf_ref_unique [of ep] ep_wfD(2) [of ep]
  by (auto simp: snapshotConns_def distinct_map inj_on_def ep_wf_def gm_wf_def)

lemma newest_unique:
  assumes "ep_wf ep" and "newest_inv ep p (set (ep_connections ep)) a" and "newest_inv ep p (set (ep_connections ep)) b"
  shows "a = b"
proof (cases a)
  case None
  then show ?thesis using assms by (cases b) (auto simp: newest_inv_def)
next
  case (Some r)
  then obtain i where r: "(i, r) \<in> set (ep_connections ep)" "c_PID (conn_at ep r) = p"
    using assms(2) by (auto simp: newest_inv_def)
  then obtain q where b: "b = Some q"
    using assms(3) by (cases b) (auto simp: newest_inv_def)
  then obtain j where q: "(j, q) \<in> set (ep_connections ep)" "c_PID (conn_at ep q) = p"
    using assms(3) by (auto simp: newest_inv_def)
  have "i = j"
    using assms(2,3) Some b r q ep_wfD(2) [OF assms(1)] by (force simp: newest_inv_def)
  moreover have "gm_wf (ep_connections ep)"
    using assms(1) by (simp add: ep_wf_def)
  ultimately have "Some r = Some q"
    using gm_in_get r(1) q(1) by metis
  then show ?thesis using Some b by simp
qed

lemma FindConnectionByPID_eqI:
  "ep_wf ep \<Longrightarrow> newest_inv ep p (set (ep_connections ep)) a \<Longrightarrow> FindConnectionByPID ep p = a"
  using newest_unique FindConnectionByPID_inv by blast

lemma newest_inv_subset:
  assumes "newest_inv ep p es a" and "\<And>e. e \<in> es \<Longrightarrow> c_PID (conn_at ep (snd e)) = p \<Longrightarrow> e \<in> fs" and "fs \<subseteq> es"
    and "\<And>r. r \<in> snd ` fs \<Longrightarrow> conn_at ep' r = conn_at ep r"
  shows "newest_inv ep' p fs a"
proof (cases a)
  case None
  then show ?thesis using assms by (auto simp: newest_inv_def)
next
  case (Some r)
  then obtain i where "(i, r) \<in> es" "c_PID (conn_at ep r) = p"
    using assms(1) by (auto simp: newest_inv_def)
  then have "(i, r) \<in> fs" using assms(2) by simp
  then have "r \<in> snd ` fs" by force
  then show ?thesis
    using assms Some by (auto simp: newest_inv_def)
qed

section \<open>Properties\<close>

text \<open>
  A player's connection is always the newest one. The lookup by PID finds a registered
  connection of that player exactly when there is one, and among several it is the one with the
  highest connection id; the answer does not depend on the order in which the table is visited.
\<close>

lemma FindConnectionByPID_newest:
  assumes "ep_wf ep" and "set table = set (ep_connections ep)"
  shows "fold (newest_of ep p) table None = FindConnectionByPID ep p \<and>
    (FindConnectionByPID ep p = None \<longleftrightarrow> (\<forall>(i, r) \<in> set (ep_connections ep). c_PID (conn_at ep r) \<noteq> p)) \<and>
    (\<forall>r. FindConnectionByPID ep p = Some r \<longrightarrow>
       (c_ID (conn_at ep r), r) \<in> set (ep_connections ep) \<and> c_PID (conn_at ep r) = p \<and>
       (\<forall>(i, q) \<in> set (ep_connections ep). c_PID (conn_at ep q) = p \<longrightarrow> i \<le> c_ID (conn_at ep r)))"
proof -
  have "newest_inv ep p (set (ep_connections ep)) (fold (newest_of ep p) table None)"
    using newest_inv_fold [of ep p "{}" None table] assms(2) by (simp add: newest_inv_def)
  moreover note FindConnectionByPID_inv [of ep p]
  ultimately show ?thesis
    using newest_unique [OF assms(1)] ep_wfD(2) [OF assms(1)]
    by (cases "FindConnectionByPID ep p") (fastforce simp: newest_inv_def)+
qed

definition sample_endpoint :: endpoint where
  "sample_endpoint = (NewEndpoint (NewSwitchSettings [] 40000))\<lparr>
     ep_sockets := [(NewConnection ''a'')\<lparr>c_ID := 1, c_PID := 7, c_state := stateConnected\<rparr>,
                    (NewConnection ''b'')\<lparr>c_ID := 2, c_PID := 8, c_state := stateConnected\<rparr>,
                    (NewConnection ''c'')\<lparr>c_ID := 3, c_PID := 7, c_state := stateConnected\<rparr>],
     ep_connections := [(1, 0), (2, 1), (3, 2)], ep_connCounter := 3\<rparr>"

lemma sample_endpoint_wf: "ep_wf sample_endpoint"
  by (simp add: sample_endpoint_def ep_wf_def gm_wf_def conn_entry_ok_def conn_at_def)

lemma FindConnectionByPID_newest_example:
  "ep_wf sample_endpoint \<and> FindConnectionByPID sample_endpoint 7 = Some 2 \<and>
   fold (newest_of sample_endpoint 7) [(3, 2), (1, 0), (2, 1)] None = Some 2"
  using FindConnectionByPID_newest [OF sample_endpoint_wf, of "[(3, 2), (1, 0), (2, 1)]" 7] sample_endpoint_wf
  by (auto simp: sample_endpoint_def FindConnectionByPID_def newest_of_def conn_at_def)

section \<open>Eviction\<close>

text \<open>Every entry of the table is of a connection that exists.\<close>

definition refs_ok :: "endpoint \<Rightarrow> bool" where
  "refs_ok ep \<longleftrightarrow> (\<forall>e \<in> set (ep_connections ep). snd e < length (ep_sockets ep))"

lemma refs_ok_simps [simp]:
  "refs_ok (upd_conn r f ep) = refs_ok ep" "refs_ok (NewEndpoint s)" "refs_ok ep \<Longrightarrow> refs_ok (open_socket addr ep)"
  by (auto simp: refs_ok_def upd_conn_def NewEndpoint_def open_socket_def)

lemma refs_ok_close: "refs_ok ep \<Longrightarrow> refs_ok (fst (close_conn r ep))"
  by (auto simp: refs_ok_def close_conn_def unregisterConnection_def upd_conn_def gm_in_del)

lemma refs_ok_register:
  assumes "refs_ok ep" and "r < length (ep_sockets ep)"
  shows "refs_ok (registerConnection r ep)"
proof -
  have "set (gm_put k v m) \<subseteq> insert (k, v) (set m)" for k v and m :: "(u32, cref) gomap"
    by (induction m) auto
  from subsetD [OF this] show ?thesis
    using assms by (fastforce simp: refs_ok_def registerConnection_def Let_def upd_conn_def)
qed

text \<open>
  What an eviction of the connections with \<open>P\<close> is: they are closed and the others stay as they are; \<open>OnDisconnect\<close>
  runs once for each that was not closed before; what leaves the table is what these stand under by their own ids;
  and the entries of evicted connections are counted.
\<close>

definition evicts :: "(cref \<Rightarrow> bool) \<Rightarrow> endpoint \<Rightarrow> endpoint \<times> cref list \<times> nat \<Rightarrow> bool" where
  "evicts P ep result \<longleftrightarrow>
     (case result of (ep', hooks, n) \<Rightarrow>
        let victims = {r. r \<in> snd ` set (ep_connections ep) \<and> P r}
        in length (ep_sockets ep') = length (ep_sockets ep) \<and>
           (\<forall>r. conn_at ep' r = (if r \<in> victims then (conn_at ep r)\<lparr>c_state := stateClosed\<rparr> else conn_at ep r)) \<and>
           distinct hooks \<and> set hooks = {r \<in> victims. c_state (conn_at ep r) \<noteq> stateClosed} \<and>
           set (ep_connections ep') = {e \<in> set (ep_connections ep). fst e = 0 \<or> fst e \<notin> (c_ID \<circ> conn_at ep) ` set hooks} \<and>
           n = length (filter (P \<circ> snd) (ep_connections ep)))"

lemma close_all_exact:
  assumes "set rs \<subseteq> {..<length (ep_sockets ep)}" and "close_all rs ep = (ep', hooks)"
  shows "length (ep_sockets ep') = length (ep_sockets ep) \<and>
    (\<forall>r. conn_at ep' r = (if r \<in> set rs then (conn_at ep r)\<lparr>c_state := stateClosed\<rparr> else conn_at ep r)) \<and>
    distinct hooks \<and> set hooks = {r \<in> set rs. c_state (conn_at ep r) \<noteq> stateClosed} \<and>
    set (ep_connections ep') = {e \<in> set (ep_connections ep). fst e = 0 \<or> fst e \<notin> (c_ID \<circ> conn_at ep) ` set hooks}"
  using assms
proof (induction rs arbitrary: ep ep' hooks)
  case Nil
  then show ?case by simp
next
  case (Cons r rs)
  obtain ep1 hook where c: "close_conn r ep = (ep1, hook)"
    by fastforce
  obtain hooks1 where rest: "close_all rs ep1 = (ep', hooks1)" and hooks: "hooks = (if hook then r # hooks1 else hooks1)"
    using Cons.prems(2) c by (auto simp: Let_def split: prod.splits)
  have r: "r < length (ep_sockets ep)"
    using Cons.prems(1) by simp
  have one: "length (ep_sockets ep1) = length (ep_sockets ep)"
    "\<And>q. conn_at ep1 q = (if q = r then (conn_at ep r)\<lparr>c_state := stateClosed\<rparr> else conn_at ep q)"
    "hook \<longleftrightarrow> c_state (conn_at ep r) \<noteq> stateClosed"
    "set (ep_connections ep1) = {e \<in> set (ep_connections ep). fst e = 0 \<or> \<not> (hook \<and> fst e = c_ID (conn_at ep r))}"
    using c r by (auto simp: close_conn_def unregisterConnection_def gm_in_del split: if_splits)
  have "set rs \<subseteq> {..<length (ep_sockets ep1)}"
    using Cons.prems(1) one(1) by simp
  note IH = Cons.IH [OF this rest]
  have ids: "(c_ID \<circ> conn_at ep1) ` A = (c_ID \<circ> conn_at ep) ` A" for A
    by (rule image_cong) (simp_all add: one(2))
  have "r \<notin> set hooks1"
    using IH by (simp add: one(2))
  then show ?case
    using IH unfolding hooks one(1,3,4) ids by (auto simp: one(2))
qed

lemma evicts_filter:
  assumes "refs_ok ep" and "close_all (filter P (snapshotConns ep)) ep = (ep', hooks)"
  shows "evicts P ep (ep', hooks, length (filter P (snapshotConns ep)))"
proof -
  have "set (filter P (snapshotConns ep)) \<subseteq> {..<length (ep_sockets ep)}"
    using assms(1) by (auto simp: refs_ok_def snapshotConns_def)
  moreover have "set (filter P (snapshotConns ep)) = {r. r \<in> snd ` set (ep_connections ep) \<and> P r}"
    by (auto simp: snapshotConns_def)
  ultimately show ?thesis
    using close_all_exact [OF _ assms(2)] by (simp add: evicts_def snapshotConns_def filter_map Let_def)
qed

lemma evictions:
  assumes "refs_ok ep"
  shows "0 < maxIdle \<Longrightarrow> evicts (idle_conn now maxIdle ep) ep (ReapIdle now maxIdle ep)"
    and "p \<noteq> 0 \<Longrightarrow> evicts (\<lambda>r. c_PID (conn_at ep r) = p) ep (KickPID p ep)"
  using evicts_filter [OF assms] by (simp_all add: ReapIdle_def KickPID_def Let_def split_beta)

text \<open>Where every connection is in the table once, under its own id, a kicked account cannot be found any more, and the others as before.\<close>

lemma kicked_not_found:
  assumes wf: "ep_wf ep" and p: "p \<noteq> 0" and q: "q \<noteq> p"
  shows "FindConnectionByPID (fst (KickPID p ep)) p = None \<and> FindConnectionByPID (fst (KickPID p ep)) q = FindConnectionByPID ep q"
proof -
  let ?K = "filter (\<lambda>r. c_PID (conn_at ep r) = p) (snapshotConns ep)"
  have "set ?K \<subseteq> snd ` set (ep_connections ep)"
    by (auto simp: snapshotConns_def)
  note ca = close_all_result [OF wf distinct_filter [OF distinct_snapshot [OF wf]] this]
  have k: "set (ep_connections (fst (close_all ?K ep))) = {(i, r) \<in> set (ep_connections ep). c_PID (conn_at ep r) \<noteq> p}"
    "ep_wf (fst (close_all ?K ep))" and kc: "\<And>r. c_PID (conn_at ep r) \<noteq> p \<Longrightarrow> conn_at (fst (close_all ?K ep)) r = conn_at ep r"
    using ca by (auto simp: snapshotConns_def)
  have "FindConnectionByPID (fst (close_all ?K ep)) p = None"
    using k kc by (intro FindConnectionByPID_eqI) (auto simp: newest_inv_def)
  moreover have "FindConnectionByPID (fst (close_all ?K ep)) q = FindConnectionByPID ep q"
    using k kc q
    by (intro FindConnectionByPID_eqI newest_inv_subset [OF FindConnectionByPID_inv]) auto
  ultimately show ?thesis
    using p by (simp add: KickPID_def Let_def split_beta)
qed

end
