(* ===== verification/Nex_Nat.thy ===== *)
theory Nex_Nat
  imports Nex_Endpoint
begin

text \<open>
  NAT classes and compatibility, from \<^verbatim>\<open>nextendo-nex/matchmaking_handlers.go\<close>: how a client's reported
  NAT behaviour is bucketed and which pairs of classes may share a lobby.
\<close>

datatype natClass = natUnknown | natOpen | natModerate | natStrict

definition classifyNAT :: "u32 \<times> u32 \<Rightarrow> natClass" where
  "classifyNAT b =
     (let natMap = fst b; natFilter = snd b
      in if natMap = 0 \<and> natFilter = 0 then natUnknown
         else if natMap \<le> 1 \<and> natFilter \<le> 1 then natOpen
         else if natMap \<le> 1 then natModerate
         else natStrict)"

definition natCompatible :: "natClass \<Rightarrow> natClass \<Rightarrow> bool" where
  "natCompatible a b =
     (if a = natUnknown \<or> b = natUnknown then True
      else if a = natStrict \<and> (b = natStrict \<or> b = natModerate) then False
      else if b = natStrict \<and> (a = natStrict \<or> a = natModerate) then False
      else True)"

definition pidNATClass :: "endpoint \<Rightarrow> pid \<Rightarrow> natClass" where
  "pidNATClass ep p =
     (case FindConnectionByPID ep p of None \<Rightarrow> natUnknown | Some c \<Rightarrow> classifyNAT (NATBehaviour (conn_at ep c)))"

fun gatheringNATCompatible :: "endpoint \<Rightarrow> natClass \<Rightarrow> pid list \<Rightarrow> pid \<Rightarrow> bool" where
  "gatheringNATCompatible ep joiner [] joinerPID = True"
| "gatheringNATCompatible ep joiner (p # ps) joinerPID =
     (if p = joinerPID then gatheringNATCompatible ep joiner ps joinerPID
      else if \<not> natCompatible joiner (pidNATClass ep p) then False
      else gatheringNATCompatible ep joiner ps joinerPID)"

lemma natCompatible_sym: "natCompatible a b = natCompatible b a"
  by (cases a; cases b) (simp_all add: natCompatible_def)

lemma natCompatible_iff:
  "natCompatible a b \<longleftrightarrow> \<not> (a = natStrict \<and> b \<in> {natStrict, natModerate} \<or> b = natStrict \<and> a \<in> {natStrict, natModerate})"
  by (cases a; cases b) (simp_all add: natCompatible_def)

lemma gatheringNATCompatible_iff:
  "gatheringNATCompatible ep joiner ps j \<longleftrightarrow> (\<forall>p \<in> set ps. p \<noteq> j \<longrightarrow> natCompatible joiner (pidNATClass ep p))"
  by (induction ep joiner ps j rule: gatheringNATCompatible.induct) auto

end
