(* ===== verification/Nex_Config.thy ===== *)
theory Nex_Config
  imports Nex_Types
begin

text \<open>
  What the server reads from its environment: the solo accounts of \<^verbatim>\<open>nextendo-nex/solo_isolate.go\<close>, the
  switches of \<^verbatim>\<open>matchmaking_handlers.go\<close>, \<^verbatim>\<open>nattraversal.go\<close> and \<^verbatim>\<open>server/main.go\<close>, and the
  functions of Go's standard library they use. A variable that is not set is the empty string.
\<close>

section \<open>Go's TrimSpace and ParseUint\<close>

text \<open>The UTF-8 encodings of the code points Go takes for white space.\<close>

definition go_spaces :: "string list" where
  "go_spaces =
     [[CHR 0x09], [CHR 0x0A], [CHR 0x0B], [CHR 0x0C], [CHR 0x0D], [CHR 0x20],
      [CHR 0xC2, CHR 0x85], [CHR 0xC2, CHR 0xA0], [CHR 0xE1, CHR 0x9A, CHR 0x80],
      [CHR 0xE2, CHR 0x80, CHR 0x80], [CHR 0xE2, CHR 0x80, CHR 0x81], [CHR 0xE2, CHR 0x80, CHR 0x82],
      [CHR 0xE2, CHR 0x80, CHR 0x83], [CHR 0xE2, CHR 0x80, CHR 0x84], [CHR 0xE2, CHR 0x80, CHR 0x85],
      [CHR 0xE2, CHR 0x80, CHR 0x86], [CHR 0xE2, CHR 0x80, CHR 0x87], [CHR 0xE2, CHR 0x80, CHR 0x88],
      [CHR 0xE2, CHR 0x80, CHR 0x89], [CHR 0xE2, CHR 0x80, CHR 0x8A], [CHR 0xE2, CHR 0x80, CHR 0xA8],
      [CHR 0xE2, CHR 0x80, CHR 0xA9], [CHR 0xE2, CHR 0x80, CHR 0xAF], [CHR 0xE2, CHR 0x81, CHR 0x9F],
      [CHR 0xE3, CHR 0x80, CHR 0x80]]"

definition starts_with :: "string \<Rightarrow> string \<Rightarrow> bool" where
  "starts_with pre s \<longleftrightarrow> take (length pre) s = pre"

function trim_left :: "string list \<Rightarrow> string \<Rightarrow> string" where
  "trim_left seps s =
     (case find (\<lambda>x. x \<noteq> [] \<and> starts_with x s) seps of
        None \<Rightarrow> s
      | Some x \<Rightarrow> trim_left seps (drop (length x) s))"
  by auto

termination
proof (relation "measure (\<lambda>(_, s). length s)")
  fix seps s x
  assume "find (\<lambda>x. x \<noteq> [] \<and> starts_with x s) seps = Some x"
  then have "x \<noteq> []" and "take (length x) s = x"
    by (auto simp: find_Some_iff starts_with_def)
  then have "length x \<noteq> 0" and "s \<noteq> []"
    by auto
  then show "((seps, drop (length x) s), seps, s) \<in> measure (\<lambda>(_, s). length s)"
    by simp
qed simp

declare trim_left.simps [simp del]

definition TrimSpace :: "string \<Rightarrow> string" where
  "TrimSpace s = rev (trim_left (map rev go_spaces) (rev (trim_left go_spaces s)))"

definition ParseUint :: "string \<Rightarrow> u64 option" where
  "ParseUint s =
     (if s = [] \<or> \<not> list_all is_digit s \<or> digits_val 0 s \<ge> 2 ^ 64 then None
      else Some (of_nat (digits_val 0 s)))"

section \<open>Switches\<close>

definition env_true :: "string \<Rightarrow> bool" where
  "env_true v \<longleftrightarrow> v = ''1'' \<or> v = ''true''"

definition openParticipationDefault :: "string \<Rightarrow> bool" where
  "openParticipationDefault v = env_true v"

definition probeRepointEnabled :: "string \<Rightarrow> bool" where
  "probeRepointEnabled v = env_true v"

definition requireSignedToken :: "string \<Rightarrow> bool" where
  "requireSignedToken v = env_true v"

definition envOr :: "string \<Rightarrow> string \<Rightarrow> string" where
  "envOr v def = (if v \<noteq> '''' then v else def)"

definition envOrInt :: "string \<Rightarrow> int \<Rightarrow> int" where
  "envOrInt v def = (if v \<noteq> '''' \<and> snd (Atoi v) then fst (Atoi v) else def)"

section \<open>Solo isolation\<close>

definition soloPIDs :: "string \<Rightarrow> pid list" where
  "soloPIDs v =
     concat (map (\<lambda>tok. let t = TrimSpace tok in
       if t = '''' then [] else (case ParseUint t of None \<Rightarrow> [] | Some p \<Rightarrow> [p])) (str_split CHR '','' v))"

definition isSoloPID :: "string \<Rightarrow> pid \<Rightarrow> bool" where
  "isSoloPID v p \<longleftrightarrow> p \<in> set (soloPIDs v)"

lemma ParseUint_nat_str: "n < 2 ^ 64 \<Longrightarrow> ParseUint (nat_str n) = Some (of_nat n)"
  using nat_str_digits [of n] by (simp add: ParseUint_def digits_val_nat_str)

lemma trim_left_Nil: "trim_left seps [] = []"
proof -
  have "find (\<lambda>x. x \<noteq> [] \<and> starts_with x []) seps = None"
    by (auto simp: find_None_iff starts_with_def)
  then show ?thesis
    by (subst trim_left.simps) simp
qed

lemma isSoloPID_unset: "\<not> isSoloPID [] p"
  by (simp add: isSoloPID_def soloPIDs_def TrimSpace_def trim_left_Nil)

end
