(* ===== verification/Nex_Matchmaking.thy ===== *)
theory Nex_Matchmaking
  imports Nex_Reservations Nex_Nat Nex_Config
begin

unbundle bit_operations_syntax

text \<open>
  The matchmaking handlers of \<^verbatim>\<open>nextendo-nex/matchmaking_handlers.go\<close> and
  \<^verbatim>\<open>nextendo-nex/matchmaking_acnh.go\<close>: creating, joining, finding, updating and leaving gatherings.

  A handler takes the endpoint, the reference of the calling connection and the request, and
  returns the new store, the notifications it pushes in order, and the response. Each handler
  holds the store's mutex while it reads and writes it, so a handler is one step. What a call
  reads besides its request is in the record \<open>call_env\<close>: the clock at each reading, the random
  session key, the current date, the environment variables, and the order in which each loop over
  the map of gatherings visits it (\<open>e_ord n\<close> for the n-th such loop of the call).
\<close>

section \<open>Protocols and methods\<close>

definition ProtocolMatchMaking :: u16 where "ProtocolMatchMaking = 0x15"
definition ProtocolMatchmakeExtension :: u16 where "ProtocolMatchmakeExtension = 0x6D"
definition ProtocolMatchMakingExt :: u16 where "ProtocolMatchMakingExt = 0x32"
definition NotificationParticipate :: u32 where "NotificationParticipate = 3001"

record call_env =
  e_ord :: "nat \<Rightarrow> gid list"
  e_now :: gotime
  e_now_reserve :: gotime
  e_now_commit :: gotime
  e_randomKey :: "byte list"
  e_NowDateTime :: u64
  e_openParticipation :: string
  e_soloPIDs :: string

type_synonym push = "cref \<times> NotificationEvent"
type_synonym outcome = "matchmaking \<times> push list \<times> rmc_message"

definition upd_gathering :: "gid \<Rightarrow> (gathering \<Rightarrow> gathering) \<Rightarrow> matchmaking \<Rightarrow> matchmaking" where
  "upd_gathering gid f m =
     (case gm_get (m_gatherings m) gid of
        None \<Rightarrow> m
      | Some g \<Rightarrow> m\<lparr>m_gatherings := gm_put gid (f g) (m_gatherings m)\<rparr>)"

definition put_gathering :: "gid \<Rightarrow> gathering \<Rightarrow> matchmaking \<Rightarrow> matchmaking" where
  "put_gathering gid g m = m\<lparr>m_gatherings := gm_put gid g (m_gatherings m)\<rparr>"

definition upd_session :: "(MatchmakeSession \<Rightarrow> MatchmakeSession) \<Rightarrow> gathering \<Rightarrow> gathering" where
  "upd_session f g = g\<lparr>g_session := f (g_session g)\<rparr>"

definition count_participants :: "gathering \<Rightarrow> gathering" where
  "count_participants g =
     upd_session (\<lambda>ss. ss\<lparr>ms_NumParticipants := of_nat (length (g_participants g))\<rparr>) g"

definition reply :: "settings \<Rightarrow> u16 \<Rightarrow> rmc_message \<Rightarrow> byte list \<Rightarrow> rmc_message" where
  "reply s proto req body = NewRMCSuccess s proto (rm_Method req) (rm_CallID req) body"

definition boolResponse :: "settings \<Rightarrow> u16 \<Rightarrow> rmc_message \<Rightarrow> bool \<Rightarrow> rmc_message" where
  "boolResponse s proto req v = reply s proto req (out_Bool v)"

definition emptyList :: "settings \<Rightarrow> u16 \<Rightarrow> rmc_message \<Rightarrow> rmc_message" where
  "emptyList s proto req = reply s proto req (out_U32 0)"

definition first_u32 :: "rmc_message \<Rightarrow> u32" where
  "first_u32 req = fst (run_state in_U32 (NewStreamIn (rm_Body req)))"

section \<open>Creating a gathering\<close>

definition finalizeCreatedSession :: "call_env \<Rightarrow> MatchmakeSession \<Rightarrow> gid \<Rightarrow> pid \<Rightarrow> MatchmakeSession" where
  "finalizeCreatedSession env ss gid ownerPID =
     (let gt = ms_Gathering ss;
          gt1 = gt\<lparr>gt_ID := gid, gt_OwnerPID := ownerPID, gt_HostPID := ownerPID,
                   gt_MaxParticipants := (if gt_MaxParticipants gt = 0 then 12 else gt_MaxParticipants gt)\<rparr>;
          ss1 = ss\<lparr>ms_Gathering := gt1, ms_NumParticipants := 1, ms_SessionKey := e_randomKey env,
                   ms_StartedTime := e_NowDateTime env, ms_SystemPasswordEnabled := False\<rparr>;
          ss2 = (if openParticipationDefault (e_openParticipation env)
                 then ss1\<lparr>ms_UserPasswordEnabled := False, ms_Gathering := gt1\<lparr>gt_State := 1\<rparr>, ms_OpenParticipation := True\<rparr>
                 else ss1)
      in ss2\<lparr>ms_Attribs := ms_Attribs ss2 @ replicate (6 - length (ms_Attribs ss2)) 0,
             ms_Param := gm_put ''@GIR'' (zero_variant\<lparr>v_Type := VariantInt64, v_Int := 3\<rparr>)
                (gm_put ''@SR'' (zero_variant\<lparr>v_Type := VariantBool, v_Bool := True\<rparr>) (ms_Param ss2))\<rparr>)"

definition createGathering :: "call_env \<Rightarrow> connection \<Rightarrow> MatchmakeSession \<Rightarrow> matchmaking \<Rightarrow> matchmaking \<times> gid \<times> gathering" where
  "createGathering env c src m =
     (let gid = m_nextGID m;
          g = \<lparr>g_session = finalizeCreatedSession env src gid (c_PID c), g_participants = [c_PID c],
               g_hostConnID = c_ID c, g_code = [], g_reservations = []\<rparr>
      in (m\<lparr>m_nextGID := gid + 1, m_gatherings := gm_put gid g (m_gatherings m)\<rparr>, gid, g))"

section \<open>Participation notifications\<close>

definition participate_event :: "pid \<Rightarrow> gid \<Rightarrow> pid \<Rightarrow> string \<Rightarrow> nat \<Rightarrow> NotificationEvent" where
  "participate_event src gid who msg count =
     \<lparr>ne_PIDSource = src, ne_Type = NotificationParticipate, ne_Param1 = ucast gid, ne_Param2 = who,
      ne_StrParam = msg, ne_Param3 = of_nat count\<rparr>"

definition notifyParticipation :: "endpoint \<Rightarrow> cref \<Rightarrow> pid list \<Rightarrow> gid \<Rightarrow> string \<Rightarrow> push list" where
  "notifyParticipation ep r participants gid joinMessage =
     (let caller = c_PID (conn_at ep r); count = length participants
      in concat (map (\<lambda>p. case FindConnectionByPID ep p of
                            None \<Rightarrow> []
                          | Some t \<Rightarrow> [(t, participate_event caller gid caller joinMessage count)]) participants) @
         concat (map (\<lambda>p. if p = caller then [] else [(r, participate_event caller gid p joinMessage count)]) participants))"

section \<open>Auto-matchmaking\<close>

text \<open>
  The loop over the gatherings: the first one of the same mode, open, without password, with a
  free seat and compatible NATs. Counting the seats drops expired reservations.
\<close>

definition lobby_matches :: "MatchmakeSession \<Rightarrow> gathering \<Rightarrow> bool" where
  "lobby_matches src cand \<longleftrightarrow> ms_GameMode (g_session cand) = ms_GameMode src \<and>
     ms_OpenParticipation (g_session cand) \<and> \<not> ms_UserPasswordEnabled (g_session cand)"

fun select_lobby :: "gotime \<Rightarrow> endpoint \<Rightarrow> connection \<Rightarrow> MatchmakeSession \<Rightarrow> gid list \<Rightarrow> matchmaking
    \<Rightarrow> matchmaking \<times> (gid \<times> gathering) option" where
  "select_lobby now ep c src [] m = (m, None)"
| "select_lobby now ep c src (gid # gids) m =
     (case gm_get (m_gatherings m) gid of
        None \<Rightarrow> select_lobby now ep c src gids m
      | Some cand \<Rightarrow>
          if lobby_matches src cand then
            (let (cand', n) = occupiedSeats now cand; m' = put_gathering gid cand' m
             in if (of_nat n :: u16) < ms_MaxParticipants (g_session cand) then
                  (if \<not> gatheringNATCompatible ep (classifyNAT (NATBehaviour c)) (g_participants cand) (c_PID c)
                   then select_lobby now ep c src gids m'
                   else (m', Some (gid, cand')))
                else select_lobby now ep c src gids m')
          else select_lobby now ep c src gids m)"

text \<open>Reserve, then commit; when no seat can be reserved after all, open a new gathering.\<close>

definition join_or_create :: "call_env \<Rightarrow> connection \<Rightarrow> MatchmakeSession \<Rightarrow> gid \<Rightarrow> gathering \<Rightarrow> matchmaking
    \<Rightarrow> matchmaking \<times> gid \<times> gathering" where
  "join_or_create env c src gid g m =
     (let (g1, ok) = reserveJoin (e_now_reserve env) (m_reservationTTL m) g (c_PID c); m1 = put_gathering gid g1 m
      in if ok then let g2 = fst (commitReservedJoin (e_now_commit env) g1 (c_PID c)) in (put_gathering gid g2 m1, gid, g2)
         else createGathering env c src m1)"

definition solo_min :: "gathering \<Rightarrow> gathering" where
  "solo_min = upd_session (\<lambda>ss. ss\<lparr>ms_Gathering := (ms_Gathering ss)\<lparr>gt_MinParticipants := 1\<rparr>\<rparr>)"

definition place_player :: "call_env \<Rightarrow> endpoint \<Rightarrow> connection \<Rightarrow> MatchmakeSession \<Rightarrow> matchmaking
    \<Rightarrow> matchmaking \<times> gid \<times> gathering" where
  "place_player env ep c src m =
     (if isSoloPID (e_soloPIDs env) (c_PID c) then
        (let (m', gid, g) = createGathering env c src m in (put_gathering gid (solo_min g) m', gid, solo_min g))
      else
        (case select_lobby (e_now env) ep c src (e_ord env 0) m of
           (m1, None) \<Rightarrow> createGathering env c src m1
         | (m1, Some (gid, g)) \<Rightarrow> join_or_create env c src gid g m1))"

definition autoMatchmake :: "call_env \<Rightarrow> endpoint \<Rightarrow> cref \<Rightarrow> rmc_message \<Rightarrow> matchmaking \<Rightarrow> outcome" where
  "autoMatchmake env ep r req m =
     (let s = ep_Settings ep; c = conn_at ep r;
          (src, st) = run_state (extract_AutoMatchmakeParam s) (NewStreamIn (rm_Body req))
      in if in_Err st then
           (m, [], NewRMCError s ProtocolMatchmakeExtension (rm_CallID req) ResultCoreInvalidArgument)
         else
           let (m1, gid, g) = place_player env ep c src m; g' = count_participants g
           in (put_gathering gid g' m1,
               notifyParticipation ep r (g_participants g') (ms_ID (g_session g')) [],
               reply s ProtocolMatchmakeExtension req (add_MatchmakeSession s (g_session g'))))"

section \<open>Creating and joining by id\<close>

definition notif_put :: "pid \<Rightarrow> u32 \<Rightarrow> NotificationEvent \<Rightarrow> matchmaking \<Rightarrow> matchmaking" where
  "notif_put p typ ev m =
     (let byType = (case gm_get (m_notif m) p of None \<Rightarrow> [] | Some t \<Rightarrow> t)
      in m\<lparr>m_notif := gm_put p (gm_put typ ev byType) (m_notif m)\<rparr>)"

definition friend_session_created :: "pid \<Rightarrow> gid \<Rightarrow> matchmaking \<Rightarrow> matchmaking" where
  "friend_session_created p gid m =
     (case m_OnFriendSessionCreated m of
        None \<Rightarrow> m
      | Some hook \<Rightarrow> fold (\<lambda>(q, typ, ev). notif_put q typ ev) (hook p gid) m)"

definition createSession :: "call_env \<Rightarrow> endpoint \<Rightarrow> cref \<Rightarrow> rmc_message \<Rightarrow> matchmaking \<Rightarrow> outcome" where
  "createSession env ep r req m =
     (let s = ep_Settings ep; c = conn_at ep r;
          (src, st) = run_state (extract_AutoMatchmakeParam s) (NewStreamIn (rm_Body req))
      in if in_Err st then
           (m, [], NewRMCError s ProtocolMatchmakeExtension (rm_CallID req) ResultCoreInvalidArgument)
         else
           let (m1, gid, g) = createGathering env c src m
           in (friend_session_created (c_PID c) (ms_ID (g_session g)) m1,
               notifyParticipation ep r (g_participants g) (ms_ID (g_session g)) [],
               reply s ProtocolMatchmakeExtension req (add_MatchmakeSession s (g_session g))))"

definition join_gid :: "rmc_message \<Rightarrow> gid" where
  "join_gid req =
     fst (run_state (do { _ \<leftarrow> in_U8; sub \<leftarrow> in_Substream; ret (fst (run_state in_U32 sub)) })
            (NewStreamIn (rm_Body req)))"

definition joinSession :: "call_env \<Rightarrow> endpoint \<Rightarrow> cref \<Rightarrow> rmc_message \<Rightarrow> matchmaking \<Rightarrow> outcome" where
  "joinSession env ep r req m =
     (let s = ep_Settings ep; p = c_PID (conn_at ep r); gid = join_gid req
      in case gm_get (m_gatherings m) gid of
           None \<Rightarrow> (m, [], NewRMCError s ProtocolMatchmakeExtension (rm_CallID req) ResultRendezVousSessionVoid)
         | Some g \<Rightarrow>
             (let existing = length (g_participants g);
                  (g1, ok) = (if containsPID (g_participants g) p then (g, True)
                              else reserveJoin (e_now_reserve env) (m_reservationTTL m) g p)
              in if \<not> ok then
                   (put_gathering gid g1 m, [],
                    NewRMCError s ProtocolMatchmakeExtension (rm_CallID req) ResultRendezVousSessionFull)
                 else
                   let (g2, joined) = (if containsPID (g_participants g) p then (g1, False)
                                       else commitReservedJoin (e_now_commit env) g1 p);
                       g3 = count_participants g2;
                       result = (if m_JoinRespExistingCount m \<and> joined
                                 then (g_session g3)\<lparr>ms_NumParticipants := of_nat existing\<rparr> else g_session g3)
                   in (put_gathering gid g3 m,
                       (if joined then notifyParticipation ep r (g_participants g3) gid [] else []),
                       reply s ProtocolMatchmakeExtension req (add_MatchmakeSession s result))))"

section \<open>Finding sessions\<close>

definition scrub :: "MatchmakeSession \<Rightarrow> MatchmakeSession" where
  "scrub ss = ss\<lparr>ms_SessionKey := [], ms_UserPassword := []\<rparr>"

definition findBySingleID :: "endpoint \<Rightarrow> rmc_message \<Rightarrow> matchmaking \<Rightarrow> outcome" where
  "findBySingleID ep req m =
     (let s = ep_Settings ep
      in case gm_get (m_gatherings m) (first_u32 req) of
           None \<Rightarrow> (m, [], NewRMCError s ProtocolMatchmakeExtension (rm_CallID req) ResultRendezVousSessionVoid)
         | Some g \<Rightarrow> (m, [], reply s ProtocolMatchmakeExtension req (add_MatchmakeSession s (scrub (g_session g)))))"

definition write_sessions :: "settings \<Rightarrow> MatchmakeSession list \<Rightarrow> byte list" where
  "write_sessions s sessions = out_U32 (of_nat (length sessions)) @ concat (map (add_MatchmakeSession s) sessions)"

definition findByGidList :: "endpoint \<Rightarrow> rmc_message \<Rightarrow> matchmaking \<Rightarrow> outcome" where
  "findByGidList ep req m =
     (let s = ep_Settings ep; gids = fst (run_state (ReadList in_U32) (NewStreamIn (rm_Body req)));
          sessions = concat (map (\<lambda>gid. case gm_get (m_gatherings m) gid of
                                           None \<Rightarrow> [] | Some g \<Rightarrow> [scrub (g_session g)]) gids)
      in (m, [], reply s ProtocolMatchmakeExtension req (write_sessions s sessions)))"

definition browse_criteria :: "settings \<Rightarrow> rmc_message \<Rightarrow> string" where
  "browse_criteria s req =
     (if length (rm_Body req) > 0 then
        let (criteria, st) = run_state (read_level s (load_SearchCriteria s)) (NewStreamIn (rm_Body req))
        in if in_Err st then [] else sc_Codeword criteria
      else [])"

definition browse_match :: "string \<Rightarrow> gathering \<Rightarrow> bool" where
  "browse_match wantCode g \<longleftrightarrow> ms_OpenParticipation (g_session g) \<and>
     (if wantCode \<noteq> [] then ms_Codeword (g_session g) = wantCode \<or> g_code g = wantCode
      else \<not> ms_UserPasswordEnabled (g_session g))"

definition browse_view :: "string \<Rightarrow> MatchmakeSession \<Rightarrow> MatchmakeSession" where
  "browse_view wantCode ss =
     (if wantCode = [] then ss\<lparr>ms_SessionKey := [], ms_UserPassword := []\<rparr> else ss\<lparr>ms_UserPassword := []\<rparr>)"

definition visit_gatherings :: "gid list \<Rightarrow> matchmaking \<Rightarrow> gathering list" where
  "visit_gatherings ord m =
     concat (map (\<lambda>gid. case gm_get (m_gatherings m) gid of None \<Rightarrow> [] | Some g \<Rightarrow> [g]) ord)"

definition browseNoHolder :: "call_env \<Rightarrow> endpoint \<Rightarrow> rmc_message \<Rightarrow> matchmaking \<Rightarrow> outcome" where
  "browseNoHolder env ep req m =
     (let s = ep_Settings ep; wantCode = browse_criteria s req;
          sessions = map (browse_view wantCode \<circ> g_session) (filter (browse_match wantCode) (visit_gatherings (e_ord env 0) m))
      in (m, [], reply s ProtocolMatchmakeExtension req (write_sessions s sessions)))"

definition findBySingleID15 :: "endpoint \<Rightarrow> rmc_message \<Rightarrow> matchmaking \<Rightarrow> outcome" where
  "findBySingleID15 ep req m =
     (let s = ep_Settings ep
      in (m, [], reply s ProtocolMatchMaking req
            (case gm_get (m_gatherings m) (first_u32 req) of
               None \<Rightarrow> out_Bool False
             | Some g \<Rightarrow> out_Bool True @ add_MatchmakeSession s (g_session g))))"

fun playing_in :: "pid \<Rightarrow> gid list \<Rightarrow> matchmaking \<Rightarrow> SimplePlayingSession list" where
  "playing_in p [] m = []"
| "playing_in p (gid # gids) m =
     (case gm_get (m_gatherings m) gid of
        None \<Rightarrow> playing_in p gids m
      | Some g \<Rightarrow>
          if \<not> containsPID (g_participants g) p then playing_in p gids m
          else [\<lparr>ps_PrincipalID = p, ps_GatheringID = gid, ps_GameMode = ms_GameMode (g_session g),
                 ps_Attribute0 = (if length (ms_Attribs (g_session g)) > 0 then ms_Attribs (g_session g) ! 0 else 0)\<rparr>])"

fun playing_sessions :: "call_env \<Rightarrow> pid \<Rightarrow> bool \<Rightarrow> nat \<Rightarrow> pid list \<Rightarrow> matchmaking \<Rightarrow> SimplePlayingSession list" where
  "playing_sessions env self includeSelf n [] m = []"
| "playing_sessions env self includeSelf n (p # ps) m =
     (if p = self \<and> \<not> includeSelf then playing_sessions env self includeSelf n ps m
      else playing_in p (e_ord env n) m @ playing_sessions env self includeSelf (Suc n) ps m)"

definition playingSession :: "call_env \<Rightarrow> endpoint \<Rightarrow> cref \<Rightarrow> rmc_message \<Rightarrow> matchmaking \<Rightarrow> outcome" where
  "playingSession env ep r req m =
     (let s = ep_Settings ep;
          (pids, includeSelf) = fst (run_state (do { ps \<leftarrow> ReadList (in_PID s); b \<leftarrow> in_Bool; ret (ps, b) }) (NewStreamIn (rm_Body req)));
          sessions = playing_sessions env (c_PID (conn_at ep r)) includeSelf 0 pids m
      in (m, [], reply s ProtocolMatchmakeExtension req (WriteList (\<lambda>p. write_level s 0 (save_PlayingSession s p)) sessions)))"

text \<open>The most recently started gathering a player is in.\<close>

fun sessionOfParticipant :: "pid \<Rightarrow> gathering list \<Rightarrow> gathering option \<Rightarrow> gathering option" where
  "sessionOfParticipant p [] best = best"
| "sessionOfParticipant p (g # gs) best =
     (if \<not> containsPID (g_participants g) p then sessionOfParticipant p gs best
      else case best of
             None \<Rightarrow> sessionOfParticipant p gs (Some g)
           | Some b \<Rightarrow> if ms_StartedTime (g_session g) > ms_StartedTime (g_session b)
                       then sessionOfParticipant p gs (Some g) else sessionOfParticipant p gs best)"

fun find_participants :: "call_env \<Rightarrow> nat \<Rightarrow> pid list \<Rightarrow> matchmaking \<Rightarrow> (u64 \<times> MatchmakeSession) list" where
  "find_participants env n [] m = []"
| "find_participants env n (p # ps) m =
     (case sessionOfParticipant p (visit_gatherings (e_ord env n) m) None of
        None \<Rightarrow> find_participants env (Suc n) ps m
      | Some g \<Rightarrow> (p, (g_session g)\<lparr>ms_UserPassword := []\<rparr>) # find_participants env (Suc n) ps m)"

definition findByParticipant :: "call_env \<Rightarrow> endpoint \<Rightarrow> rmc_message \<Rightarrow> matchmaking \<Rightarrow> outcome" where
  "findByParticipant env ep req m =
     (let s = ep_Settings ep;
          param = fst (run_state (read_level s (load_FindByParticipantParam s)) (NewStreamIn (rm_Body req)));
          results = find_participants env 0 (fp_PrincipalIDs param) m
      in (m, [], reply s ProtocolMatchmakeExtension req
            (out_U32 (of_nat (length results)) @ concat (map (add_FindByParticipantResult s) results))))"

definition GatheringIDByPID :: "gid list \<Rightarrow> pid \<Rightarrow> matchmaking \<Rightarrow> gid option" where
  "GatheringIDByPID ord p m =
     map_option (ms_ID \<circ> g_session) (find (\<lambda>g. containsPID (g_participants g) p) (visit_gatherings ord m))"

definition SessionByPID :: "gid list \<Rightarrow> pid \<Rightarrow> matchmaking \<Rightarrow> pid list option" where
  "SessionByPID ord p m =
     map_option g_participants (find (\<lambda>g. containsPID (g_participants g) p) (visit_gatherings ord m))"

section \<open>Private-room codes\<close>

definition code_alphabet :: string where
  "code_alphabet = ''ABCDEFGHIJKLMNPQRSTUVWXYZ23456789''"

fun code_chars :: "nat \<Rightarrow> u32 \<Rightarrow> string" where
  "code_chars 0 x = []"
| "code_chars (Suc n) x = code_alphabet ! unat (x mod 33) # code_chars n (x div 33)"

definition makeCode :: "gid \<Rightarrow> matchmaking \<Rightarrow> matchmaking \<times> string" where
  "makeCode gid m =
     (let rand = m_codeRand m * 1103515245 + 12345 + gid; code = code_chars 5 rand
      in (upd_gathering gid (\<lambda>g. g\<lparr>g_code := code\<rparr>) (m\<lparr>m_codeRand := rand, m_byCode := gm_put code gid (m_byCode m)\<rparr>), code))"

definition privateRoomCreate :: "endpoint \<Rightarrow> rmc_message \<Rightarrow> matchmaking \<Rightarrow> outcome" where
  "privateRoomCreate ep req m =
     (let s = ep_Settings ep; (m', code) = makeCode (first_u32 req) m
      in (m', [], reply s ProtocolMatchmakeExtension req (out_U8 0 @ out_Buffer (out_String code @ out_U64 0))))"

definition code_of_request :: "rmc_message \<Rightarrow> string" where
  "code_of_request req =
     (let code = fst (run_state in_String (NewStreamIn (rm_Body req)))
      in if length code \<noteq> 5 \<and> length (rm_Body req) > 5
         then fst (run_state in_String (NewStreamIn (drop 5 (rm_Body req)))) else code)"

definition resolveCode :: "endpoint \<Rightarrow> rmc_message \<Rightarrow> matchmaking \<Rightarrow> outcome" where
  "resolveCode ep req m =
     (m, [], reply (ep_Settings ep) ProtocolMatchmakeExtension req
        (out_U32 (case gm_get (m_byCode m) (code_of_request req) of None \<Rightarrow> 0 | Some gid \<Rightarrow> gid)))"

section \<open>Updating a gathering\<close>

definition setParticipation :: "endpoint \<Rightarrow> rmc_message \<Rightarrow> bool \<Rightarrow> matchmaking \<Rightarrow> outcome" where
  "setParticipation ep req opn m =
     (upd_gathering (first_u32 req) (upd_session (\<lambda>ss. ss\<lparr>ms_OpenParticipation := opn\<rparr>)) m, [],
      reply (ep_Settings ep) ProtocolMatchmakeExtension req [])"

definition apply_part :: "UpdateMatchmakeSessionParam \<Rightarrow> gathering \<Rightarrow> gathering" where
  "apply_part p g =
     (let g1 = (if up_ModificationFlags p AND modFlagCodeword \<noteq> 0 \<or> up_Codeword p \<noteq> []
                then (upd_session (\<lambda>ss. ss\<lparr>ms_Codeword := up_Codeword p\<rparr>) g)\<lparr>g_code := up_Codeword p\<rparr> else g);
          g2 = (if length (up_Attributes p) > 0 then upd_session (\<lambda>ss. ss\<lparr>ms_Attribs := up_Attributes p\<rparr>) g1 else g1);
          g3 = (if length (up_ApplicationBuffer p) > 0
                then upd_session (\<lambda>ss. ss\<lparr>ms_ApplicationData := up_ApplicationBuffer p\<rparr>) g2 else g2);
          g4 = (if up_GameMode p \<noteq> 0 then upd_session (\<lambda>ss. ss\<lparr>ms_GameMode := up_GameMode p\<rparr>) g3 else g3);
          g5 = (if up_MaxParticipants p \<noteq> 0
                then upd_session (\<lambda>ss. ss\<lparr>ms_Gathering := (ms_Gathering ss)\<lparr>gt_MaxParticipants := up_MaxParticipants p\<rparr>\<rparr>) g4 else g4)
      in if up_ModificationFlags p AND modFlagOpenParticipation \<noteq> 0
         then upd_session (\<lambda>ss. ss\<lparr>ms_OpenParticipation := up_OpenParticipation p\<rparr>) g5 else g5)"

definition applySessionPart :: "UpdateMatchmakeSessionParam \<Rightarrow> matchmaking \<Rightarrow> matchmaking \<times> bool" where
  "applySessionPart p m =
     (case gm_get (m_gatherings m) (up_GID p) of
        None \<Rightarrow> (m, False)
      | Some g \<Rightarrow>
          (m\<lparr>m_gatherings := gm_put (up_GID p) (apply_part p g) (m_gatherings m),
             m_byCode := (if up_Codeword p \<noteq> [] then gm_put (up_Codeword p) (up_GID p) (m_byCode m) else m_byCode m)\<rparr>, True))"

definition updateSessionPart :: "endpoint \<Rightarrow> rmc_message \<Rightarrow> matchmaking \<Rightarrow> outcome" where
  "updateSessionPart ep req m =
     (let s = ep_Settings ep; ack = reply s ProtocolMatchmakeExtension req []
      in if m_SessionPartPersists m then
           let (p, st) = run_state (extract_UpdateParam s) (NewStreamIn (rm_Body req))
           in if \<not> in_Err st then (fst (applySessionPart p m), [], ack) else (m, [], ack)
         else (m, [], ack))"

text \<open>The owner for the application buffer and the attributes is the first participant.\<close>

definition first_participant :: "gathering \<Rightarrow> pid" where
  "first_participant g = (if length (g_participants g) > 0 then g_participants g ! 0 else 0)"

definition updateApplicationBuffer :: "endpoint \<Rightarrow> cref \<Rightarrow> rmc_message \<Rightarrow> matchmaking \<Rightarrow> outcome" where
  "updateApplicationBuffer ep r req m =
     (let s = ep_Settings ep; p = c_PID (conn_at ep r);
          (gid, buf) = fst (run_state (do { g \<leftarrow> in_U32; b \<leftarrow> in_Buffer; ret (g, b) }) (NewStreamIn (rm_Body req)))
      in case gm_get (m_gatherings m) gid of
           None \<Rightarrow> (m, [], NewRMCError s ProtocolMatchmakeExtension (rm_CallID req) ResultRendezVousSessionVoid)
         | Some g \<Rightarrow>
             if first_participant g \<noteq> p then
               (m, [], NewRMCError s ProtocolMatchmakeExtension (rm_CallID req) ResultCoreAccessDenied)
             else
               (put_gathering gid (upd_session (\<lambda>ss. ss\<lparr>ms_ApplicationData := buf\<rparr>) g) m, [],
                reply s ProtocolMatchmakeExtension req []))"

text \<open>
  The padding loop of \<open>ModifyCurrentGameAttribute\<close>. Its guard compares 32-bit values, so it may
  not end: then the result is none, and with it that of the handler.
\<close>

partial_function (option) pad_attribs :: "u32 \<Rightarrow> u32 list \<Rightarrow> u32 list option" where
  "pad_attribs idx xs = (if (of_nat (length xs) :: u32) \<le> idx then pad_attribs idx (xs @ [0]) else Some xs)"

definition modifyCurrentGameAttribute :: "endpoint \<Rightarrow> cref \<Rightarrow> rmc_message \<Rightarrow> matchmaking \<Rightarrow> outcome option" where
  "modifyCurrentGameAttribute ep r req m =
     (let s = ep_Settings ep; p = c_PID (conn_at ep r); ack = reply s ProtocolMatchmakeExtension req [];
          (gid, idx, v) = fst (run_state (do { g \<leftarrow> in_U32; i \<leftarrow> in_U32; x \<leftarrow> in_U32; ret (g, i, x) }) (NewStreamIn (rm_Body req)))
      in case gm_get (m_gatherings m) gid of
           None \<Rightarrow> Some (m, [], ack)
         | Some g \<Rightarrow>
             if length (g_participants g) > 0 \<and> g_participants g ! 0 = p then
               (case pad_attribs idx (ms_Attribs (g_session g)) of
                  None \<Rightarrow> None
                | Some xs \<Rightarrow> Some (put_gathering gid (upd_session (\<lambda>ss. ss\<lparr>ms_Attribs := xs[unat idx := v]\<rparr>) g) m, [], ack))
             else Some (m, [], ack))"

section \<open>Handing over and leaving\<close>

fun index_of :: "pid \<Rightarrow> pid list \<Rightarrow> nat option" where
  "index_of p [] = None"
| "index_of p (x # xs) = (if x = p then Some 0 else map_option Suc (index_of p xs))"

text \<open>The first candidate that takes part moves to the front; the former first takes its place.\<close>

fun migrate_to :: "pid list \<Rightarrow> pid list \<Rightarrow> pid list" where
  "migrate_to [] ps = ps"
| "migrate_to (c # cs) ps =
     (case index_of c ps of
        None \<Rightarrow> migrate_to cs ps
      | Some i \<Rightarrow> ps[0 := ps ! i, i := ps ! 0])"

definition migrateGatheringOwnership :: "endpoint \<Rightarrow> cref \<Rightarrow> rmc_message \<Rightarrow> bool \<Rightarrow> matchmaking \<Rightarrow> outcome" where
  "migrateGatheringOwnership ep r req hasParticipantsOnly m =
     (let s = ep_Settings ep;
          (gid, candidates) = fst (run_state (do { g \<leftarrow> in_U32; cs \<leftarrow> ReadList (in_PID s);
             _ \<leftarrow> (if hasParticipantsOnly then in_Bool else ret False); ret (g, cs) }) (NewStreamIn (rm_Body req)));
          ack = reply s ProtocolMatchMaking req []
      in case gm_get (m_gatherings m) gid of
           None \<Rightarrow> (m, [], ack)
         | Some g \<Rightarrow>
             if length (g_participants g) > 0 then
               let ps = migrate_to candidates (g_participants g)
               in (put_gathering gid (g\<lparr>g_participants := ps\<rparr>) m, notifyParticipation ep r ps gid [], ack)
             else (m, [], ack))"

definition updateGatheringOwnership :: "endpoint \<Rightarrow> rmc_message \<Rightarrow> matchmaking \<Rightarrow> outcome" where
  "updateGatheringOwnership ep req m = (m, [], boolResponse (ep_Settings ep) ProtocolMatchMaking req True)"

definition unregister :: "endpoint \<Rightarrow> cref \<Rightarrow> rmc_message \<Rightarrow> matchmaking \<Rightarrow> matchmaking" where
  "unregister ep r req m =
     (let gid = first_u32 req
      in case gm_get (m_gatherings m) gid of
           None \<Rightarrow> m
         | Some g \<Rightarrow>
             if ms_OwnerPID (g_session g) = c_PID (conn_at ep r)
             then m\<lparr>m_gatherings := gm_del gid (m_gatherings m)\<rparr> else m)"

definition endParticipation :: "endpoint \<Rightarrow> cref \<Rightarrow> rmc_message \<Rightarrow> matchmaking \<Rightarrow> matchmaking" where
  "endParticipation ep r req m =
     (let gid = first_u32 req; p = c_PID (conn_at ep r)
      in case gm_get (m_gatherings m) gid of
           None \<Rightarrow> m
         | Some g \<Rightarrow>
             let ps = removePID (g_participants g) p;
                 g1 = g\<lparr>g_reservations := gm_del p (g_reservations g), g_participants := ps\<rparr>
             in if length ps = 0 then m\<lparr>m_gatherings := gm_del gid (m_gatherings m)\<rparr>
                else put_gathering gid (count_participants g1) m)"

text \<open>
  \<open>RemovePlayer\<close> treats every gathering on its own: what becomes of one entry, and the code that
  goes with a deleted one.
\<close>

definition remove_from :: "pid \<Rightarrow> gid \<times> gathering \<Rightarrow> (gid \<times> gathering) list \<times> string list" where
  "remove_from p e =
     (let (gid, g) = e; g0 = g\<lparr>g_reservations := gm_del p (g_reservations g)\<rparr>; ps = removePID (g_participants g) p;
          g1 = g0\<lparr>g_participants := ps\<rparr>
      in if length ps = length (g_participants g) then ([(gid, g1)], [])
         else if length ps = 0 \<or> ms_OwnerPID (g_session g) = p then ([], if g_code g \<noteq> [] then [g_code g] else [])
         else ([(gid, count_participants g1)], []))"

definition RemovePlayer :: "pid \<Rightarrow> matchmaking \<Rightarrow> matchmaking" where
  "RemovePlayer p m =
     (if p = 0 then m
      else let rs = map (remove_from p) (m_gatherings m)
           in m\<lparr>m_notif := gm_del p (m_notif m), m_gatherings := concat (map fst rs),
                m_byCode := fold gm_del (concat (map snd rs)) (m_byCode m)\<rparr>)"

section \<open>Notification data between friends\<close>

definition notif_get :: "pid \<Rightarrow> u32 \<Rightarrow> matchmaking \<Rightarrow> NotificationEvent option" where
  "notif_get p typ m = (case gm_get (m_notif m) p of None \<Rightarrow> None | Some byType \<Rightarrow> gm_get byType typ)"

definition pushed_event :: "NotificationEvent \<Rightarrow> NotificationEvent" where
  "pushed_event ev = ev\<lparr>ne_Type := ne_Type ev * 1000, ne_Param3 := 0\<rparr>"

definition pushNotifDataToFriends :: "endpoint \<Rightarrow> pid \<Rightarrow> NotificationEvent \<Rightarrow> matchmaking \<Rightarrow> push list" where
  "pushNotifDataToFriends ep p ev m =
     (case m_FriendPIDs m of
        None \<Rightarrow> []
      | Some friends \<Rightarrow>
          concat (map (\<lambda>f. case FindConnectionByPID ep f of None \<Rightarrow> [] | Some t \<Rightarrow> [(t, pushed_event ev)]) (friends p)))"

definition updateNotificationData :: "endpoint \<Rightarrow> cref \<Rightarrow> rmc_message \<Rightarrow> matchmaking \<Rightarrow> outcome" where
  "updateNotificationData ep r req m =
     (let s = ep_Settings ep; p = c_PID (conn_at ep r);
          ((typ, p1, p2, str), st) =
            run_state (do { t \<leftarrow> in_U32; a \<leftarrow> in_PID s; b \<leftarrow> in_PID s; x \<leftarrow> in_String; ret (t, a, b, x) }) (NewStreamIn (rm_Body req))
      in if in_Err st then (m, [], NewRMCError s ProtocolMatchmakeExtension (rm_CallID req) ResultCoreInvalidArgument)
         else let ev = \<lparr>ne_PIDSource = p, ne_Type = typ, ne_Param1 = p1, ne_Param2 = p2, ne_StrParam = str, ne_Param3 = 0\<rparr>;
                  m' = notif_put p typ ev m
              in (m', pushNotifDataToFriends ep p ev m', reply s ProtocolMatchmakeExtension req []))"

definition friendNotificationsFor :: "pid \<Rightarrow> u32 list \<Rightarrow> matchmaking \<Rightarrow> NotificationEvent list" where
  "friendNotificationsFor p types m =
     (case m_FriendPIDs m of
        None \<Rightarrow> []
      | Some friends \<Rightarrow>
          concat (map (\<lambda>f. concat (map (\<lambda>t. case notif_get f t m of
             None \<Rightarrow> [] | Some ev \<Rightarrow> if ne_Param2 ev = 0 then [] else [ev]) types)) (friends p)))"

definition getFriendNotificationData :: "endpoint \<Rightarrow> cref \<Rightarrow> rmc_message \<Rightarrow> bool \<Rightarrow> matchmaking \<Rightarrow> outcome" where
  "getFriendNotificationData ep r req lst m =
     (let s = ep_Settings ep; p = c_PID (conn_at ep r);
          (types, st) = run_state (if lst then ReadList in_U32 else do { t \<leftarrow> in_U32; ret [t] }) (NewStreamIn (rm_Body req))
      in if in_Err st then (m, [], NewRMCError s ProtocolMatchmakeExtension (rm_CallID req) ResultCoreInvalidArgument)
         else let events = friendNotificationsFor p types m
              in (m, map (\<lambda>ev. (r, pushed_event ev)) events,
                  reply s ProtocolMatchmakeExtension req
                    (out_U32 (of_nat (length events)) @ concat (map (add_NotificationEvent s) events))))"

definition PublishNotification :: "pid \<Rightarrow> u32 \<Rightarrow> NotificationEvent option \<Rightarrow> matchmaking \<Rightarrow> matchmaking" where
  "PublishNotification p typ ev m = (case ev of None \<Rightarrow> m | Some e \<Rightarrow> notif_put p typ e m)"

end
