(* ===== verification/Nex_Lobby.thy ===== *)
theory Nex_Lobby
  imports Nex_Matchmaking "HOL-Library.Multiset"
begin

text \<open>
  What holds of the matchmaking store whatever calls it serves: the invariant of its entries, that
  every handler of \<open>Nex_Matchmaking\<close> keeps it, and the properties of the join, creation, ownership
  and departure handlers. The store is a transition system whose steps are the handler calls, for
  any environment, endpoint, caller and request.
\<close>

section \<open>The store invariant\<close>

text \<open>
  One entry: it is stored under its own id, has participants, keeps its seats within a positive
  capacity, and its session announces the number of participants.
\<close>

definition entry_inv :: "gid \<times> gathering \<Rightarrow> bool" where
  "entry_inv e \<longleftrightarrow> (let (gid, g) = e in
     ms_ID (g_session g) = gid \<and> g_participants g \<noteq> [] \<and> seats_inv g \<and> capacity g > 0 \<and>
     ms_NumParticipants (g_session g) = of_nat (length (g_participants g)))"

text \<open>
  \<open>SessionPartPersists\<close> is off, as it is in the server: a partial update could otherwise lower
  the capacity below the seats already taken.
\<close>

definition mm_inv :: "matchmaking \<Rightarrow> bool" where
  "mm_inv m \<longleftrightarrow> \<not> m_SessionPartPersists m \<and> gm_wf (m_gatherings m) \<and> (\<forall>e \<in> set (m_gatherings m). entry_inv e)"

lemma mm_inv_get: "mm_inv m \<Longrightarrow> gm_get (m_gatherings m) gid = Some g \<Longrightarrow> entry_inv (gid, g)"
  using gm_get_Some_in by (fastforce simp: mm_inv_def)

lemma mm_inv_put: "mm_inv m \<Longrightarrow> entry_inv (gid, g) \<Longrightarrow> mm_inv (put_gathering gid g m)"
  by (auto simp: mm_inv_def put_gathering_def gm_in_put split: if_splits)

lemma mm_inv_del: "mm_inv m \<Longrightarrow> mm_inv (m\<lparr>m_gatherings := gm_del gid (m_gatherings m)\<rparr>)"
  by (auto simp: mm_inv_def gm_in_del)

lemma mm_inv_upd:
  assumes "mm_inv m" and "\<And>g. entry_inv (gid, g) \<Longrightarrow> entry_inv (gid, f g)"
  shows "mm_inv (upd_gathering gid f m)"
  using assms mm_inv_get [of m gid] mm_inv_put [of m gid]
  by (auto simp: upd_gathering_def put_gathering_def split: option.split)

lemma mm_inv_other_fields:
  "mm_inv (m\<lparr>m_notif := a\<rparr>) = mm_inv m" "mm_inv (m\<lparr>m_byCode := b\<rparr>) = mm_inv m" "mm_inv (m\<lparr>m_nextGID := c\<rparr>) = mm_inv m"
  "mm_inv (m\<lparr>m_codeRand := d\<rparr>) = mm_inv m" "mm_inv (m\<lparr>m_reservationTTL := e\<rparr>) = mm_inv m"
  by (simp_all add: mm_inv_def)

lemma mm_inv_cong: "m_gatherings m = m_gatherings m' \<Longrightarrow> m_SessionPartPersists m = m_SessionPartPersists m' \<Longrightarrow> mm_inv m = mm_inv m'"
  by (simp add: mm_inv_def)

lemma mm_inv_New: "mm_inv NewMatchmaking"
  by (simp add: mm_inv_def NewMatchmaking_def)

subsection \<open>Changes to one gathering\<close>

lemma seats_inv_upd_session:
  "ms_MaxParticipants (f (g_session g)) = ms_MaxParticipants (g_session g) \<Longrightarrow> seats_inv (upd_session f g) = seats_inv g"
  by (simp add: seats_inv_def upd_session_def capacity_def seats_def)

lemma entry_inv_upd_session:
  assumes "entry_inv (gid, g)" and "ms_MaxParticipants (f (g_session g)) = ms_MaxParticipants (g_session g)"
    and "ms_ID (f (g_session g)) = ms_ID (g_session g)" and "ms_NumParticipants (f (g_session g)) = ms_NumParticipants (g_session g)"
  shows "entry_inv (gid, upd_session f g)"
  using assms seats_inv_upd_session [of f g] by (simp add: entry_inv_def upd_session_def capacity_def)

lemma entry_inv_count:
  "ms_ID (g_session g) = gid \<Longrightarrow> g_participants g \<noteq> [] \<Longrightarrow> seats_inv g \<Longrightarrow> capacity g > 0 \<Longrightarrow> entry_inv (gid, count_participants g)"
  using seats_inv_upd_session [of "\<lambda>ss. ss\<lparr>ms_NumParticipants := of_nat (length (g_participants g))\<rparr>" g]
  by (simp add: entry_inv_def count_participants_def) (simp add: upd_session_def capacity_def)

lemma entry_inv_reservations:
  assumes "entry_inv (gid, g)" and "seats_inv g'" and "g_session g' = g_session g" and "g_participants g' = g_participants g"
  shows "entry_inv (gid, g')"
  using assms by (simp add: entry_inv_def capacity_def)

lemma reserveJoin_kept [simp]:
  "g_session (fst (reserveJoin now ttl g p)) = g_session g" "g_participants (fst (reserveJoin now ttl g p)) = g_participants g"
  by (cases rule: reserveJoin_cases [of p g now ttl]; simp)+

lemma commitReservedJoin_kept:
  "g_session (fst (commitReservedJoin now g p)) = g_session g"
  "g_participants (fst (commitReservedJoin now g p)) =
     (if snd (commitReservedJoin now g p) then g_participants g @ [p] else g_participants g)"
  by (auto simp: commitReservedJoin_def Let_def split: option.split)

lemma entry_inv_reserve: "entry_inv (gid, g) \<Longrightarrow> entry_inv (gid, fst (reserveJoin now ttl g p))"
  by (rule entry_inv_reservations [of gid g]) (auto simp: entry_inv_def reserveJoin_inv)

lemma entry_inv_expire: "entry_inv (gid, g) \<Longrightarrow> entry_inv (gid, expireJoinReservations now g)"
  by (rule entry_inv_reservations [of gid g]) (auto simp: entry_inv_def seats_inv_expire)

lemma entry_inv_commit_count:
  "entry_inv (gid, g) \<Longrightarrow> entry_inv (gid, count_participants (fst (commitReservedJoin now g p)))"
  using commitReservedJoin_inv [of g now p] gseats.cap_kept(2) [of now g p]
  by (intro entry_inv_count) (auto simp: entry_inv_def commitReservedJoin_kept)

lemma entry_inv_release: "entry_inv (gid, g) \<Longrightarrow> entry_inv (gid, g\<lparr>g_reservations := gm_del p (g_reservations g)\<rparr>)"
  by (rule entry_inv_reservations [of gid g]) (auto simp: entry_inv_def seats_inv_del)

lemma entry_inv_leave:
  assumes "entry_inv (gid, g)" and "removePID (g_participants g) p \<noteq> []"
  shows "entry_inv (gid, count_participants (g\<lparr>g_reservations := gm_del p (g_reservations g), g_participants := removePID (g_participants g) p\<rparr>))"
proof -
  let ?g = "g\<lparr>g_reservations := gm_del p (g_reservations g), g_participants := removePID (g_participants g) p\<rparr>"
  have "length (removePID (g_participants g) p) + length (gm_del p (g_reservations g)) \<le> seats g"
    unfolding seats_def by (intro add_mono) (simp_all add: removePID_eq)
  then have "seats ?g \<le> seats g"
    by (simp add: seats_def)
  then have "seats_inv ?g"
    using assms(1) by (auto simp: entry_inv_def seats_inv_def capacity_def removePID_eq distinct_removeAll)
  then show ?thesis
    using assms by (intro entry_inv_count) (auto simp: entry_inv_def capacity_def)
qed

subsection \<open>The handlers keep it\<close>

lemma finalize_simps [simp]:
  "ms_ID (finalizeCreatedSession env src gid p) = gid" "ms_OwnerPID (finalizeCreatedSession env src gid p) = p"
  "ms_NumParticipants (finalizeCreatedSession env src gid p) = 1"
  "ms_MaxParticipants (finalizeCreatedSession env src gid p) = (if ms_MaxParticipants src = 0 then 12 else ms_MaxParticipants src)"
  by (simp_all add: finalizeCreatedSession_def Let_def)

lemma createGathering_result:
  assumes "createGathering env c src m = (m', gid, g)"
  shows "m' = (put_gathering gid g m)\<lparr>m_nextGID := gid + 1\<rparr>" "gid = m_nextGID m" "g_participants g = [c_PID c]"
    "ms_ID (g_session g) = gid" "ms_OwnerPID (g_session g) = c_PID c" "entry_inv (gid, g)"
proof -
  have max: "0 < unat (if ms_MaxParticipants src = 0 then 12 else ms_MaxParticipants src)"
    by (simp add: unat_gt_0)
  show "m' = (put_gathering gid g m)\<lparr>m_nextGID := gid + 1\<rparr>" "gid = m_nextGID m" "g_participants g = [c_PID c]"
    "ms_ID (g_session g) = gid" "ms_OwnerPID (g_session g) = c_PID c" "entry_inv (gid, g)"
    using assms max
    by (auto simp: createGathering_def Let_def put_gathering_def entry_inv_def seats_inv_def seats_def capacity_def)
qed

lemma createGathering_inv: "mm_inv m \<Longrightarrow> mm_inv (fst (createGathering env c src m))"
  using createGathering_result [of env c src m] mm_inv_put
  by (cases "createGathering env c src m") (auto simp: mm_inv_other_fields)

lemma occupiedSeats_eq: "occupiedSeats now g = (expireJoinReservations now g, seats (expireJoinReservations now g))"
  by (simp add: occupiedSeats_def seats_def Let_def)

definition good_lobby :: "endpoint \<Rightarrow> connection \<Rightarrow> MatchmakeSession \<Rightarrow> gathering \<Rightarrow> bool" where
  "good_lobby ep c src g \<longleftrightarrow> lobby_matches src g \<and> (of_nat (seats g) :: u16) < ms_MaxParticipants (g_session g) \<and>
     gatheringNATCompatible ep (classifyNAT (NATBehaviour c)) (g_participants g) (c_PID c)"

text \<open>One turn of the lobby search, by cases.\<close>

lemma select_lobby_turn:
  obtains (skip) "\<And>cand. gm_get (m_gatherings m) gid = Some cand \<Longrightarrow> \<not> good_lobby ep c src (expireJoinReservations now cand)"
      "select_lobby now ep c src (gid # gids) m = select_lobby now ep c src gids m"
  | (next_one) cand where "gm_get (m_gatherings m) gid = Some cand" "\<not> good_lobby ep c src (expireJoinReservations now cand)"
      "select_lobby now ep c src (gid # gids) m = select_lobby now ep c src gids (put_gathering gid (expireJoinReservations now cand) m)"
  | (found) cand where "gm_get (m_gatherings m) gid = Some cand" "good_lobby ep c src (expireJoinReservations now cand)"
      "select_lobby now ep c src (gid # gids) m =
         (put_gathering gid (expireJoinReservations now cand) m, Some (gid, expireJoinReservations now cand))"
proof (cases "gm_get (m_gatherings m) gid")
  case None
  then show thesis using skip by simp
next
  case (Some cand)
  have lm: "lobby_matches src (expireJoinReservations now cand) = lobby_matches src cand"
    by (simp add: lobby_matches_def)
  show thesis
  proof (cases "lobby_matches src cand")
    case False
    then show thesis using skip Some lm by (simp add: good_lobby_def)
  next
    case True
    then show thesis
      using next_one [OF Some] found [OF Some] Some lm
      by (cases "(of_nat (seats (expireJoinReservations now cand)) :: u16) < ms_MaxParticipants (g_session cand)";
          cases "gatheringNATCompatible ep (classifyNAT (NATBehaviour c)) (g_participants cand) (c_PID c)")
        (simp_all add: occupiedSeats_eq good_lobby_def)
  qed
qed

lemma select_lobby_inv: "mm_inv m \<Longrightarrow> mm_inv (fst (select_lobby now ep c src gids m))"
proof (induction gids arbitrary: m)
  case (Cons gid gids)
  have put: "mm_inv (put_gathering gid (expireJoinReservations now cand) m)" if "gm_get (m_gatherings m) gid = Some cand" for cand
    using mm_inv_get [OF Cons.prems that] by (intro mm_inv_put Cons.prems entry_inv_expire)
  show ?case
    by (cases rule: select_lobby_turn [of m gid ep c src now gids]) (simp_all add: Cons put)
qed simp

text \<open>
  The lobby the loop settles on, as the store holds it afterwards; when it settles on none, no
  visited lobby would do. Apart from expired reservations the loop changes nothing.
\<close>

lemma select_lobby_Some:
  "select_lobby now ep c src gids m = (m', Some (gid, g)) \<Longrightarrow>
   gm_get (m_gatherings m') gid = Some g \<and> gid \<in> set gids \<and> good_lobby ep c src g"
proof (induction gids arbitrary: m)
  case (Cons x gids)
  show ?case
  proof (cases rule: select_lobby_turn [of m x ep c src now gids])
    case (found cand)
    then show ?thesis
      using Cons.prems by (auto simp: put_gathering_def)
  qed (use Cons in auto)
qed simp

lemma select_lobby_None:
  "select_lobby now ep c src gids m = (m', None) \<Longrightarrow> gid \<in> set gids \<Longrightarrow> gm_get (m_gatherings m) gid = Some g \<Longrightarrow>
   \<not> good_lobby ep c src (expireJoinReservations now g)"
proof (induction gids arbitrary: m)
  case (Cons x gids)
  show ?case
  proof (cases rule: select_lobby_turn [of m x ep c src now gids])
    case (next_one cand)
    then show ?thesis
      using Cons.IH [of "put_gathering x (expireJoinReservations now cand) m"] Cons.prems
      by (cases "gid = x") (auto simp: put_gathering_def)
  qed (use Cons in auto)
qed simp

definition core :: "gathering \<Rightarrow> MatchmakeSession \<times> pid list \<times> u32 \<times> string" where
  "core g = (g_session g, g_participants g, g_hostConnID g, g_code g)"

lemma core_expire [simp]: "core (expireJoinReservations now g) = core g"
  by (simp add: core_def expireJoinReservations_def)

lemma select_lobby_frame:
  "map_option core (gm_get (m_gatherings (fst (select_lobby now ep c src gids m))) gid) = map_option core (gm_get (m_gatherings m) gid) \<and>
   m_nextGID (fst (select_lobby now ep c src gids m)) = m_nextGID m \<and>
   m_reservationTTL (fst (select_lobby now ep c src gids m)) = m_reservationTTL m"
proof (induction gids arbitrary: m)
  case (Cons x gids)
  show ?case
    by (cases rule: select_lobby_turn [of m x ep c src now gids]) (simp_all add: Cons put_gathering_def)
qed simp

lemma join_or_create_inv:
  assumes "mm_inv m" and "gm_get (m_gatherings m) gid = Some g" and "join_or_create env c src gid g m = (m', key, g')"
  shows "mm_inv (put_gathering key (count_participants g') m')"
proof -
  let ?g1 = "fst (reserveJoin (e_now_reserve env) (m_reservationTTL m) g (c_PID c))"
  have e1: "entry_inv (gid, ?g1)"
    by (rule entry_inv_reserve [OF mm_inv_get [OF assms(1,2)]])
  then have m1: "mm_inv (put_gathering gid ?g1 m)"
    by (rule mm_inv_put [OF assms(1)])
  show ?thesis
  proof (cases "snd (reserveJoin (e_now_reserve env) (m_reservationTTL m) g (c_PID c))")
    case True
    then have "key = gid" "g' = fst (commitReservedJoin (e_now_commit env) ?g1 (c_PID c))"
      "m' = put_gathering gid g' (put_gathering gid ?g1 m)"
      using assms(3) by (auto simp: join_or_create_def split_beta Let_def)
    moreover have "put_gathering gid a (put_gathering gid b m) = put_gathering gid a m" for a b
      by (simp add: put_gathering_def)
    ultimately show ?thesis
      using mm_inv_put [OF assms(1) entry_inv_commit_count [OF e1]] by simp
  next
    case False
    then have "createGathering env c src (put_gathering gid ?g1 m) = (m', key, g')"
      using assms(3) by (simp add: join_or_create_def split_beta Let_def)
    note r = createGathering_result [OF this]
    have "entry_inv (key, count_participants g')"
      using r(6) by (intro entry_inv_count) (auto simp: entry_inv_def)
    from mm_inv_put [OF m1 this] show ?thesis
      unfolding r(1) by (rule mm_inv_cong [THEN iffD1, rotated -1]) (simp_all add: put_gathering_def)
  qed
qed

lemma created_inv:
  assumes "mm_inv m" and "createGathering env c src m = (m', key, g)"
  shows "mm_inv (put_gathering key (count_participants g) m')" "mm_inv (put_gathering key (count_participants (solo_min g)) m')"
proof -
  note r = createGathering_result [OF assms(2)]
  have m': "mm_inv m'"
    using createGathering_inv [OF assms(1), of env c src] assms(2) by simp
  have "entry_inv (key, count_participants g)"
    using r(6) by (intro entry_inv_count) (auto simp: entry_inv_def)
  then show "mm_inv (put_gathering key (count_participants g) m')"
    by (rule mm_inv_put [OF m'])
  have "entry_inv (key, solo_min g)"
    unfolding solo_min_def by (rule entry_inv_upd_session [OF r(6)]) simp_all
  then have "entry_inv (key, count_participants (solo_min g))"
    by (intro entry_inv_count) (auto simp: entry_inv_def)
  then show "mm_inv (put_gathering key (count_participants (solo_min g)) m')"
    by (rule mm_inv_put [OF m'])
qed

lemma put_put [simp]: "put_gathering gid a (put_gathering gid b m) = put_gathering gid a m"
  by (simp add: put_gathering_def)

lemma place_player_inv:
  assumes "mm_inv m" and "place_player env ep c src m = (m', key, g)"
  shows "mm_inv (put_gathering key (count_participants g) m')"
proof (cases "isSoloPID (e_soloPIDs env) (c_PID c)")
  case True
  then show ?thesis
    using assms created_inv(2) [OF assms(1)] by (auto simp: place_player_def split: prod.splits)
next
  case False
  obtain m1 pick where sel: "select_lobby (e_now env) ep c src (e_ord env 0) m = (m1, pick)"
    by force
  have m1: "mm_inv m1"
    using select_lobby_inv [OF assms(1), of "e_now env" ep c src "e_ord env 0"] sel by simp
  show ?thesis
  proof (cases pick)
    case None
    then show ?thesis
      using assms(2) False sel created_inv(1) [OF m1] by (simp add: place_player_def)
  next
    case (Some p)
    then obtain gid cand where p: "pick = Some (gid, cand)" by (cases p) simp
    then show ?thesis
      using assms(2) False sel select_lobby_Some [of "e_now env" ep c src "e_ord env 0" m m1 gid cand]
        join_or_create_inv [OF m1, of gid cand env c src m' key g]
      by (simp add: place_player_def)
  qed
qed

lemma autoMatchmake_inv: "mm_inv m \<Longrightarrow> mm_inv (fst (autoMatchmake env ep r req m))"
  using place_player_inv by (auto simp: autoMatchmake_def Let_def split: prod.splits)

lemma notif_put_inv: "mm_inv (notif_put p t ev m) = mm_inv m"
  by (simp add: notif_put_def Let_def mm_inv_other_fields)

lemma friend_session_created_inv: "mm_inv m \<Longrightarrow> mm_inv (friend_session_created p gid m)"
proof -
  have "mm_inv (fold (\<lambda>(q, typ, ev). notif_put q typ ev) xs m)" if "mm_inv m" for xs m
    using that by (induction xs arbitrary: m) (auto simp: notif_put_inv)
  then show "mm_inv m \<Longrightarrow> mm_inv (friend_session_created p gid m)"
    by (auto simp: friend_session_created_def split: option.split)
qed

lemma createSession_inv: "mm_inv m \<Longrightarrow> mm_inv (fst (createSession env ep r req m))"
  using createGathering_inv [of m env] friend_session_created_inv
  by (auto simp: createSession_def Let_def split: prod.splits) (metis fst_conv)

lemma joinSession_inv:
  assumes "mm_inv m"
  shows "mm_inv (fst (joinSession env ep r req m))"
proof (cases "gm_get (m_gatherings m) (join_gid req)")
  case None
  then show ?thesis using assms by (simp add: joinSession_def Let_def)
next
  case (Some g)
  note e = mm_inv_get [OF assms Some]
  let ?p = "c_PID (conn_at ep r)"
  let ?res = "reserveJoin (e_now_reserve env) (m_reservationTTL m) g ?p"
  show ?thesis
  proof (cases "containsPID (g_participants g) ?p")
    case True
    have "entry_inv (join_gid req, count_participants g)"
      using e by (intro entry_inv_count) (auto simp: entry_inv_def)
    then show ?thesis
      using mm_inv_put [OF assms] True Some by (simp add: joinSession_def Let_def)
  next
    case False
    note e1 = entry_inv_reserve [OF e, of "e_now_reserve env" "m_reservationTTL m" ?p]
    then show ?thesis
      using mm_inv_put [OF assms e1] mm_inv_put [OF assms entry_inv_commit_count [OF e1, of "e_now_commit env" ?p]] False Some
      by (simp add: joinSession_def Let_def split_beta)
  qed
qed

lemma setParticipation_inv: "mm_inv m \<Longrightarrow> mm_inv (fst (setParticipation ep req opn m))"
  unfolding setParticipation_def fst_conv by (erule mm_inv_upd, erule entry_inv_upd_session) simp_all

lemma updateSessionPart_inv: "mm_inv m \<Longrightarrow> mm_inv (fst (updateSessionPart ep req m))"
  by (auto simp: updateSessionPart_def Let_def mm_inv_def split: prod.split)

lemma updateApplicationBuffer_inv:
  assumes "mm_inv m"
  shows "mm_inv (fst (updateApplicationBuffer ep r req m))"
proof -
  have "mm_inv (put_gathering gid (upd_session (\<lambda>ss. ss\<lparr>ms_ApplicationData := buf\<rparr>) g) m)"
    if "gm_get (m_gatherings m) gid = Some g" for gid g buf
    by (rule mm_inv_put [OF assms entry_inv_upd_session [OF mm_inv_get [OF assms that]]]) simp_all
  then show ?thesis
    using assms by (auto simp: updateApplicationBuffer_def Let_def split: prod.split option.split)
qed

lemma modifyCurrentGameAttribute_inv:
  assumes "mm_inv m" and "modifyCurrentGameAttribute ep r req m = Some res"
  shows "mm_inv (fst res)"
proof -
  have "mm_inv (put_gathering gid (upd_session (\<lambda>ss. ss\<lparr>ms_Attribs := xs\<rparr>) g) m)"
    if "gm_get (m_gatherings m) gid = Some g" for gid g xs
    by (rule mm_inv_put [OF assms(1) entry_inv_upd_session [OF mm_inv_get [OF assms(1) that]]]) simp_all
  then show ?thesis
    using assms by (auto simp: modifyCurrentGameAttribute_def Let_def split: prod.splits option.splits if_splits)
qed

lemma index_of_Some: "index_of p ps = Some i \<Longrightarrow> i < length ps \<and> ps ! i = p"
  by (induction ps arbitrary: i) (auto split: if_splits)

lemma index_of_None: "index_of p ps = None \<longleftrightarrow> p \<notin> set ps"
  by (induction ps) auto

lemma migrate_to_perm: "ps \<noteq> [] \<Longrightarrow> mset (migrate_to cs ps) = mset ps"
proof (induction cs)
  case (Cons c cs)
  show ?case
  proof (cases "index_of c ps")
    case (Some i)
    then show ?thesis
      using index_of_Some [OF Some] Cons.prems mset_swap [of i ps 0] by simp
  qed (use Cons in simp)
qed simp

lemma entry_inv_permute:
  assumes "entry_inv (gid, g)" and "mset ps = mset (g_participants g)"
  shows "entry_inv (gid, g\<lparr>g_participants := ps\<rparr>)"
  using assms mset_eq_setD [OF assms(2)] mset_eq_length [OF assms(2)] mset_eq_imp_distinct_iff [OF assms(2)]
  by (auto simp: entry_inv_def seats_inv_def seats_def capacity_def)

lemma migrateGatheringOwnership_inv:
  assumes "mm_inv m"
  shows "mm_inv (fst (migrateGatheringOwnership ep r req b m))"
proof -
  have "mm_inv (put_gathering gid (g\<lparr>g_participants := migrate_to cs (g_participants g)\<rparr>) m)"
    if "gm_get (m_gatherings m) gid = Some g" "g_participants g \<noteq> []" for gid g cs
    by (intro mm_inv_put [OF assms] entry_inv_permute [OF mm_inv_get [OF assms that(1)]] migrate_to_perm that(2))
  then show ?thesis
    using assms by (auto simp: migrateGatheringOwnership_def Let_def split: prod.split option.split)
qed

lemma unregister_inv: "mm_inv m \<Longrightarrow> mm_inv (unregister ep r req m)"
  by (auto simp: unregister_def Let_def mm_inv_del split: option.split)

lemma endParticipation_inv: "mm_inv m \<Longrightarrow> mm_inv (endParticipation ep r req m)"
  using mm_inv_get [of m] mm_inv_put [of m] entry_inv_leave
  by (auto simp: endParticipation_def Let_def mm_inv_del split: option.split)

lemma remove_from_keys: "(gid', g') \<in> set (fst (remove_from p (gid, g))) \<Longrightarrow> gid' = gid"
  by (auto simp: remove_from_def Let_def split: if_splits)

lemma remove_from_inv: "entry_inv (gid, g) \<Longrightarrow> e \<in> set (fst (remove_from p (gid, g))) \<Longrightarrow> entry_inv e"
proof -
  assume e: "entry_inv (gid, g)" and mem: "e \<in> set (fst (remove_from p (gid, g)))"
  have "removePID (g_participants g) p = g_participants g" if "length (removePID (g_participants g) p) = length (g_participants g)"
    using that by (simp add: removePID_eq) (metis removeAll_id length_removeAll_less less_irrefl)
  then show "entry_inv e"
    using mem entry_inv_release [OF e, of p] entry_inv_leave [OF e, of p]
    by (auto simp: remove_from_def Let_def split: if_splits)
qed

lemma RemovePlayer_gatherings:
  "p \<noteq> 0 \<Longrightarrow> m_gatherings (RemovePlayer p m) = concat (map (fst \<circ> remove_from p) (m_gatherings m))"
  by (simp add: RemovePlayer_def Let_def)

lemma remove_keys_sub: "set (map fst (concat (map (fst \<circ> remove_from p) xs))) \<subseteq> set (map fst xs)"
proof (induction xs)
  case (Cons x xs)
  obtain gid g where "x = (gid, g)" by (cases x)
  then show ?case
    using Cons remove_from_keys [of _ _ p gid g] by (auto simp: image_iff)
qed simp

lemma gm_wf_remove: "gm_wf xs \<Longrightarrow> gm_wf (concat (map (fst \<circ> remove_from p) xs))"
proof (induction xs)
  case (Cons x xs)
  obtain gid g where x: "x = (gid, g)" by (cases x)
  have "fst (remove_from p x) = [] \<or> (\<exists>g'. fst (remove_from p x) = [(gid, g')])"
    unfolding x by (auto simp: remove_from_def Let_def)
  moreover have "gid \<notin> set (map fst (concat (map (fst \<circ> remove_from p) xs)))"
    using Cons.prems remove_keys_sub [of p xs] x by (auto simp: gm_wf_def)
  ultimately show ?case
    using Cons by (elim disjE exE) (simp_all add: gm_wf_def)
qed simp

lemma RemovePlayer_inv: "mm_inv m \<Longrightarrow> mm_inv (RemovePlayer p m)"
proof (cases "p = 0")
  case False
  assume "mm_inv m"
  then show ?thesis
    using False gm_wf_remove [of "m_gatherings m" p] remove_from_inv [of _ _ _ p]
    by (fastforce simp: mm_inv_def RemovePlayer_def Let_def comp_def)
qed (simp add: RemovePlayer_def)

lemma ReserveJoin_inv: "mm_inv m \<Longrightarrow> mm_inv (fst (ReserveJoin now gid p m))"
  using mm_inv_get [of m gid] mm_inv_put [of m gid] entry_inv_reserve
  by (auto simp: ReserveJoin_def put_gathering_def Let_def split_beta split: option.split)

lemma CancelJoinReservation_inv: "mm_inv m \<Longrightarrow> mm_inv (CancelJoinReservation gid p m)"
  using mm_inv_get [of m gid] mm_inv_put [of m gid] entry_inv_release
  by (auto simp: CancelJoinReservation_def put_gathering_def split: option.split)

lemma makeCode_inv: "mm_inv m \<Longrightarrow> mm_inv (fst (makeCode gid m))"
  unfolding makeCode_def Let_def fst_conv
  by (rule mm_inv_upd) (auto simp: mm_inv_def entry_inv_def seats_inv_def seats_def capacity_def)

section \<open>The store as a transition system\<close>

text \<open>Every way the store changes: a handler call, a reservation call, a disconnect.\<close>

inductive mm_step :: "matchmaking \<Rightarrow> matchmaking \<Rightarrow> bool" where
  "mm_step m (fst (autoMatchmake env ep r req m))"
| "mm_step m (fst (createSession env ep r req m))"
| "mm_step m (fst (joinSession env ep r req m))"
| "mm_step m (fst (setParticipation ep req opn m))"
| "mm_step m (fst (updateSessionPart ep req m))"
| "mm_step m (fst (updateApplicationBuffer ep r req m))"
| "modifyCurrentGameAttribute ep r req m = Some res \<Longrightarrow> mm_step m (fst res)"
| "mm_step m (fst (migrateGatheringOwnership ep r req b m))"
| "mm_step m (unregister ep r req m)"
| "mm_step m (endParticipation ep r req m)"
| "mm_step m (RemovePlayer p m)"
| "mm_step m (fst (privateRoomCreate ep req m))"
| "mm_step m (fst (updateNotificationData ep r req m))"
| "mm_step m (PublishNotification p typ ev m)"
| "mm_step m (fst (ReserveJoin now gid p m))"
| "mm_step m (CancelJoinReservation gid p m)"
| "mm_step m (SetJoinReservationTTL ttl m)"

lemma mm_step_inv: "mm_step m m' \<Longrightarrow> mm_inv m \<Longrightarrow> mm_inv m'"
proof (induction rule: mm_step.induct)
  case (12 m ep req)
  then show ?case
    using makeCode_inv [of m "first_u32 req"] by (auto simp: privateRoomCreate_def Let_def split: prod.split)
next
  case (13 m ep r req)
  then show ?case by (auto simp: updateNotificationData_def Let_def notif_put_inv split: prod.split)
next
  case (14 m p t ev)
  then show ?case by (auto simp: PublishNotification_def notif_put_inv split: option.split)
qed (simp_all add: autoMatchmake_inv createSession_inv joinSession_inv setParticipation_inv updateSessionPart_inv
    updateApplicationBuffer_inv modifyCurrentGameAttribute_inv migrateGatheringOwnership_inv unregister_inv
    endParticipation_inv RemovePlayer_inv ReserveJoin_inv CancelJoinReservation_inv SetJoinReservationTTL_def mm_inv_other_fields)

interpretation mm: inductive_invariant "\<lambda>m. m = NewMatchmaking" mm_step mm_inv
  by unfold_locales (auto simp: mm_inv_New mm_step_inv)

section \<open>Properties\<close>

text \<open>
  C1: no lobby is ever overbooked. In every state the store can reach by handler calls, in any
  order and from any callers, each gathering is stored under its own id, has at least one
  participant and no participant twice, and its participants together with the seats reserved for
  others never exceed the capacity its session announces; the participant count in the session is
  the number of participants.
\<close>

theorem reachable_lobbies_within_capacity:
  assumes "reach (\<lambda>m. m = NewMatchmaking) mm_step m" and "gm_get (m_gatherings m) gid = Some g"
  shows "ms_ID (g_session g) = gid \<and> g_participants g \<noteq> [] \<and> distinct (g_participants g) \<and>
    length (g_participants g) + length (g_reservations g) \<le> unat (ms_MaxParticipants (g_session g)) \<and>
    ms_NumParticipants (g_session g) = of_nat (length (g_participants g))"
  using mm_inv_get [OF mm.reachable_inv [OF assms(1)] assms(2)]
  by (simp add: entry_inv_def seats_inv_def seats_def capacity_def)

subsection \<open>A small world for the witnesses\<close>

definition demo_settings :: settings where
  "demo_settings = NewSwitchSettings [] 40000"

definition demo_endpoint :: endpoint where
  "demo_endpoint = (NewEndpoint demo_settings)\<lparr>
     ep_sockets := [(NewConnection ''a'')\<lparr>c_ID := 1, c_PID := 11, c_state := stateConnected\<rparr>,
                    (NewConnection ''b'')\<lparr>c_ID := 2, c_PID := 12, c_state := stateConnected\<rparr>],
     ep_connections := [(1, 0), (2, 1)], ep_connCounter := 2\<rparr>"

definition demo_env :: call_env where
  "demo_env = \<lparr>e_ord = (\<lambda>_. [1]), e_now = 10, e_now_reserve = 20, e_now_commit = 30, e_randomKey = [5, 5, 5],
     e_NowDateTime = 99, e_openParticipation = [], e_soloPIDs = []\<rparr>"

definition demo_request :: rmc_message where
  "demo_request = NewRMCRequest demo_settings ProtocolMatchmakeExtension 0x28 1 (add_AutoMatchmakeParam demo_settings sample_session)"

definition demo_host :: matchmaking where
  "demo_host = fst (createGathering demo_env (conn_at demo_endpoint 0) sample_session NewMatchmaking)"

lemma demo_parse:
  "run_state (extract_AutoMatchmakeParam (ep_Settings demo_endpoint)) (NewStreamIn (rm_Body demo_request)) =
   (sample_session, stream_at (add_AutoMatchmakeParam demo_settings sample_session) [])"
  using sample_param_parses by (simp add: demo_request_def demo_endpoint_def demo_settings_def NewRMCRequest_def NewEndpoint_def)

lemma demo_host_created: "fst (createSession demo_env demo_endpoint 0 demo_request NewMatchmaking) = demo_host"
  by (simp add: createSession_def demo_parse demo_host_def in_Err_def split_beta Let_def friend_session_created_def
      createGathering_def NewMatchmaking_def)

lemma demo_host_reach: "reach (\<lambda>m. m = NewMatchmaking) mm_step demo_host"
proof -
  have "mm_step NewMatchmaking demo_host"
    using mm_step.intros(2) [of NewMatchmaking demo_env demo_endpoint 0 demo_request] by (simp only: demo_host_created)
  with reach_init show ?thesis
    by (rule reach_step) simp
qed

lemma demo_host_get:
  "gm_get (m_gatherings demo_host) 1 = Some \<lparr>g_session = finalizeCreatedSession demo_env sample_session 1 11,
     g_participants = [11], g_hostConnID = 1, g_code = [], g_reservations = []\<rparr>"
  by (simp add: demo_host_def createGathering_def NewMatchmaking_def demo_endpoint_def conn_at_def Let_def)

theorem reachable_lobbies_within_capacity_witness:
  "\<exists>g. reach (\<lambda>m. m = NewMatchmaking) mm_step demo_host \<and> gm_get (m_gatherings demo_host) 1 = Some g \<and>
     length (g_participants g) + length (g_reservations g) \<le> unat (ms_MaxParticipants (g_session g)) \<and> g_participants g \<noteq> []"
  using reachable_lobbies_within_capacity [OF demo_host_reach demo_host_get] demo_host_reach demo_host_get by blast

subsection \<open>Where auto-matchmaking places a player\<close>

lemma good_lobby_free_seat:
  assumes "entry_inv (gid, g)" and "good_lobby ep c src g"
  shows "seats g < capacity g"
proof -
  have "seats g \<le> capacity g" "capacity g < 2 ^ 16"
    using assms(1) unsigned_less [of "ms_MaxParticipants (g_session g)", where ?'a = nat]
    by (simp_all add: entry_inv_def seats_inv_def capacity_def)
  then have "unat (of_nat (seats g) :: u16) = seats g"
    by (intro unat_of_nat_word) simp
  then show ?thesis
    using assms(2) by (simp add: good_lobby_def word_less_nat_alt capacity_def)
qed

text \<open>A free seat at selection is a free seat at reservation: the fallback is never taken.\<close>

lemma reserve_after_selection:
  assumes "entry_inv (gid, g)" and "seats g < capacity g"
  shows "snd (reserveJoin now ttl g p)"
  using assms seats_inv_expire(2) [of g now]
  by (cases rule: reserveJoin_cases [of p g now ttl]) (auto simp: entry_inv_def capacity_def)

lemma join_or_create_joins:
  assumes e: "entry_inv (gid, g)" and "good_lobby ep c src g" and "e_now_commit env < e_now_reserve env + m_reservationTTL m"
  shows "\<exists>m' g'. join_or_create env c src gid g m = (m', gid, g') \<and> c_PID c \<in> set (g_participants g') \<and>
    set (g_participants g') = insert (c_PID c) (set (g_participants g)) \<and> g_session g' = g_session g"
proof -
  let ?r = "reserveJoin (e_now_reserve env) (m_reservationTTL m) g (c_PID c)"
  let ?c = "commitReservedJoin (e_now_commit env) (fst ?r) (c_PID c)"
  have ok: "snd ?r"
    by (rule reserve_after_selection [OF e good_lobby_free_seat [OF e assms(2)]])
  have inv: "seats_inv g"
    using e by (simp add: entry_inv_def)
  have "snd ?c \<longleftrightarrow> c_PID c \<notin> set (g_participants g)"
    using gseats.commit_result [OF reserveJoin_inv [OF inv], of "e_now_commit env" "e_now_reserve env" "m_reservationTTL m" "c_PID c" "c_PID c"]
      gseats.reserve_pend [OF inv, of "c_PID c" "e_now_reserve env" "m_reservationTTL m"] ok assms(3)
    by (auto simp: live_at_def)
  then show ?thesis
    using ok by (auto simp: join_or_create_def split_beta Let_def commitReservedJoin_kept)
qed

lemma place_player_places:
  assumes inv: "mm_inv m" and time: "e_now_commit env < e_now_reserve env + m_reservationTTL m"
    and res: "place_player env ep c src m = (m', gid, g)"
  shows "c_PID c \<in> set (g_participants g) \<and>
    (gid = m_nextGID m \<and> g_participants g = [c_PID c] \<and> ms_OwnerPID (g_session g) = c_PID c \<or>
     \<not> isSoloPID (e_soloPIDs env) (c_PID c) \<and>
     (\<exists>g0. gm_get (m_gatherings m) gid = Some g0 \<and> gid \<in> set (e_ord env 0) \<and> lobby_matches src g0 \<and>
        set (g_participants g) = insert (c_PID c) (set (g_participants g0)) \<and>
        (\<forall>q \<in> set (g_participants g0). q \<noteq> c_PID c \<longrightarrow> natCompatible (classifyNAT (NATBehaviour c)) (pidNATClass ep q))))"
proof (cases "isSoloPID (e_soloPIDs env) (c_PID c)")
  case True
  obtain m2 k2 g2 where cr: "createGathering env c src m = (m2, k2, g2)"
    by (metis prod_cases3)
  then have "gid = k2" "g = solo_min g2"
    using res True by (simp_all add: place_player_def)
  then show ?thesis
    using createGathering_result [OF cr] by (simp add: solo_min_def upd_session_def)
next
  case False
  obtain m1 pick where sel: "select_lobby (e_now env) ep c src (e_ord env 0) m = (m1, pick)"
    by force
  note frame = select_lobby_frame [of "e_now env" ep c src "e_ord env 0" m, unfolded sel fst_conv]
  show ?thesis
  proof (cases pick)
    case None
    then show ?thesis
      using False res sel frame createGathering_result [of env c src m1 m' gid g] by (simp add: place_player_def)
  next
    case (Some pk)
    then obtain k cand where pk: "pick = Some (k, cand)" by (cases pk) simp
    note found = select_lobby_Some [OF sel [unfolded pk]]
    have "mm_inv m1"
      using select_lobby_inv [OF inv, of "e_now env" ep c src "e_ord env 0"] sel by simp
    then have e: "entry_inv (k, cand)"
      using found by (auto intro: mm_inv_get)
    obtain g0 where g0: "gm_get (m_gatherings m) k = Some g0" "core g0 = core cand"
      using frame [of k] found by (cases "gm_get (m_gatherings m) k") auto
    have "join_or_create env c src k cand m1 = (m', gid, g)"
      using res False sel pk by (simp add: place_player_def)
    moreover have "e_now_commit env < e_now_reserve env + m_reservationTTL m1"
      using time frame [of k] by simp
    ultimately have joined: "gid = k" "c_PID c \<in> set (g_participants g)" "set (g_participants g) = insert (c_PID c) (set (g_participants cand))"
      using join_or_create_joins [OF e, of ep c src env m1] found by auto
    have same: "g_session g0 = g_session cand" "g_participants g0 = g_participants cand"
      using g0(2) by (simp_all add: core_def)
    have "lobby_matches src g0" "\<forall>q \<in> set (g_participants g0). q \<noteq> c_PID c \<longrightarrow> natCompatible (classifyNAT (NATBehaviour c)) (pidNATClass ep q)"
      using found same by (simp_all add: good_lobby_def lobby_matches_def gatheringNATCompatible_iff)
    then show ?thesis
      using joined g0(1) same found False by auto
  qed
qed

text \<open>
  C2: auto-matchmaking places the caller, and only where it fits. From any reachable store, a
  well-formed request answered before the reservation runs out makes the caller a participant of
  the gathering whose session is returned. That gathering is either a new one holding the caller
  alone, or an existing lobby of the requested game mode that was open and without password, and
  whose every other member has a NAT class the caller's can reach; a solo-isolated account always
  gets a new one.
\<close>

theorem autoMatchmake_places_caller:
  assumes "reach (\<lambda>m. m = NewMatchmaking) mm_step m"
    and "run_state (extract_AutoMatchmakeParam (ep_Settings ep)) (NewStreamIn (rm_Body req)) = (src, st)" and "\<not> in_Err st"
    and "e_now_commit env < e_now_reserve env + m_reservationTTL m"
  shows "\<exists>gid g. gm_get (m_gatherings (fst (autoMatchmake env ep r req m))) gid = Some g \<and>
    snd (snd (autoMatchmake env ep r req m)) = reply (ep_Settings ep) ProtocolMatchmakeExtension req (add_MatchmakeSession (ep_Settings ep) (g_session g)) \<and>
    c_PID (conn_at ep r) \<in> set (g_participants g) \<and>
    (gid = m_nextGID m \<and> g_participants g = [c_PID (conn_at ep r)] \<or>
     \<not> isSoloPID (e_soloPIDs env) (c_PID (conn_at ep r)) \<and>
     (\<exists>g0. gm_get (m_gatherings m) gid = Some g0 \<and> ms_GameMode (g_session g0) = ms_GameMode src \<and>
        ms_OpenParticipation (g_session g0) \<and> \<not> ms_UserPasswordEnabled (g_session g0) \<and>
        set (g_participants g) = insert (c_PID (conn_at ep r)) (set (g_participants g0)) \<and>
        (\<forall>q \<in> set (g_participants g0). q \<noteq> c_PID (conn_at ep r) \<longrightarrow>
           natCompatible (classifyNAT (NATBehaviour (conn_at ep r))) (pidNATClass ep q))))"
proof -
  obtain m' gid g where res: "place_player env ep (conn_at ep r) src m = (m', gid, g)"
    by (metis prod_cases3)
  have auto: "autoMatchmake env ep r req m = (put_gathering gid (count_participants g) m',
      notifyParticipation ep r (g_participants (count_participants g)) (ms_ID (g_session (count_participants g))) [],
      reply (ep_Settings ep) ProtocolMatchmakeExtension req (add_MatchmakeSession (ep_Settings ep) (g_session (count_participants g))))"
    using assms(2,3) res by (simp add: autoMatchmake_def Let_def)
  have parts: "g_participants (count_participants g) = g_participants g"
    by (simp add: count_participants_def upd_session_def)
  show ?thesis
    using place_player_places [OF mm.reachable_inv [OF assms(1)] assms(4) res] unfolding auto
    by (intro exI [of _ gid] exI [of _ "count_participants g"])
      (auto simp: put_gathering_def parts lobby_matches_def)
qed

theorem autoMatchmake_places_caller_witness:
  "\<exists>gid g. gm_get (m_gatherings (fst (autoMatchmake demo_env demo_endpoint 1 demo_request demo_host))) gid = Some g \<and>
     12 \<in> set (g_participants g)"
proof -
  have "e_now_commit demo_env < e_now_reserve demo_env + m_reservationTTL demo_host"
    by (simp add: demo_env_def demo_host_def createGathering_def NewMatchmaking_def defaultJoinReservationTTL_def Let_def)
  moreover have "\<not> in_Err (stream_at (add_AutoMatchmakeParam demo_settings sample_session) [])"
    by (simp add: in_Err_def)
  moreover have "c_PID (conn_at demo_endpoint 1) = 12"
    by (simp add: demo_endpoint_def conn_at_def)
  ultimately show ?thesis
    using autoMatchmake_places_caller [OF demo_host_reach demo_parse, of demo_env 1] by metis
qed

end
