(* ===== verification/Nex_Handlers.thy ===== *)
theory Nex_Handlers
  imports Nex_Lobby
begin

unbundle bit_operations_syntax

text \<open>
  Properties of the individual matchmaking handlers: that lobbies are reused, what a join by id
  does on every branch, that gathering ids are not reused, what leaving removes, who may change
  what, room codes, and what the search handlers disclose.
\<close>

section \<open>Lobbies are reused\<close>

lemma reserve_seat_count: "seats (expireJoinReservations now g) = length (g_participants g) + length (filter (\<lambda>(p, e). now < e) (g_reservations g))"
  by (simp add: seats_def expireJoinReservations_def)

lemma good_lobby_expire:
  assumes "entry_inv (gid, g)" and "lobby_matches src g"
    and "length (g_participants g) + length (filter (\<lambda>(p, e). now < e) (g_reservations g)) < capacity g"
    and "gatheringNATCompatible ep (classifyNAT (NATBehaviour c)) (g_participants g) (c_PID c)"
  shows "good_lobby ep c src (expireJoinReservations now g)"
proof -
  have "capacity g < 2 ^ 16"
    using unsigned_less [of "ms_MaxParticipants (g_session g)", where ?'a = nat] by (simp add: capacity_def)
  then have "unat (of_nat (seats (expireJoinReservations now g)) :: u16) = seats (expireJoinReservations now g)"
    using assms(3) by (intro unat_of_nat_word) (simp add: reserve_seat_count)
  then show ?thesis
    using assms by (simp add: good_lobby_def lobby_matches_def word_less_nat_alt reserve_seat_count capacity_def)
qed

lemma put_gathering_keys:
  "gm_get (m_gatherings m) gid = Some g0 \<Longrightarrow> gm_keys (m_gatherings (put_gathering gid g m)) = gm_keys (m_gatherings m)"
  by (simp add: put_gathering_def gm_keys_def map_fst_update gm_has_get)

lemma put_gathering_simps [simp]:
  "m_nextGID (put_gathering gid g m) = m_nextGID m" "m_reservationTTL (put_gathering gid g m) = m_reservationTTL m"
  "gm_get (m_gatherings (put_gathering gid g m)) gid' = (if gid' = gid then Some g else gm_get (m_gatherings m) gid')"
  by (simp_all add: put_gathering_def)

lemma select_lobby_keys: "gm_keys (m_gatherings (fst (select_lobby now ep c src gids m))) = gm_keys (m_gatherings m)"
proof (induction gids arbitrary: m)
  case (Cons x gids)
  show ?case
    by (cases rule: select_lobby_turn [of m x ep c src now gids]) (simp_all add: Cons put_gathering_keys)
qed simp

text \<open>
  C4: a player is not left alone while a lobby fits. If some existing lobby of the requested mode
  is open, without password, has a seat that is neither taken nor reserved, and is reachable for
  the caller's NAT, then auto-matchmaking creates no gathering: it uses an existing lobby,
  whatever the order in which the lobbies are visited.
\<close>

theorem autoMatchmake_reuses_lobby:
  assumes "reach (\<lambda>m. m = NewMatchmaking) mm_step m" and "visits (e_ord env 0) (m_gatherings m)"
    and "run_state (extract_AutoMatchmakeParam (ep_Settings ep)) (NewStreamIn (rm_Body req)) = (src, st)" and "\<not> in_Err st"
    and "\<not> isSoloPID (e_soloPIDs env) (c_PID (conn_at ep r))" and "gm_get (m_gatherings m) gid = Some g" and "lobby_matches src g"
    and "length (g_participants g) + length (filter (\<lambda>(p, e). e_now env < e) (g_reservations g)) < unat (ms_MaxParticipants (g_session g))"
    and "\<forall>q \<in> set (g_participants g). natCompatible (classifyNAT (NATBehaviour (conn_at ep r))) (pidNATClass ep q)"
  shows "m_nextGID (fst (autoMatchmake env ep r req m)) = m_nextGID m \<and>
    gm_keys (m_gatherings (fst (autoMatchmake env ep r req m))) = gm_keys (m_gatherings m)"
proof -
  let ?c = "conn_at ep r"
  have inv: "mm_inv m"
    by (rule mm.reachable_inv [OF assms(1)])
  have good: "good_lobby ep ?c src (expireJoinReservations (e_now env) g)"
    using assms(7-9) mm_inv_get [OF inv assms(6)]
    by (intro good_lobby_expire [of gid]) (simp_all add: capacity_def gatheringNATCompatible_iff)
  have "gid \<in> set (e_ord env 0)"
    using assms(2,6) by (auto simp: visits_def dest: gm_get_Some_in intro: rev_image_eqI)
  then obtain m1 k cand where sel: "select_lobby (e_now env) ep ?c src (e_ord env 0) m = (m1, Some (k, cand))"
    using select_lobby_None [of "e_now env" ep ?c src "e_ord env 0" m _ gid g] assms(6) good
    by (cases "select_lobby (e_now env) ep ?c src (e_ord env 0) m",
        cases "snd (select_lobby (e_now env) ep ?c src (e_ord env 0) m)") auto
  note found = select_lobby_Some [OF sel] and frame = select_lobby_frame [of "e_now env" ep ?c src "e_ord env 0" m, unfolded sel fst_conv]
  have "mm_inv m1"
    using select_lobby_inv [OF inv, of "e_now env" ep ?c src "e_ord env 0"] sel by simp
  then have e: "entry_inv (k, cand)"
    using found by (auto intro: mm_inv_get)
  note ok = reserve_after_selection [OF e good_lobby_free_seat [OF e, of ep ?c src], of "e_now_reserve env" "m_reservationTTL m1" "c_PID ?c"]
  obtain g2 where "join_or_create env ?c src k cand m1 = (put_gathering k g2 m1, k, g2)"
    using ok found by (simp add: join_or_create_def split_beta Let_def)
  then have "fst (autoMatchmake env ep r req m) = put_gathering k (count_participants g2) m1"
    using assms(3-5) sel by (simp add: autoMatchmake_def place_player_def Let_def)
  then show ?thesis
    using frame [of k] found put_gathering_keys [of m1 k cand] select_lobby_keys [of "e_now env" ep ?c src "e_ord env 0" m] sel
    by simp
qed

lemma demo_visits: "visits (e_ord demo_env 0) (m_gatherings demo_host)"
  by (simp add: visits_def demo_env_def demo_host_def createGathering_def NewMatchmaking_def Let_def)

lemma demo_lobby_fits:
  defines "g \<equiv> \<lparr>g_session = finalizeCreatedSession demo_env sample_session 1 11,
     g_participants = [11], g_hostConnID = 1, g_code = [], g_reservations = []\<rparr>"
  shows "lobby_matches sample_session g"
    "length (g_participants g) + length (filter (\<lambda>(p, e). e_now demo_env < e) (g_reservations g)) < unat (ms_MaxParticipants (g_session g))"
    "\<forall>q \<in> set (g_participants g). natCompatible (classifyNAT (NATBehaviour (conn_at demo_endpoint 1))) (pidNATClass demo_endpoint q)"
  by (simp_all add: g_def lobby_matches_def finalizeCreatedSession_def Let_def sample_session_def demo_env_def
      openParticipationDefault_def env_true_def natCompatible_def classifyNAT_def NATBehaviour_def conn_at_def demo_endpoint_def NewConnection_def)

theorem autoMatchmake_reuses_lobby_witness:
  "m_nextGID (fst (autoMatchmake demo_env demo_endpoint 1 demo_request demo_host)) = m_nextGID demo_host"
proof -
  have "\<not> isSoloPID (e_soloPIDs demo_env) (c_PID (conn_at demo_endpoint 1))"
    by (simp add: demo_env_def isSoloPID_unset)
  moreover have "\<not> in_Err (stream_at (add_AutoMatchmakeParam demo_settings sample_session) [])"
    by (simp add: in_Err_def)
  ultimately show ?thesis
    using autoMatchmake_reuses_lobby [OF demo_host_reach demo_visits demo_parse _ _ demo_host_get demo_lobby_fits] by blast
qed

section \<open>Joining by id\<close>

lemma reply_no_error [simp]: "\<not> rm_IsError (reply s q req b)"
  by (simp add: reply_def NewRMCSuccess_def)

lemma count_participants_parts [simp]: "g_participants (count_participants g) = g_participants g"
  by (simp add: count_participants_def upd_session_def)

text \<open>
  C3: what a join by id does. An unknown gathering is refused with \<open>SessionVoid\<close>. A participant
  who joins again stays one, once, and nobody is notified. Anyone else gets in exactly when a
  reservation of theirs still runs or a seat is neither taken nor reserved; then, as long as the
  commit comes before the reservation runs out, the caller becomes the last participant and every
  participant is notified. Otherwise the answer is \<open>SessionFull\<close> and the participants do not
  change.
\<close>

theorem joinSession_branches:
  assumes "reach (\<lambda>m. m = NewMatchmaking) mm_step m" and "e_now_commit env < e_now_reserve env + m_reservationTTL m"
    and "p = c_PID (conn_at ep r)" and "joinSession env ep r req m = (m', pushes, resp)"
  shows "case gm_get (m_gatherings m) (join_gid req) of
      None \<Rightarrow> m' = m \<and> pushes = [] \<and>
        resp = NewRMCError (ep_Settings ep) ProtocolMatchmakeExtension (rm_CallID req) ResultRendezVousSessionVoid
    | Some g \<Rightarrow> (\<exists>g'. gm_get (m_gatherings m') (join_gid req) = Some g' \<and>
        (if p \<in> set (g_participants g) then g_participants g' = g_participants g \<and> pushes = [] \<and> \<not> rm_IsError resp
         else if live_at (e_now_reserve env) (pending g) p \<noteq> None \<or>
           length (g_participants g) + card (dom (live_at (e_now_reserve env) (pending g))) < unat (ms_MaxParticipants (g_session g))
         then g_participants g' = g_participants g @ [p] \<and> \<not> rm_IsError resp \<and>
           pushes = notifyParticipation ep r (g_participants g @ [p]) (join_gid req) []
         else g_participants g' = g_participants g \<and> pushes = [] \<and>
           resp = NewRMCError (ep_Settings ep) ProtocolMatchmakeExtension (rm_CallID req) ResultRendezVousSessionFull))"
proof (cases "gm_get (m_gatherings m) (join_gid req)")
  case None
  then show ?thesis using assms(3-) by (simp add: joinSession_def Let_def)
next
  case (Some g)
  have inv: "seats_inv g" and cap: "capacity g > 0" and dist: "card (set (g_participants g)) = length (g_participants g)"
    using mm_inv_get [OF mm.reachable_inv [OF assms(1)] Some] by (auto simp: entry_inv_def seats_inv_def distinct_card)
  let ?r = "reserveJoin (e_now_reserve env) (m_reservationTTL m) g p"
  let ?c = "commitReservedJoin (e_now_commit env) (fst ?r) p"
  have j: "snd ?c" if "p \<notin> set (g_participants g)" "snd ?r"
    using gseats.commit_result [OF reserveJoin_inv [OF inv], of "e_now_commit env" "e_now_reserve env" "m_reservationTTL m" p p]
      gseats.reserve_pend [OF inv, of p "e_now_reserve env" "m_reservationTTL m"] assms(2) that
    by (auto simp: live_at_def)
  note granted = gseats.reserve_result [OF inv, of "e_now_reserve env" "m_reservationTTL m" p]
  show ?thesis
  proof (cases "p \<in> set (g_participants g)")
    case True
    then show ?thesis using assms(3,4) Some by (auto simp: joinSession_def Let_def)
  next
    case False
    then show ?thesis
      using assms(3,4) Some j granted cap dist
      by (cases "snd ?r") (auto simp: joinSession_def Let_def split_beta commitReservedJoin_kept capacity_def)
  qed
qed

definition join_request :: "gid \<Rightarrow> rmc_message" where
  "join_request gid = NewRMCRequest demo_settings ProtocolMatchmakeExtension 0x27 2 (out_U8 0 @ out_Buffer (out_U32 gid))"

lemma join_gid_request: "join_gid (join_request gid) = gid"
proof -
  have "reads in_Substream (out_Buffer (out_U32 gid)) (NewStreamIn (out_U32 gid))"
    unfolding in_Substream_def by (rule reads_bind_ret [OF reads_Buffer refl]) (simp add: buffer_ok_def)
  then have "reads (do { _ \<leftarrow> in_U8; sub \<leftarrow> in_Substream; ret (fst (run_state in_U32 sub)) }) (out_U8 0 @ out_Buffer (out_U32 gid)) gid"
    using u32c.decode_fresh [of gid "[]"] by (intro reads_bind [OF reads_U8] reads_bind_ret) simp_all
  from readsD [OF this, of "[]" "[]"] show ?thesis
    by (simp add: join_gid_def join_request_def NewRMCRequest_def NewStreamIn_stream_at)
qed

theorem joinSession_branches_witness:
  "\<exists>g'. gm_get (m_gatherings (fst (joinSession demo_env demo_endpoint 1 (join_request 1) demo_host))) 1 = Some g' \<and>
     g_participants g' = [11, 12]"
proof -
  obtain m' pushes resp where res: "joinSession demo_env demo_endpoint 1 (join_request 1) demo_host = (m', pushes, resp)"
    by (metis prod_cases3)
  have time: "e_now_commit demo_env < e_now_reserve demo_env + m_reservationTTL demo_host"
    by (simp add: demo_env_def demo_host_def createGathering_def NewMatchmaking_def defaultJoinReservationTTL_def Let_def)
  have pid: "12 = c_PID (conn_at demo_endpoint 1)"
    by (simp add: demo_endpoint_def conn_at_def)
  have max: "ms_MaxParticipants sample_session = 12"
    by (simp add: sample_session_def)
  have none: "live_at t (\<lambda>x. None) = Map.empty" for t
    by (simp add: live_at_def fun_eq_iff)
  show ?thesis
    using joinSession_branches [OF demo_host_reach time pid res] res
    by (auto simp: join_gid_request demo_host_get max none)
qed

section \<open>Gathering ids\<close>

text \<open>What one step does to the set of gatherings: it only removes some, or adds the next id.\<close>

definition grows :: "matchmaking \<Rightarrow> matchmaking \<Rightarrow> bool" where
  "grows m m' \<longleftrightarrow>
     m_nextGID m' = m_nextGID m \<and> (\<forall>k. gm_has (m_gatherings m') k \<longrightarrow> gm_has (m_gatherings m) k) \<or>
     m_nextGID m' = m_nextGID m + 1 \<and> (\<forall>k. gm_has (m_gatherings m') k \<longrightarrow> k = m_nextGID m \<or> gm_has (m_gatherings m) k)"

lemma grows_refl [simp]: "grows m m"
  by (simp add: grows_def)

lemma grows_del [simp]: "grows m (m\<lparr>m_gatherings := gm_del gid (m_gatherings m)\<rparr>)"
  by (simp add: grows_def)

lemma has_put_gathering [simp]:
  "gm_has (m_gatherings (put_gathering gid g m)) k \<longleftrightarrow> k = gid \<or> gm_has (m_gatherings m) k"
  by (simp add: put_gathering_def)

lemma grows_put [simp]: "gm_get (m_gatherings m) gid = Some g0 \<Longrightarrow> grows m (put_gathering gid g m)"
  by (auto simp: grows_def gm_has_get)

lemma grows_upd [simp]: "grows m (upd_gathering gid f m)"
  using grows_put [of m gid] by (auto simp: upd_gathering_def put_gathering_def split: option.split)

lemma grows_same: "m_nextGID m' = m_nextGID m \<Longrightarrow> m_gatherings m' = m_gatherings m \<Longrightarrow> grows m m'"
  by (simp add: grows_def)

lemma has_core: "gm_has (m_gatherings m) k \<longleftrightarrow> map_option core (gm_get (m_gatherings m) k) \<noteq> None"
  by (simp add: gm_has_get)

lemma grows_place:
  assumes "place_player env ep c src m = (m', gid, g)"
  shows "grows m (put_gathering gid g' m')"
proof -
  have created: "grows m (put_gathering gid g' (put_gathering gid h' mc))"
    if "createGathering env c src m0 = (mc, gid, h)" "m_nextGID m0 = m_nextGID m"
      "\<And>k. gm_has (m_gatherings m0) k = gm_has (m_gatherings m) k" for m0 mc h h'
    using createGathering_result [OF that(1)] that(2,3) by (auto simp: grows_def)
  then have created': "grows m (put_gathering gid g' mc)"
    if "createGathering env c src m0 = (mc, gid, h)" "m_nextGID m0 = m_nextGID m"
      "\<And>k. gm_has (m_gatherings m0) k = gm_has (m_gatherings m) k" for m0 mc h
    using that by (metis put_put)
  show ?thesis
  proof (cases "isSoloPID (e_soloPIDs env) (c_PID c)")
    case True
    then show ?thesis
      using assms created by (auto simp: place_player_def split: prod.splits)
  next
    case False
    obtain m1 pick where sel: "select_lobby (e_now env) ep c src (e_ord env 0) m = (m1, pick)"
      by force
    note frame = select_lobby_frame [of "e_now env" ep c src "e_ord env 0" m, unfolded sel fst_conv]
    have has: "gm_has (m_gatherings m1) k = gm_has (m_gatherings m) k" for k
      using frame [of k] by (simp only: has_core)
    show ?thesis
    proof (cases pick)
      case None
      then show ?thesis
        using assms False sel frame has created' by (simp add: place_player_def)
    next
      case (Some pk)
      then obtain k cand where pk: "pick = Some (k, cand)" by (cases pk) simp
      have k: "gm_has (m_gatherings m) k"
        using select_lobby_Some [OF sel [unfolded pk]] has [of k] by (auto simp: gm_has_get)
      let ?r = "reserveJoin (e_now_reserve env) (m_reservationTTL m1) cand (c_PID c)"
      have "join_or_create env c src k cand m1 = (m', gid, g)"
        using assms False sel pk by (simp add: place_player_def)
      then show ?thesis
        using created' [of "put_gathering k (fst ?r) m1"] frame [of k] has k
        by (cases "snd ?r") (auto simp: join_or_create_def split_beta Let_def grows_def)
    qed
  qed
qed

lemma notif_put_simps [simp]:
  "m_nextGID (notif_put p t ev m) = m_nextGID m" "m_gatherings (notif_put p t ev m) = m_gatherings m"
  by (simp_all add: notif_put_def Let_def)

lemma friend_session_created_simps [simp]:
  "m_nextGID (friend_session_created p gid m) = m_nextGID m" "m_gatherings (friend_session_created p gid m) = m_gatherings m"
proof -
  have "m_nextGID (fold (\<lambda>(q, typ, ev). notif_put q typ ev) xs m) = m_nextGID m \<and>
      m_gatherings (fold (\<lambda>(q, typ, ev). notif_put q typ ev) xs m) = m_gatherings m" for xs
    by (induction xs arbitrary: m) auto
  then show "m_nextGID (friend_session_created p gid m) = m_nextGID m"
    "m_gatherings (friend_session_created p gid m) = m_gatherings m"
    by (auto simp: friend_session_created_def split: option.split)
qed

lemma grows_autoMatchmake: "grows m (fst (autoMatchmake env ep r req m))"
  using grows_place by (auto simp: autoMatchmake_def Let_def split: prod.splits)

lemma grows_createSession: "grows m (fst (createSession env ep r req m))"
proof -
  have "grows m (friend_session_created p k m')" if "createGathering env c src m = (m', gid, g)" for c src m' gid g p k
    using createGathering_result [OF that] by (auto simp: grows_def)
  then show ?thesis
    by (auto simp: createSession_def Let_def split: prod.splits)
qed

lemma grows_joinSession: "grows m (fst (joinSession env ep r req m))"
  by (auto simp: joinSession_def Let_def split_beta split: option.split)

lemma grows_endParticipation: "grows m (endParticipation ep r req m)"
  by (auto simp: endParticipation_def Let_def split: option.split)

lemma grows_RemovePlayer: "grows m (RemovePlayer p m)"
  using remove_keys_sub [of p "m_gatherings m"]
  by (cases "p = 0") (auto simp: grows_def gm_has_def RemovePlayer_def Let_def comp_def subset_iff)

lemma grows_updateSessionPart: "grows m (fst (updateSessionPart ep req m))"
proof -
  have "grows m (fst (applySessionPart q m))" for q
    by (auto simp: applySessionPart_def grows_def gm_has_get split: option.split)
  then show ?thesis
    by (auto simp: updateSessionPart_def Let_def split: prod.split)
qed

lemma grows_privateRoomCreate: "grows m (fst (privateRoomCreate ep req m))"
proof -
  have "m_nextGID (upd_gathering gid f (m\<lparr>m_codeRand := x, m_byCode := y\<rparr>)) = m_nextGID (upd_gathering gid f m)"
    "m_gatherings (upd_gathering gid f (m\<lparr>m_codeRand := x, m_byCode := y\<rparr>)) = m_gatherings (upd_gathering gid f m)" for gid f x y
    by (simp_all add: upd_gathering_def split: option.split)
  then show ?thesis
    using grows_upd [of m] by (simp add: privateRoomCreate_def makeCode_def Let_def grows_def)
qed

lemma mm_step_grows: "mm_step m m' \<Longrightarrow> grows m m'"
proof (induction rule: mm_step.induct)
  case (7 ep r req m res)
  then show ?case
    by (auto simp: modifyCurrentGameAttribute_def Let_def split: prod.splits option.splits if_splits)
next
  case (8 m ep r req b)
  then show ?case by (auto simp: migrateGatheringOwnership_def Let_def split: prod.split option.split)
next
  case (15 m now gid p)
  then show ?case
    by (auto simp: ReserveJoin_def Let_def grows_def gm_has_get split_beta split: option.split)
next
  case (16 m gid p)
  then show ?case by (auto simp: CancelJoinReservation_def grows_def gm_has_get split: option.split)
qed (auto simp: grows_autoMatchmake grows_createSession grows_joinSession grows_endParticipation grows_RemovePlayer
    grows_updateSessionPart grows_privateRoomCreate setParticipation_def updateApplicationBuffer_def unregister_def
    updateNotificationData_def PublishNotification_def SetJoinReservationTTL_def grows_same Let_def
    split: prod.split option.split)

text \<open>The ids in use lie below the next one, until the 32-bit counter is exhausted.\<close>

definition mm_step_bounded :: "matchmaking \<Rightarrow> matchmaking \<Rightarrow> bool" where
  "mm_step_bounded m m' \<longleftrightarrow> mm_step m m' \<and> m_nextGID m \<noteq> 0xFFFFFFFF"

definition ids_fresh :: "matchmaking \<Rightarrow> bool" where
  "ids_fresh m \<longleftrightarrow> (\<forall>k. gm_has (m_gatherings m) k \<longrightarrow> k < m_nextGID m)"

lemma ids_fresh_grows:
  assumes "ids_fresh m" and "grows m m'" and "m_nextGID m \<noteq> 0xFFFFFFFF"
  shows "ids_fresh m'"
proof -
  have "m_nextGID m < m_nextGID m + 1"
    by (rule u32_less_Suc [OF assms(3)])
  then show ?thesis
    using assms(1,2) unfolding ids_fresh_def grows_def by (metis order.strict_trans)
qed

lemma ids_fresh_New: "ids_fresh NewMatchmaking"
  by (simp add: ids_fresh_def NewMatchmaking_def)

interpretation gids: inductive_invariant "\<lambda>m. m = NewMatchmaking" mm_step_bounded ids_fresh
  by unfold_locales (auto simp: ids_fresh_New mm_step_bounded_def intro: ids_fresh_grows mm_step_grows)

text \<open>
  C11: a gathering keeps its id to itself. As long as the 32-bit counter of ids has not been
  exhausted, creating a gathering never replaces a live one: the id it takes is free, every other
  gathering is as before, and the new one is stored under that id with the caller as its owner.
\<close>

theorem createGathering_fresh_id:
  assumes "reach (\<lambda>m. m = NewMatchmaking) mm_step_bounded m" and "createGathering env c src m = (m', gid, g)"
  shows "gm_get (m_gatherings m) gid = None \<and> gm_get (m_gatherings m') gid = Some g \<and>
    (\<forall>k. k \<noteq> gid \<longrightarrow> gm_get (m_gatherings m') k = gm_get (m_gatherings m) k) \<and>
    ms_ID (g_session g) = gid \<and> ms_OwnerPID (g_session g) = c_PID c"
  using gids.reachable_inv [OF assms(1)] createGathering_result [OF assms(2)]
  by (auto simp: ids_fresh_def gm_has_get)

lemma demo_host_bounded: "reach (\<lambda>m. m = NewMatchmaking) mm_step_bounded demo_host"
proof -
  have "m_nextGID NewMatchmaking = 1"
    by (simp add: NewMatchmaking_def)
  then have "mm_step_bounded NewMatchmaking demo_host"
    using mm_step.intros(2) [of NewMatchmaking demo_env demo_endpoint 0 demo_request, unfolded demo_host_created]
    unfolding mm_step_bounded_def by simp
  with reach_init show ?thesis
    by (rule reach_step) simp
qed

theorem createGathering_fresh_id_witness:
  "\<exists>g. gm_get (m_gatherings demo_host) 2 = None \<and>
     gm_get (m_gatherings (fst (createGathering demo_env (conn_at demo_endpoint 1) sample_session demo_host))) 2 = Some g \<and>
     ms_OwnerPID (g_session g) = 12"
proof -
  obtain m' gid g where cr: "createGathering demo_env (conn_at demo_endpoint 1) sample_session demo_host = (m', gid, g)"
    by (metis prod_cases3)
  have gid: "gid = 2"
    using createGathering_result(2) [OF cr] by (simp add: demo_host_def createGathering_def NewMatchmaking_def Let_def)
  have pid: "c_PID (conn_at demo_endpoint 1) = 12"
    by (simp add: demo_endpoint_def conn_at_def)
  have "fst (createGathering demo_env (conn_at demo_endpoint 1) sample_session demo_host) = m'"
    using cr by simp
  with createGathering_fresh_id [OF demo_host_bounded cr] gid pid show ?thesis
    by metis
qed

section \<open>Leaving\<close>

text \<open>What \<open>RemovePlayer\<close> leaves of one gathering.\<close>

definition without_player :: "pid \<Rightarrow> gathering \<Rightarrow> gathering option" where
  "without_player p g =
     (if p \<in> set (g_participants g) then
        if set (g_participants g) = {p} \<or> ms_OwnerPID (g_session g) = p then None
        else Some (count_participants (g\<lparr>g_reservations := gm_del p (g_reservations g), g_participants := removeAll p (g_participants g)\<rparr>))
      else Some (g\<lparr>g_reservations := gm_del p (g_reservations g)\<rparr>))"

lemma remove_from_spec:
  "fst (remove_from p (gid, g)) = (case without_player p g of None \<Rightarrow> [] | Some g' \<Rightarrow> [(gid, g')])"
proof (cases "p \<in> set (g_participants g)")
  case True
  have "removeAll p (g_participants g) = [] \<longleftrightarrow> set (g_participants g) - {p} = {}"
    by (simp only: set_removeAll [symmetric] set_empty)
  then have "removeAll p (g_participants g) = [] \<longleftrightarrow> set (g_participants g) = {p}"
    using True by blast
  moreover have "length (removeAll p (g_participants g)) \<noteq> length (g_participants g)"
    using length_removeAll_less [OF True] by simp
  ultimately show ?thesis
    using True by (auto simp: remove_from_def without_player_def removePID_eq Let_def)
qed (simp add: remove_from_def without_player_def removePID_eq Let_def)

lemma get_concat_entries:
  assumes "gm_wf xs"
  shows "gm_get (concat (map (\<lambda>(k, v). case f v of None \<Rightarrow> [] | Some v' \<Rightarrow> [(k, v')]) xs)) k = Option.bind (gm_get xs k) f"
  using assms
proof (induction xs)
  case (Cons x xs)
  obtain k' v where x: "x = (k', v)" by (cases x)
  have "gm_get xs k' = None" "gm_wf xs"
    using Cons.prems x by (auto simp: gm_wf_def map_of_eq_None_iff)
  then show ?case
    using Cons.IH x by (cases "f v") auto
qed simp

lemma RemovePlayer_get:
  assumes "gm_wf (m_gatherings m)" and "p \<noteq> 0"
  shows "gm_get (m_gatherings (RemovePlayer p m)) gid = Option.bind (gm_get (m_gatherings m) gid) (without_player p)"
proof -
  have "fst \<circ> remove_from p = (\<lambda>(k, v). case without_player p v of None \<Rightarrow> [] | Some v' \<Rightarrow> [(k, v')])"
    by (auto simp: remove_from_spec fun_eq_iff)
  then show ?thesis
    using assms get_concat_entries [OF assms(1)] by (simp add: RemovePlayer_gatherings)
qed

text \<open>
  What becomes of one gathering: it is gone, exactly when the player took part and either created it or was alone in it; or it stays as it
  was, but for the player's seat or reservation and the number of participants.
\<close>

definition left_cleanly :: "pid \<Rightarrow> gathering \<Rightarrow> gathering option \<Rightarrow> bool" where
  "left_cleanly p g res =
     (let ends = (p \<in> set (g_participants g) \<and> (set (g_participants g) = {p} \<or> ms_OwnerPID (g_session g) = p))
      in case res of
           None \<Rightarrow> ends
         | Some g' \<Rightarrow>
             \<not> ends \<and> g_participants g' = filter (\<lambda>q. q \<noteq> p) (g_participants g) \<and> gm_get (g_reservations g') p = None \<and>
             (\<forall>q. q \<noteq> p \<longrightarrow> gm_get (g_reservations g') q = gm_get (g_reservations g) q) \<and>
             g_session g' = (g_session g)\<lparr>ms_NumParticipants := of_nat (length (g_participants g'))\<rparr> \<and>
             g_code g' = g_code g \<and> g_hostConnID g' = g_hostConnID g)"

lemma session_same_count: "ms_NumParticipants ss = n \<Longrightarrow> ss\<lparr>ms_NumParticipants := n\<rparr> = ss"
  by simp

lemma without_player_left_cleanly:
  assumes "entry_inv (gid, g)"
  shows "left_cleanly p g (without_player p g)"
proof -
  have count: "ms_NumParticipants (g_session g) = of_nat (length (g_participants g))"
    using assms by (simp add: entry_inv_def)
  have "filter (\<lambda>q. q \<noteq> p) (g_participants g) = removeAll p (g_participants g)"
    by (simp add: removeAll_filter_not_eq eq_commute)
  then show ?thesis
    by (simp add: left_cleanly_def without_player_def count_participants_def upd_session_def session_same_count [OF count] Let_def)
qed

text \<open>The codes that are withdrawn: those of the gatherings that end.\<close>

lemma remove_from_codes: "snd (remove_from p (gid, g)) = (if without_player p g = None \<and> g_code g \<noteq> [] then [g_code g] else [])"
  using remove_from_spec [of p gid g] by (auto simp: remove_from_def Let_def split: if_splits option.splits)

lemma RemovePlayer_codes:
  assumes "gm_wf (m_gatherings m)" and "p \<noteq> 0"
  shows "gm_get (m_byCode (RemovePlayer p m)) code =
    (if code \<noteq> [] \<and> (\<exists>gid g. gm_get (m_gatherings m) gid = Some g \<and> without_player p g = None \<and> g_code g = code) then None
     else gm_get (m_byCode m) code)"
proof -
  let ?codes = "concat (map (snd \<circ> remove_from p) (m_gatherings m))"
  have "code \<in> set (snd (remove_from p e)) \<longleftrightarrow> code \<noteq> [] \<and> without_player p (snd e) = None \<and> g_code (snd e) = code" for e
    by (cases e) (auto simp: remove_from_codes)
  then have "code \<in> set ?codes \<longleftrightarrow> (\<exists>e \<in> set (m_gatherings m). code \<noteq> [] \<and> without_player p (snd e) = None \<and> g_code (snd e) = code)"
    by simp
  also have "\<dots> \<longleftrightarrow> (\<exists>gid g. (gid, g) \<in> set (m_gatherings m) \<and> code \<noteq> [] \<and> without_player p g = None \<and> g_code g = code)"
    by force
  also have "\<dots> \<longleftrightarrow> code \<noteq> [] \<and> (\<exists>gid g. gm_get (m_gatherings m) gid = Some g \<and> without_player p g = None \<and> g_code g = code)"
    using gm_get_Some_in [of "m_gatherings m"] gm_in_get [OF assms(1)] by blast
  finally have "code \<in> set ?codes \<longleftrightarrow> \<dots>" .
  moreover have "m_byCode (RemovePlayer p m) = fold gm_del ?codes (m_byCode m)"
    using assms(2) by (simp add: RemovePlayer_def Let_def)
  ultimately show ?thesis
    by (simp add: gm_get_fold_del)
qed

text \<open>
  C5: what the disconnect of a player does to the store, exactly. A gathering ends if the player took part in it and created it, for everybody in
  it, or was alone in it; its code is withdrawn. Every other gathering stays as it was, except that the player is not among its participants
  any more, which keep their order and are counted again, and has no reservation there; other reservations, the
  session's other fields, the code and the host are as before. The player's notification data is gone, that of others is kept.
\<close>

theorem RemovePlayer_complete:
  assumes "reach (\<lambda>m. m = NewMatchmaking) mm_step m" and "p \<noteq> 0"
  shows "gm_get (m_notif (RemovePlayer p m)) p = None \<and>
    (\<forall>q. q \<noteq> p \<longrightarrow> gm_get (m_notif (RemovePlayer p m)) q = gm_get (m_notif m) q) \<and>
    (\<forall>gid. case gm_get (m_gatherings m) gid of
        None \<Rightarrow> gm_get (m_gatherings (RemovePlayer p m)) gid = None
      | Some g \<Rightarrow> left_cleanly p g (gm_get (m_gatherings (RemovePlayer p m)) gid)) \<and>
    (\<forall>code. gm_get (m_byCode (RemovePlayer p m)) code =
       (if code \<noteq> [] \<and> (\<exists>gid g. gm_get (m_gatherings m) gid = Some g \<and> gm_get (m_gatherings (RemovePlayer p m)) gid = None \<and> g_code g = code)
        then None else gm_get (m_byCode m) code))"
proof -
  have inv: "mm_inv m" "gm_wf (m_gatherings m)"
    using mm.reachable_inv [OF assms(1)] by (simp_all add: mm_inv_def)
  have notif: "m_notif (RemovePlayer p m) = gm_del p (m_notif m)"
    using assms(2) by (simp add: RemovePlayer_def Let_def)
  have get: "gm_get (m_gatherings (RemovePlayer p m)) gid = Option.bind (gm_get (m_gatherings m) gid) (without_player p)" for gid
    using inv(2) assms(2) by (rule RemovePlayer_get)
  have "case gm_get (m_gatherings m) gid of
        None \<Rightarrow> gm_get (m_gatherings (RemovePlayer p m)) gid = None
      | Some g \<Rightarrow> left_cleanly p g (gm_get (m_gatherings (RemovePlayer p m)) gid)" for gid
    using without_player_left_cleanly [OF mm_inv_get [OF inv(1), of gid]]
    by (cases "gm_get (m_gatherings m) gid") (simp_all add: get)
  moreover have "(\<exists>gid g. gm_get (m_gatherings m) gid = Some g \<and> without_player p g = None \<and> g_code g = code) \<longleftrightarrow>
      (\<exists>gid g. gm_get (m_gatherings m) gid = Some g \<and> gm_get (m_gatherings (RemovePlayer p m)) gid = None \<and> g_code g = code)" for code
    unfolding get by (metis bind.bind_lunit)
  ultimately show ?thesis
    by (simp add: notif RemovePlayer_codes [OF inv(2) assms(2)])
qed

text \<open>The creator of a gathering leaves, and it ends; somebody else leaves, and it stays.\<close>

theorem RemovePlayer_complete_witness:
  "reach (\<lambda>m. m = NewMatchmaking) mm_step demo_host \<and> gm_get (m_gatherings (RemovePlayer 11 demo_host)) 1 = None \<and>
   (\<exists>g'. gm_get (m_gatherings (RemovePlayer 12 demo_host)) 1 = Some g' \<and> g_participants g' = [11])"
proof -
  obtain g where g: "gm_get (m_gatherings demo_host) 1 = Some g" "g_participants g = [11]"
    using demo_host_get by auto
  show ?thesis
    using RemovePlayer_complete [OF demo_host_reach, of 11, THEN conjunct2, THEN conjunct2, THEN conjunct1, THEN spec, of 1]
      RemovePlayer_complete [OF demo_host_reach, of 12, THEN conjunct2, THEN conjunct2, THEN conjunct1, THEN spec, of 1] demo_host_reach g
    by (auto simp: left_cleanly_def Let_def split: option.splits)
qed

section \<open>Who may change what\<close>

text \<open>The calls of the store with the account that makes them; the disconnect of an account counts as its own. A call that does not look at its
  caller may come from any account.\<close>

inductive mm_call :: "pid \<Rightarrow> matchmaking \<Rightarrow> matchmaking \<Rightarrow> bool" where
  by_autoMatchmake: "mm_call (c_PID (conn_at ep r)) m (fst (autoMatchmake env ep r req m))"
| by_createSession: "mm_call (c_PID (conn_at ep r)) m (fst (createSession env ep r req m))"
| by_joinSession: "mm_call (c_PID (conn_at ep r)) m (fst (joinSession env ep r req m))"
| by_setParticipation: "mm_call who m (fst (setParticipation ep req opn m))"
| by_updateSessionPart: "mm_call who m (fst (updateSessionPart ep req m))"
| by_updateApplicationBuffer: "mm_call (c_PID (conn_at ep r)) m (fst (updateApplicationBuffer ep r req m))"
| by_modifyAttribute: "modifyCurrentGameAttribute ep r req m = Some res \<Longrightarrow> mm_call (c_PID (conn_at ep r)) m (fst res)"
| by_migrate: "mm_call (c_PID (conn_at ep r)) m (fst (migrateGatheringOwnership ep r req b m))"
| by_unregister: "mm_call (c_PID (conn_at ep r)) m (unregister ep r req m)"
| by_endParticipation: "mm_call (c_PID (conn_at ep r)) m (endParticipation ep r req m)"
| by_RemovePlayer: "mm_call p m (RemovePlayer p m)"
| by_privateRoomCreate: "mm_call who m (fst (privateRoomCreate ep req m))"
| by_updateNotificationData: "mm_call (c_PID (conn_at ep r)) m (fst (updateNotificationData ep r req m))"
| by_PublishNotification: "mm_call who m (PublishNotification p typ ev m)"
| by_ReserveJoin: "mm_call who m (fst (ReserveJoin now gid p m))"
| by_CancelJoinReservation: "mm_call who m (CancelJoinReservation gid p m)"
| by_SetJoinReservationTTL: "mm_call who m (SetJoinReservationTTL ttl m)"

lemma mm_call_step: "mm_step m m' \<longleftrightarrow> (\<exists>who. mm_call who m m')"
proof
  show "mm_step m m' \<Longrightarrow> \<exists>who. mm_call who m m'"
    by (induction rule: mm_step.induct) (blast intro: mm_call.intros)+
  show "\<exists>who. mm_call who m m' \<Longrightarrow> mm_step m m'"
    by (elim exE, erule mm_call.cases) (simp_all add: mm_step.intros)
qed

text \<open>
  What \<open>who\<close> may make of a gathering: end it as its creator or as the only one in it; otherwise join or leave it, and, as its first
  participant, write its match configuration.
\<close>

definition permits :: "pid \<Rightarrow> gathering \<Rightarrow> gathering option \<Rightarrow> bool" where
  "permits who g res =
     (case res of
        None \<Rightarrow> ms_OwnerPID (g_session g) = who \<or> g_participants g = [who]
      | Some g' \<Rightarrow>
          ms_OwnerPID (g_session g') = ms_OwnerPID (g_session g) \<and> set (g_participants g') - {who} = set (g_participants g) - {who} \<and>
          (ms_ApplicationData (g_session g') \<noteq> ms_ApplicationData (g_session g) \<or> ms_Attribs (g_session g') \<noteq> ms_Attribs (g_session g) \<longrightarrow>
             hd (g_participants g) = who))"

definition respected :: "pid \<Rightarrow> matchmaking \<Rightarrow> matchmaking \<Rightarrow> bool" where
  "respected who m m' \<longleftrightarrow> (\<forall>gid g. gm_get (m_gatherings m) gid = Some g \<longrightarrow> permits who g (gm_get (m_gatherings m') gid))"

lemma permits_core: "core g' = core g \<Longrightarrow> permits who g (Some g')"
  by (simp add: core_def permits_def)

lemma permits_count: "permits who g (Some g') \<Longrightarrow> permits who g (Some (count_participants g'))"
  by (simp add: permits_def count_participants_def upd_session_def)

lemma respected_same: "m_gatherings m' = m_gatherings m \<Longrightarrow> respected who m m'"
  by (simp add: respected_def permits_def)

lemma respected_put: "gm_get (m_gatherings m) gid = Some g \<Longrightarrow> permits who g (Some g') \<Longrightarrow> respected who m (put_gathering gid g' m)"
  by (simp add: respected_def permits_def put_gathering_def)

lemma respected_upd: "(\<And>g. permits who g (Some (f g))) \<Longrightarrow> respected who m (upd_gathering gid f m)"
  using respected_put [of m gid _ who] respected_same [of m m who]
  by (auto simp: upd_gathering_def put_gathering_def split: option.split)

lemma permits_join:
  "core g1 = core g \<Longrightarrow> permits who g (Some (count_participants (fst (commitReservedJoin now (fst (reserveJoin now' ttl g1 who)) who))))"
  by (intro permits_count) (auto simp: core_def permits_def commitReservedJoin_kept)

text \<open>Where a new gathering is created, no old one lies under its id.\<close>

lemma respected_create:
  assumes "createGathering env c src m0 = (m', gid, g)" and "ids_fresh m" and "m_nextGID m0 = m_nextGID m"
    and "\<And>k. map_option core (gm_get (m_gatherings m0) k) = map_option core (gm_get (m_gatherings m) k)"
  shows "respected who m (put_gathering gid g' m')"
proof -
  have "gid = m_nextGID m" "m' = (put_gathering gid g m0)\<lparr>m_nextGID := gid + 1\<rparr>"
    using createGathering_result [OF assms(1)] assms(3) by simp_all
  then have "permits who h (gm_get (m_gatherings (put_gathering gid g' m')) k)" if "gm_get (m_gatherings m) k = Some h" for k h
    using that assms(2) assms(4) [of k] permits_core [of _ h who] by (auto simp: ids_fresh_def gm_has_get put_gathering_def)
  then show ?thesis
    by (simp add: respected_def)
qed

lemma respected_place:
  assumes "ids_fresh m" and "place_player env ep c src m = (m', gid, g)"
  shows "respected (c_PID c) m (put_gathering gid (count_participants g) m')"
proof (cases "isSoloPID (e_soloPIDs env) (c_PID c)")
  case True
  then obtain m0 g0 where "createGathering env c src m = (m0, gid, g0)" "m' = put_gathering gid (solo_min g0) m0"
    using assms(2) by (auto simp: place_player_def split: prod.splits)
  then show ?thesis
    using respected_create [OF _ assms(1)] by simp
next
  case False
  obtain m1 pick where sel: "select_lobby (e_now env) ep c src (e_ord env 0) m = (m1, pick)"
    by force
  note frame = select_lobby_frame [of "e_now env" ep c src "e_ord env 0" m, unfolded sel fst_conv]
  show ?thesis
  proof (cases pick)
    case None
    then show ?thesis
      using assms(2) False sel frame by (intro respected_create [OF _ assms(1), of env c src m1 m' gid g]) (simp_all add: place_player_def)
  next
    case (Some pk)
    then obtain k cand where pk: "pick = Some (k, cand)" by (cases pk) simp
    have k: "gm_get (m_gatherings m1) k = Some cand"
      using select_lobby_Some [OF sel [unfolded pk]] by simp
    define res where "res = reserveJoin (e_now_reserve env) (m_reservationTTL m1) cand (c_PID c)"
    have joc: "join_or_create env c src k cand m1 = (m', gid, g)"
      using assms(2) False sel pk by (simp add: place_player_def)
    show ?thesis
    proof (cases "snd res")
      case True
      then have r: "gid = k" "g = fst (commitReservedJoin (e_now_commit env) (fst res) (c_PID c))" "m' = put_gathering k g (put_gathering k (fst res) m1)"
        using joc by (auto simp: join_or_create_def split_beta Let_def res_def)
      have "permits (c_PID c) h (gm_get (m_gatherings (put_gathering gid (count_participants g) m')) j)" if "gm_get (m_gatherings m) j = Some h" for j h
        using that frame [of j] k permits_join [of cand h "c_PID c"] permits_core [of _ h]
        by (cases "j = k") (auto simp: r res_def put_gathering_def)
      then show ?thesis
        by (simp add: respected_def)
    next
      case False
      have "core (fst res) = core cand"
        by (cases rule: reserveJoin_cases [of "c_PID c" cand "e_now_reserve env" "m_reservationTTL m1"])
          (auto simp: res_def core_def expireJoinReservations_def)
      then have "map_option core (gm_get (m_gatherings (put_gathering k (fst res) m1)) j) = map_option core (gm_get (m_gatherings m) j)" for j
        using frame [of j] k by (auto simp: put_gathering_def)
      moreover have "createGathering env c src (put_gathering k (fst res) m1) = (m', gid, g)"
        using joc False by (simp add: join_or_create_def split_beta Let_def res_def)
      ultimately show ?thesis
        using frame by (intro respected_create [OF _ assms(1), of env c src "put_gathering k (fst res) m1" m' gid g]) (simp_all add: put_gathering_def)
    qed
  qed
qed

lemma respected_join: "respected (c_PID (conn_at ep r)) m (fst (joinSession env ep r req m))"
proof (cases "gm_get (m_gatherings m) (join_gid req)")
  case None
  then show ?thesis
    by (simp add: joinSession_def Let_def respected_same)
next
  case (Some g)
  let ?p = "c_PID (conn_at ep r)"
  have "permits ?p g (Some (count_participants g))" "permits ?p g (Some (fst (reserveJoin now ttl g ?p)))" for now ttl
    by (rule permits_count) (simp_all add: permits_def)
  then show ?thesis
    using respected_put [OF Some] permits_join [of g g ?p] Some by (simp add: joinSession_def Let_def split_beta)
qed

lemma respected_create_session:
  assumes "ids_fresh m"
  shows "respected (c_PID (conn_at ep r)) m (fst (createSession env ep r req m))"
proof -
  have "respected who m (friend_session_created p k m')" if cr: "createGathering env c src m = (m', gid, g)" for env c src m' gid g who p k
  proof -
    have "m_gatherings m' = m_gatherings (put_gathering gid g m')"
      using createGathering_result(1) [OF cr] by (simp add: put_gathering_def)
    then show ?thesis
      using respected_create [OF cr assms refl refl, of who g] by (simp add: respected_def)
  qed
  then show ?thesis
    by (auto simp: createSession_def Let_def respected_same split: prod.splits)
qed

lemma respected_leave:
  assumes "mm_inv m"
  shows "respected (c_PID (conn_at ep r)) m (endParticipation ep r req m)"
proof (cases "gm_get (m_gatherings m) (first_u32 req)")
  case None
  then show ?thesis
    by (simp add: endParticipation_def Let_def respected_same)
next
  case (Some g)
  let ?p = "c_PID (conn_at ep r)"
  have g: "g_participants g \<noteq> []" "distinct (g_participants g)"
    using mm_inv_get [OF assms Some] by (simp_all add: entry_inv_def seats_inv_def)
  have alone: "g_participants g = [?p]" if "removeAll ?p (g_participants g) = []"
  proof -
    have "set (g_participants g) \<subseteq> {?p}"
      using that by (auto simp: removeAll_filter_not_eq filter_empty_conv)
    then show ?thesis
      using g by (cases "g_participants g"; cases "tl (g_participants g)") auto
  qed
  have stay: "permits ?p g (Some (count_participants (g\<lparr>g_reservations := gm_del ?p (g_reservations g), g_participants := removeAll ?p (g_participants g)\<rparr>)))"
    by (rule permits_count) (auto simp: permits_def)
  show ?thesis
    using Some alone respected_put [OF Some stay]
    by (auto simp: endParticipation_def Let_def removePID_eq respected_def permits_def)
qed

lemma respected_disconnect:
  assumes "mm_inv m"
  shows "respected p m (RemovePlayer p m)"
proof (cases "p = 0")
  case False
  have "permits p g (without_player p g)" if "gm_get (m_gatherings m) gid = Some g" for gid g
  proof -
    have "g_participants g \<noteq> []" "distinct (g_participants g)"
      using mm_inv_get [OF assms that] by (simp_all add: entry_inv_def seats_inv_def)
    then have "g_participants g = [p]" if "set (g_participants g) = {p}"
      using that by (cases "g_participants g"; cases "tl (g_participants g)") auto
    then show ?thesis
      using permits_count [of p g "g\<lparr>g_reservations := gm_del p (g_reservations g), g_participants := removeAll p (g_participants g)\<rparr>"]
      by (auto simp: without_player_def permits_def)
  qed
  then show ?thesis
    using assms False by (simp add: respected_def RemovePlayer_get mm_inv_def)
qed (simp add: RemovePlayer_def respected_same)

lemma respected_config:
  assumes "mm_inv m"
  shows "respected (c_PID (conn_at ep r)) m (fst (updateApplicationBuffer ep r req m))"
    and "modifyCurrentGameAttribute ep r req m = Some res \<Longrightarrow> respected (c_PID (conn_at ep r)) m (fst res)"
proof -
  have first: "first_participant g = hd (g_participants g)" if "gm_get (m_gatherings m) gid = Some g" for gid g
    using mm_inv_get [OF assms that] by (simp add: entry_inv_def first_participant_def hd_conv_nth)
  have "respected who m (put_gathering gid (upd_session (\<lambda>ss. ss\<lparr>ms_ApplicationData := buf\<rparr>) g) m)"
    "respected who m (put_gathering gid (upd_session (\<lambda>ss. ss\<lparr>ms_Attribs := xs\<rparr>) g) m)"
    if "gm_get (m_gatherings m) gid = Some g" "hd (g_participants g) = who" for who gid g buf xs
    by (rule respected_put [OF that(1)], simp add: permits_def upd_session_def that(2))+
  note put = this
  show "respected (c_PID (conn_at ep r)) m (fst (updateApplicationBuffer ep r req m))"
    using put(1) first by (auto simp: updateApplicationBuffer_def Let_def respected_same split: prod.split option.split)
  show "respected (c_PID (conn_at ep r)) m (fst res)" if "modifyCurrentGameAttribute ep r req m = Some res"
    using that put(2) first
    by (fastforce simp: modifyCurrentGameAttribute_def Let_def respected_same first_participant_def split: prod.splits option.splits if_splits)
qed

lemma respected_migrate: "respected who m (fst (migrateGatheringOwnership ep r req b m))"
proof -
  have "respected who m (put_gathering gid (g\<lparr>g_participants := migrate_to cs (g_participants g)\<rparr>) m)"
    if "gm_get (m_gatherings m) gid = Some g" "g_participants g \<noteq> []" for gid g cs
    using mset_eq_setD [OF migrate_to_perm [OF that(2), of cs]] by (intro respected_put [OF that(1)]) (simp add: permits_def)
  then show ?thesis
    by (auto simp: migrateGatheringOwnership_def Let_def respected_same split: prod.split option.split)
qed

lemma respected_seats:
  "respected who m (fst (ReserveJoin now gid p m))" "respected who m (CancelJoinReservation gid p m)"
proof -
  have "permits who g (Some (fst (reserveJoin now ttl g p)))" "permits who g (Some (g\<lparr>g_reservations := rs\<rparr>))" for g ttl rs
    by (simp_all add: permits_def)
  note put = respected_put [OF _ this(1), unfolded put_gathering_def] respected_put [OF _ this(2), unfolded put_gathering_def]
  show "respected who m (fst (ReserveJoin now gid p m))" "respected who m (CancelJoinReservation gid p m)"
    using put by (auto simp: ReserveJoin_def CancelJoinReservation_def Let_def split_beta respected_same split: option.split)
qed

lemma mm_call_respected:
  assumes "mm_call who m m'" and "mm_inv m" and "ids_fresh m"
  shows "respected who m m'"
  using assms(1)
proof cases
  case (by_autoMatchmake ep r env req)
  then show ?thesis
    using respected_place [OF assms(3)] by (auto simp: autoMatchmake_def Let_def respected_same split: prod.splits)
next
  case (by_setParticipation ep req opn)
  then show ?thesis
    by (simp add: setParticipation_def respected_upd permits_def upd_session_def)
next
  case (by_updateSessionPart ep req)
  then show ?thesis
    using assms(2) by (simp add: updateSessionPart_def mm_inv_def Let_def respected_same)
next
  case (by_unregister ep r req)
  then show ?thesis
    by (auto simp: unregister_def Let_def respected_def permits_def split: option.split)
next
  case (by_privateRoomCreate ep req)
  have "respected who m (upd_gathering gid (\<lambda>g. g\<lparr>g_code := code\<rparr>) (m\<lparr>m_codeRand := x, m_byCode := y\<rparr>))" for gid code x y
    using respected_upd [of who "\<lambda>g. g\<lparr>g_code := code\<rparr>" "m\<lparr>m_codeRand := x, m_byCode := y\<rparr>" gid] by (simp add: respected_def permits_def)
  then show ?thesis
    using by_privateRoomCreate by (simp add: privateRoomCreate_def makeCode_def Let_def)
next
  case (by_updateNotificationData ep r req)
  then show ?thesis
    by (auto simp: updateNotificationData_def Let_def respected_same split: prod.split)
next
  case (by_PublishNotification p t ev)
  then show ?thesis
    by (auto simp: PublishNotification_def respected_same split: option.split)
qed (insert assms(2,3), simp_all add: respected_create_session respected_join respected_config respected_migrate respected_leave
    respected_disconnect respected_seats SetJoinReservationTTL_def respected_same)

lemma bounded_inv: "reach (\<lambda>m. m = NewMatchmaking) mm_step_bounded m \<Longrightarrow> mm_inv m"
  by (induction rule: reach.induct) (auto simp: mm_inv_New mm_step_bounded_def mm_step_inv)

text \<open>
  C16: nobody decides for the others in a gathering, except who created it. Whatever call an account makes of the store, of any handler and with any
  request, or when it disconnects: a gathering ends only if this account created it or is the only one in it; a gathering that stays keeps its creator, and
  all its participants but perhaps this account, and gains nobody but perhaps this account; and its application buffer and
  its attributes change only if this account is its first participant. This holds in every state the store can reach
  before the 32-bit counter of ids is exhausted. Opening or closing a gathering, giving it a code and choosing which of its participants is the first are not
  protected in this way.
\<close>

theorem gatherings_respected:
  assumes "reach (\<lambda>m. m = NewMatchmaking) mm_step_bounded m" and "mm_call who m m'" and "gm_get (m_gatherings m) gid = Some g"
  shows "case gm_get (m_gatherings m') gid of
      None \<Rightarrow> ms_OwnerPID (g_session g) = who \<or> g_participants g = [who]
    | Some g' \<Rightarrow>
        ms_OwnerPID (g_session g') = ms_OwnerPID (g_session g) \<and> set (g_participants g') - {who} = set (g_participants g) - {who} \<and>
        (ms_ApplicationData (g_session g') \<noteq> ms_ApplicationData (g_session g) \<or> ms_Attribs (g_session g') \<noteq> ms_Attribs (g_session g) \<longrightarrow>
           hd (g_participants g) = who)"
  using mm_call_respected [OF assms(2) bounded_inv [OF assms(1)] gids.reachable_inv [OF assms(1)]] assms(3)
  by (simp add: respected_def permits_def)

text \<open>The creator stays in charge when another account tries to close the gathering.\<close>

theorem gatherings_respected_witness:
  "mm_call 12 demo_host (unregister demo_endpoint 1 (join_request 1) demo_host) \<and> ms_OwnerPID (g_session (the (gm_get (m_gatherings demo_host) 1))) = 11 \<and>
   g_participants (the (gm_get (m_gatherings demo_host) 1)) = [11] \<and>
   (\<exists>g'. gm_get (m_gatherings (unregister demo_endpoint 1 (join_request 1) demo_host)) 1 = Some g' \<and>
      ms_OwnerPID (g_session g') = 11 \<and> 11 \<in> set (g_participants g'))"
proof -
  obtain g where g: "gm_get (m_gatherings demo_host) 1 = Some g" "ms_OwnerPID (g_session g) = 11" "g_participants g = [11]"
    using demo_host_get by (auto simp: demo_endpoint_def conn_at_def)
  have "c_PID (conn_at demo_endpoint 1) = 12"
    by (simp add: demo_endpoint_def conn_at_def)
  then have call: "mm_call 12 demo_host (unregister demo_endpoint 1 (join_request 1) demo_host)"
    using by_unregister [of demo_endpoint 1 demo_host "join_request 1"] by simp
  show ?thesis
    using gatherings_respected [OF demo_host_bounded call g(1)] call g by (auto split: option.splits)
qed

section \<open>Attributes\<close>

lemma pad_attribs_stop: "\<not> (of_nat (length xs) :: u32) \<le> idx \<Longrightarrow> pad_attribs idx xs = Some xs"
  by (subst pad_attribs.simps) simp

lemma pad_attribs_more: "(of_nat (length xs) :: u32) \<le> idx \<Longrightarrow> pad_attribs idx xs = pad_attribs idx (xs @ [0])"
  by (subst pad_attribs.simps) simp

lemma pad_attribs_pads:
  assumes "idx \<noteq> 0xFFFFFFFF" and "length xs \<le> unat idx + 1"
  shows "pad_attribs idx xs = Some (xs @ replicate (unat idx + 1 - length xs) 0)"
  using assms(2)
proof (induction "unat idx + 1 - length xs" arbitrary: xs)
  have idx: "unat idx + 1 < 2 ^ 32"
    using assms(1) unsigned_less [of idx, where ?'a = nat] by (simp add: word_unat_eq_iff)
  {
    case 0
    then have "unat (of_nat (length xs) :: u32) = unat idx + 1"
      using idx 0 by (subst unat_of_nat_word) simp_all
    then show ?case
      using 0 by (simp add: pad_attribs_stop word_le_nat_alt)
  next
    case (Suc k)
    then have "unat (of_nat (length xs) :: u32) \<le> unat idx"
      using idx by (subst unat_of_nat_word) simp_all
    then have "pad_attribs idx xs = pad_attribs idx (xs @ [0])"
      by (simp add: pad_attribs_more word_le_nat_alt)
    also have "\<dots> = Some ((xs @ [0]) @ replicate (unat idx + 1 - length (xs @ [0])) 0)"
      using Suc.hyps(2) by (intro Suc.hyps(1)) auto
    also have "(xs @ [0]) @ replicate (unat idx + 1 - length (xs @ [0])) 0 = xs @ replicate (unat idx + 1 - length xs) 0"
      using Suc.hyps(2) [symmetric] by (simp add: Suc_diff_le)
    finally show ?case .
  }
qed

text \<open>With the largest 32-bit index the guard is always true, and the loop never ends.\<close>

lemma pad_attribs_diverges: "pad_attribs 0xFFFFFFFF xs = None"
proof -
  have "idx \<noteq> 0xFFFFFFFF" if "pad_attribs idx xs = Some ys" for idx xs ys
  proof (rule pad_attribs.raw_induct [of "\<lambda>idx xs ys. idx \<noteq> 0xFFFFFFFF", OF _ that])
    fix f idx xs ys
    assume 1: "\<And>idx xs y. f idx xs = Some y \<Longrightarrow> idx \<noteq> 0xFFFFFFFF"
      "(if (of_nat (length xs) :: u32) \<le> idx then f idx (xs @ [0]) else Some xs) = Some (ys :: u32 list)"
    have "(of_nat (length xs) :: u32) \<le> 0xFFFFFFFF"
      using unsigned_less [of "of_nat (length xs) :: u32", where ?'a = nat] by (simp add: word_le_nat_alt)
    then show "idx \<noteq> 0xFFFFFFFF"
      using 1 by (auto split: if_splits)
  qed
  then show ?thesis
    by (cases "pad_attribs 0xFFFFFFFF xs") auto
qed

lemma pad_attribs_value:
  assumes "idx \<noteq> 0xFFFFFFFF" and "length xs < 2 ^ 32"
  shows "pad_attribs idx xs = Some (xs @ replicate (unat idx + 1 - length xs) 0)"
proof (cases "length xs \<le> unat idx + 1")
  case True
  then show ?thesis by (rule pad_attribs_pads [OF assms(1)])
next
  case False
  have "unat (of_nat (length xs) :: u32) = length xs"
    using assms(2) by (intro unat_of_nat_word) simp
  then show ?thesis
    using False by (simp add: pad_attribs_stop word_le_nat_alt)
qed

text \<open>
  C19: when \<open>ModifyCurrentGameAttribute\<close> answers. On the owner's call the attribute list is extended
  with zeros up to the index when it is shorter, the attribute at the index gets the new value and
  all others keep theirs; this holds for every index but the largest 32-bit one. For that index the
  handler does not return, and it holds the store's mutex while it runs.
\<close>

theorem modifyCurrentGameAttribute_outcome:
  assumes "run_state (do { g \<leftarrow> in_U32; i \<leftarrow> in_U32; x \<leftarrow> in_U32; ret (g, i, x) }) (NewStreamIn (rm_Body req)) = ((gid, idx, v), st)"
    and "gm_get (m_gatherings m) gid = Some g" and "g_participants g \<noteq> []" and "hd (g_participants g) = c_PID (conn_at ep r)"
    and "xs = ms_Attribs (g_session g)" and "length xs < 2 ^ 32"
  shows "if idx = 0xFFFFFFFF then modifyCurrentGameAttribute ep r req m = None
    else \<exists>m' g'. modifyCurrentGameAttribute ep r req m = Some (m', [], reply (ep_Settings ep) ProtocolMatchmakeExtension req []) \<and>
      gm_get (m_gatherings m') gid = Some g' \<and> g_participants g' = g_participants g \<and>
      length (ms_Attribs (g_session g')) = max (length xs) (unat idx + 1) \<and> ms_Attribs (g_session g') ! unat idx = v \<and>
      (\<forall>i. i \<noteq> unat idx \<and> i < max (length xs) (unat idx + 1) \<longrightarrow>
         ms_Attribs (g_session g') ! i = (if i < length xs then xs ! i else 0))"
proof (cases "idx = 0xFFFFFFFF")
  case True
  then show ?thesis
    using assms by (simp add: modifyCurrentGameAttribute_def Let_def hd_conv_nth pad_attribs_diverges)
next
  case False
  let ?ys = "(xs @ replicate (unat idx + 1 - length xs) 0)[unat idx := v]"
  have "modifyCurrentGameAttribute ep r req m =
      Some (put_gathering gid (upd_session (\<lambda>ss. ss\<lparr>ms_Attribs := ?ys\<rparr>) g) m, [], reply (ep_Settings ep) ProtocolMatchmakeExtension req [])"
    using assms pad_attribs_value [OF False, of xs] by (simp add: modifyCurrentGameAttribute_def Let_def hd_conv_nth)
  moreover have "length ?ys = max (length xs) (unat idx + 1)" "?ys ! unat idx = v"
    by (auto simp: nth_append)
  moreover have "?ys ! i = (if i < length xs then xs ! i else 0)" if "i \<noteq> unat idx" "i < max (length xs) (unat idx + 1)" for i
    using that by (auto simp: nth_append)
  ultimately show ?thesis
    using False by (simp add: upd_session_def)
qed

definition attr_request :: "gid \<Rightarrow> u32 \<Rightarrow> u32 \<Rightarrow> rmc_message" where
  "attr_request gid idx v =
     NewRMCRequest demo_settings ProtocolMatchmakeExtension 8 3 (out_U32 gid @ out_U32 idx @ out_U32 v)"

lemma attr_request_parse:
  "\<exists>st. run_state (do { g \<leftarrow> in_U32; i \<leftarrow> in_U32; x \<leftarrow> in_U32; ret (g, i, x) }) (NewStreamIn (rm_Body (attr_request gid idx v))) = ((gid, idx, v), st)"
proof -
  have "reads (do { g \<leftarrow> in_U32; i \<leftarrow> in_U32; x \<leftarrow> in_U32; ret (g, i, x) }) (out_U32 gid @ out_U32 idx @ out_U32 v) (gid, idx, v)"
    by (intro reads_bind [OF reads_U32] reads_bind_ret [OF reads_U32]) simp
  from readsD [OF this, of "[]" "[]"] show ?thesis
    by (auto simp: attr_request_def NewRMCRequest_def NewStreamIn_stream_at)
qed

theorem modifyCurrentGameAttribute_outcome_witness:
  "modifyCurrentGameAttribute demo_endpoint 0 (attr_request 1 0xFFFFFFFF 7) demo_host = None"
proof -
  obtain st where "run_state (do { g \<leftarrow> in_U32; i \<leftarrow> in_U32; x \<leftarrow> in_U32; ret (g, i, x) })
      (NewStreamIn (rm_Body (attr_request 1 0xFFFFFFFF 7))) = ((1, 0xFFFFFFFF, 7), st)"
    using attr_request_parse by blast
  note outcome = modifyCurrentGameAttribute_outcome [OF this demo_host_get _ _ refl, where ep = demo_endpoint and r = 0]
  have "c_PID (conn_at demo_endpoint 0) = 11"
    by (simp add: demo_endpoint_def conn_at_def)
  moreover have "length (ms_Attribs (finalizeCreatedSession demo_env sample_session 1 11)) < 2 ^ 32"
    by (simp add: finalizeCreatedSession_def sample_session_def Let_def demo_env_def)
  ultimately show ?thesis
    using outcome by simp
qed

section \<open>Room codes\<close>

lemma code_chars_in:
  "set (code_chars n x) \<subseteq> set code_alphabet \<and> length (code_chars n x) = n"
proof (induction n arbitrary: x)
  case (Suc n)
  have "unat (x mod 33) < length code_alphabet"
    by (simp add: code_alphabet_def unat_mod)
  then show ?case
    using Suc [of "x div 33"] by auto
qed simp

lemma code_of_request_string:
  assumes "rm_Body req = out_String code" and "length code = 5" and "string_ok code"
  shows "code_of_request req = code"
proof -
  have "fst (run_state in_String (NewStreamIn (out_String code))) = code"
    using strc.decode_fresh [OF assms(3), of "[]"] by simp
  then show ?thesis
    using assms by (simp add: code_of_request_def Let_def)
qed

lemma makeCode_string_ok: "string_ok (snd (makeCode gid m))"
  using code_chars_in [of 5 "m_codeRand m * 1103515245 + 12345 + gid"]
  by (auto simp: makeCode_def Let_def string_ok_def)

lemma makeCode_fields:
  "m_byCode (fst (makeCode gid m)) = gm_put (snd (makeCode gid m)) gid (m_byCode m)"
  "map_option g_code (gm_get (m_gatherings (fst (makeCode gid m))) gid) = map_option (\<lambda>_. snd (makeCode gid m)) (gm_get (m_gatherings m) gid)"
  by (auto simp: makeCode_def upd_gathering_def Let_def split: option.split)

text \<open>
  C18: a room code leads back to its room. The code of a private room has five characters of the
  code alphabet and is what the creator is answered; resolving it, from any connection, returns
  the room's gathering id, and every other code resolves as before. A code nobody was given
  resolves to 0.
\<close>

theorem room_code_roundtrip:
  assumes "privateRoomCreate ep req m = (m', pushes, resp)" and "code = snd (makeCode (first_u32 req) m)"
  shows "length code = 5 \<and> set code \<subseteq> set code_alphabet \<and> pushes = [] \<and>
    rm_Body resp = out_U8 0 @ out_Buffer (out_String code @ out_U64 0) \<and>
    (\<forall>ep' req'. rm_Body req' = out_String code \<longrightarrow>
       resolveCode ep' req' m' = (m', [], reply (ep_Settings ep') ProtocolMatchmakeExtension req' (out_U32 (first_u32 req)))) \<and>
    (\<forall>ep' req' other. rm_Body req' = out_String other \<and> length other = 5 \<and> other \<noteq> code \<longrightarrow>
       snd (resolveCode ep' req' m') = snd (resolveCode ep' req' m))"
proof -
  have m': "m' = fst (makeCode (first_u32 req) m)" and resp: "resp = reply (ep_Settings ep) ProtocolMatchmakeExtension req (out_U8 0 @ out_Buffer (out_String code @ out_U64 0))"
    and pushes: "pushes = []"
    using assms by (auto simp: privateRoomCreate_def Let_def split: prod.splits)
  have code: "length code = 5" "set code \<subseteq> set code_alphabet"
    using code_chars_in [of 5 "m_codeRand m * 1103515245 + 12345 + first_u32 req"] assms(2) by (simp_all add: makeCode_def Let_def)
  have look: "gm_get (m_byCode m') c = (if c = code then Some (first_u32 req) else gm_get (m_byCode m) c)" for c
    by (simp add: m' makeCode_fields assms(2))
  have of_req: "code_of_request req' = c" if "rm_Body req' = out_String c" "length c = 5" for req' c
    by (rule code_of_request_string) (use that in \<open>simp_all add: string_ok_def\<close>)
  show ?thesis
    using code pushes of_req by (simp add: resp reply_def NewRMCSuccess_def resolveCode_def look)
qed

theorem room_code_roundtrip_witness:
  "snd (snd (resolveCode demo_endpoint (NewRMCRequest demo_settings ProtocolMatchmakeExtension 0x45 9
      (out_String (snd (makeCode (first_u32 (attr_request 1 0 0)) demo_host))))
      (fst (privateRoomCreate demo_endpoint (attr_request 1 0 0) demo_host)))) =
   reply demo_settings ProtocolMatchmakeExtension (NewRMCRequest demo_settings ProtocolMatchmakeExtension 0x45 9
      (out_String (snd (makeCode (first_u32 (attr_request 1 0 0)) demo_host)))) (out_U32 (first_u32 (attr_request 1 0 0)))"
proof -
  obtain m' pushes resp where res: "privateRoomCreate demo_endpoint (attr_request 1 0 0) demo_host = (m', pushes, resp)"
    by (metis prod_cases3)
  have s: "ep_Settings demo_endpoint = demo_settings"
    by (simp add: demo_endpoint_def NewEndpoint_def)
  have "rm_Body (NewRMCRequest s p k c b) = b" for s p k c b
    by (simp add: NewRMCRequest_def)
  with room_code_roundtrip [OF res refl] show ?thesis
    by (simp only: res fst_conv snd_conv s)
qed

section \<open>What searches disclose\<close>

lemma visit_gatherings_mset:
  assumes "gm_wf (m_gatherings m)" and "visits ord (m_gatherings m)"
  shows "mset (visit_gatherings ord m) = mset (map snd (m_gatherings m))"
proof -
  have get: "gm_get (m_gatherings m) k = Some v \<longleftrightarrow> (k, v) \<in> set (m_gatherings m)" for k v
    using assms(1) gm_in_get gm_get_Some_in by metis
  have "mset ord = mset (map fst (m_gatherings m))"
    using assms by (intro set_eq_iff_mset_eq_distinct [THEN iffD1]) (auto simp: visits_def gm_wf_def)
  moreover have "concat (map f (map fst (m_gatherings m))) = map snd (m_gatherings m)"
    if "f = (\<lambda>gid. case gm_get (m_gatherings m) gid of None \<Rightarrow> [] | Some g \<Rightarrow> [g])" for f
  proof -
    have "map (f \<circ> fst) (m_gatherings m) = map (\<lambda>e. [snd e]) (m_gatherings m)"
    proof (rule map_cong [OF refl])
      show "(f \<circ> fst) e = [snd e]" if "e \<in> set (m_gatherings m)" for e
        using get [of "fst e" "snd e"] that by (simp add: \<open>f = _\<close>)
    qed
    then show ?thesis
      by (simp only: map_map concat_map_singleton)
  qed
  moreover have "mset (concat (map f xs)) = mset (concat (map f ys))" if "mset xs = mset ys" for f :: "gid \<Rightarrow> gathering list" and xs ys
    using that by (simp add: mset_concat) (metis mset_map sum_mset_sum_list)
  ultimately show ?thesis
    unfolding visit_gatherings_def by metis
qed

text \<open>
  C17: what the lobby search shows, and what it hides. Whatever the order in which the store is
  visited, a search lists every matching gathering exactly once and nothing else: with a code,
  the open gatherings carrying it; without one, the open gatherings that ask for no password. No
  listed session carries a user password, and without a code none carries its session key. A
  lookup by id hides both as well.
\<close>

theorem search_discloses_no_secrets:
  assumes "reach (\<lambda>m. m = NewMatchmaking) mm_step m" and "visits (e_ord env 0) (m_gatherings m)"
    and "code = browse_criteria (ep_Settings ep) req"
  shows "(\<exists>ss. browseNoHolder env ep req m = (m, [], reply (ep_Settings ep) ProtocolMatchmakeExtension req (write_sessions (ep_Settings ep) ss)) \<and>
      mset ss = image_mset (browse_view code \<circ> g_session) (filter_mset (browse_match code) (mset (map snd (m_gatherings m)))) \<and>
      (\<forall>x \<in> set ss. ms_UserPassword x = [] \<and> ms_OpenParticipation x \<and>
         (code = [] \<longrightarrow> ms_SessionKey x = [] \<and> \<not> ms_UserPasswordEnabled x))) \<and>
    (\<forall>g. gm_get (m_gatherings m) (first_u32 req) = Some g \<longrightarrow>
      (\<exists>x. findBySingleID ep req m = (m, [], reply (ep_Settings ep) ProtocolMatchmakeExtension req (add_MatchmakeSession (ep_Settings ep) x)) \<and>
         ms_UserPassword x = [] \<and> ms_SessionKey x = [] \<and> ms_Gathering x = ms_Gathering (g_session g)))"
proof (intro conjI allI impI)
  let ?ss = "map (browse_view code \<circ> g_session) (filter (browse_match code) (visit_gatherings (e_ord env 0) m))"
  have "mset (visit_gatherings (e_ord env 0) m) = mset (map snd (m_gatherings m))"
    using mm.reachable_inv [OF assms(1)] assms(2) by (intro visit_gatherings_mset) (simp add: mm_inv_def)
  then have "mset ?ss = image_mset (browse_view code \<circ> g_session) (filter_mset (browse_match code) (mset (map snd (m_gatherings m))))"
    by (simp only: mset_map mset_filter)
  moreover have "\<forall>x \<in> set ?ss. ms_UserPassword x = [] \<and> ms_OpenParticipation x \<and> (code = [] \<longrightarrow> ms_SessionKey x = [] \<and> \<not> ms_UserPasswordEnabled x)"
    by (auto simp: browse_view_def browse_match_def)
  moreover have "browseNoHolder env ep req m = (m, [], reply (ep_Settings ep) ProtocolMatchmakeExtension req (write_sessions (ep_Settings ep) ?ss))"
    by (simp add: browseNoHolder_def assms(3) Let_def)
  ultimately show "\<exists>ss. browseNoHolder env ep req m = (m, [], reply (ep_Settings ep) ProtocolMatchmakeExtension req (write_sessions (ep_Settings ep) ss)) \<and>
      mset ss = image_mset (browse_view code \<circ> g_session) (filter_mset (browse_match code) (mset (map snd (m_gatherings m)))) \<and>
      (\<forall>x \<in> set ss. ms_UserPassword x = [] \<and> ms_OpenParticipation x \<and> (code = [] \<longrightarrow> ms_SessionKey x = [] \<and> \<not> ms_UserPasswordEnabled x))"
    by blast
next
  show "\<exists>x. findBySingleID ep req m = (m, [], reply (ep_Settings ep) ProtocolMatchmakeExtension req (add_MatchmakeSession (ep_Settings ep) x)) \<and>
         ms_UserPassword x = [] \<and> ms_SessionKey x = [] \<and> ms_Gathering x = ms_Gathering (g_session g)"
    if "gm_get (m_gatherings m) (first_u32 req) = Some g" for g
    using that by (intro exI [of _ "scrub (g_session g)"]) (simp add: findBySingleID_def scrub_def Let_def)
qed

theorem search_discloses_no_secrets_witness:
  "\<exists>ss. snd (snd (browseNoHolder demo_env demo_endpoint (NewRMCRequest demo_settings ProtocolMatchmakeExtension 0x34 4 []) demo_host)) =
     reply (ep_Settings demo_endpoint) ProtocolMatchmakeExtension (NewRMCRequest demo_settings ProtocolMatchmakeExtension 0x34 4 [])
       (write_sessions (ep_Settings demo_endpoint) ss) \<and> (\<forall>x \<in> set ss. ms_SessionKey x = [])"
proof -
  have "browse_criteria (ep_Settings demo_endpoint) (NewRMCRequest demo_settings ProtocolMatchmakeExtension 0x34 4 []) = []"
    by (simp add: browse_criteria_def NewRMCRequest_def)
  then show ?thesis
    using search_discloses_no_secrets [OF demo_host_reach demo_visits refl, of demo_endpoint
        "NewRMCRequest demo_settings ProtocolMatchmakeExtension 0x34 4 []"]
    by (metis snd_conv)
qed

end
