(* ===== verification/Nex_Tournament.thy ===== *)
theory Nex_Tournament
  imports Nex_Matchmaking
begin

unbundle bit_operations_syntax

text \<open>
  Player-made tournaments, from \<^verbatim>\<open>nextendo-nex/tournament.go\<close>: locating the code field of the opaque
  structure a client sends, stamping id, mark and code into it, and the store of tournaments.

  The store is a global of the source and an argument here. The random mark, the random bytes of
  the code and the time of creation are inputs of \<open>CreateTournament\<close>. The file behind the store is
  represented by the list of tournaments it holds: \<open>tournamentInit\<close> takes the decoded list and the
  flusher returns the list it writes.
\<close>

section \<open>State\<close>

definition tournamentCodeLen :: nat where "tournamentCodeLen = 12"
definition tournamentMaxBlob :: nat where "tournamentMaxBlob = 4096"
definition tournamentMax :: nat where "tournamentMax = 2000"
definition tournamentNameLengthOffset :: nat where "tournamentNameLengthOffset = 0x69"

record Tournament =
  t_ID :: u32
  t_Owner :: pid
  t_Code :: string
  t_Mark :: "byte list"
  t_Blob :: "byte list"
  t_Participants :: "pid list"
  t_CreatedAt :: int

record tournamentStore =
  ts_byID :: "(u32, Tournament) gomap"
  ts_quarantined :: "Tournament list"
  ts_nextID :: u32
  ts_dirty :: bool

definition empty_tournaments :: tournamentStore where
  "empty_tournaments = \<lparr>ts_byID = [], ts_quarantined = [], ts_nextID = 1000, ts_dirty = False\<rparr>"

section \<open>The code field\<close>

definition newTournamentCode :: "byte list \<Rightarrow> string" where
  "newTournamentCode b = map (\<lambda>v. char_of_byte (byte_of_char (CHR ''0'') + v mod 10)) b"

text \<open>
  The walk over the rule properties: it ends at the terminator with the offset of the code, or at
  a property of unknown type, or runs off the end.
\<close>

datatype walk_end = Terminator nat | UnknownType nat | OffEnd

definition property_size :: "byte \<Rightarrow> nat option" where
  "property_size t = (if t = 0x01 then Some 4 else if t = 0x02 then Some 5 else if t = 0x04 then Some 7 else None)"

lemma property_size_ge: "property_size t = Some d \<Longrightarrow> 4 \<le> d"
  by (auto simp: property_size_def split: if_splits)

function walk_properties :: "byte list \<Rightarrow> nat \<Rightarrow> walk_end" where
  "walk_properties b pos =
     (if pos < length b then
        if b ! pos = 0xff then (if pos + 5 + 3 \<le> length b then Terminator (pos + 5) else OffEnd)
        else if pos + 2 > length b then OffEnd
        else case property_size (b ! (pos + 1)) of
               Some d \<Rightarrow> walk_properties b (pos + d)
             | None \<Rightarrow> UnknownType pos
      else OffEnd)"
  by pat_completeness auto
termination by (relation "measure (\<lambda>(b, pos). length b - pos)") (auto dest: property_size_ge)

declare walk_properties.simps [simp del]

definition empty_code_at :: "byte list \<Rightarrow> nat \<Rightarrow> bool" where
  "empty_code_at b i \<longleftrightarrow> take 3 (drop i b) = [1, 0, 0]"

text \<open>The bounded scan: the first position from \<open>pos\<close> holding the bytes of an empty string.\<close>

definition scan_empty_code :: "byte list \<Rightarrow> nat \<Rightarrow> nat option" where
  "scan_empty_code b pos = find (empty_code_at b) [pos ..< length b - 2]"

definition tournamentCodeOffset :: "byte list \<Rightarrow> nat option" where
  "tournamentCodeOffset b =
     (if length b < tournamentNameLengthOffset + 2 then None
      else
        let nameLen = le_nat (take 2 (drop tournamentNameLengthOffset b))
        in if nameLen < 2 \<or> odd nameLen then None
           else
             let pos = tournamentNameLengthOffset + 2 + nameLen
             in if pos \<ge> length b then None
                else case walk_properties b pos of
                       Terminator i \<Rightarrow> Some i
                     | UnknownType p \<Rightarrow> scan_empty_code b p
                     | OffEnd \<Rightarrow> None)"

definition validTournamentCode :: "string \<Rightarrow> bool" where
  "validTournamentCode code \<longleftrightarrow> length code = tournamentCodeLen \<and>
     list_all (\<lambda>c. \<not> (of_char c < (of_char (CHR ''0'') :: nat) \<or> (of_char c :: nat) > of_char (CHR ''9''))) code"

definition tournamentCodeMatches :: "byte list \<Rightarrow> string \<Rightarrow> bool" where
  "tournamentCodeMatches b code =
     (case tournamentCodeOffset b of
        None \<Rightarrow> False
      | Some i \<Rightarrow>
          if \<not> validTournamentCode code then False
          else if i + 2 > length b then False
          else
            let n = le_nat (take 2 (drop i b))
            in if n \<noteq> tournamentCodeLen + 1 \<or> i + 2 + n > length b \<or> b ! (i + 2 + n - 1) \<noteq> 0 then False
               else take tournamentCodeLen (drop (i + 2) b) = map byte_of_char code)"

definition validStoredTournament :: "Tournament \<Rightarrow> bool" where
  "validStoredTournament t =
     (if t_ID t = 0 \<or> length (t_Blob t) < 12 \<or> length (t_Blob t) > tournamentMaxBlob + tournamentCodeLen then False
      else if le_nat (take 4 (t_Blob t)) \<noteq> unat (t_ID t) then False
      else tournamentCodeMatches (t_Blob t) (t_Code t))"

definition code_string :: "string \<Rightarrow> byte list" where
  "code_string code = le_bytes 2 (length code + 1) @ map byte_of_char code @ [0]"

definition stampTournament :: "byte list \<Rightarrow> u32 \<Rightarrow> byte list \<Rightarrow> string \<Rightarrow> byte list" where
  "stampTournament payload ident mark code =
     (if length payload < 12 then payload
      else
        let out = le_bytes 4 (unat ident) @ take 8 mark @ drop (4 + length (take 8 mark)) payload
        in case tournamentCodeOffset out of
             None \<Rightarrow> out
           | Some i \<Rightarrow>
               if \<not> validTournamentCode code \<or> \<not> empty_code_at out i then out
               else take i out @ code_string code @ drop (i + 3) out)"

section \<open>The store\<close>

record tournament_env =
  te_mark :: "byte list"
  te_code :: "byte list"
  te_now :: int

definition CreateTournament :: "tournament_env \<Rightarrow> pid \<Rightarrow> byte list \<Rightarrow> tournamentStore \<Rightarrow> tournamentStore \<times> Tournament option" where
  "CreateTournament env owner payload ts =
     (case tournamentCodeOffset payload of
        None \<Rightarrow> (ts, None)
      | Some i \<Rightarrow>
          if length payload = 0 \<or> length payload > tournamentMaxBlob \<or> \<not> empty_code_at payload i then (ts, None)
          else if length (ts_byID ts) \<ge> tournamentMax then (ts, None)
          else
            let ident = ts_nextID ts; ts1 = ts\<lparr>ts_nextID := ident + 1\<rparr>; code = newTournamentCode (te_code env);
                t = \<lparr>t_ID = ident, t_Owner = owner, t_Code = code, t_Mark = te_mark env,
                     t_Blob = stampTournament payload ident (te_mark env) code,
                     t_Participants = [owner], t_CreatedAt = te_now env\<rparr>
            in if \<not> validStoredTournament t then (ts1, None)
               else (ts1\<lparr>ts_byID := gm_put ident t (ts_byID ts1), ts_dirty := True\<rparr>, Some t))"

definition tournamentByID :: "u32 \<Rightarrow> tournamentStore \<Rightarrow> Tournament option" where
  "tournamentByID ident ts =
     (case gm_get (ts_byID ts) ident of
        None \<Rightarrow> None
      | Some t \<Rightarrow> if \<not> validStoredTournament t then None else Some t)"

text \<open>The order in which the map is visited is an argument.\<close>

definition allTournaments :: "u32 list \<Rightarrow> tournamentStore \<Rightarrow> Tournament list" where
  "allTournaments ord ts =
     concat (map (\<lambda>ident. case gm_get (ts_byID ts) ident of
                            None \<Rightarrow> [] | Some t \<Rightarrow> if validStoredTournament t then [t] else []) ord)"

definition joinTournament :: "u32 \<Rightarrow> pid \<Rightarrow> tournamentStore \<Rightarrow> tournamentStore \<times> bool" where
  "joinTournament ident p ts =
     (case gm_get (ts_byID ts) ident of
        None \<Rightarrow> (ts, False)
      | Some t \<Rightarrow>
          if \<not> validStoredTournament t then (ts, False)
          else if p \<in> set (t_Participants t) then (ts, True)
          else (ts\<lparr>ts_byID := gm_put ident (t\<lparr>t_Participants := t_Participants t @ [p]\<rparr>) (ts_byID ts), ts_dirty := True\<rparr>, True))"

definition deleteTournament :: "u32 \<Rightarrow> pid \<Rightarrow> tournamentStore \<Rightarrow> tournamentStore \<times> bool" where
  "deleteTournament ident p ts =
     (case gm_get (ts_byID ts) ident of
        None \<Rightarrow> (ts, False)
      | Some t \<Rightarrow>
          if \<not> validStoredTournament t \<or> t_Owner t \<noteq> p then (ts, False)
          else (ts\<lparr>ts_byID := gm_del ident (ts_byID ts), ts_dirty := True\<rparr>, True))"

definition restore_one :: "Tournament \<Rightarrow> tournamentStore \<Rightarrow> tournamentStore" where
  "restore_one t ts =
     (if t_ID t = 0 then ts
      else
        let ts1 = (if t_ID t \<ge> ts_nextID ts then ts\<lparr>ts_nextID := t_ID t + 1\<rparr> else ts)
        in if \<not> validStoredTournament t then ts1\<lparr>ts_quarantined := ts_quarantined ts1 @ [t]\<rparr>
           else ts1\<lparr>ts_byID := gm_put (t_ID t) t (ts_byID ts1)\<rparr>)"

definition tournamentInit :: "Tournament list \<Rightarrow> tournamentStore \<Rightarrow> tournamentStore" where
  "tournamentInit lst ts = fold restore_one lst ts"

text \<open>One turn of the flusher: what it writes, if anything, and the flag it clears.\<close>

definition tournamentFlusher :: "u32 list \<Rightarrow> tournamentStore \<Rightarrow> tournamentStore \<times> Tournament list option" where
  "tournamentFlusher ord ts =
     (if \<not> ts_dirty ts then (ts, None)
      else (ts\<lparr>ts_dirty := False\<rparr>,
            Some (ts_quarantined ts @ concat (map (\<lambda>ident. case gm_get (ts_byID ts) ident of None \<Rightarrow> [] | Some t \<Rightarrow> [t]) ord))))"

section \<open>Handlers\<close>

definition createTournament :: "tournament_env \<Rightarrow> endpoint \<Rightarrow> cref \<Rightarrow> rmc_message \<Rightarrow> tournamentStore \<Rightarrow> tournamentStore \<times> rmc_message" where
  "createTournament env ep r req ts =
     (let s = ep_Settings ep; bad = NewRMCError s ProtocolMatchmakeExtension (rm_CallID req) ResultCoreInvalidArgument
      in if length (rm_Body req) < 5 then (ts, bad)
         else
           let ver = rm_Body req ! 0; ln = le_nat (take 4 (drop 1 (rm_Body req)))
           in if ln = 0 \<or> 5 + ln > length (rm_Body req) then (ts, bad)
              else case CreateTournament env (c_PID (conn_at ep r)) (take ln (drop 5 (rm_Body req))) ts of
                     (ts', None) \<Rightarrow> (ts', bad)
                   | (ts', Some t) \<Rightarrow>
                       (ts', reply s ProtocolMatchmakeExtension req
                               (out_U8 ver @ out_U32 (of_nat (length (t_Blob t))) @ t_Blob t)))"

definition write_tournament :: "Tournament \<Rightarrow> byte list" where
  "write_tournament t = out_U8 1 @ out_U32 (of_nat (length (t_Blob t))) @ t_Blob t"

definition writeTournamentList :: "Tournament list \<Rightarrow> byte list" where
  "writeTournamentList lst =
     (let valid = filter validStoredTournament lst
      in out_U32 (of_nat (length valid)) @ concat (map write_tournament valid))"

text \<open>The loop reads ids until the announced number is reached or a read fails.\<close>

fun read_ids :: "nat \<Rightarrow> tournamentStore \<Rightarrow> stream_in \<Rightarrow> Tournament list" where
  "read_ids 0 ts st = []"
| "read_ids (Suc n) ts st =
     (if in_Err st then []
      else
        let (ident, st') = run_state in_U32 st
        in (case tournamentByID ident ts of None \<Rightarrow> [] | Some t \<Rightarrow> [t]) @ read_ids n ts st')"

definition tournamentsByIDs :: "endpoint \<Rightarrow> rmc_message \<Rightarrow> tournamentStore \<Rightarrow> rmc_message" where
  "tournamentsByIDs ep req ts =
     (let (n, st) = run_state in_U32 (NewStreamIn (rm_Body req))
      in reply (ep_Settings ep) ProtocolMatchmakeExtension req (writeTournamentList (read_ids (unat n) ts st)))"

definition searchTournaments :: "u32 list \<Rightarrow> endpoint \<Rightarrow> rmc_message \<Rightarrow> tournamentStore \<Rightarrow> rmc_message" where
  "searchTournaments ord ep req ts =
     reply (ep_Settings ep) ProtocolMatchmakeExtension req (writeTournamentList (take 100 (allTournaments ord ts)))"

definition body_id :: "rmc_message \<Rightarrow> u32 option" where
  "body_id req = (if length (rm_Body req) \<ge> 4 then Some (of_nat (le_nat (take 4 (rm_Body req)))) else None)"

definition removeTournament :: "endpoint \<Rightarrow> cref \<Rightarrow> rmc_message \<Rightarrow> tournamentStore \<Rightarrow> tournamentStore \<times> rmc_message" where
  "removeTournament ep r req ts =
     ((case body_id req of None \<Rightarrow> ts | Some ident \<Rightarrow> fst (deleteTournament ident (c_PID (conn_at ep r)) ts)),
      reply (ep_Settings ep) ProtocolMatchmakeExtension req [])"

definition registerTournament :: "endpoint \<Rightarrow> cref \<Rightarrow> rmc_message \<Rightarrow> tournamentStore \<Rightarrow> tournamentStore \<times> rmc_message" where
  "registerTournament ep r req ts =
     ((case body_id req of None \<Rightarrow> ts | Some ident \<Rightarrow> fst (joinTournament ident (c_PID (conn_at ep r)) ts)),
      reply (ep_Settings ep) ProtocolMatchmakeExtension req [])"

definition summary_entry :: "Tournament \<Rightarrow> byte list" where
  "summary_entry t =
     out_U8 1 @ out_U32 28 @ out_U32 (t_ID t) @ out_U32 (of_nat (length (t_Participants t))) @ out_U32 4 @
     out_U32 0 @ out_U32 0 @ out_U32 0 @ out_U32 0"

definition TournamentSummaries :: "u32 list \<Rightarrow> tournamentStore \<Rightarrow> byte list" where
  "TournamentSummaries ord ts =
     (let lst = allTournaments ord ts in out_U32 (of_nat (length lst)) @ concat (map summary_entry lst))"

definition isTournamentIDList :: "byte list \<Rightarrow> bool" where
  "isTournamentIDList body =
     (if length body < 8 \<or> length body mod 4 \<noteq> 0 then False
      else let n = le_nat (take 4 body) in n > 0 \<and> n \<le> 4096 \<and> n * 4 + 4 = length body)"

section \<open>Where the code is\<close>

text \<open>How the walk from the name ends, before the scan for an unknown property type.\<close>

definition layout_end :: "byte list \<Rightarrow> walk_end" where
  "layout_end b =
     (if length b < tournamentNameLengthOffset + 2 then OffEnd
      else
        let nameLen = le_nat (take 2 (drop tournamentNameLengthOffset b))
        in if nameLen < 2 \<or> odd nameLen \<or> tournamentNameLengthOffset + 2 + nameLen \<ge> length b then OffEnd
           else walk_properties b (tournamentNameLengthOffset + 2 + nameLen))"

lemma offset_layout:
  "tournamentCodeOffset b =
     (case layout_end b of Terminator i \<Rightarrow> Some i | UnknownType p \<Rightarrow> scan_empty_code b p | OffEnd \<Rightarrow> None)"
  by (simp add: tournamentCodeOffset_def layout_end_def Let_def)

lemma take2_drop: "n + 2 \<le> length b \<Longrightarrow> take 2 (drop n b) = [b ! n, b ! (n + 1)]"
  by (simp add: take_Suc_conv_app_nth numeral_2_eq_2)

text \<open>One turn of the walk, by cases.\<close>

lemma walk_turn:
  obtains (off) "walk_properties b pos = OffEnd"
  | (terminator) "b ! pos = 0xff" "pos + 8 \<le> length b" "walk_properties b pos = Terminator (pos + 5)"
  | (unknown) "b ! pos \<noteq> 0xff" "pos + 2 \<le> length b" "property_size (b ! (pos + 1)) = None" "walk_properties b pos = UnknownType pos"
  | (more) d where "b ! pos \<noteq> 0xff" "pos + 2 \<le> length b" "property_size (b ! (pos + 1)) = Some d" "4 \<le> d"
      "walk_properties b pos = walk_properties b (pos + d)"
proof (cases "pos < length b \<and> b ! pos \<noteq> 0xff \<and> pos + 2 \<le> length b")
  case True
  then show thesis
    using unknown more property_size_ge walk_properties.simps [of b pos]
    by (cases "property_size (b ! (pos + 1))") auto
next
  case False
  then show thesis
    using off terminator walk_properties.simps [of b pos]
    by (cases "pos + 8 \<le> length b") (auto split: if_splits)
qed

lemma walk_step:
  assumes "b ! pos \<noteq> 0xff" and "pos + 2 \<le> length b"
  shows "walk_properties b pos =
    (case property_size (b ! (pos + 1)) of Some d \<Rightarrow> walk_properties b (pos + d) | None \<Rightarrow> UnknownType pos)"
  using assms by (subst walk_properties.simps) simp

lemma walk_Terminator_agree:
  assumes "walk_properties b pos = Terminator i" and "\<And>k. pos \<le> k \<Longrightarrow> k < i \<Longrightarrow> b' ! k = b ! k" and "i + 3 \<le> length b'"
  shows "pos + 5 \<le> i \<and> i + 3 \<le> length b \<and> walk_properties b' pos = Terminator i"
  using assms
proof (induction "length b - pos" arbitrary: pos rule: less_induct)
  case less
  show ?case
  proof (cases rule: walk_turn [of b pos])
    case terminator
    then show ?thesis
      using less.prems by (subst walk_properties.simps) auto
  next
    case (more d)
    then have IH: "pos + d + 5 \<le> i \<and> i + 3 \<le> length b \<and> walk_properties b' (pos + d) = Terminator i"
      using less.prems by (intro less.hyps) auto
    then have "b' ! pos = b ! pos" "b' ! (pos + 1) = b ! (pos + 1)"
      using less.prems(2) by simp_all
    then show ?thesis
      using IH more less.prems(3) walk_step [of b' pos] by simp
  qed (use less.prems in simp_all)
qed

lemma walk_Unknown_facts:
  assumes "walk_properties b pos = UnknownType p"
  shows "pos \<le> p \<and> p + 2 \<le> length b \<and> b ! p \<noteq> 0xff \<and> property_size (b ! (p + 1)) = None"
  using assms
proof (induction "length b - pos" arbitrary: pos rule: less_induct)
  case less
  show ?case
  proof (cases rule: walk_turn [of b pos])
    case (more d)
    then have "length b - (pos + d) < length b - pos"
      by linarith
    then have "pos + d \<le> p \<and> p + 2 \<le> length b \<and> b ! p \<noteq> 0xff \<and> property_size (b ! (p + 1)) = None"
      using less.hyps [of "pos + d"] less.prems more(5) by simp
    then show ?thesis
      by simp
  qed (use less.prems in simp_all)
qed

lemma walk_Unknown_agree:
  assumes "walk_properties b pos = UnknownType p" and "\<And>k. pos \<le> k \<Longrightarrow> k < p \<Longrightarrow> b' ! k = b ! k" and "p + 2 \<le> length b'"
    and "b' ! p \<noteq> 0xff" and "property_size (b' ! (p + 1)) = None"
  shows "walk_properties b' pos = UnknownType p"
  using assms
proof (induction "length b - pos" arbitrary: pos rule: less_induct)
  case less
  show ?case
  proof (cases rule: walk_turn [of b pos])
    case unknown
    then show ?thesis
      using less.prems walk_step [of b' pos] by simp
  next
    case (more d)
    then have w: "walk_properties b (pos + d) = UnknownType p"
      using less.prems(1) by simp
    have lt: "length b - (pos + d) < length b - pos"
      using more by linarith
    have IH: "walk_properties b' (pos + d) = UnknownType p"
      by (rule less.hyps [OF lt w]) (use less.prems in simp_all)
    have ge: "pos + d \<le> p"
      using walk_Unknown_facts [OF w] by simp
    have "b' ! pos = b ! pos" "b' ! (pos + 1) = b ! (pos + 1)"
      using less.prems(2) more(4) ge by simp_all
    then show ?thesis
      using IH ge more less.prems(3) walk_step [of b' pos] by simp
  qed (use less.prems in simp_all)
qed

definition name_end :: "byte list \<Rightarrow> nat" where
  "name_end b = 0x6B + (unat (b ! 0x69) + 256 * unat (b ! 0x6A))"

lemma layout_walk:
  "layout_end b = (if 0x6B \<le> length b \<and> 0x6D \<le> name_end b \<and> odd (name_end b) \<and> name_end b < length b
     then walk_properties b (name_end b) else OffEnd)"
proof (cases "0x6B \<le> length b")
  case True
  then have "le_nat (take 2 (drop tournamentNameLengthOffset b)) = unat (b ! 0x69) + 256 * unat (b ! 0x6A)"
    by (simp add: take2_drop tournamentNameLengthOffset_def)
  then show ?thesis
    using True by (simp add: layout_end_def tournamentNameLengthOffset_def name_end_def Let_def not_less)
qed (simp add: layout_end_def tournamentNameLengthOffset_def)

lemma layout_Terminator_agree:
  assumes "layout_end b = Terminator i" and "\<And>k. 0x69 \<le> k \<Longrightarrow> k < i \<Longrightarrow> b' ! k = b ! k" and "i + 3 \<le> length b'"
  shows "layout_end b' = Terminator i" "0x72 \<le> i" "i + 3 \<le> length b"
proof -
  have w: "walk_properties b (name_end b) = Terminator i" "0x6D \<le> name_end b" "odd (name_end b)"
    using assms(1) by (simp_all add: layout_walk split: if_splits)
  then have i: "name_end b + 5 \<le> i \<and> i + 3 \<le> length b \<and> walk_properties b' (name_end b) = Terminator i"
    using assms(2,3) by (intro walk_Terminator_agree) auto
  then have "name_end b' = name_end b"
    using assms(2) [of "0x69"] assms(2) [of "0x6A"] w(2) by (simp add: name_end_def)
  then show "layout_end b' = Terminator i" "0x72 \<le> i" "i + 3 \<le> length b"
    using i w assms(3) by (simp_all add: layout_walk)
qed

lemma layout_Unknown_facts:
  assumes "layout_end b = UnknownType p"
  shows "0x6D \<le> p" "p + 2 \<le> length b" "b ! p \<noteq> 0xff" "property_size (b ! (p + 1)) = None"
  using assms walk_Unknown_facts [of b "name_end b" p] by (auto simp: layout_walk split: if_splits)

lemma layout_Unknown_agree:
  assumes "layout_end b = UnknownType p" and "\<And>k. 0x69 \<le> k \<Longrightarrow> k < p \<Longrightarrow> b' ! k = b ! k" and "p + 2 \<le> length b'"
    and "b' ! p \<noteq> 0xff" and "property_size (b' ! (p + 1)) = None"
  shows "layout_end b' = UnknownType p"
proof -
  have w: "walk_properties b (name_end b) = UnknownType p" "0x6D \<le> name_end b" "odd (name_end b)"
    using assms(1) by (simp_all add: layout_walk split: if_splits)
  have "walk_properties b' (name_end b) = UnknownType p"
    using assms w by (intro walk_Unknown_agree [OF w(1)]) auto
  moreover have "name_end b \<le> p"
    using walk_Unknown_facts [OF w(1)] by simp
  moreover have "name_end b' = name_end b"
    using assms(2) [of "0x69"] assms(2) [of "0x6A"] w(2) \<open>name_end b \<le> p\<close> by (simp add: name_end_def)
  ultimately show ?thesis
    using w assms(3) by (simp add: layout_walk)
qed

section \<open>Stamping\<close>

text \<open>The payload with id and mark in place, and then with the code in place.\<close>

lemma stamped_head:
  assumes "length mark = 8" and "12 \<le> length payload"
  shows "le_bytes 4 (unat ident) @ take 8 mark @ drop (4 + length (take 8 mark)) payload = le_bytes 4 (unat ident) @ mark @ drop 12 payload"
  using assms by simp

lemma head_nth: "length mark = 8 \<Longrightarrow> 12 \<le> k \<Longrightarrow> 12 \<le> length payload \<Longrightarrow> (le_bytes 4 (unat ident) @ mark @ drop 12 payload) ! k = payload ! k"
  by (auto simp: nth_append not_less)

lemma head_drop:
  "length mark = 8 \<Longrightarrow> 12 \<le> k \<Longrightarrow> drop k (le_bytes 4 (unat ident) @ mark @ drop 12 payload) = drop k payload"
  by simp

lemma head_take:
  "length mark = 8 \<Longrightarrow> 12 \<le> k \<Longrightarrow> take k (le_bytes 4 (unat ident) @ mark @ drop 12 payload) = le_bytes 4 (unat ident) @ mark @ take (k - 12) (drop 12 payload)"
  by simp

definition stamped :: "byte list \<Rightarrow> u32 \<Rightarrow> byte list \<Rightarrow> string \<Rightarrow> nat \<Rightarrow> byte list" where
  "stamped payload ident mark code i =
     le_bytes 4 (unat ident) @ mark @ take (i - 12) (drop 12 payload) @ code_string code @ drop (i + 3) payload"

lemma stamp_eq:
  assumes "length mark = 8" and "validTournamentCode code" and "empty_code_at payload i" and "12 \<le> i"
    and "tournamentCodeOffset (le_bytes 4 (unat ident) @ mark @ drop 12 payload) = Some i"
  shows "stampTournament payload ident mark code = stamped payload ident mark code i"
proof -
  have "length (take 3 (drop i payload)) = 3"
    using assms(3) by (simp add: empty_code_at_def)
  then have len: "12 \<le> length payload"
    using assms(4) by simp
  have "empty_code_at (le_bytes 4 (unat ident) @ mark @ drop 12 payload) i"
    using assms(1,3,4) by (simp add: empty_code_at_def)
  then show ?thesis
    using assms len by (simp add: stampTournament_def stamped_head stamped_def Let_def add.commute)
qed

lemma newTournamentCode_valid:
  assumes "length rnd = tournamentCodeLen"
  shows "validTournamentCode (newTournamentCode rnd)"
proof -
  have "unat (48 + v mod 10) = 48 + unat v mod 10" for v :: byte
    by (simp add: unat_word_ariths unat_mod)
  then have "(of_char (char_of_byte (byte_of_char (CHR ''0'') + v mod 10)) :: nat) = 48 + unat v mod 10" for v
    by (simp add: char_of_byte_def byte_of_char_def)
  moreover have "\<not> 9 < unat v mod 10" for v :: byte
    using mod_less_divisor [of 10 "unat v"] by linarith
  ultimately show ?thesis
    using assms by (simp add: validTournamentCode_def newTournamentCode_def list_all_iff)
qed

lemma empty_code_length: "empty_code_at b i \<Longrightarrow> i + 3 \<le> length b"
proof -
  assume "empty_code_at b i"
  then have "length (take 3 (drop i b)) = 3"
    by (simp add: empty_code_at_def)
  then show "i + 3 \<le> length b"
    by simp
qed

lemma empty_code_Nil [simp]: "\<not> empty_code_at [] i"
  by (simp add: empty_code_at_def)

lemma stamped_facts:
  assumes "length mark = 8" and "validTournamentCode code" and "empty_code_at payload i" and "12 \<le> i"
  shows "length (stamped payload ident mark code i) = length payload + 12"
    "take 4 (stamped payload ident mark code i) = le_bytes 4 (unat ident)"
    "\<And>k. 12 \<le> k \<Longrightarrow> k < i \<Longrightarrow> stamped payload ident mark code i ! k = payload ! k"
    "drop i (stamped payload ident mark code i) = code_string code @ drop (i + 3) payload"
proof -
  let ?pre = "le_bytes 4 (unat ident) @ mark @ take (i - 12) (drop 12 payload)"
  note len = empty_code_length [OF assms(3)]
  have code: "length (code_string code) = 15"
    using assms(2) by (simp add: code_string_def validTournamentCode_def tournamentCodeLen_def)
  have pre: "length ?pre = i"
    using assms(1,4) len by simp
  have eq: "stamped payload ident mark code i = ?pre @ code_string code @ drop (i + 3) payload"
    by (simp add: stamped_def)
  show "length (stamped payload ident mark code i) = length payload + 12"
    using len code pre unfolding eq length_append by simp
  show "take 4 (stamped payload ident mark code i) = le_bytes 4 (unat ident)"
    by (simp add: stamped_def)
  show "drop i (stamped payload ident mark code i) = code_string code @ drop (i + 3) payload"
    unfolding eq using pre by (simp del: append_assoc)
  show "stamped payload ident mark code i ! k = payload ! k" if "12 \<le> k" "k < i" for k
  proof -
    have "stamped payload ident mark code i ! k = ?pre ! k"
      unfolding eq using pre that by (metis nth_append)
    then show ?thesis
      using assms(1) that len by (auto simp: nth_append not_less)
  qed
qed

lemma code_string_reads:
  assumes "validTournamentCode code"
  shows "le_nat (take 2 (code_string code @ rest)) = 13" "take 12 (drop 2 (code_string code @ rest)) = map byte_of_char code"
    "(code_string code @ rest) ! 14 = 0" "15 \<le> length (code_string code @ rest)"
  using assms by (simp_all add: code_string_def validTournamentCode_def tournamentCodeLen_def le_nat_le_bytes nth_append)

lemma matches_at:
  assumes "tournamentCodeOffset b = Some i" and "validTournamentCode code" and "drop i b = code_string code @ rest"
  shows "tournamentCodeMatches b code"
proof -
  have "length b - i = length (code_string code @ rest)"
    using arg_cong [OF assms(3), of length] by simp
  then have len: "i + 15 \<le> length b"
    using code_string_reads(4) [OF assms(2), of rest] by linarith
  have "drop (i + 2) b = drop 2 (drop i b)" "b ! (i + 14) = drop i b ! 14"
    using len by (simp_all add: add.commute)
  then show ?thesis
    using assms len code_string_reads [OF assms(2), of rest]
    by (simp add: tournamentCodeMatches_def tournamentCodeLen_def Let_def add.commute)
qed

section \<open>Creating\<close>

lemma offset_ge:
  assumes "tournamentCodeOffset b = Some i" and "empty_code_at b i"
  shows "0x6D \<le> i"
proof (cases "layout_end b")
  case (Terminator j)
  then show ?thesis
    using assms layout_Terminator_agree [of b j b] empty_code_length [OF assms(2)] by (simp add: offset_layout)
next
  case (UnknownType p)
  then have "i \<in> set [p ..< length b - 2]"
    using assms(1) by (auto simp: offset_layout scan_empty_code_def find_Some_iff)
  then show ?thesis
    using layout_Unknown_facts(1) [OF UnknownType] by simp
qed (use assms in \<open>simp add: offset_layout\<close>)

text \<open>Id and mark do not move the code, and neither does the code itself.\<close>

lemma structural_stamp:
  assumes "layout_end payload = Terminator i" and "empty_code_at payload i" and "length mark = 8" and "validTournamentCode code"
  shows "stampTournament payload ident mark code = stamped payload ident mark code i"
    "tournamentCodeMatches (stamped payload ident mark code i) code" "0x72 \<le> i"
proof -
  note len = empty_code_length [OF assms(2)]
  show ge: "0x72 \<le> i"
    using layout_Terminator_agree(2) [OF assms(1) refl len] .
  have "layout_end (le_bytes 4 (unat ident) @ mark @ drop 12 payload) = Terminator i"
    by (rule layout_Terminator_agree(1) [OF assms(1)]) (use len ge assms(3) in \<open>simp_all add: head_nth\<close>)
  then show "stampTournament payload ident mark code = stamped payload ident mark code i"
    using assms ge by (intro stamp_eq) (simp_all add: offset_layout)
  have "12 \<le> i"
    using ge by simp
  note r = stamped_facts [OF assms(3,4,2) this, where ident = ident]
  have "layout_end (stamped payload ident mark code i) = Terminator i"
    by (rule layout_Terminator_agree(1) [OF assms(1)]) (use len r(1,3) in simp_all)
  then show "tournamentCodeMatches (stamped payload ident mark code i) code"
    using r(4) assms(4) by (intro matches_at [of _ i]) (simp_all add: offset_layout)
qed

text \<open>When the code was found by the scan, the stamped structure is not recognised any more.\<close>

lemma scanned_stamp:
  assumes "layout_end payload = UnknownType p" and "tournamentCodeOffset payload = Some i" and "empty_code_at payload i"
    and "length mark = 8" and "validTournamentCode code"
  shows "\<not> tournamentCodeMatches (stampTournament payload ident mark code) code"
proof -
  let ?out = "le_bytes 4 (unat ident) @ mark @ drop 12 payload" and ?r = "stamped payload ident mark code i"
  note len = empty_code_length [OF assms(3)] and p = layout_Unknown_facts [OF assms(1)]
  have scan: "scan_empty_code payload p = Some i"
    using assms(1,2) by (simp add: offset_layout)
  then have i: "p \<le> i"
    by (auto simp: scan_empty_code_def find_Some_iff)
  have lout: "length ?out = length payload"
    using p assms(4) by simp
  have empt: "empty_code_at ?out k = empty_code_at payload k" if "12 \<le> k" for k
    using that assms(4) by (simp add: empty_code_at_def)
  have "layout_end ?out = UnknownType p"
    by (rule layout_Unknown_agree [OF assms(1)]) (use p lout assms(4) in \<open>simp_all add: head_nth\<close>)
  moreover have "scan_empty_code ?out p = scan_empty_code payload p"
    unfolding scan_empty_code_def lout using p by (intro find_cong refl) (simp add: empt)
  ultimately have st: "stampTournament payload ident mark code = ?r"
    using assms p i scan by (intro stamp_eq) (simp_all add: offset_layout)
  have "12 \<le> i"
    using i p by simp
  note r = stamped_facts [OF assms(4,5,3) this, where ident = ident]
  have at: "?r ! (i + k) = (code_string code @ drop (i + 3) payload) ! k" if "k < 3" for k
    using r(1) len that by (subst r(4) [symmetric]) simp
  have head: "?r ! i = 13" "?r ! (i + 1) = 0"
    using at [of 0] at [of 1] assms(5) by (simp_all add: code_string_def validTournamentCode_def tournamentCodeLen_def numeral_2_eq_2)
  have pay: "payload ! i = 1" "payload ! (i + 1) = 0"
    using assms(3) len by (simp_all add: empty_code_at_def take_Suc_conv_app_nth numeral_3_eq_3)
  have "i \<noteq> p + 1"
    using p(4) pay by (auto simp: property_size_def)
  then have "?r ! p \<noteq> 0xff" "property_size (?r ! (p + 1)) = None"
    using i p r(3) [of p] r(3) [of "p + 1"] head pay by (cases "i = p"; auto simp: property_size_def)+
  then have "layout_end ?r = UnknownType p"
    by (rule layout_Unknown_agree [OF assms(1), rotated 2]) (use i p r(1,3) in simp_all)
  then have off: "tournamentCodeOffset ?r = scan_empty_code ?r p"
    by (simp add: offset_layout)
  have "le_nat (take 2 (drop j ?r)) = 1" if "scan_empty_code ?r p = Some j" for j
  proof -
    have "take 3 (drop j ?r) = [1, 0, 0]"
      using that by (auto simp: scan_empty_code_def find_Some_iff empty_code_at_def)
    from arg_cong [OF this, of "take 2"] have "take 2 (drop j ?r) = [1, 0]"
      by simp
    then show ?thesis by simp
  qed
  then show ?thesis
    unfolding st by (auto simp: tournamentCodeMatches_def off tournamentCodeLen_def Let_def split: option.split)
qed

lemma CreateTournament_structural:
  assumes "length (te_mark env) = 8" and "length (te_code env) = 12" and "length payload \<le> 4096"
    and "length (ts_byID ts) < 2000" and "ts_nextID ts \<noteq> 0" and "layout_end payload = Terminator i" and "empty_code_at payload i"
  shows "\<exists>t. CreateTournament env owner payload ts =
      (ts\<lparr>ts_nextID := ts_nextID ts + 1, ts_byID := gm_put (ts_nextID ts) t (ts_byID ts), ts_dirty := True\<rparr>, Some t) \<and>
    validStoredTournament t \<and> t_ID t = ts_nextID ts \<and> t_Owner t = owner \<and> t_Participants t = [owner] \<and>
    t_Blob t = stamped payload (ts_nextID ts) (te_mark env) (t_Code t) i \<and> validTournamentCode (t_Code t)"
proof -
  let ?code = "newTournamentCode (te_code env)" and ?id = "ts_nextID ts"
  have code: "validTournamentCode ?code"
    using assms(2) by (intro newTournamentCode_valid) (simp add: tournamentCodeLen_def)
  note st = structural_stamp(1,2) [OF assms(6,7,1) code, of ?id]
  have ge: "12 \<le> i" using structural_stamp(3) [OF assms(6,7,1) code] by simp
  note r = stamped_facts [OF assms(1) code assms(7) ge, where ident = ?id]
  have "le_nat (le_bytes 4 (unat ?id)) = unat ?id"
    using unat_lt_bytes(2) [of ?id] by (simp only: le_nat_le_bytes mod_less)
  then have "validStoredTournament \<lparr>t_ID = ?id, t_Owner = owner, t_Code = ?code, t_Mark = te_mark env,
     t_Blob = stamped payload ?id (te_mark env) ?code i, t_Participants = [owner], t_CreatedAt = te_now env\<rparr>"
    using st(2) r(1,2) empty_code_length [OF assms(7)] ge assms(3,5)
    by (simp add: validStoredTournament_def tournamentMaxBlob_def tournamentCodeLen_def)
  then show ?thesis
    using assms st(1) code by (auto simp: CreateTournament_def offset_layout tournamentMaxBlob_def tournamentMax_def Let_def)
qed

lemma code_string_out: "validTournamentCode code \<Longrightarrow> code_string code = out_String code"
  by (simp add: code_string_def out_String_def validTournamentCode_def tournamentCodeLen_def out_U16_def)

text \<open>
  C21: which tournaments can be created. A structure whose rule properties end with the terminator
  and whose code field is empty is stored under the next id: the answer is the structure sent, with
  the id and the mark in its first twelve bytes, the code of twelve digits in place of the empty
  string and every other byte kept; the creator owns it and is its only participant. A structure
  in which the code was only found by scanning past a property of unknown type is always refused,
  and so is one without a code field or with a code already in it.
\<close>

theorem CreateTournament_outcome:
  assumes "length (te_mark env) = 8" and "length (te_code env) = 12" and "length payload \<le> 4096"
    and "length (ts_byID ts) < 2000" and "ts_nextID ts \<noteq> 0" and "CreateTournament env owner payload ts = (ts', res)"
  shows "case layout_end payload of
      Terminator i \<Rightarrow>
        if take 3 (drop i payload) = [1, 0, 0] then
          (\<exists>t. res = Some t \<and> gm_get (ts_byID ts') (ts_nextID ts) = Some t \<and> validStoredTournament t \<and>
             t_ID t = ts_nextID ts \<and> t_Owner t = owner \<and> t_Participants t = [owner] \<and> ts_nextID ts' = ts_nextID ts + 1 \<and>
             t_Blob t = le_bytes 4 (unat (ts_nextID ts)) @ te_mark env @ take (i - 12) (drop 12 payload) @
               out_String (t_Code t) @ drop (i + 3) payload)
        else res = None \<and> ts' = ts
    | UnknownType p \<Rightarrow> res = None \<and> ts_byID ts' = ts_byID ts
    | OffEnd \<Rightarrow> res = None \<and> ts' = ts"
proof (cases "layout_end payload")
  case (Terminator i)
  show ?thesis
  proof (cases "empty_code_at payload i")
    case True
    from CreateTournament_structural [OF assms(1-5) Terminator True, of owner] assms(6) Terminator True
    show ?thesis
      by (auto simp: empty_code_at_def stamped_def code_string_out)
  next
    case False
    then show ?thesis
      using assms(6) Terminator by (simp add: CreateTournament_def offset_layout empty_code_at_def)
  qed
next
  case (UnknownType p)
  have code: "validTournamentCode (newTournamentCode (te_code env))"
    using assms(2) by (intro newTournamentCode_valid) (simp add: tournamentCodeLen_def)
  show ?thesis
    using assms(6) UnknownType scanned_stamp [OF UnknownType _ _ assms(1) code]
    by (auto simp: CreateTournament_def validStoredTournament_def Let_def split: option.splits if_splits)
next
  case OffEnd
  then show ?thesis
    using assms(6) by (simp add: CreateTournament_def offset_layout)
qed

definition small_tournament :: "byte list" where
  "small_tournament = replicate 105 0 @ [2, 0, 0, 0, 0xff, 0, 0, 0, 0, 1, 0, 0]"

definition small_env :: tournament_env where
  "small_env = \<lparr>te_mark = [1, 2, 3, 4, 5, 6, 7, 8], te_code = [0, 1, 2, 3, 4, 5, 6, 7, 8, 9, 10, 255], te_now = 0\<rparr>"

lemma small_tournament_layout: "layout_end small_tournament = Terminator 114"
  by (simp add: layout_walk name_end_def small_tournament_def walk_properties.simps nth_append)

theorem CreateTournament_outcome_witness:
  "\<exists>ts' t. CreateTournament small_env 77 small_tournament empty_tournaments = (ts', Some t) \<and>
     gm_get (ts_byID ts') 1000 = Some t \<and> t_Owner t = 77"
proof -
  obtain ts' res where cr: "CreateTournament small_env 77 small_tournament empty_tournaments = (ts', res)"
    by force
  have "take 3 (drop 114 small_tournament) = [1, 0, 0]" "length small_tournament \<le> 4096"
    by (simp_all add: small_tournament_def)
  moreover have "length (te_mark small_env) = 8" "length (te_code small_env) = 12"
    by (simp_all add: small_env_def)
  moreover have "ts_nextID empty_tournaments = 1000" "length (ts_byID empty_tournaments) < 2000"
    by (simp_all add: empty_tournaments_def)
  ultimately show ?thesis
    using CreateTournament_outcome [OF _ _ _ _ _ cr] cr by (simp add: small_tournament_layout) blast
qed

section \<open>The store over time\<close>

inductive ts_step :: "tournamentStore \<Rightarrow> tournamentStore \<Rightarrow> bool" where
  "ts_nextID ts \<noteq> 0xFFFFFFFF \<Longrightarrow> ts_step ts (fst (CreateTournament env owner payload ts))"
| "ts_step ts (fst (joinTournament ident p ts))"
| "ts_step ts (fst (deleteTournament ident p ts))"
| "ts_step ts (fst (tournamentFlusher ord ts))"

inductive_cases ts_step_cases: "ts_step ts ts'"

text \<open>The store starts from what the file held, with no tournament under the last id.\<close>

definition ts_start :: "tournamentStore \<Rightarrow> bool" where
  "ts_start ts \<longleftrightarrow> (\<exists>lst. ts = tournamentInit lst empty_tournaments \<and> list_all (\<lambda>t. t_ID t \<noteq> 0xFFFFFFFF) lst)"

definition ts_entry_ok :: "tournamentStore \<Rightarrow> u32 \<times> Tournament \<Rightarrow> bool" where
  "ts_entry_ok ts e \<longleftrightarrow> t_ID (snd e) = fst e \<and> validStoredTournament (snd e) \<and> fst e < ts_nextID ts"

definition ts_inv :: "tournamentStore \<Rightarrow> bool" where
  "ts_inv ts \<longleftrightarrow> gm_wf (ts_byID ts) \<and> list_all (ts_entry_ok ts) (ts_byID ts) \<and>
     list_all (\<lambda>t. t_ID t \<noteq> 0 \<and> \<not> validStoredTournament t) (ts_quarantined ts)"

lemma ts_inv_get: "ts_inv ts \<Longrightarrow> gm_get (ts_byID ts) k = Some t \<Longrightarrow> t_ID t = k \<and> validStoredTournament t \<and> k < ts_nextID ts"
  using gm_get_Some_in [of "ts_byID ts" k t] by (auto simp: ts_inv_def list_all_iff ts_entry_ok_def)

lemma ts_inv_put:
  assumes "ts_inv ts" and "t_ID t = k" and "validStoredTournament t" and "k < n" and "ts_nextID ts \<le> n"
  shows "ts_inv (ts\<lparr>ts_nextID := n, ts_byID := gm_put k t (ts_byID ts), ts_dirty := d\<rparr>)"
  using assms by (fastforce simp: ts_inv_def list_all_iff ts_entry_ok_def gm_in_put split: if_splits)

lemma ts_inv_next: "ts_inv ts \<Longrightarrow> ts_nextID ts \<le> n \<Longrightarrow> ts_inv (ts\<lparr>ts_nextID := n\<rparr>)"
  by (fastforce simp: ts_inv_def list_all_iff ts_entry_ok_def)

lemma CreateTournament_cases:
  obtains (refused) "CreateTournament env owner payload ts = (ts, None)"
  | (invalid) "CreateTournament env owner payload ts = (ts\<lparr>ts_nextID := ts_nextID ts + 1\<rparr>, None)"
  | (created) t where "CreateTournament env owner payload ts =
        (ts\<lparr>ts_nextID := ts_nextID ts + 1, ts_byID := gm_put (ts_nextID ts) t (ts_byID ts), ts_dirty := True\<rparr>, Some t)"
      "t_ID t = ts_nextID ts" "validStoredTournament t" "t_Owner t = owner" "t_Participants t = [owner]"
  using that unfolding CreateTournament_def Let_def by (fastforce split: option.splits if_splits)

lemma validStored_parts [simp]: "validStoredTournament (t\<lparr>t_Participants := ps\<rparr>) = validStoredTournament t"
  by (simp add: validStoredTournament_def)

lemma validStored_id: "validStoredTournament t \<Longrightarrow> t_ID t \<noteq> 0"
  by (auto simp: validStoredTournament_def)

lemma ts_step_inv: "ts_step ts ts' \<Longrightarrow> ts_inv ts \<Longrightarrow> ts_inv ts'"
proof (induction rule: ts_step.induct)
  case (1 ts env owner payload)
  note n = u32_less_Suc [OF "1.hyps"]
  show ?case
    by (cases rule: CreateTournament_cases [of env owner payload ts])
      (use "1.prems" n in \<open>simp_all add: ts_inv_next ts_inv_put\<close>)
next
  case (2 ts ident p)
  have "ts_inv (ts\<lparr>ts_byID := gm_put ident (t\<lparr>t_Participants := ps\<rparr>) (ts_byID ts), ts_dirty := True\<rparr>)"
    if "gm_get (ts_byID ts) ident = Some t" for t ps
    using ts_inv_put [OF "2.prems", of "t\<lparr>t_Participants := ps\<rparr>" ident "ts_nextID ts" True] ts_inv_get [OF "2.prems" that] by simp
  then show ?case
    using "2.prems" by (auto simp: joinTournament_def split: option.split)
next
  case (3 ts ident p)
  have "ts_inv (ts\<lparr>ts_byID := gm_del ident (ts_byID ts), ts_dirty := True\<rparr>)"
    using "3.prems" by (auto simp: ts_inv_def list_all_iff ts_entry_ok_def gm_in_del)
  then show ?case
    using "3.prems" by (auto simp: deleteTournament_def split: option.split)
next
  case (4 ts ord)
  then show ?case
    by (auto simp: tournamentFlusher_def ts_inv_def list_all_iff ts_entry_ok_def)
qed

lemma restore_one_inv: "ts_inv ts \<Longrightarrow> t_ID t \<noteq> 0xFFFFFFFF \<Longrightarrow> ts_inv (restore_one t ts)"
proof -
  assume inv: "ts_inv ts" and id: "t_ID t \<noteq> 0xFFFFFFFF"
  define n where "n = (if t_ID t \<ge> ts_nextID ts then t_ID t + 1 else ts_nextID ts)"
  have n: "t_ID t < n" "ts_nextID ts \<le> n"
    using u32_less_Suc [OF id] by (auto simp: n_def not_le)
  have inv1: "ts_inv (ts\<lparr>ts_nextID := n\<rparr>)"
    by (rule ts_inv_next [OF inv n(2)])
  have eq: "(if t_ID t \<ge> ts_nextID ts then ts\<lparr>ts_nextID := t_ID t + 1\<rparr> else ts) = ts\<lparr>ts_nextID := n\<rparr>"
    by (simp add: n_def)
  show "ts_inv (restore_one t ts)"
    unfolding restore_one_def Let_def eq
    using inv inv1 n ts_inv_put [OF inv1, of t "t_ID t" n "ts_dirty ts"] by (auto simp: ts_inv_def ts_entry_ok_def list_all_iff)
qed

lemma ts_inv_empty: "ts_inv empty_tournaments"
  by (simp add: ts_inv_def empty_tournaments_def)

lemma tournamentInit_inv: "list_all (\<lambda>t. t_ID t \<noteq> 0xFFFFFFFF) lst \<Longrightarrow> ts_inv ts \<Longrightarrow> ts_inv (tournamentInit lst ts)"
  unfolding tournamentInit_def by (induction lst arbitrary: ts) (auto simp: restore_one_inv)

interpretation tourn: inductive_invariant ts_start ts_step ts_inv
  by unfold_locales (auto simp: ts_start_def tournamentInit_inv ts_inv_empty ts_step_inv)

text \<open>
  C22: a tournament keeps its id and stays valid. In every state the store can reach from a restored
  file, before the ids run out, each stored tournament lies under its own id and passes the
  validity check, so every lookup finds it; creating one takes a free id and leaves all others as
  they were.
\<close>

theorem tournaments_keep_ids:
  assumes "reach ts_start ts_step ts"
  shows "(\<forall>k. tournamentByID k ts = gm_get (ts_byID ts) k) \<and>
    (\<forall>k t. gm_get (ts_byID ts) k = Some t \<longrightarrow> t_ID t = k \<and> tournamentCodeMatches (t_Blob t) (t_Code t)) \<and>
    (\<forall>env owner payload ts' t. CreateTournament env owner payload ts = (ts', Some t) \<longrightarrow>
       gm_get (ts_byID ts) (t_ID t) = None \<and>
       (\<forall>k. gm_get (ts_byID ts') k = (if k = t_ID t then Some t else gm_get (ts_byID ts) k)))"
proof (intro conjI allI impI)
  have inv: "ts_inv ts"
    by (rule tourn.reachable_inv [OF assms])
  show "tournamentByID k ts = gm_get (ts_byID ts) k" for k
    using ts_inv_get [OF inv, of k] by (auto simp: tournamentByID_def split: option.split)
  show "t_ID t = k" "tournamentCodeMatches (t_Blob t) (t_Code t)" if "gm_get (ts_byID ts) k = Some t" for k t
    using ts_inv_get [OF inv that] by (auto simp: validStoredTournament_def split: if_splits)
  fix env owner payload ts' t
  assume cr: "CreateTournament env owner payload ts = (ts', Some t)"
  show "gm_get (ts_byID ts) (t_ID t) = None"
    by (cases rule: CreateTournament_cases [of env owner payload ts])
      (use cr ts_inv_get [OF inv, of "ts_nextID ts"] in \<open>auto intro: ccontr\<close>)
  show "gm_get (ts_byID ts') k = (if k = t_ID t then Some t else gm_get (ts_byID ts) k)" for k
    by (cases rule: CreateTournament_cases [of env owner payload ts]) (use cr in auto)
qed

lemma empty_start: "ts_start empty_tournaments"
  unfolding ts_start_def by (intro exI [of _ "[]"]) (simp add: tournamentInit_def)

lemma small_created:
  "\<exists>ts t. CreateTournament small_env 77 small_tournament empty_tournaments = (ts, Some t) \<and>
     gm_get (ts_byID ts) 1000 = Some t \<and> t_Owner t = 77 \<and> reach ts_start ts_step ts"
proof -
  let ?ts = "fst (CreateTournament small_env 77 small_tournament empty_tournaments)"
  have next_id: "ts_nextID empty_tournaments = 1000" "length (ts_byID empty_tournaments) < 2000"
    by (simp_all add: empty_tournaments_def)
  then have "ts_step empty_tournaments ?ts"
    by (intro ts_step.intros(1)) simp
  with reach_init [of ts_start, OF empty_start] have "reach ts_start ts_step ?ts"
    by (rule reach_step)
  moreover obtain t where "CreateTournament small_env 77 small_tournament empty_tournaments =
      (empty_tournaments\<lparr>ts_nextID := 1001, ts_byID := gm_put 1000 t (ts_byID empty_tournaments), ts_dirty := True\<rparr>, Some t)" "t_Owner t = 77"
    using CreateTournament_structural [OF _ _ _ next_id(2) _ small_tournament_layout, of small_env 77]
    by (auto simp: small_env_def small_tournament_def empty_code_at_def next_id(1))
  ultimately show ?thesis
    by auto
qed

theorem tournaments_keep_ids_witness:
  "\<exists>ts t. CreateTournament small_env 77 small_tournament empty_tournaments = (ts, Some t) \<and> tournamentByID 1000 ts = Some t"
  using small_created tournaments_keep_ids by metis

text \<open>
  Who may do what. Deleting succeeds exactly for the owner of an existing tournament and
  removes only that one. Joining succeeds exactly for an existing tournament, adds the player once
  however often it is repeated, and changes no other tournament.
\<close>

lemma tournament_rights:
  assumes "reach ts_start ts_step ts" and "deleteTournament ident p ts = (td, deleted)" and "joinTournament ident p ts = (tj, joined)"
  shows "(deleted \<longleftrightarrow> (\<exists>t. gm_get (ts_byID ts) ident = Some t \<and> t_Owner t = p)) \<and>
    (\<forall>k. gm_get (ts_byID td) k = (if deleted \<and> k = ident then None else gm_get (ts_byID ts) k)) \<and>
    (joined \<longleftrightarrow> gm_has (ts_byID ts) ident) \<and>
    (joined \<longrightarrow> (\<exists>t t'. gm_get (ts_byID ts) ident = Some t \<and> gm_get (ts_byID tj) ident = Some t' \<and>
       t_Participants t' = (if p \<in> set (t_Participants t) then t_Participants t else t_Participants t @ [p]) \<and> t_Blob t' = t_Blob t)) \<and>
    (\<forall>k. k \<noteq> ident \<longrightarrow> gm_get (ts_byID tj) k = gm_get (ts_byID ts) k) \<and> joinTournament ident p tj = (tj, joined)"
  using ts_inv_get [OF tourn.reachable_inv [OF assms(1)], of ident] assms(2,3)
  by (cases "gm_get (ts_byID ts) ident")
    (auto simp: deleteTournament_def joinTournament_def gm_has_get split: if_splits)

lemma tournament_rights_example:
  "\<exists>ts. ts = fst (CreateTournament small_env 77 small_tournament empty_tournaments) \<and>
     snd (deleteTournament 1000 77 ts) \<and> \<not> snd (deleteTournament 1000 78 ts)"
proof -
  obtain ts t where cr: "CreateTournament small_env 77 small_tournament empty_tournaments = (ts, Some t)"
    "gm_get (ts_byID ts) 1000 = Some t" "t_Owner t = 77" and r: "reach ts_start ts_step ts"
    using small_created by blast
  note rights = tournament_rights [OF r prod.collapse [symmetric] prod.collapse [symmetric], THEN conjunct1]
  show ?thesis
    using rights [of 1000 77] rights [of 1000 78] cr by auto
qed

section \<open>Writing and restoring the file\<close>

lemma restore_quarantined:
  "list_all (\<lambda>t. t_ID t \<noteq> 0 \<and> \<not> validStoredTournament t) xs \<Longrightarrow>
   ts_byID (fold restore_one xs ts) = ts_byID ts \<and> ts_quarantined (fold restore_one xs ts) = ts_quarantined ts @ xs"
  by (induction xs arbitrary: ts) (auto simp: restore_one_def Let_def)

lemma restore_valid:
  "list_all (\<lambda>t. t_ID t \<noteq> 0 \<and> validStoredTournament t) xs \<Longrightarrow> distinct (map t_ID xs) \<Longrightarrow>
   gm_get (ts_byID (fold restore_one xs ts)) k =
     (case map_of (map (\<lambda>t. (t_ID t, t)) xs) k of None \<Rightarrow> gm_get (ts_byID ts) k | Some t \<Rightarrow> Some t) \<and>
   ts_quarantined (fold restore_one xs ts) = ts_quarantined ts"
proof (induction xs arbitrary: ts)
  case (Cons x xs)
  have "ts_byID (restore_one x ts) = gm_put (t_ID x) x (ts_byID ts)" "ts_quarantined (restore_one x ts) = ts_quarantined ts"
    using Cons.prems(1) by (auto simp: restore_one_def Let_def)
  moreover have "map_of (map (\<lambda>t. (t_ID t, t)) xs) (t_ID x) = None"
    using Cons.prems(2) by (auto simp: map_of_eq_None_iff)
  ultimately show ?case
    using Cons.IH [of "restore_one x ts"] Cons.prems by (auto split: option.split)
qed simp

lemma flushed_entries:
  assumes "ts_inv ts" and "visits ord (ts_byID ts)"
  defines "vs \<equiv> concat (map (\<lambda>ident. case gm_get (ts_byID ts) ident of None \<Rightarrow> [] | Some t \<Rightarrow> [t]) ord)"
  shows "map t_ID vs = ord" "list_all (\<lambda>t. t_ID t \<noteq> 0 \<and> validStoredTournament t) vs"
    "map_of (map (\<lambda>t. (t_ID t, t)) vs) k = gm_get (ts_byID ts) k"
proof -
  let ?f = "\<lambda>ident. the (gm_get (ts_byID ts) ident)"
  have has: "gm_get (ts_byID ts) ident = Some (?f ident)" if "ident \<in> set ord" for ident
    using that assms(2) by (auto simp: visits_def dest: weak_map_of_SomeI)
  have "map (\<lambda>ident. case gm_get (ts_byID ts) ident of None \<Rightarrow> [] | Some t \<Rightarrow> [t]) ord = map (\<lambda>ident. [?f ident]) ord"
    by (rule map_cong [OF refl]) (metis has option.simps(5))
  then have vs: "vs = map ?f ord"
    unfolding vs_def by (simp only: concat_map_singleton)
  have id: "t_ID (?f ident) = ident" "validStoredTournament (?f ident)" if "ident \<in> set ord" for ident
    using ts_inv_get [OF assms(1) has [OF that]] by simp_all
  show ids: "map t_ID vs = ord"
    using id by (simp add: vs map_idI)
  show "list_all (\<lambda>t. t_ID t \<noteq> 0 \<and> validStoredTournament t) vs"
    using id validStored_id by (auto simp: vs list_all_iff)
  have "map (\<lambda>t. (t_ID t, t)) vs = map (\<lambda>ident. (ident, ?f ident)) ord"
    using id by (simp add: vs)
  then have "map_of (map (\<lambda>t. (t_ID t, t)) vs) = (Some \<circ> ?f) |` set ord"
    by (simp only: map_of_map_restrict)
  then show "map_of (map (\<lambda>t. (t_ID t, t)) vs) k = gm_get (ts_byID ts) k"
    using has [of k] assms(2) map_of_eq_None_iff [of "ts_byID ts" k] by (auto simp: restrict_map_def visits_def)
qed

text \<open>
  A restart loses no tournament. What the flusher writes of a changed store, in whatever order
  it visits it, restores to a store with the same tournaments under the same ids and the same
  quarantined records; the next id lies above every restored one.
\<close>

lemma tournaments_restored:
  assumes "reach ts_start ts_step ts" and "visits ord (ts_byID ts)" and "ts_dirty ts"
    and "tournamentFlusher ord ts = (ts1, Some lst)" and "list_all (\<lambda>t. t_ID t \<noteq> 0xFFFFFFFF) lst"
  shows "\<not> ts_dirty ts1 \<and>
    (\<forall>k. gm_get (ts_byID (tournamentInit lst empty_tournaments)) k = gm_get (ts_byID ts) k) \<and>
    ts_quarantined (tournamentInit lst empty_tournaments) = ts_quarantined ts \<and>
    (\<forall>k. gm_has (ts_byID ts) k \<longrightarrow> k < ts_nextID (tournamentInit lst empty_tournaments))"
proof -
  let ?vs = "concat (map (\<lambda>ident. case gm_get (ts_byID ts) ident of None \<Rightarrow> [] | Some t \<Rightarrow> [t]) ord)"
  have inv: "ts_inv ts"
    by (rule tourn.reachable_inv [OF assms(1)])
  have lst: "lst = ts_quarantined ts @ ?vs" "\<not> ts_dirty ts1"
    using assms(3,4) by (auto simp: tournamentFlusher_def)
  note vs = flushed_entries [OF inv assms(2)]
  define mid where "mid = fold restore_one (ts_quarantined ts) empty_tournaments"
  have mid: "ts_byID mid = []" "ts_quarantined mid = ts_quarantined ts"
    using restore_quarantined [of "ts_quarantined ts" empty_tournaments] inv
    by (simp_all add: mid_def ts_inv_def empty_tournaments_def)
  have final: "tournamentInit lst empty_tournaments = fold restore_one ?vs mid"
    by (simp add: tournamentInit_def lst mid_def)
  have dist: "distinct (map t_ID ?vs)"
    using vs(1) assms(2) by (simp add: visits_def)
  have get: "gm_get (ts_byID (tournamentInit lst empty_tournaments)) k = gm_get (ts_byID ts) k" for k
    using restore_valid [OF vs(2) dist, of mid k] mid(1) vs(3) [of k] by (simp add: final split: option.splits)
  have "ts_inv (tournamentInit lst empty_tournaments)"
    by (rule tournamentInit_inv [OF assms(5) ts_inv_empty])
  then have "k < ts_nextID (tournamentInit lst empty_tournaments)" if "gm_has (ts_byID ts) k" for k
    using that get [of k] ts_inv_get by (fastforce simp: gm_has_get)
  then show ?thesis
    using lst(2) get restore_valid [OF vs(2) dist, of mid] mid(2) by (simp add: final)
qed

end
