(* ===== verification/Nex_Prudp.thy ===== *)
theory Nex_Prudp
  imports Nex_Stream
begin

unbundle bit_operations_syntax

text \<open>
  PRUDP-Lite packets, from \<^verbatim>\<open>nextendo-nex/prudp_lite.go\<close>: the packet record, its encoding, the
  decoding of a byte buffer into packets and the bytes left over, and the framing of a byte stream
  that arrives in pieces.
\<close>

section \<open>Packets\<close>

definition PacketSYN :: byte where "PacketSYN = 0"
definition PacketCONNECT :: byte where "PacketCONNECT = 1"
definition PacketDATA :: byte where "PacketDATA = 2"
definition PacketDISCONNECT :: byte where "PacketDISCONNECT = 3"
definition PacketPING :: byte where "PacketPING = 4"

definition FlagACK :: u16 where "FlagACK = 0x001"
definition FlagReliable :: u16 where "FlagReliable = 0x002"
definition FlagNeedACK :: u16 where "FlagNeedACK = 0x004"
definition FlagHasSize :: u16 where "FlagHasSize = 0x008"
definition FlagMultiACK :: u16 where "FlagMultiACK = 0x200"

definition optSupport :: byte where "optSupport = 0"
definition optConnectionSig :: byte where "optConnectionSig = 1"
definition optConnectionSigLite :: byte where "optConnectionSigLite = 128"

definition liteMagic :: byte where "liteMagic = 0x80"
definition liteHeaderSize :: nat where "liteHeaderSize = 12"

lemmas packet_consts = PacketSYN_def PacketCONNECT_def PacketDATA_def PacketDISCONNECT_def PacketPING_def
lemmas flag_consts = FlagACK_def FlagReliable_def FlagNeedACK_def FlagHasSize_def FlagMultiACK_def
lemmas opt_consts = optSupport_def optConnectionSig_def optConnectionSigLite_def

record Packet =
  p_Type :: byte
  p_Flags :: u16
  p_SourceType :: byte
  p_SourcePort :: byte
  p_DestType :: byte
  p_DestPort :: byte
  p_FragmentID :: byte
  p_PacketID :: u16
  p_Signature :: "byte list"
  p_ConnectionSig :: "byte list"
  p_MinorVersion :: byte
  p_SupportedFunc :: u32
  p_Payload :: "byte list"

definition zero_packet :: Packet where
  "zero_packet = \<lparr>p_Type = 0, p_Flags = 0, p_SourceType = 0, p_SourcePort = 0, p_DestType = 0, p_DestPort = 0,
     p_FragmentID = 0, p_PacketID = 0, p_Signature = [], p_ConnectionSig = [], p_MinorVersion = 0,
     p_SupportedFunc = 0, p_Payload = []\<rparr>"

definition HasFlag :: "Packet \<Rightarrow> u16 \<Rightarrow> bool" where
  "HasFlag p f \<longleftrightarrow> p_Flags p AND f \<noteq> 0"

section \<open>Encoding\<close>

definition put_option :: "byte \<Rightarrow> byte list \<Rightarrow> byte list" where
  "put_option i val = [i, of_nat (length val)] @ val"

definition encodeLiteOptions :: "Packet \<Rightarrow> byte list" where
  "encodeLiteOptions p =
     (if p_Type p = PacketSYN \<or> p_Type p = PacketCONNECT
      then put_option optSupport (out_U32 (ucast (p_MinorVersion p) OR push_bit 8 (p_SupportedFunc p))) else []) @
     (if p_Type p = PacketSYN \<and> HasFlag p FlagACK then put_option optConnectionSig (p_ConnectionSig p) else []) @
     (if p_Type p = PacketCONNECT \<and> \<not> HasFlag p FlagACK then put_option optConnectionSigLite (p_Signature p) else [])"

definition encode_header :: "Packet \<Rightarrow> nat \<Rightarrow> byte list" where
  "encode_header p optLen =
     [liteMagic, of_nat optLen] @ out_U16 (of_nat (length (p_Payload p))) @
     [push_bit 4 (p_SourceType p) OR (p_DestType p AND 0xF)] @ [p_SourcePort p, p_DestPort p, p_FragmentID p] @
     out_U16 (ucast (p_Type p AND 0xF) OR push_bit 4 (p_Flags p)) @ out_U16 (p_PacketID p)"

definition EncodePacket :: "Packet \<Rightarrow> byte list" where
  "EncodePacket p =
     (let options = encodeLiteOptions p in encode_header p (length options) @ options @ p_Payload p)"

section \<open>Decoding\<close>

definition apply_option :: "byte \<Rightarrow> byte list \<Rightarrow> Packet \<Rightarrow> Packet" where
  "apply_option i val p =
     (if i = optSupport then
        (if length val = 4 then
           let v = (of_nat (le_nat val) :: u32)
           in p\<lparr>p_MinorVersion := ucast (v AND 0xFF), p_SupportedFunc := drop_bit 8 v\<rparr>
         else p)
      else if i = optConnectionSig then p\<lparr>p_ConnectionSig := val\<rparr>
      else if i = optConnectionSigLite then p\<lparr>p_Signature := val\<rparr>
      else p)"

text \<open>\<open>None\<close> is the error of a truncated option.\<close>

fun decodeLiteOptions :: "Packet \<Rightarrow> byte list \<Rightarrow> Packet option" where
  "decodeLiteOptions p [] = Some p"
| "decodeLiteOptions p [_] = None"
| "decodeLiteOptions p (i # sz # rest) =
     (if unat sz > length rest then None
      else decodeLiteOptions (apply_option i (take (unat sz) rest) p) (drop (unat sz) rest))"

text \<open>One turn of the loop: the buffer is too short, is malformed, or starts with a packet.\<close>

datatype decode_turn = NeedMore | Malformed | Got Packet "byte list"

definition header_packet :: "byte list \<Rightarrow> Packet" where
  "header_packet buf =
     (let st = buf ! 4; typeFlags = (of_nat (le_nat (take 2 (drop 8 buf))) :: u16)
      in zero_packet\<lparr>p_SourceType := drop_bit 4 st, p_DestType := st AND 0xF, p_SourcePort := buf ! 5, p_DestPort := buf ! 6,
           p_FragmentID := buf ! 7, p_Flags := drop_bit 4 typeFlags, p_Type := ucast (typeFlags AND 0xF),
           p_PacketID := of_nat (le_nat (take 2 (drop 10 buf)))\<rparr>)"

definition decode_one :: "byte list \<Rightarrow> decode_turn" where
  "decode_one buf =
     (if length buf < liteHeaderSize then NeedMore
      else if buf ! 0 \<noteq> liteMagic then Malformed
      else
        let optSize = unat (buf ! 1); payloadSize = le_nat (take 2 (drop 2 buf)); total = liteHeaderSize + optSize + payloadSize
        in if length buf < total then NeedMore
           else case decodeLiteOptions (header_packet buf) (take optSize (drop liteHeaderSize buf)) of
                  None \<Rightarrow> Malformed
                | Some p \<Rightarrow> Got (p\<lparr>p_Payload := take payloadSize (drop (liteHeaderSize + optSize) buf)\<rparr>) (drop total buf))"

lemma decode_one_shrinks: "decode_one buf = Got p rest \<Longrightarrow> length rest < length buf"
  by (auto simp: decode_one_def liteHeaderSize_def Let_def split: if_splits option.splits)

function DecodePackets :: "byte list \<Rightarrow> Packet list \<times> byte list \<times> bool" where
  "DecodePackets buf =
     (case decode_one buf of
        NeedMore \<Rightarrow> ([], buf, False)
      | Malformed \<Rightarrow> ([], buf, True)
      | Got p rest \<Rightarrow> (let (ps, left, err) = DecodePackets rest in (p # ps, left, err)))"
  by pat_completeness auto
termination by (relation "measure length") (auto simp: decode_one_shrinks)

declare DecodePackets.simps [simp del]

text \<open>
  What \<open>Feed\<close> does with a piece of the byte stream: it appends it to the bytes kept so far, hands on
  the packets that are complete and keeps the rest; on a malformed buffer it drops everything.
\<close>

definition feed :: "byte list \<Rightarrow> byte list \<Rightarrow> byte list \<times> Packet list" where
  "feed recvBuf dat =
     (let (packets, rest, err) = DecodePackets (recvBuf @ dat) in if err then ([], []) else (rest, packets))"

fun feed_all :: "byte list \<Rightarrow> byte list list \<Rightarrow> byte list \<times> Packet list" where
  "feed_all recvBuf [] = (recvBuf, [])"
| "feed_all recvBuf (d # ds) =
     (let (rest, ps) = feed recvBuf d; (rest', qs) = feed_all rest ds in (rest', ps @ qs))"

section \<open>A packet is read back\<close>

text \<open>Fields packed into one word, and the masks that take them apart.\<close>

lemma and_masks [simp]:
  "x AND 0xF = take_bit 4 (x :: byte)" "y AND 0xF = take_bit 4 (y :: u16)" "z AND 0xFF = take_bit 8 (z :: u32)"
  by (simp_all add: take_bit_eq_mask mask_numeral)

lemma small_bits:
  "s < 16 \<Longrightarrow> bit (s :: byte) n \<Longrightarrow> n < 4" "f < 0x1000 \<Longrightarrow> bit (f :: u16) n \<Longrightarrow> n < 12" "g < 0x1000000 \<Longrightarrow> bit (g :: u32) n \<Longrightarrow> n < 24"
proof -
  assume "s < 16" "bit s n"
  moreover from this have "take_bit 4 s = s"
    by (simp add: take_bit_eq_mod word_unat_eq_iff unat_mod word_less_nat_alt)
  ultimately show "n < 4"
    by (metis bit_take_bit_iff)
next
  assume "f < 0x1000" "bit f n"
  moreover from this have "take_bit 12 f = f"
    by (simp add: take_bit_eq_mod word_unat_eq_iff unat_mod word_less_nat_alt)
  ultimately show "n < 12"
    by (metis bit_take_bit_iff)
next
  assume "g < 0x1000000" "bit g n"
  moreover from this have "take_bit 24 g = g"
    by (simp add: take_bit_eq_mod word_unat_eq_iff unat_mod word_less_nat_alt)
  ultimately show "n < 24"
    by (metis bit_take_bit_iff)
qed

lemma nibbles:
  assumes "s < 16" and "d < 16"
  shows "drop_bit 4 (push_bit 4 s OR take_bit 4 d) = (s :: byte)" "take_bit 4 (push_bit 4 s OR take_bit 4 d) = (d :: byte)"
  by (intro bit_eqI; auto simp: bit_simps dest: small_bits(1) [OF assms(1)] small_bits(1) [OF assms(2)])+

lemma type_flags:
  assumes "t < 16" and "f < 0x1000"
  shows "drop_bit 4 (ucast (take_bit 4 (t :: byte)) OR push_bit 4 f) = (f :: u16)"
    "ucast (take_bit 4 (ucast (take_bit 4 t) OR push_bit 4 f :: u16)) = t"
  by (intro bit_eqI; auto simp: bit_simps dest: small_bits(1) [OF assms(1)] small_bits(2) [OF assms(2)])+

lemma support_word:
  assumes "g < 0x1000000"
  shows "drop_bit 8 (ucast (m :: byte) OR push_bit 8 g) = (g :: u32)" "ucast (take_bit 8 (ucast m OR push_bit 8 g :: u32)) = m"
  by (intro bit_eqI; auto simp: bit_simps dest: small_bits(3) [OF assms] bit_imp_le_length)+

text \<open>The packets the wire format can carry: fields in their width, and no field of another packet type.\<close>

definition packet_ok :: "Packet \<Rightarrow> bool" where
  "packet_ok p \<longleftrightarrow> p_Type p < 16 \<and> p_Flags p < 0x1000 \<and> p_SourceType p < 16 \<and> p_DestType p < 16 \<and>
     p_SupportedFunc p < 0x1000000 \<and> length (p_Payload p) < 2 ^ 16 \<and>
     length (p_ConnectionSig p) \<le> 247 \<and> length (p_Signature p) \<le> 247 \<and>
     (p_Type p \<noteq> PacketSYN \<and> p_Type p \<noteq> PacketCONNECT \<longrightarrow> p_MinorVersion p = 0 \<and> p_SupportedFunc p = 0) \<and>
     (\<not> (p_Type p = PacketSYN \<and> HasFlag p FlagACK) \<longrightarrow> p_ConnectionSig p = []) \<and>
     (\<not> (p_Type p = PacketCONNECT \<and> \<not> HasFlag p FlagACK) \<longrightarrow> p_Signature p = [])"

lemma decode_put_option:
  assumes "length val < 256"
  shows "decodeLiteOptions p (put_option i val @ rest) = decodeLiteOptions (apply_option i val p) rest"
proof -
  have "unat (of_nat (length val) :: byte) = length val"
    using assms by (intro unat_of_nat_word) simp
  then show ?thesis
    by (simp add: put_option_def)
qed

lemma le_nat_out:
  "of_nat (le_nat (out_U16 v2)) = v2" "of_nat (le_nat (out_U32 v4)) = v4" "le_nat (out_U16 v2) = unat v2"
  using unat_lt_bytes(1) [of v2] unat_lt_bytes(2) [of v4]
  by (simp_all add: out_U16_def out_U32_def le_nat_le_bytes)

lemma apply_support:
  "g < 0x1000000 \<Longrightarrow> apply_option optSupport (out_U32 (ucast m OR push_bit 8 g)) p = p\<lparr>p_MinorVersion := m, p_SupportedFunc := g\<rparr>"
proof -
  assume g: "g < 0x1000000"
  define v where "v = ucast m OR push_bit 8 g"
  have "drop_bit 8 v = g" "ucast (take_bit 8 v) = m"
    unfolding v_def by (rule support_word [OF g])+
  then show ?thesis
    unfolding v_def [symmetric] by (simp add: apply_option_def Let_def le_nat_out)
qed

lemma decode_options:
  assumes "packet_ok p" and "q = p\<lparr>p_MinorVersion := 0, p_SupportedFunc := 0, p_ConnectionSig := [], p_Signature := []\<rparr>"
  shows "decodeLiteOptions q (encodeLiteOptions p) = Some p"
proof -
  have sigs: "length (p_ConnectionSig p) < 256" "length (p_Signature p) < 256" and g: "p_SupportedFunc p < 0x1000000"
    using assms(1) by (simp_all add: packet_ok_def)
  have diff: "PacketSYN \<noteq> PacketCONNECT"
    by (simp add: packet_consts)
  have fields: "apply_option optConnectionSig x r = r\<lparr>p_ConnectionSig := x\<rparr>" "apply_option optConnectionSigLite x r = r\<lparr>p_Signature := x\<rparr>" for x r
    by (simp_all add: apply_option_def opt_consts)
  note dec = decode_put_option [of _ _ _ "[]", simplified] decode_put_option apply_support [OF g] fields sigs
  consider (syn) "p_Type p = PacketSYN" | (con) "p_Type p = PacketCONNECT" | (other) "p_Type p \<noteq> PacketSYN" "p_Type p \<noteq> PacketCONNECT"
    by blast
  then show ?thesis
  proof cases
    case syn
    then show ?thesis
      using assms(1) diff by (cases "HasFlag p FlagACK") (simp_all add: assms(2) encodeLiteOptions_def dec packet_ok_def)
  next
    case con
    then show ?thesis
      using assms(1) diff by (cases "HasFlag p FlagACK") (simp_all add: assms(2) encodeLiteOptions_def dec packet_ok_def)
  next
    case other
    then show ?thesis
      using assms(1) by (simp add: assms(2) encodeLiteOptions_def packet_ok_def)
  qed
qed

lemma u16_bytes: "out_U16 v = [of_nat (unat v), of_nat (unat v div 256)]"
  by (simp add: out_U16_def numeral_2_eq_2)

lemma options_length: "packet_ok p \<Longrightarrow> length (encodeLiteOptions p) < 256"
  by (auto simp: packet_ok_def encodeLiteOptions_def put_option_def packet_consts)

lemma decode_header:
  fixes p :: Packet
  assumes "packet_ok p" and "buf = encode_header p n @ rest"
  shows "12 \<le> length buf" "buf ! 0 = liteMagic" "buf ! 1 = of_nat n" "le_nat (take 2 (drop 2 buf)) = length (p_Payload p)"
    "header_packet buf = p\<lparr>p_MinorVersion := 0, p_SupportedFunc := 0, p_ConnectionSig := [], p_Signature := [], p_Payload := []\<rparr>"
    "drop 12 buf = rest"
proof -
  let ?tf = "ucast (p_Type p AND 0xF) OR push_bit 4 (p_Flags p) :: u16" and ?st = "push_bit 4 (p_SourceType p) OR (p_DestType p AND 0xF)"
  have buf: "buf = [liteMagic, of_nat n] @ out_U16 (of_nat (length (p_Payload p))) @ [?st, p_SourcePort p, p_DestPort p, p_FragmentID p] @
      out_U16 ?tf @ out_U16 (p_PacketID p) @ rest"
    by (simp add: assms(2) encode_header_def)
  show "12 \<le> length buf" "buf ! 0 = liteMagic" "buf ! 1 = of_nat n" "drop 12 buf = rest"
    unfolding buf u16_bytes by simp_all
  have len: "length (p_Payload p) < 2 ^ LENGTH(16)"
    using assms(1) by (simp add: packet_ok_def)
  have "take 2 (drop 2 buf) = out_U16 (of_nat (length (p_Payload p)))"
    unfolding buf u16_bytes by simp
  then show "le_nat (take 2 (drop 2 buf)) = length (p_Payload p)"
    by (simp only: le_nat_out unat_of_nat_word [OF len])
  have at: "buf ! 4 = ?st" "buf ! 5 = p_SourcePort p" "buf ! 6 = p_DestPort p" "buf ! 7 = p_FragmentID p"
    "take 2 (drop 8 buf) = out_U16 ?tf" "take 2 (drop 10 buf) = out_U16 (p_PacketID p)"
    unfolding buf u16_bytes by simp_all
  have ok: "p_Type p < 16" "p_Flags p < 0x1000" "p_SourceType p < 16" "p_DestType p < 16"
    using assms(1) by (simp_all add: packet_ok_def)
  show "header_packet buf = p\<lparr>p_MinorVersion := 0, p_SupportedFunc := 0, p_ConnectionSig := [], p_Signature := [], p_Payload := []\<rparr>"
    unfolding header_packet_def at Let_def le_nat_out(1) and_masks nibbles [OF ok(3,4)] type_flags [OF ok(1,2)]
    by (simp add: zero_packet_def)
qed

lemma decode_options_payload:
  "decodeLiteOptions (q\<lparr>p_Payload := x\<rparr>) dat = map_option (\<lambda>p. p\<lparr>p_Payload := x\<rparr>) (decodeLiteOptions q dat)"
proof (induction q dat rule: decodeLiteOptions.induct)
  case (3 q i sz rest)
  have "apply_option i v (q\<lparr>p_Payload := x\<rparr>) = (apply_option i v q)\<lparr>p_Payload := x\<rparr>" for v
    by (simp add: apply_option_def Let_def)
  then show ?case
    using 3 by simp
qed simp_all

lemma decode_one_encoded:
  assumes "packet_ok p"
  shows "decode_one (EncodePacket p @ rest) = Got p rest"
proof -
  let ?opts = "encodeLiteOptions p" and ?buf = "EncodePacket p @ rest"
  have buf: "?buf = encode_header p (length ?opts) @ ?opts @ p_Payload p @ rest"
    by (simp add: EncodePacket_def Let_def)
  note h = decode_header [OF assms buf]
  have n: "unat (?buf ! 1) = length ?opts"
    unfolding h(3) using options_length [OF assms] by (intro unat_of_nat_word) simp
  have "decodeLiteOptions (p\<lparr>p_MinorVersion := 0, p_SupportedFunc := 0, p_ConnectionSig := [], p_Signature := []\<rparr>) ?opts = Some p"
    by (rule decode_options [OF assms refl])
  then have opts: "decodeLiteOptions (header_packet ?buf) ?opts = Some (p\<lparr>p_Payload := []\<rparr>)"
    using decode_options_payload [of "[]" "p\<lparr>p_MinorVersion := 0, p_SupportedFunc := 0, p_ConnectionSig := [], p_Signature := []\<rparr>" ?opts]
    by (simp add: h(5))
  have "length ?buf = 12 + length ?opts + length (p_Payload p) + length rest"
    using h(1) arg_cong [OF h(6), of length] by simp
  moreover have dd: "drop (12 + k) ?buf = drop k (?opts @ p_Payload p @ rest)" for k
    unfolding h(6) [symmetric] by (simp only: drop_drop add.commute [of 12 k])
  have "drop (12 + length ?opts) ?buf = p_Payload p @ rest" "drop (12 + length ?opts + length (p_Payload p)) ?buf = rest"
    using dd [of "length ?opts"] dd [of "length ?opts + length (p_Payload p)"] by (simp_all add: add.assoc)
  ultimately show ?thesis
    using h(1,2,4,6) opts n unfolding decode_one_def liteHeaderSize_def Let_def n by simp
qed

text \<open>Packets survive the wire: decoding the encoding of a sequence of packets gives the same packets, and the bytes after them
  are left for the next packet.\<close>

lemma DecodePackets_encoded:
  assumes "list_all packet_ok ps"
  shows "DecodePackets (concat (map EncodePacket ps) @ rest) = (case DecodePackets rest of (qs, left, err) \<Rightarrow> (ps @ qs, left, err))"
  using assms
proof (induction ps)
  case (Cons p ps)
  then show ?case
    by (subst DecodePackets.simps) (simp add: decode_one_encoded split: prod.split)
qed (simp split: prod.split)

definition data_packet :: "byte list \<Rightarrow> Packet" where
  "data_packet payload = zero_packet\<lparr>p_Type := PacketDATA, p_Flags := FlagReliable OR FlagNeedACK, p_PacketID := 7, p_Payload := payload\<rparr>"

lemma data_packet_ok: "length payload < 2 ^ 16 \<Longrightarrow> packet_ok (data_packet payload)"
  by (simp add: packet_ok_def data_packet_def zero_packet_def packet_consts flag_consts)

section \<open>Pieces of a byte stream\<close>

lemma decode_one_append:
  shows "decode_one a = Got p r \<Longrightarrow> decode_one (a @ b) = Got p (r @ b)"
    and "decode_one a = Malformed \<Longrightarrow> decode_one (a @ b) = Malformed"
proof -
  have same: "(a @ b) ! 0 = a ! 0" "(a @ b) ! 1 = a ! 1" "take 2 (drop 2 (a @ b)) = take 2 (drop 2 a)" "header_packet (a @ b) = header_packet a"
    if "12 \<le> length a"
    using that by (auto simp: header_packet_def nth_append)
  show "decode_one a = Got p r \<Longrightarrow> decode_one (a @ b) = Got p (r @ b)"
    using same by (auto simp: decode_one_def liteHeaderSize_def Let_def split: if_splits option.splits)
  show "decode_one a = Malformed \<Longrightarrow> decode_one (a @ b) = Malformed"
    using same by (auto simp: decode_one_def liteHeaderSize_def Let_def split: if_splits option.splits)
qed

lemma DecodePackets_append:
  "DecodePackets a = (ps, left, False) \<Longrightarrow>
   DecodePackets (a @ b) = (case DecodePackets (left @ b) of (qs, l, e) \<Rightarrow> (ps @ qs, l, e))"
proof (induction a arbitrary: ps rule: DecodePackets.induct)
  case (1 a)
  show ?case
  proof (cases "decode_one a")
    case NeedMore
    then show ?thesis
      using "1.prems" by (subst (asm) DecodePackets.simps) (auto split: prod.split)
  next
    case Malformed
    then show ?thesis
      using "1.prems" by (subst (asm) DecodePackets.simps) simp
  next
    case (Got p r)
    obtain ps' where dec: "DecodePackets r = (ps', left, False)" "ps = p # ps'"
      using "1.prems" Got by (subst (asm) DecodePackets.simps) (auto split: prod.splits)
    show ?thesis
      using "1.IH" [OF Got dec(1)] dec(2) decode_one_append(1) [OF Got, of b]
      by (subst DecodePackets.simps) (auto split: prod.split)
  qed
qed

lemma DecodePackets_prefix_ok: "\<not> snd (snd (DecodePackets (a @ b))) \<Longrightarrow> \<not> snd (snd (DecodePackets a))"
proof (induction a rule: DecodePackets.induct)
  case (1 a)
  show ?case
  proof (cases "decode_one a")
    case NeedMore
    then show ?thesis by (subst DecodePackets.simps) simp
  next
    case Malformed
    then show ?thesis
      using "1.prems" decode_one_append(2) [OF Malformed, of b] by (subst (asm) DecodePackets.simps) simp
  next
    case (Got p r)
    then show ?thesis
      using "1.IH" [OF Got] "1.prems" decode_one_append(1) [OF Got, of b]
      by (subst DecodePackets.simps, subst (asm) DecodePackets.simps) (auto split: prod.splits)
  qed
qed

lemma feed_all_stream:
  "DecodePackets (buf @ concat chunks) = (ps, left, False) \<Longrightarrow> DecodePackets buf = ([], buf, False) \<Longrightarrow>
   feed_all buf chunks = (left, ps)"
proof (induction chunks arbitrary: buf ps)
  case (Cons d ds)
  obtain qs mid where dec: "DecodePackets (buf @ d) = (qs, mid, False)"
    using DecodePackets_prefix_ok [of "buf @ d" "concat ds"] Cons.prems(1)
    by (cases "DecodePackets (buf @ d)") auto
  have idem: "DecodePackets mid = ([], mid, False)"
    using DecodePackets_append [OF dec, of "[]"] dec by (auto split: prod.splits)
  obtain rs where rest: "DecodePackets (mid @ concat ds) = (rs, left, False)" "ps = qs @ rs"
    using DecodePackets_append [OF dec, of "concat ds"] Cons.prems(1) by (auto split: prod.splits)
  then show ?case
    using Cons.IH [OF rest(1) idem] dec by (simp add: feed_def)
qed simp

text \<open>
  C25: how the transport cuts the byte stream does not matter. When packets are encoded and the bytes
  arrive in any pieces whatever, even inside a header, the receiver handles exactly these packets,
  in order, and keeps no bytes back.
\<close>

theorem framing_independent_of_chunks:
  assumes "list_all packet_ok ps" and "concat chunks = concat (map EncodePacket ps)"
  shows "feed_all [] chunks = ([], ps)"
proof -
  have nil: "DecodePackets [] = ([], [], False)"
    by (subst DecodePackets.simps) (simp add: decode_one_def liteHeaderSize_def)
  have "DecodePackets (concat (map EncodePacket qs)) = (qs, [], False)" if "list_all packet_ok qs" for qs
    using that
  proof (induction qs)
    case (Cons q qs)
    then show ?case
      by (subst DecodePackets.simps) (simp add: decode_one_encoded)
  qed (simp add: nil)
  from this [OF assms(1)] have "DecodePackets ([] @ concat chunks) = (ps, [], False)"
    by (simp add: assms(2))
  then show ?thesis
    by (rule feed_all_stream) (rule nil)
qed

theorem framing_independent_of_chunks_witness:
  "feed_all [] [take 5 (EncodePacket (data_packet [1, 2])), drop 5 (EncodePacket (data_packet [1, 2]) @ EncodePacket (data_packet [3]))] =
   ([], [data_packet [1, 2], data_packet [3]])"
proof -
  have "5 \<le> length (EncodePacket (data_packet [1, 2]))"
    by (simp add: EncodePacket_def encode_header_def Let_def)
  then show ?thesis
    by (intro framing_independent_of_chunks) (simp_all add: data_packet_ok)
qed

end
