(* ===== verification/Nex_Net.thy ===== *)
theory Nex_Net
  imports Nex_Config
begin

unbundle bit_operations_syntax

text \<open>
  The functions of Go's \<open>net\<close>, \<open>strings\<close>, \<open>encoding/hex\<close>, \<open>encoding/base64\<close> and \<open>hash/fnv\<close> that
  the server calls on addresses and tokens.

  An IP address is the 16 bytes of Go's \<open>net.IP\<close>; an IPv4 address is embedded behind ten zero
  bytes and two bytes 0xff.
\<close>

section \<open>Host and port\<close>

fun last_index :: "char \<Rightarrow> string \<Rightarrow> nat option" where
  "last_index c [] = None"
| "last_index c (x # xs) =
     (case last_index c xs of Some i \<Rightarrow> Some (Suc i) | None \<Rightarrow> if x = c then Some 0 else None)"

definition has_char :: "char \<Rightarrow> string \<Rightarrow> bool" where
  "has_char c s \<longleftrightarrow> c \<in> set s"

text \<open>\<open>net.SplitHostPort\<close>; none is an error.\<close>

definition SplitHostPort :: "string \<Rightarrow> (string \<times> string) option" where
  "SplitHostPort hostport =
     (case last_index CHR '':'' hostport of
        None \<Rightarrow> None
      | Some i \<Rightarrow>
          if hd hostport = CHR ''['' then
            (case str_index '']'' hostport of
               None \<Rightarrow> None
             | Some e \<Rightarrow>
                 if e + 1 \<noteq> i then None
                 else if has_char CHR ''['' (drop 1 hostport) \<or> has_char CHR '']'' (drop (e + 1) hostport) then None
                 else Some (take (e - 1) (drop 1 hostport), drop (i + 1) hostport))
          else
            (let host = take i hostport
             in if has_char CHR '':'' host \<or> has_char CHR ''['' hostport \<or> has_char CHR '']'' hostport then None
                else Some (host, drop (i + 1) hostport)))"

definition splitHostPortSafe :: "string \<Rightarrow> string \<times> string" where
  "splitHostPortSafe addr = (case SplitHostPort addr of None \<Rightarrow> (addr, '''') | Some hp \<Rightarrow> hp)"

section \<open>IP addresses\<close>

type_synonym ip_addr = "byte list"

definition v4_octet :: "string \<Rightarrow> byte option" where
  "v4_octet f =
     (if f = [] \<or> \<not> list_all is_digit f \<or> (hd f = CHR ''0'' \<and> length f > 1) \<or> digits_val 0 f > 255 then None
      else Some (of_nat (digits_val 0 f)))"

definition parse_v4_fields :: "string \<Rightarrow> byte list option" where
  "parse_v4_fields s =
     (case map v4_octet (str_split CHR ''.'' s) of
        [Some a, Some b, Some c, Some d] \<Rightarrow> Some [a, b, c, d]
      | _ \<Rightarrow> None)"

definition v4_prefix :: "byte list" where
  "v4_prefix = replicate 10 0 @ [0xff, 0xff]"

definition hex_val :: "char \<Rightarrow> nat option" where
  "hex_val c =
     (let n = (of_char c :: nat)
      in if 48 \<le> n \<and> n \<le> 57 then Some (n - 48)
         else if 97 \<le> n \<and> n \<le> 102 then Some (n - 87)
         else if 65 \<le> n \<and> n \<le> 70 then Some (n - 55)
         else None)"

fun hex_run :: "nat \<Rightarrow> nat \<Rightarrow> string \<Rightarrow> nat \<times> nat \<times> string" where
  "hex_run acc n [] = (acc, n, [])"
| "hex_run acc n (c # cs) =
     (case hex_val c of None \<Rightarrow> (acc, n, c # cs) | Some v \<Rightarrow> hex_run (16 * acc + v) (Suc n) cs)"

text \<open>
  The loop over the groups of an IPv6 address: at most eight turns. The result is the bytes, the
  position of the ellipsis and the rest of the string.
\<close>

fun v6_groups :: "nat \<Rightarrow> byte list \<Rightarrow> nat option \<Rightarrow> string \<Rightarrow> (byte list \<times> nat option \<times> string) option" where
  "v6_groups 0 ip ell s = Some (ip, ell, s)"
| "v6_groups (Suc k) ip ell s =
     (let (acc, n, rest) = hex_run 0 0 s
      in if n = 0 \<or> n > 4 then None
         else if rest \<noteq> [] \<and> hd rest = CHR ''.'' then
           (if (ell = None \<and> length ip \<noteq> 12) \<or> length ip + 4 > 16 then None
            else map_option (\<lambda>v4. (ip @ v4, ell, [])) (parse_v4_fields s))
         else
           let ip' = ip @ [of_nat (acc div 256), of_nat acc]
           in case rest of
                [] \<Rightarrow> Some (ip', ell, [])
              | c # s1 \<Rightarrow>
                  if c \<noteq> CHR '':'' \<or> s1 = [] then None
                  else if hd s1 = CHR '':'' then
                    (if ell \<noteq> None then None
                     else if tl s1 = [] then Some (ip', Some (length ip'), [])
                     else v6_groups k ip' (Some (length ip')) (tl s1))
                  else v6_groups k ip' ell s1)"

definition expand_v6 :: "byte list \<times> nat option \<times> string \<Rightarrow> ip_addr option" where
  "expand_v6 r =
     (case r of (ip, ell, s) \<Rightarrow>
        if s \<noteq> [] then None
        else case ell of
               None \<Rightarrow> if length ip < 16 then None else Some ip
             | Some e \<Rightarrow> if length ip < 16 then Some (take e ip @ replicate (16 - length ip) 0 @ drop e ip) else None)"

definition parse_v6 :: "string \<Rightarrow> ip_addr option" where
  "parse_v6 s =
     (if take 2 s = ''::'' then
        (if drop 2 s = [] then Some (replicate 16 0)
         else Option.bind (v6_groups 8 [] (Some 0) (drop 2 s)) expand_v6)
      else Option.bind (v6_groups 8 [] None s) expand_v6)"

text \<open>An address with a zone is refused; otherwise the first dot or colon decides the family.\<close>

definition ParseIP :: "string \<Rightarrow> ip_addr option" where
  "ParseIP s =
     (if has_char CHR ''%'' s then None
      else case find (\<lambda>c. c = CHR ''.'' \<or> c = CHR '':'') s of
             None \<Rightarrow> None
           | Some c \<Rightarrow> if c = CHR ''.'' then map_option (\<lambda>v4. v4_prefix @ v4) (parse_v4_fields s) else parse_v6 s)"

definition To4 :: "ip_addr \<Rightarrow> byte list option" where
  "To4 ip = (if length ip = 16 \<and> take 12 ip = v4_prefix then Some (drop 12 ip) else None)"

definition IsPrivate :: "ip_addr \<Rightarrow> bool" where
  "IsPrivate ip =
     (case To4 ip of
        Some v \<Rightarrow> v ! 0 = 10 \<or> (v ! 0 = 172 \<and> v ! 1 AND 0xf0 = 16) \<or> (v ! 0 = 192 \<and> v ! 1 = 168)
      | None \<Rightarrow> length ip = 16 \<and> ip ! 0 AND 0xfe = 0xfc)"

definition IsLoopback :: "ip_addr \<Rightarrow> bool" where
  "IsLoopback ip = (case To4 ip of Some v \<Rightarrow> v ! 0 = 127 | None \<Rightarrow> ip = replicate 15 0 @ [1])"

definition IsLinkLocalUnicast :: "ip_addr \<Rightarrow> bool" where
  "IsLinkLocalUnicast ip =
     (case To4 ip of
        Some v \<Rightarrow> v ! 0 = 169 \<and> v ! 1 = 254
      | None \<Rightarrow> length ip = 16 \<and> ip ! 0 = 0xfe \<and> ip ! 1 AND 0xc0 = 0x80)"

text \<open>\<open>IPNet.Contains\<close> for an IPv4 network with prefix length \<open>bits\<close>; a genuine IPv6 address is never inside.\<close>

definition be_int :: "byte list \<Rightarrow> int" where
  "be_int bs = foldl (\<lambda>acc b. 256 * acc + uint b) 0 bs"

definition net_contains :: "byte list \<Rightarrow> nat \<Rightarrow> ip_addr \<Rightarrow> bool" where
  "net_contains net bits ip =
     (case To4 ip of None \<Rightarrow> False | Some v \<Rightarrow> be_int v div 2 ^ (32 - bits) = be_int net div 2 ^ (32 - bits))"

section \<open>Fields\<close>

function go_fields :: "string \<Rightarrow> string \<Rightarrow> string list" where
  "go_fields cur [] = (if cur = [] then [] else [cur])"
| "go_fields cur (c # cs) =
     (case find (\<lambda>x. starts_with x (c # cs)) go_spaces of
        None \<Rightarrow> go_fields (cur @ [c]) cs
      | Some x \<Rightarrow> (if cur = [] then [] else [cur]) @ go_fields [] (drop (length x - 1) cs))"
  by pat_completeness auto
termination by (relation "measure (\<lambda>(_, s). length s)") auto

definition Fields :: "string \<Rightarrow> string list" where
  "Fields s = go_fields [] s"

section \<open>Encodings of bytes as text\<close>

definition hex_char :: "nat \<Rightarrow> char" where
  "hex_char d = ''0123456789abcdef'' ! d"

definition hex_EncodeToString :: "byte list \<Rightarrow> string" where
  "hex_EncodeToString bs = concat (map (\<lambda>b. [hex_char (unat b div 16), hex_char (unat b mod 16)]) bs)"

fun hex_DecodeString :: "string \<Rightarrow> byte list option" where
  "hex_DecodeString [] = Some []"
| "hex_DecodeString [c] = None"
| "hex_DecodeString (a # b # cs) =
     (case (hex_val a, hex_val b) of
        (Some x, Some y) \<Rightarrow> map_option (\<lambda>bs. of_nat (16 * x + y) # bs) (hex_DecodeString cs)
      | _ \<Rightarrow> None)"

definition b64_alphabet :: string where
  "b64_alphabet = ''ABCDEFGHIJKLMNOPQRSTUVWXYZabcdefghijklmnopqrstuvwxyz0123456789-_''"

definition b64_sym :: "int \<Rightarrow> char" where
  "b64_sym v = b64_alphabet ! nat v"

fun b64_encode :: "byte list \<Rightarrow> string" where
  "b64_encode [] = []"
| "b64_encode [a] = (let v = uint a * 16 in [b64_sym (v div 64), b64_sym (v mod 64)])"
| "b64_encode [a, b] =
     (let v = (uint a * 256 + uint b) * 4
      in [b64_sym (v div 4096), b64_sym (v div 64 mod 64), b64_sym (v mod 64)])"
| "b64_encode (a # b # c # bs) =
     (let v = (uint a * 256 + uint b) * 256 + uint c
      in [b64_sym (v div 262144), b64_sym (v div 4096 mod 64), b64_sym (v div 64 mod 64),
          b64_sym (v mod 64)] @ b64_encode bs)"

definition b64_val :: "char \<Rightarrow> int option" where
  "b64_val c = (let i = length (takeWhile (\<lambda>x. x \<noteq> c) b64_alphabet) in if i < 64 then Some (int i) else None)"

text \<open>The bits of an incomplete last byte are ignored; a group of one character is an error.\<close>

fun b64_bytes :: "int list \<Rightarrow> byte list option" where
  "b64_bytes [] = Some []"
| "b64_bytes [a] = None"
| "b64_bytes [a, b] = Some [of_int ((a * 64 + b) div 16)]"
| "b64_bytes [a, b, c] = (let v = ((a * 64 + b) * 64 + c) div 4 in Some [of_int (v div 256), of_int v])"
| "b64_bytes (a # b # c # d # vs) =
     (let v = ((a * 64 + b) * 64 + c) * 64 + d
      in map_option (\<lambda>bs. [of_int (v div 65536), of_int (v div 256), of_int v] @ bs) (b64_bytes vs))"

text \<open>\<open>base64.RawURLEncoding.DecodeString\<close>, which skips line breaks.\<close>

definition b64_decode :: "string \<Rightarrow> byte list option" where
  "b64_decode s =
     (let vs = map b64_val (filter (\<lambda>c. c \<noteq> CHR 0x0A \<and> c \<noteq> CHR 0x0D) s)
      in if None \<in> set vs then None else b64_bytes (map the vs))"

section \<open>FNV-1a\<close>

definition fnv32a :: "byte list \<Rightarrow> u32" where
  "fnv32a bs = foldl (\<lambda>h b. (h XOR ucast b) * 16777619) 2166136261 bs"

section \<open>Round trips of the text encodings\<close>

lemma hex_val_hex_char: "d < 16 \<Longrightarrow> hex_val (hex_char d) = Some d"
proof -
  have "list_all (\<lambda>d. hex_val (hex_char d) = Some d) [0..<16]"
    by code_simp
  then show "d < 16 \<Longrightarrow> ?thesis"
    by (simp add: list_all_iff)
qed

lemma byte_div_mod: "of_nat (16 * (unat b div 16) + unat b mod 16) = (b :: byte)"
  by (simp only: mult_div_mod_eq) simp

lemma unat_byte_less: "unat (b :: byte) < 256"
  using unsigned_less [of b, where ?'a = nat] by simp

lemma hex_roundtrip: "hex_DecodeString (hex_EncodeToString bs) = Some bs"
proof (induction bs)
  case (Cons b bs)
  have "unat b div 16 < 16"
    using unat_byte_less [of b] by (simp add: less_mult_imp_div_less)
  then show ?case
    using Cons by (simp add: hex_EncodeToString_def hex_val_hex_char byte_div_mod del: of_nat_add of_nat_mult)
qed (simp add: hex_EncodeToString_def)

lemma length_hex [simp]: "length (hex_EncodeToString bs) = 2 * length bs"
  by (induction bs) (simp_all add: hex_EncodeToString_def)

lemma b64_sym_table:
  "list_all (\<lambda>v. b64_val (b64_sym (int v)) = Some (int v) \<and> b64_sym (int v) \<noteq> CHR 0x0A \<and> b64_sym (int v) \<noteq> CHR 0x0D) [0..<64]"
  by code_simp

lemma b64_val_sym:
  assumes "0 \<le> v" and "v < 64"
  shows "b64_val (b64_sym v) = Some v" "b64_sym v \<noteq> CHR 0x0A" "b64_sym v \<noteq> CHR 0x0D"
proof -
  have "nat v \<in> set [0..<64]" "int (nat v) = v"
    using assms by auto
  then show "b64_val (b64_sym v) = Some v" "b64_sym v \<noteq> CHR 0x0A" "b64_sym v \<noteq> CHR 0x0D"
    using b64_sym_table unfolding list_all_iff by metis+
qed

lemma b64_decode_syms:
  assumes "list_all (\<lambda>v. 0 \<le> v \<and> v < 64) vs"
  shows "b64_decode (map b64_sym vs) = b64_bytes vs"
proof -
  have f: "filter (\<lambda>c. c \<noteq> CHR 0x0A \<and> c \<noteq> CHR 0x0D) (map b64_sym vs) = map b64_sym vs"
    using assms by (induction vs) (simp_all add: b64_val_sym)
  have v: "map b64_val (map b64_sym vs) = map Some vs"
    using assms by (induction vs) (simp_all add: b64_val_sym)
  show ?thesis
    unfolding b64_decode_def f v Let_def by (auto simp: comp_def)
qed

text \<open>The 6-bit groups of a byte string.\<close>

fun b64_groups :: "byte list \<Rightarrow> int list" where
  "b64_groups [] = []"
| "b64_groups [a] = (let v = uint a * 16 in [v div 64, v mod 64])"
| "b64_groups [a, b] = (let v = (uint a * 256 + uint b) * 4 in [v div 4096, v div 64 mod 64, v mod 64])"
| "b64_groups (a # b # c # bs) =
     (let v = (uint a * 256 + uint b) * 256 + uint c
      in [v div 262144, v div 4096 mod 64, v div 64 mod 64, v mod 64] @ b64_groups bs)"

lemma b64_encode_groups: "b64_encode bs = map b64_sym (b64_groups bs)"
  by (induction bs rule: b64_encode.induct) (simp_all add: Let_def)

lemma uint_byte: "0 \<le> uint (b :: byte)" "uint b < 256"
  using uint_lt2p [of b] by simp_all

lemma sextet_split:
  fixes v :: int
  shows "v div 64 * 64 + v mod 64 = v" "(v div 4096 * 64 + v div 64 mod 64) * 64 + v mod 64 = v"
    "((v div 262144 * 64 + v div 4096 mod 64) * 64 + v div 64 mod 64) * 64 + v mod 64 = v"
  using zdiv_zmult2_eq [of 64 v 64] zdiv_zmult2_eq [of 64 v 4096] zdiv_zmult2_eq [of 64 "v div 64" 64] by simp_all

lemma octet_split:
  fixes u z :: int
  assumes "0 \<le> z" "z < 256"
  shows "(u * 256 + z) div 256 = u" "(u * 256 + z) mod 256 = z"
  using assms int_div_pos_eq [of "u * 256 + z" 256 u z] int_mod_pos_eq [of "u * 256 + z" 256 u z] by simp_all

lemma octet_split3:
  fixes u y z :: int
  assumes "0 \<le> y" "y < 256" "0 \<le> z" "z < 256"
  shows "((u * 256 + y) * 256 + z) div 65536 = u"
  using zdiv_zmult2_eq [of 256 "(u * 256 + y) * 256 + z" 256] octet_split(1) [OF assms(1,2), of u] octet_split(1) [OF assms(3,4), of "u * 256 + y"]
  by simp

lemma sextet_range:
  fixes v :: int
  assumes "0 \<le> v" "v < 64 * k" "0 < k"
  shows "0 \<le> v div k" "v div k < 64"
proof -
  show "0 \<le> v div k"
    using assms by (simp add: pos_imp_zdiv_nonneg_iff)
  have "v div k \<le> (64 * k - 1) div k"
    using assms by (intro zdiv_mono1) simp_all
  also have "(64 * k - 1) div k = 63"
    using assms(3) by (intro int_div_pos_eq [of "64 * k - 1" k 63 "k - 1"]) simp_all
  finally show "v div k < 64" by simp
qed

lemma b64_groups_small: "list_all (\<lambda>v. 0 \<le> v \<and> v < 64) (b64_groups bs)"
proof (induction bs rule: b64_groups.induct)
  case (2 a)
  then show ?case
    using sextet_range [of "uint a * 16" 64] uint_byte [of a] unfolding b64_groups.simps Let_def by simp
next
  case (3 a b)
  then show ?case
    using sextet_range [of "(uint a * 256 + uint b) * 4" 4096] uint_byte [of a] uint_byte [of b]
    unfolding b64_groups.simps Let_def by simp
next
  case (4 a b c bs)
  then show ?case
    using sextet_range [of "(uint a * 256 + uint b) * 256 + uint c" 262144] uint_byte [of a] uint_byte [of b] uint_byte [of c]
    unfolding b64_groups.simps Let_def by simp
qed simp

lemma of_int_byte:
  assumes "v mod 256 = uint b"
  shows "of_int v = (b :: byte)"
  using assms by (simp add: word_uint_eq_iff uint_word_of_int)

lemma b64_bytes_groups: "b64_bytes (b64_groups bs) = Some bs"
proof (induction bs rule: b64_groups.induct)
  case (2 a)
  have "of_int ((uint a * 16) div 16) = a"
    by simp
  then show ?case
    unfolding b64_groups.simps b64_bytes.simps Let_def sextet_split by simp
next
  case (3 a b)
  have v: "(uint a * 256 + uint b) * 4 div 4 = uint a * 256 + uint b"
    by simp
  note ar = octet_split [OF uint_byte [of b], of "uint a"]
  show ?case
    unfolding b64_groups.simps b64_bytes.simps Let_def sextet_split v ar(1)
    using of_int_byte [OF ar(2)] by simp
next
  case (4 a b c bs)
  let ?u = "uint a * 256 + uint b"
  note ar = octet_split3 [OF uint_byte [of b] uint_byte [of c], of "uint a"] octet_split [OF uint_byte [of c], of ?u]
  have b: "of_int ?u = b" and c: "of_int (?u * 256 + uint c) = c"
    using of_int_byte [OF octet_split(2) [OF uint_byte]] by blast+
  show ?case
    unfolding b64_groups.simps append.simps b64_bytes.simps Let_def sextet_split ar(1,2) b c using "4.IH" by simp
qed simp

lemma b64_roundtrip: "b64_decode (b64_encode bs) = Some bs"
  by (simp add: b64_encode_groups b64_decode_syms b64_groups_small b64_bytes_groups)

section \<open>IPv4 addresses in dotted form\<close>

definition dotted :: "nat \<Rightarrow> nat \<Rightarrow> nat \<Rightarrow> nat \<Rightarrow> string" where
  "dotted a b c d = nat_str a @ ''.'' @ nat_str b @ ''.'' @ nat_str c @ ''.'' @ nat_str d"

lemma hd_nat_str_nonzero: "0 < n \<Longrightarrow> hd (nat_str n) \<noteq> CHR ''0''"
proof (induction n rule: nat_str.induct)
  case (1 n)
  show ?case
  proof (cases "n < 10")
    case True
    then have "n \<in> set [1..<10]"
      using 1 by simp
    moreover have "list_all (\<lambda>d. digit_char d \<noteq> CHR ''0'') [1..<10]"
      by code_simp
    ultimately show ?thesis
      using True by (subst nat_str.simps) (simp add: list_all_iff)
  next
    case False
    then show ?thesis
      using 1 nat_str_digits [of "n div 10"] by (subst nat_str.simps) simp
  qed
qed

lemma v4_octet_nat_str: "n < 256 \<Longrightarrow> v4_octet (nat_str n) = Some (of_nat n)"
  using nat_str_digits [of n] hd_nat_str_nonzero [of n]
  by (cases "n = 0") (auto simp: v4_octet_def digits_val_nat_str nat_str.simps [of 0] digit_char_def is_digit_def)

lemma nat_str_not:
  assumes "\<not> is_digit x"
  shows "x \<notin> set (nat_str n)"
  using assms nat_str_digits [of n] by (auto simp: list_all_iff)

lemma seps_not_digits: "\<not> is_digit CHR ''.''" "\<not> is_digit CHR '':''" "\<not> is_digit CHR ''%''"
  by (simp_all add: is_digit_def)

lemma ParseIP_dotted:
  assumes "a < 256" "b < 256" "c < 256" "d < 256"
  shows "ParseIP (dotted a b c d) = Some (v4_prefix @ [of_nat a, of_nat b, of_nat c, of_nat d])"
proof -
  note no = nat_str_not [OF seps_not_digits(1)] nat_str_not [OF seps_not_digits(2)] nat_str_not [OF seps_not_digits(3)]
  have "str_split CHR ''.'' (dotted a b c d) = [nat_str a, nat_str b, nat_str c, nat_str d]"
    by (simp add: dotted_def str_split_append str_split_none no)
  then have v4: "parse_v4_fields (dotted a b c d) = Some [of_nat a, of_nat b, of_nat c, of_nat d]"
    using assms by (simp add: parse_v4_fields_def v4_octet_nat_str)
  have "find (\<lambda>x. x = CHR ''.'' \<or> x = CHR '':'') (xs @ CHR ''.'' # ys) = Some CHR ''.''"
    if "CHR '':'' \<notin> set xs" for xs ys
    using that by (induction xs) auto
  then have "find (\<lambda>x. x = CHR ''.'' \<or> x = CHR '':'') (dotted a b c d) = Some CHR ''.''"
    using no by (simp add: dotted_def)
  moreover have "\<not> has_char CHR ''%'' (dotted a b c d)"
    using no by (simp add: has_char_def dotted_def)
  ultimately show ?thesis
    using v4 by (simp add: ParseIP_def)
qed

lemma To4_embedded: "To4 (v4_prefix @ [a, b, c, d]) = Some [a, b, c, d]"
  by (simp add: To4_def v4_prefix_def)

end
