(* ===== verification/Nex_Stations.thy ===== *)
theory Nex_Stations
  imports Nex_Endpoint Nex_Net
begin

unbundle bit_operations_syntax

text \<open>
  How players learn where to reach each other: the SecureConnection protocol of
  \<^verbatim>\<open>nextendo-nex/secureconnection.go\<close> (a client registers and replaces its station URLs), the
  bridge of \<^verbatim>\<open>natbridge.go\<close> that rewrites a host's stations with its observed UDP port, and the
  NAT traversal protocol of \<^verbatim>\<open>nattraversal.go\<close>.

  \<open>handleRegister\<close> changes station objects through pointers that may be equal: the stations read
  from the request are a list, a pointer is an index into it, and an object the handler creates
  is appended. The file of the NAT responder and the clock are arguments.
\<close>

section \<open>Protocol numbers\<close>

definition ProtocolSecureConnection :: u16 where "ProtocolSecureConnection = 0x0B"
definition MethodRegister :: u32 where "MethodRegister = 0x1"
definition MethodReplaceURL :: u32 where "MethodReplaceURL = 0x7"
definition MethodRegisterEx :: u32 where "MethodRegisterEx = 0x4"

definition StationURLFlagBehindNAT :: byte where "StationURLFlagBehindNAT = 0x01"
definition StationURLFlagPublic :: byte where "StationURLFlagPublic = 0x02"
definition stationURLFlagSwitch :: byte where "stationURLFlagSwitch = 0x08"

definition ProtocolNATTraversal :: u16 where "ProtocolNATTraversal = 0x03"
definition MethodRequestProbeInitiation :: u32 where "MethodRequestProbeInitiation = 0x1"
definition MethodInitiateProbe :: u32 where "MethodInitiateProbe = 0x2"
definition MethodRequestProbeInitiationExt :: u32 where "MethodRequestProbeInitiationExt = 0x3"
definition MethodReportNATTraversalResult :: u32 where "MethodReportNATTraversalResult = 0x4"
definition MethodReportNATProperties :: u32 where "MethodReportNATProperties = 0x5"
definition MethodGetRelaySignatureKey :: u32 where "MethodGetRelaySignatureKey = 0x6"
definition MethodReportNATTraversalResultDetail :: u32 where "MethodReportNATTraversalResultDetail = 0x7"

lemmas station_methods = MethodRegister_def MethodReplaceURL_def MethodRegisterEx_def
lemmas nat_methods = MethodRequestProbeInitiation_def MethodInitiateProbe_def MethodRequestProbeInitiationExt_def
  MethodReportNATTraversalResult_def MethodReportNATProperties_def MethodGetRelaySignatureKey_def
  MethodReportNATTraversalResultDetail_def

record SecureConnectionConfig =
  sc_PublicStationType :: byte
  sc_SetPa :: bool
  sc_PublicHost :: string
  sc_P2PAnchorPort :: int
  sc_P2PRelay :: bool

definition SwitchPia519Config :: SecureConnectionConfig where
  "SwitchPia519Config =
     \<lparr>sc_PublicStationType = StationURLFlagBehindNAT OR StationURLFlagPublic OR stationURLFlagSwitch, sc_SetPa = True,
      sc_PublicHost = '''', sc_P2PAnchorPort = 0, sc_P2PRelay = False\<rparr>"

definition LegacyPiaConfig :: SecureConnectionConfig where
  "LegacyPiaConfig =
     \<lparr>sc_PublicStationType = StationURLFlagBehindNAT OR StationURLFlagPublic, sc_SetPa = False,
      sc_PublicHost = '''', sc_P2PAnchorPort = 0, sc_P2PRelay = False\<rparr>"

section \<open>Local and public stations\<close>

definition cgnatRange :: "ip_addr \<Rightarrow> bool" where
  "cgnatRange ip = net_contains [100, 64, 0, 0] 10 ip"

definition isPrivateIP :: "string \<Rightarrow> bool" where
  "isPrivateIP addr =
     (case ParseIP addr of
        None \<Rightarrow> False
      | Some ip \<Rightarrow> IsPrivate ip \<or> IsLoopback ip \<or> IsLinkLocalUnicast ip \<or> cgnatRange ip)"

definition first_index :: "('a \<Rightarrow> bool) \<Rightarrow> 'a list \<Rightarrow> nat option" where
  "first_index P xs = (let i = length (takeWhile (\<lambda>x. \<not> P x) xs) in if i < length xs then Some i else None)"

definition private_station :: "station_url \<Rightarrow> bool" where
  "private_station u \<longleftrightarrow> su_Get u ''address'' \<noteq> '''' \<and> isPrivateIP (su_Get u ''address'')"

definition public_station :: "station_url \<Rightarrow> bool" where
  "public_station u \<longleftrightarrow> su_Get u ''address'' \<noteq> '''' \<and> \<not> isPrivateIP (su_Get u ''address'')"

definition unflagged :: "station_url \<Rightarrow> bool" where
  "unflagged u \<longleftrightarrow> (of_int (su_GetInt u ''type'') :: byte) AND StationURLFlagPublic = 0"

text \<open>The two pointers, as indices into the list.\<close>

definition selectStations :: "station_url list \<Rightarrow> nat option \<times> nat option" where
  "selectStations urls =
     (let local = first_index private_station urls; public = first_index public_station urls;
          local = (if local = None then first_index unflagged urls else local);
          local = (if local = None \<and> urls \<noteq> [] then Some 0 else local)
      in (local, public))"

section \<open>SecureConnection\<close>

definition upd_at :: "nat \<Rightarrow> (station_url \<Rightarrow> station_url) \<Rightarrow> station_url list \<Rightarrow> station_url list" where
  "upd_at i f us = us[i := f (us ! i)]"

definition point_at :: "string \<Rightarrow> station_url \<Rightarrow> station_url" where
  "point_at remoteAddr u =
     (case SplitHostPort remoteAddr of
        Some (host, port) \<Rightarrow> su_Set ''port'' port (su_Set ''address'' host u)
      | None \<Rightarrow> u)"

definition local_object :: "station_url list \<Rightarrow> nat option \<Rightarrow> station_url list \<times> nat" where
  "local_object us li = (case li of Some i \<Rightarrow> (us, i) | None \<Rightarrow> (us @ [NewStationURL ''prudp''], length us))"

definition public_object :: "string \<Rightarrow> station_url list \<Rightarrow> nat \<Rightarrow> nat option \<Rightarrow> station_url list \<times> nat" where
  "public_object remoteAddr us l pub =
     (case pub of Some i \<Rightarrow> (us, i) | None \<Rightarrow> (us @ [point_at remoteAddr (su_Copy (us ! l))], length us))"

definition mark_stations :: "connection \<Rightarrow> SecureConnectionConfig \<Rightarrow> bool \<Rightarrow> nat \<Rightarrow> nat \<Rightarrow> station_url list \<Rightarrow> station_url list" where
  "mark_stations c cfg derived l p us =
     (let us = upd_at l (su_SetInt ''PID'' (sint (c_PID c))) us;
          us = upd_at p (su_SetInt ''PID'' (sint (c_PID c))) us;
          us = upd_at l (su_SetInt ''RVCID'' (uint (c_ID c))) us;
          us = upd_at p (su_SetInt ''RVCID'' (uint (c_ID c))) us;
          us = upd_at p (su_SetInt ''type'' (uint (sc_PublicStationType cfg))) us
      in if sc_SetPa cfg then
           (let pa = (if derived then su_Get (us ! p) ''address'' else su_Get (us ! l) ''address'')
            in if pa \<noteq> '''' then upd_at p (su_Set ''Pa'' pa) us else us)
         else us)"

definition register_stations :: "connection \<Rightarrow> SecureConnectionConfig \<Rightarrow> station_url list \<Rightarrow> station_url \<times> station_url" where
  "register_stations c cfg urls =
     (let (li, pub) = selectStations urls; (us1, l) = local_object urls li;
          (us2, p) = public_object (c_RemoteAddr c) us1 l pub; us = mark_stations c cfg (pub = None) l p us2
      in (us ! l, us ! p))"

definition handleRegister :: "settings \<Rightarrow> connection \<Rightarrow> rmc_message \<Rightarrow> SecureConnectionConfig \<Rightarrow> connection \<times> rmc_message" where
  "handleRegister s c req cfg =
     (let urls = fst (run_state (ReadList in_StationURL) (NewStreamIn (rm_Body req)));
          (local, public) = register_stations c cfg urls
      in (SetStations [local, public] c,
          NewRMCSuccess s ProtocolSecureConnection (rm_Method req) (rm_CallID req)
            (out_U32 ResultCoreUnknown @ out_U32 (c_ID c) @ out_String (su_String public))))"

text \<open>The stations kept by address: the first occurrence decides the order, the last one the value.\<close>

definition keep_by_address :: "station_url \<Rightarrow> (string, station_url) gomap \<Rightarrow> (string, station_url) gomap" where
  "keep_by_address st m = gm_put (su_Get st ''address'') st m"

definition rebuild_stations :: "station_url list \<Rightarrow> station_url \<Rightarrow> station_url list" where
  "rebuild_stations old new = map snd (keep_by_address new (fold keep_by_address old []))"

definition handleReplaceURL :: "settings \<Rightarrow> connection \<Rightarrow> rmc_message \<Rightarrow> connection \<times> rmc_message" where
  "handleReplaceURL s c req =
     (let newStation = su_SetInt ''PID'' (sint (c_PID c))
            (fst (run_state (in_StationURL \<bind> (\<lambda>_. in_StationURL)) (NewStreamIn (rm_Body req))))
      in (SetStations (rebuild_stations (c_stationURLs c) newStation) c,
          NewRMCSuccess s ProtocolSecureConnection (rm_Method req) (rm_CallID req) []))"

definition SecureConnectionHandlerWithConfig :: "settings \<Rightarrow> SecureConnectionConfig \<Rightarrow> connection \<Rightarrow> rmc_message \<Rightarrow> connection \<times> rmc_message" where
  "SecureConnectionHandlerWithConfig s cfg c req =
     (if rm_Method req = MethodRegister \<or> rm_Method req = MethodRegisterEx then handleRegister s c req cfg
      else if rm_Method req = MethodReplaceURL then handleReplaceURL s c req
      else (c, notImplemented s ProtocolSecureConnection req))"

definition SecureConnectionHandler :: "settings \<Rightarrow> connection \<Rightarrow> rmc_message \<Rightarrow> connection \<times> rmc_message" where
  "SecureConnectionHandler s = SecureConnectionHandlerWithConfig s SwitchPia519Config"

section \<open>Observed UDP ports\<close>

datatype bridgeStatus = bridgeOK | bridgeNoStations | bridgeNoObservation | bridgeNoRVCID

record nat_cache =
  nc_cache :: "(string, int) gomap option"
  nc_read :: gotime

text \<open>What a call reads: the clock before and after the file, and the file, none when it cannot be read.\<close>

record nat_env =
  ne_now :: gotime
  ne_file :: "string option"
  ne_after :: gotime

definition natFilePath :: "string \<Rightarrow> string" where
  "natFilePath v = (if v \<noteq> '''' then v else ''/data/nat_endpoints.txt'')"

definition natCacheTTL :: int where "natCacheTTL = 2000000000"

definition nat_line :: "string \<Rightarrow> (string, int) gomap \<Rightarrow> (string, int) gomap" where
  "nat_line line m =
     (case Fields line of
        [ip, port] \<Rightarrow> (let (p, ok) = Atoi port in if ok \<and> p > 0 \<and> p < 65536 then gm_put ip p m else m)
      | _ \<Rightarrow> m)"

definition parse_nat_file :: "string \<Rightarrow> (string, int) gomap" where
  "parse_nat_file dat = fold nat_line (str_split CHR 0x0A dat) []"

definition natPortForIP :: "nat_env \<Rightarrow> string \<Rightarrow> nat_cache \<Rightarrow> nat_cache \<times> int option" where
  "natPortForIP env ip st =
     (if ip = '''' then (st, None)
      else
        let fresh = (case nc_cache st of
                       Some m \<Rightarrow> if ne_now env - nc_read st > natCacheTTL then None else Some m
                     | None \<Rightarrow> None)
        in case fresh of
             Some m \<Rightarrow> (st, gm_get m ip)
           | None \<Rightarrow>
               (case ne_file env of
                  None \<Rightarrow> (\<lparr>nc_cache = Some [], nc_read = ne_after env\<rparr>, None)
                | Some dat \<Rightarrow>
                    (let m = parse_nat_file dat in (\<lparr>nc_cache = Some m, nc_read = ne_after env\<rparr>, gm_get m ip))))"

text \<open>The relay configuration: the pair of host and port.\<close>

definition SetStationRelay :: "string \<Rightarrow> int \<Rightarrow> string \<times> int" where
  "SetStationRelay host port = (host, port)"

definition StationRelay :: "string \<times> int \<Rightarrow> string \<times> int \<times> bool" where
  "StationRelay relay = (fst relay, snd relay, fst relay \<noteq> '''' \<and> snd relay > 0)"

section \<open>The bridge\<close>

definition bridge_lan :: "int \<Rightarrow> station_url \<Rightarrow> station_url" where
  "bridge_lan udpPort local = su_Remove ''Pa'' (su_Remove ''type'' (su_SetInt ''port'' udpPort (su_Copy local)))"

definition bridge_public :: "int \<Rightarrow> string \<Rightarrow> station_url \<Rightarrow> station_url" where
  "bridge_public udpPort pa public =
     su_Set ''Pa'' pa
       (su_SetInt ''type'' (uint (StationURLFlagBehindNAT OR StationURLFlagPublic OR stationURLFlagSwitch))
         (su_SetInt ''port'' udpPort (su_Copy public)))"

definition natBridgeStations :: "nat_env \<Rightarrow> station_url list \<Rightarrow> bool \<Rightarrow> nat_cache \<Rightarrow> nat_cache \<times> station_url list \<times> bridgeStatus" where
  "natBridgeStations env urls publicFirst st =
     (case selectStations urls of
        (Some li, Some pub) \<Rightarrow>
          (let local = urls ! li; public = urls ! pub;
               publicAddr = su_Get public ''address''; privateAddr = su_Get local ''address''
           in if publicAddr = '''' \<or> privateAddr = '''' \<or> publicAddr = privateAddr then (st, urls, bridgeNoStations)
              else
                case natPortForIP env publicAddr st of
                  (st', None) \<Rightarrow> (st', urls, bridgeNoObservation)
                | (st', Some udpPort) \<Rightarrow>
                    if su_GetInt local ''RVCID'' = 0 then (st', urls, bridgeNoRVCID)
                    else
                      let lan = bridge_lan udpPort local;
                          wan = bridge_public udpPort (if publicFirst then publicAddr else privateAddr) public
                      in (st', if publicFirst then [wan, lan] else [lan, wan], bridgeOK))
      | _ \<Rightarrow> (st, urls, bridgeNoStations))"

section \<open>NAT traversal\<close>

definition natAck :: "settings \<Rightarrow> rmc_message \<Rightarrow> rmc_message" where
  "natAck s req = NewRMCSuccess s ProtocolNATTraversal (rm_Method req) (rm_CallID req) []"

definition relaySignatureKey :: "settings \<Rightarrow> u64 \<Rightarrow> rmc_message \<Rightarrow> rmc_message" where
  "relaySignatureKey s now req =
     NewRMCSuccess s ProtocolNATTraversal (rm_Method req) (rm_CallID req)
       (out_U32 0 @ out_DateTime now @ out_String '''' @ out_U16 0 @ out_U32 0 @ out_U32 0)"

text \<open>\<open>repoint\<close> is \<open>NEXTENDO_PROBE_REPOINT\<close>.\<close>

definition repointed_station :: "string \<Rightarrow> nat_env \<Rightarrow> string \<Rightarrow> string \<Rightarrow> nat_cache \<Rightarrow> nat_cache \<times> string" where
  "repointed_station repoint env remoteAddr station st =
     (let host = fst (splitHostPortSafe remoteAddr)
      in if probeRepointEnabled repoint \<and> \<not> isPrivateIP host then
           (let u = ParseStationURL station;
                u = (if su_Get u ''address'' \<noteq> host then su_Set ''address'' host u else u);
                (st', port) = natPortForIP env host st;
                u = (case port of Some p \<Rightarrow> su_SetInt ''port'' p u | None \<Rightarrow> u)
            in (st', su_String u))
         else (st, station))"

definition probe_target :: "endpoint \<Rightarrow> string \<Rightarrow> cref option" where
  "probe_target ep raw =
     (let rvcid = (of_int (su_GetInt (ParseStationURL raw) ''RVCID'') :: u32)
      in if rvcid = 0 then None else FindConnectionByID ep rvcid)"

text \<open>The requests pushed to other connections, with their receivers.\<close>

definition pushInitiateProbe :: "string \<Rightarrow> nat_env \<Rightarrow> endpoint \<Rightarrow> connection \<Rightarrow> rmc_message \<Rightarrow> nat_cache \<Rightarrow> nat_cache \<times> (cref \<times> rmc_message) list" where
  "pushInitiateProbe repoint env ep c req st =
     (let s = ep_Settings ep;
          ((targetList, stationToProbe), strm) =
            run_state (ReadList in_String \<bind> (\<lambda>ts. in_String \<bind> (\<lambda>str. ret (ts, str)))) (NewStreamIn (rm_Body req))
      in if in_Err strm then (st, [])
         else
           let (st', station) = repointed_station repoint env (c_RemoteAddr c) stationToProbe st;
               probe = NewRMCRequest s ProtocolNATTraversal MethodInitiateProbe (0xFFFF0000 + rm_CallID req)
                         (out_StationURL (ParseStationURL station))
           in (st', map (\<lambda>r. (r, probe)) (List.map_filter (probe_target ep) targetList)))"

definition noteNATProperties :: "rmc_message \<Rightarrow> connection \<Rightarrow> connection \<times> (pid \<times> u32 \<times> u32 \<times> u32) option" where
  "noteNATProperties req c =
     (let ((natMap, natFilter, rtt), strm) =
        run_state (in_U32 \<bind> (\<lambda>a. in_U32 \<bind> (\<lambda>b. in_U32 \<bind> (\<lambda>d. ret (a, b, d))))) (NewStreamIn (rm_Body req))
      in if in_Err strm then (c, None) else (SetNATProps natMap natFilter c, Some (c_PID c, natMap, natFilter, rtt)))"

text \<open>
  The result: the NAT cache, the caller's connection, the call of \<open>OnNATProperties\<close>, the requests
  pushed, and the response. \<open>logNATResult\<close> only prints.
\<close>

definition NATTraversalHandler ::
  "string \<Rightarrow> nat_env \<Rightarrow> u64 \<Rightarrow> endpoint \<Rightarrow> connection \<Rightarrow> rmc_message \<Rightarrow> nat_cache \<Rightarrow>
   nat_cache \<times> connection \<times> (pid \<times> u32 \<times> u32 \<times> u32) option \<times> (cref \<times> rmc_message) list \<times> rmc_message" where
  "NATTraversalHandler repoint env nowDate ep c req st =
     (let s = ep_Settings ep; m = rm_Method req
      in if m = MethodRequestProbeInitiationExt then
           (let (st', pushes) = pushInitiateProbe repoint env ep c req st in (st', c, None, pushes, natAck s req))
         else if m = MethodReportNATTraversalResult \<or> m = MethodReportNATTraversalResultDetail then (st, c, None, [], natAck s req)
         else if m = MethodReportNATProperties then
           (let (c', hook) = noteNATProperties req c in (st, c', hook, [], natAck s req))
         else if m = MethodGetRelaySignatureKey then (st, c, None, [], relaySignatureKey s nowDate req)
         else if m = MethodRequestProbeInitiation \<or> m = MethodInitiateProbe then (st, c, None, [], natAck s req)
         else (st, c, None, [], notImplemented s ProtocolNATTraversal req))"

section \<open>Private address ranges\<close>

definition private_range :: "nat \<Rightarrow> nat \<Rightarrow> bool" where
  "private_range a b \<longleftrightarrow>
     a = 10 \<or> a = 127 \<or> (a = 172 \<and> 16 \<le> b \<and> b \<le> 31) \<or> (a = 192 \<and> b = 168) \<or> (a = 169 \<and> b = 254) \<or>
     (a = 100 \<and> 64 \<le> b \<and> b \<le> 127)"

lemma high_nibble: "x AND 0xf0 = push_bit 4 (drop_bit 4 (x :: byte))"
proof -
  have "(0xf0 :: byte) = NOT (mask 4)"
    by (simp add: mask_eq_exp_minus_1)
  then show ?thesis
    unfolding \<open>0xf0 = NOT (mask 4)\<close> by (auto intro!: bit_eqI simp: bit_simps)
qed

lemma private_172: "b < 256 \<Longrightarrow> ((of_nat b :: byte) AND 0xf0 = 16) \<longleftrightarrow> 16 \<le> b \<and> b \<le> 31"
proof -
  assume "b < 256"
  then have "unat (drop_bit 4 (of_nat b :: byte)) = b div 16"
    by (simp add: drop_bit_eq_div unat_div unat_of_nat_word)
  moreover have "push_bit 4 (drop_bit 4 (of_nat b)) = (16 :: byte) \<longleftrightarrow> 16 * (b div 16) = 16"
    using \<open>b < 256\<close> calculation
    by (simp add: push_bit_eq_mult word_unat_eq_iff unat_word_ariths)
  ultimately show ?thesis
    unfolding high_nibble by auto
qed

lemma cgnat_octets:
  assumes "a < 256" "b < 256" "c < 256" "d < 256"
  shows "cgnatRange (v4_prefix @ [of_nat a, of_nat b, of_nat c, of_nat d]) \<longleftrightarrow> a = 100 \<and> 64 \<le> b \<and> b \<le> 127"
proof -
  let ?u = "int a * 256 + int b"
  have "be_int [of_nat a, of_nat b, of_nat c, of_nat d] = (?u * 256 + int c) * 256 + int d"
    using assms by (simp add: be_int_def uint_of_nat_word)
  moreover have "((?u * 256 + int c) * 256 + int d) div 65536 = ?u"
    using assms by (intro octet_split3) simp_all
  ultimately have "be_int [of_nat a, of_nat b, of_nat c, of_nat d] div 2 ^ 22 = ?u div 64"
    using zdiv_zmult2_eq [of 64 "(?u * 256 + int c) * 256 + int d" 65536] by simp
  moreover have "be_int [100, 64, 0, 0] div 2 ^ 22 = 401"
    by (simp add: be_int_def)
  ultimately have "cgnatRange (v4_prefix @ [of_nat a, of_nat b, of_nat c, of_nat d]) \<longleftrightarrow> ?u div 64 = 401"
    by (simp add: cgnatRange_def net_contains_def To4_embedded)
  also have "\<dots> \<longleftrightarrow> 25664 \<le> ?u \<and> ?u < 25728"
    by linarith
  also have "\<dots> \<longleftrightarrow> a = 100 \<and> 64 \<le> b \<and> b \<le> 127"
  proof
    assume u: "25664 \<le> ?u \<and> ?u < 25728"
    then have "a = 100"
      using assms by auto
    with u show "a = 100 \<and> 64 \<le> b \<and> b \<le> 127"
      by simp
  qed simp
  finally show ?thesis .
qed

lemma byte_eq_numeral:
  "a < 256 \<Longrightarrow> (of_nat a = (10 :: byte)) = (a = 10)" "a < 256 \<Longrightarrow> (of_nat a = (127 :: byte)) = (a = 127)"
  "a < 256 \<Longrightarrow> (of_nat a = (172 :: byte)) = (a = 172)" "a < 256 \<Longrightarrow> (of_nat a = (192 :: byte)) = (a = 192)"
  "a < 256 \<Longrightarrow> (of_nat a = (168 :: byte)) = (a = 168)" "a < 256 \<Longrightarrow> (of_nat a = (169 :: byte)) = (a = 169)"
  "a < 256 \<Longrightarrow> (of_nat a = (254 :: byte)) = (a = 254)"
  by (simp_all add: word_unat_eq_iff unat_of_nat_word)

text \<open>
  The test for a private address is exact on IPv4: an address is private precisely when it lies
  in one of the ranges 10.0.0.0/8, 127.0.0.0/8, 172.16.0.0/12, 192.168.0.0/16, 169.254.0.0/16 or
  100.64.0.0/10.
\<close>

lemma isPrivateIP_ranges:
  assumes "a < 256" "b < 256" "c < 256" "d < 256"
  shows "isPrivateIP (dotted a b c d) \<longleftrightarrow> private_range a b"
  using assms
  by (auto simp: isPrivateIP_def ParseIP_dotted IsPrivate_def IsLoopback_def IsLinkLocalUnicast_def To4_embedded
      byte_eq_numeral private_172 cgnat_octets private_range_def)

lemma isPrivateIP_ranges_examples:
  "isPrivateIP (dotted 172 31 0 1) \<and> \<not> isPrivateIP (dotted 172 217 16 14) \<and> isPrivateIP (dotted 100 101 2 3)"
  using isPrivateIP_ranges [of 172 31 0 1] isPrivateIP_ranges [of 172 217 16 14] isPrivateIP_ranges [of 100 101 2 3]
  by (simp add: private_range_def)

section \<open>What the bridge hands out\<close>

definition nat_ports_ok :: "nat_cache \<Rightarrow> bool" where
  "nat_ports_ok st \<longleftrightarrow> (case nc_cache st of None \<Rightarrow> True | Some m \<Rightarrow> list_all (\<lambda>e. 0 < snd e \<and> snd e < 65536) m)"

lemma list_all_put: "list_all P m \<Longrightarrow> P (k, v) \<Longrightarrow> list_all P (gm_put k v m)"
  by (induction m) auto

lemma nat_line_ports:
  "list_all (\<lambda>e. 0 < snd e \<and> snd e < 65536) m \<Longrightarrow> list_all (\<lambda>e. 0 < snd e \<and> snd e < 65536) (nat_line line m)"
  by (auto simp: nat_line_def intro: list_all_put split: list.split prod.split)

lemma parse_nat_file_ports: "list_all (\<lambda>e. 0 < snd e \<and> snd e < 65536) (parse_nat_file dat)"
proof -
  have "list_all (\<lambda>e. 0 < snd e \<and> snd e < 65536) m \<Longrightarrow> list_all (\<lambda>e. 0 < snd e \<and> snd e < 65536) (fold nat_line ls m)" for ls m
    by (induction ls arbitrary: m) (simp_all add: nat_line_ports)
  then show ?thesis
    by (simp add: parse_nat_file_def)
qed

lemma natPortForIP_range:
  assumes "nat_ports_ok st" and "natPortForIP env ip st = (st', r)"
  shows "nat_ports_ok st'" "r = Some p \<Longrightarrow> 0 < p \<and> p < 65536"
proof -
  have "0 < p \<and> p < 65536" if "gm_get m ip = Some p" "list_all (\<lambda>e. 0 < snd e \<and> snd e < 65536) m" for m
    using gm_get_Some_in [OF that(1)] that(2) by (auto simp: list_all_iff)
  then show "nat_ports_ok st'" "r = Some p \<Longrightarrow> 0 < p \<and> p < 65536"
    using assms parse_nat_file_ports
    by (auto simp: natPortForIP_def nat_ports_ok_def Let_def split: if_splits option.splits)
qed

lemma first_index_nth: "first_index P xs = Some i \<Longrightarrow> i < length xs \<and> P (xs ! i)"
  by (auto simp: first_index_def Let_def split: if_splits) (metis nth_length_takeWhile)

lemma selectStations_mem:
  assumes "selectStations urls = (Some l, Some p)"
  shows "l < length urls" "p < length urls" "public_station (urls ! p)"
  using assms by (auto simp: selectStations_def Let_def dest: first_index_nth split: if_splits)

definition lan_candidate :: "int \<Rightarrow> station_url \<Rightarrow> station_url \<Rightarrow> bool" where
  "lan_candidate udpPort local u \<longleftrightarrow>
     su_Scheme u = su_Scheme local \<and> \<not> su_Has u ''type'' \<and> \<not> su_Has u ''Pa'' \<and>
     (\<forall>k. k \<noteq> ''type'' \<and> k \<noteq> ''Pa'' \<longrightarrow> su_Get u k = (if k = ''port'' then Itoa udpPort else su_Get local k))"

definition public_candidate :: "int \<Rightarrow> string \<Rightarrow> station_url \<Rightarrow> station_url \<Rightarrow> bool" where
  "public_candidate udpPort pa public u \<longleftrightarrow>
     su_Scheme u = su_Scheme public \<and>
     (\<forall>k. su_Get u k = (if k = ''port'' then Itoa udpPort else if k = ''type'' then ''11'' else if k = ''Pa'' then pa else su_Get public k))"

lemma su_Scheme_ops [simp]:
  "su_Scheme (su_Set k v u) = su_Scheme u" "su_Scheme (su_Remove k u) = su_Scheme u" "su_Scheme (su_Copy u) = su_Scheme u"
  by (simp_all add: su_Set_def su_Remove_def su_Copy_def)

lemma su_Get_Copy [simp]: "su_Get (su_Copy u) k = su_Get u k" "su_Has (su_Copy u) k = su_Has u k"
  by (simp_all add: su_Get_def su_Has_def su_Copy_def)

lemma bridge_lan_candidate: "lan_candidate udpPort local (bridge_lan udpPort local)"
  by (simp add: lan_candidate_def bridge_lan_def su_SetInt_def)

lemma bridge_public_candidate: "public_candidate udpPort pa public (bridge_public udpPort pa public)"
proof -
  have "Itoa (uint (StationURLFlagBehindNAT OR StationURLFlagPublic OR stationURLFlagSwitch)) = ''11''"
    by code_simp
  then show ?thesis
    by (simp add: public_candidate_def bridge_public_def su_SetInt_def)
qed

text \<open>
  C26: what a joiner is told about the host. When the bridge succeeds it hands out exactly two
  stations made from two the host reported: a LAN candidate that is the host's local station with
  the observed UDP port and without \<open>type\<close> and \<open>Pa\<close>, and a public candidate that is its public
  station, with a public address, with the observed UDP port, type 11 and the requested \<open>Pa\<close>; the
  port is between 1 and 65535 and the local station carries a connection id. In every other case
  the host's stations are handed out unchanged.
\<close>

theorem natBridge_outcome:
  assumes run: "natBridgeStations env urls publicFirst st = (st', out, status)" and ok: "nat_ports_ok st"
  shows "if status = bridgeOK
    then \<exists>local \<in> set urls. \<exists>public \<in> set urls. \<exists>udpPort lan wan.
      snd (natPortForIP env (su_Get public ''address'') st) = Some udpPort \<and> 0 < udpPort \<and> udpPort < 65536 \<and>
      su_GetInt local ''RVCID'' \<noteq> 0 \<and> public_station public \<and> su_Get local ''address'' \<noteq> su_Get public ''address'' \<and>
      lan_candidate udpPort local lan \<and>
      public_candidate udpPort (su_Get (if publicFirst then public else local) ''address'') public wan \<and>
      out = (if publicFirst then [wan, lan] else [lan, wan])
    else out = urls"
proof (cases "status = bridgeOK")
  case False
  with run show ?thesis
    by (auto simp: natBridgeStations_def Let_def split: prod.splits option.splits if_splits)
next
  case True
  with run obtain l p udp where sel: "selectStations urls = (Some l, Some p)"
    and port: "natPortForIP env (su_Get (urls ! p) ''address'') st = (st', Some udp)"
    and neq: "su_Get (urls ! l) ''address'' \<noteq> su_Get (urls ! p) ''address''" and cid: "su_GetInt (urls ! l) ''RVCID'' \<noteq> 0"
    and out: "out = (let lan = bridge_lan udp (urls ! l);
        wan = bridge_public udp (su_Get (if publicFirst then urls ! p else urls ! l) ''address'') (urls ! p)
      in if publicFirst then [wan, lan] else [lan, wan])"
    by (auto simp: natBridgeStations_def Let_def split: prod.splits option.splits if_splits)
  have "urls ! l \<in> set urls" "urls ! p \<in> set urls" "public_station (urls ! p)"
    using selectStations_mem [OF sel] by simp_all
  moreover have "0 < udp \<and> udp < 65536"
    using natPortForIP_range(2) [OF ok port] by simp
  ultimately show ?thesis
    unfolding if_P [OF True] using port neq cid bridge_lan_candidate bridge_public_candidate
    by (intro bexI [of _ "urls ! l"] bexI [of _ "urls ! p"] exI [of _ udp] exI [of _ "bridge_lan udp (urls ! l)"]
        exI [of _ "bridge_public udp (su_Get (if publicFirst then urls ! p else urls ! l) ''address'') (urls ! p)"])
      (simp_all add: out Let_def)
qed

definition host_stations :: "station_url list" where
  "host_stations =
     [su_SetInt ''RVCID'' 7 (su_Set ''type'' ''3'' (su_Set ''port'' ''50021'' (su_Set ''address'' ''10.0.1.2'' (NewStationURL ''prudp'')))),
      su_Set ''port'' ''50021'' (su_Set ''address'' ''82.6.1.9'' (NewStationURL ''prudp''))]"

definition responder_env :: nat_env where
  "responder_env = \<lparr>ne_now = 10, ne_file = Some (''82.6.1.9 99'' @ [CHR 0x0A]), ne_after = 11\<rparr>"

definition no_nat_cache :: nat_cache where
  "no_nat_cache = \<lparr>nc_cache = None, nc_read = 0\<rparr>"

theorem natBridge_outcome_witness:
  "\<exists>lan wan. fst (snd (natBridgeStations responder_env host_stations False no_nat_cache)) = [lan, wan] \<and>
     \<not> su_Has lan ''type'' \<and> su_Get wan ''type'' = ''11'' \<and> su_Get wan ''Pa'' = ''10.0.1.2''"
proof -
  let ?r = "natBridgeStations responder_env host_stations False no_nat_cache"
  have ok: "snd (snd ?r) = bridgeOK"
    by code_simp
  have "nat_ports_ok no_nat_cache"
    by (simp add: nat_ports_ok_def no_nat_cache_def)
  moreover have "?r = (fst ?r, fst (snd ?r), bridgeOK)"
    by (simp flip: ok)
  ultimately
  obtain local public udpPort lan wan where
    out: "fst (snd ?r) = [lan, wan]" "lan_candidate udpPort local lan"
      "public_candidate udpPort (su_Get local ''address'') public wan"
    and mem: "local \<in> set host_stations" "su_GetInt local ''RVCID'' \<noteq> 0"
    using natBridge_outcome [of responder_env host_stations False no_nat_cache "fst ?r" "fst (snd ?r)" bridgeOK] by auto
  have "local = host_stations ! 0"
  proof -
    have "su_GetInt (host_stations ! 1) ''RVCID'' = 0" "host_stations = [host_stations ! 0, host_stations ! 1]"
      by (simp_all add: host_stations_def su_GetInt_def NewStationURL_def) (simp add: su_Get_def Atoi_def)
    with mem show ?thesis
      by (metis empty_iff empty_set set_ConsD)
  qed
  moreover have "su_Get (host_stations ! 0) ''address'' = ''10.0.1.2''"
    by (simp add: host_stations_def su_SetInt_def)
  ultimately show ?thesis
    using out by (auto simp: lan_candidate_def public_candidate_def)
qed

section \<open>Registration and replacement\<close>

text \<open>After a replacement the stations have distinct addresses: the old ones and the new one.\<close>

lemma map_fst_keep:
  "map fst (keep_by_address st m) = (if gm_has m (su_Get st ''address'') then map fst m else map fst m @ [su_Get st ''address''])"
  by (simp add: keep_by_address_def map_fst_update)

definition by_address :: "(string, station_url) gomap \<Rightarrow> bool" where
  "by_address m \<longleftrightarrow> gm_wf m \<and> list_all (\<lambda>(a, st). su_Get st ''address'' = a) m"

lemma by_address_keep: "by_address m \<Longrightarrow> by_address (keep_by_address st m)"
  by (auto simp: by_address_def keep_by_address_def gm_in_put list_all_iff split: if_splits)

lemma by_address_fold: "by_address m \<Longrightarrow> by_address (fold keep_by_address sts m)"
  by (induction sts arbitrary: m) (simp_all add: by_address_keep)

lemma map_address: "by_address m \<Longrightarrow> map (\<lambda>st. su_Get st ''address'') (map snd m) = map fst m"
  by (auto simp: by_address_def list_all_iff)

lemma rebuild_addresses:
  "distinct (map (\<lambda>st. su_Get st ''address'') (rebuild_stations old new))"
  "set (map (\<lambda>st. su_Get st ''address'') (rebuild_stations old new)) =
   insert (su_Get new ''address'') ((\<lambda>st. su_Get st ''address'') ` set old)"
  "new \<in> set (rebuild_stations old new)"
proof -
  have b: "by_address (keep_by_address new (fold keep_by_address old []))"
    by (intro by_address_keep by_address_fold) (simp add: by_address_def)
  then show "distinct (map (\<lambda>st. su_Get st ''address'') (rebuild_stations old new))"
    unfolding rebuild_stations_def map_address [OF b] by (simp add: by_address_def gm_wf_def)
  have one: "set (map fst (keep_by_address st m)) = insert (su_Get st ''address'') (set (map fst m))" for st m
    unfolding map_fst_keep by (auto simp: gm_has_def)
  have "set (map fst (fold keep_by_address sts m)) = set (map fst m) \<union> (\<lambda>st. su_Get st ''address'') ` set sts" for sts m
    by (induction sts arbitrary: m) (simp_all add: one del: set_map)
  then show "set (map (\<lambda>st. su_Get st ''address'') (rebuild_stations old new)) =
     insert (su_Get new ''address'') ((\<lambda>st. su_Get st ''address'') ` set old)"
    unfolding rebuild_stations_def map_address [OF b] by (simp add: one del: set_map)
  have "gm_get (keep_by_address new m) (su_Get new ''address'') = Some new" for m
    by (simp add: keep_by_address_def)
  then show "new \<in> set (rebuild_stations old new)"
    unfolding rebuild_stations_def by (force dest: gm_get_Some_in)
qed

end
