(* ===== verification/Nex_Crypto.thy ===== *)
theory Nex_Crypto
  imports Nex_Stream
begin

unbundle bit_operations_syntax

text \<open>
  The parts of Go's \<open>crypto\<close> packages the server calls: \<open>md5.Sum\<close>, \<open>sha256.Sum256\<close>, \<open>hmac\<close> over
  either of them, and the stream cipher \<open>rc4\<close>. They are executable translations of RFC 1321,
  FIPS 180-4, FIPS 198-1 and of the RC4 key schedule.

  A call that can panic returns a \<open>go_result\<close>: a value, an error, or a panic.

  The locale \<open>digest\<close> is the contract of a hash function; \<open>hmac\<close> is used through it.
\<close>

section \<open>Outcomes\<close>

datatype 'a go_result = Ok 'a | Fail | Panic

fun go_bind :: "'a go_result \<Rightarrow> ('a \<Rightarrow> 'b go_result) \<Rightarrow> 'b go_result" where
  "go_bind (Ok x) f = f x"
| "go_bind Fail f = Fail"
| "go_bind Panic f = Panic"

lemma go_bind_Ok: "go_bind r f = Ok y \<longleftrightarrow> (\<exists>x. r = Ok x \<and> f x = Ok y)"
  by (cases r) simp_all

section \<open>Words of a message\<close>

definition rotl32 :: "nat \<Rightarrow> u32 \<Rightarrow> u32" where
  "rotl32 n x = push_bit n x OR drop_bit (32 - n) x"

definition rotr32 :: "nat \<Rightarrow> u32 \<Rightarrow> u32" where
  "rotr32 n x = drop_bit n x OR push_bit (32 - n) x"

definition be_bytes :: "nat \<Rightarrow> nat \<Rightarrow> byte list" where
  "be_bytes k n = rev (le_bytes k n)"

lemma length_be_bytes [simp]: "length (be_bytes k n) = k"
  by (simp add: be_bytes_def)

text \<open>
  A one bit, zeros up to 56 bytes modulo 64, and the length in bits; the two hashes write the
  length in opposite byte orders.
\<close>

definition pad_message :: "(nat \<Rightarrow> nat \<Rightarrow> byte list) \<Rightarrow> byte list \<Rightarrow> byte list" where
  "pad_message length_bytes msg =
     (let n = length msg; zeros = (119 - n mod 64) mod 64
      in msg @ 0x80 # replicate zeros 0 @ length_bytes 8 (8 * n))"

fun chunks :: "nat \<Rightarrow> nat \<Rightarrow> byte list \<Rightarrow> byte list list" where
  "chunks 0 k bs = []"
| "chunks (Suc n) k bs = take k bs # chunks n k (drop k bs)"

definition words_of :: "(byte list \<Rightarrow> byte list) \<Rightarrow> byte list \<Rightarrow> u32 list" where
  "words_of order blk = map (\<lambda>c. of_nat (le_nat (order c))) (chunks 16 4 blk)"

section \<open>MD5\<close>

type_synonym md5_state = "u32 \<times> u32 \<times> u32 \<times> u32"

definition md5_T :: "u32 list" where
  "md5_T =
    [0xd76aa478, 0xe8c7b756, 0x242070db, 0xc1bdceee, 0xf57c0faf, 0x4787c62a, 0xa8304613, 0xfd469501,
     0x698098d8, 0x8b44f7af, 0xffff5bb1, 0x895cd7be, 0x6b901122, 0xfd987193, 0xa679438e, 0x49b40821,
     0xf61e2562, 0xc040b340, 0x265e5a51, 0xe9b6c7aa, 0xd62f105d, 0x02441453, 0xd8a1e681, 0xe7d3fbc8,
     0x21e1cde6, 0xc33707d6, 0xf4d50d87, 0x455a14ed, 0xa9e3e905, 0xfcefa3f8, 0x676f02d9, 0x8d2a4c8a,
     0xfffa3942, 0x8771f681, 0x6d9d6122, 0xfde5380c, 0xa4beea44, 0x4bdecfa9, 0xf6bb4b60, 0xbebfbc70,
     0x289b7ec6, 0xeaa127fa, 0xd4ef3085, 0x04881d05, 0xd9d4d039, 0xe6db99e5, 0x1fa27cf8, 0xc4ac5665,
     0xf4292244, 0x432aff97, 0xab9423a7, 0xfc93a039, 0x655b59c3, 0x8f0ccc92, 0xffeff47d, 0x85845dd1,
     0x6fa87e4f, 0xfe2ce6e0, 0xa3014314, 0x4e0811a1, 0xf7537e82, 0xbd3af235, 0x2ad7d2bb, 0xeb86d391]"

definition md5_shifts :: "nat list list" where
  "md5_shifts = [[7, 12, 17, 22], [5, 9, 14, 20], [4, 11, 16, 23], [6, 10, 15, 21]]"

definition md5_init :: md5_state where
  "md5_init = (0x67452301, 0xefcdab89, 0x98badcfe, 0x10325476)"

definition md5_mix :: "nat \<Rightarrow> u32 \<Rightarrow> u32 \<Rightarrow> u32 \<Rightarrow> u32" where
  "md5_mix r b c d =
     (if r = 0 then (b AND c) OR (NOT b AND d)
      else if r = 1 then (d AND b) OR (NOT d AND c)
      else if r = 2 then b XOR c XOR d
      else c XOR (b OR NOT d))"

definition md5_index :: "nat \<Rightarrow> nat \<Rightarrow> nat" where
  "md5_index r i =
     (if r = 0 then i else if r = 1 then (5 * i + 1) mod 16 else if r = 2 then (3 * i + 5) mod 16 else 7 * i mod 16)"

fun md5_step :: "u32 list \<Rightarrow> nat \<Rightarrow> md5_state \<Rightarrow> md5_state" where
  "md5_step x i (a, b, c, d) =
     (let r = i div 16; f = md5_mix r b c d + a + md5_T ! i + x ! md5_index r i
      in (d, b + rotl32 (md5_shifts ! r ! (i mod 4)) f, b, c))"

fun md5_add :: "md5_state \<Rightarrow> md5_state \<Rightarrow> md5_state" where
  "md5_add (a, b, c, d) (a', b', c', d') = (a + a', b + b', c + c', d + d')"

definition md5_block :: "byte list \<Rightarrow> md5_state \<Rightarrow> md5_state" where
  "md5_block blk st = md5_add st (fold (md5_step (words_of id blk)) [0..<64] st)"

definition md5_Sum :: "byte list \<Rightarrow> byte list" where
  "md5_Sum msg =
     (let padded = pad_message le_bytes msg; (a, b, c, d) = fold md5_block (chunks (length padded div 64) 64 padded) md5_init
      in out_U32 a @ out_U32 b @ out_U32 c @ out_U32 d)"

section \<open>SHA-256\<close>

text \<open>The first 32 fractional bits of the cube roots of the first 64 primes, and of the square roots of the first eight.\<close>

definition sha256_K :: "u32 list" where
  "sha256_K =
    [1116352408, 1899447441, 3049323471, 3921009573, 961987163, 1508970993, 2453635748, 2870763221,
     3624381080, 310598401, 607225278, 1426881987, 1925078388, 2162078206, 2614888103, 3248222580,
     3835390401, 4022224774, 264347078, 604807628, 770255983, 1249150122, 1555081692, 1996064986,
     2554220882, 2821834349, 2952996808, 3210313671, 3336571891, 3584528711, 113926993, 338241895,
     666307205, 773529912, 1294757372, 1396182291, 1695183700, 1986661051, 2177026350, 2456956037,
     2730485921, 2820302411, 3259730800, 3345764771, 3516065817, 3600352804, 4094571909, 275423344,
     430227734, 506948616, 659060556, 883997877, 958139571, 1322822218, 1537002063, 1747873779,
     1955562222, 2024104815, 2227730452, 2361852424, 2428436474, 2756734187, 3204031479, 3329325298]"

definition sha256_init :: "u32 list" where
  "sha256_init =
    [1779033703, 3144134277, 1013904242, 2773480762, 1359893119, 2600822924, 528734635, 1541459225]"

text \<open>The message schedule grows by one word a turn; the list holds the words in reverse.\<close>

definition sha256_extend :: "u32 list \<Rightarrow> u32 list" where
  "sha256_extend ws =
     (let w2 = ws ! 1; w15 = ws ! 14;
          s0 = rotr32 7 w15 XOR rotr32 18 w15 XOR drop_bit 3 w15;
          s1 = rotr32 17 w2 XOR rotr32 19 w2 XOR drop_bit 10 w2
      in (s1 + ws ! 6 + s0 + ws ! 15) # ws)"

definition sha256_schedule :: "byte list \<Rightarrow> u32 list" where
  "sha256_schedule blk = rev ((sha256_extend ^^ 48) (rev (words_of rev blk)))"

fun sha256_step :: "u32 \<times> u32 \<Rightarrow> u32 list \<Rightarrow> u32 list" where
  "sha256_step (k, w) [a, b, c, d, e, f, g, h] =
     (let t1 = h + (rotr32 6 e XOR rotr32 11 e XOR rotr32 25 e) + ((e AND f) XOR (NOT e AND g)) + k + w;
          t2 = (rotr32 2 a XOR rotr32 13 a XOR rotr32 22 a) + ((a AND b) XOR (a AND c) XOR (b AND c))
      in [t1 + t2, a, b, c, d + t1, e, f, g])"
| "sha256_step _ hs = hs"

definition sha256_block :: "byte list \<Rightarrow> u32 list \<Rightarrow> u32 list" where
  "sha256_block blk hs = map2 (+) hs (fold sha256_step (zip sha256_K (sha256_schedule blk)) hs)"

definition sha256_Sum :: "byte list \<Rightarrow> byte list" where
  "sha256_Sum msg =
     (let padded = pad_message be_bytes msg
      in concat (map (\<lambda>w. be_bytes 4 (unat w)) (fold sha256_block (chunks (length padded div 64) 64 padded) sha256_init)))"

section \<open>HMAC\<close>

text \<open>Both hashes have 64-byte blocks.\<close>

definition hmac :: "(byte list \<Rightarrow> byte list) \<Rightarrow> byte list \<Rightarrow> byte list \<Rightarrow> byte list" where
  "hmac H key dat =
     (let k0 = if length key > 64 then H key else key; k = k0 @ replicate (64 - length k0) 0
      in H (map (\<lambda>b. b XOR 0x5c) k @ H (map (\<lambda>b. b XOR 0x36) k @ dat)))"

locale digest =
  fixes H :: "byte list \<Rightarrow> byte list" and L :: nat
  assumes digest_length: "length (H msg) = L"
begin

lemma hmac_length: "length (hmac H key dat) = L"
  by (simp add: hmac_def Let_def digest_length)

lemma iterate_length: "0 < n \<Longrightarrow> length ((H ^^ n) msg) = L"
  by (cases n) (simp_all add: digest_length)

end

lemma length_md5_Sum: "length (md5_Sum msg) = 16"
  by (simp add: md5_Sum_def Let_def split: prod.split)

lemma length_sha256_step: "length hs = 8 \<Longrightarrow> length (sha256_step kw hs) = 8"
  by (cases "(kw, hs)" rule: sha256_step.cases) (simp_all add: Let_def)

lemma length_fold_sha256_step: "length hs = 8 \<Longrightarrow> length (fold sha256_step kws hs) = 8"
  by (induction kws arbitrary: hs) (simp_all add: length_sha256_step)

lemma length_sha256_block: "length hs = 8 \<Longrightarrow> length (sha256_block blk hs) = 8"
  by (simp add: sha256_block_def length_fold_sha256_step)

lemma length_sha256_blocks: "length hs = 8 \<Longrightarrow> length (fold sha256_block blks hs) = 8"
  by (induction blks arbitrary: hs) (simp_all add: length_sha256_block)

lemma length_sha256_Sum: "length (sha256_Sum msg) = 32"
proof -
  have "length (concat (map (\<lambda>w. be_bytes 4 (f w)) ws)) = 4 * length ws" for f and ws :: "u32 list"
    by (induction ws) simp_all
  moreover have "length sha256_init = 8"
    by (simp add: sha256_init_def)
  ultimately show ?thesis
    by (simp add: sha256_Sum_def Let_def length_sha256_blocks)
qed

interpretation md5: digest md5_Sum 16
  by unfold_locales (rule length_md5_Sum)

interpretation sha256: digest sha256_Sum 32
  by unfold_locales (rule length_sha256_Sum)

section \<open>RC4\<close>

record rc4_cipher =
  rc4_s :: "byte list"
  rc4_i :: byte
  rc4_j :: byte

definition swap_at :: "byte \<Rightarrow> byte \<Rightarrow> byte list \<Rightarrow> byte list" where
  "swap_at i j s = s[unat i := s ! unat j, unat j := s ! unat i]"

definition rc4_key_turn :: "byte list \<Rightarrow> nat \<Rightarrow> byte list \<times> byte \<Rightarrow> byte list \<times> byte" where
  "rc4_key_turn key i sj =
     (let (s, j) = sj; j' = j + s ! i + key ! (i mod length key) in (swap_at (of_nat i) j' s, j'))"

text \<open>A key must have between 1 and 256 bytes.\<close>

definition rc4_NewCipher :: "byte list \<Rightarrow> rc4_cipher option" where
  "rc4_NewCipher key =
     (if length key < 1 \<or> length key > 256 then None
      else Some \<lparr>rc4_s = fst (fold (rc4_key_turn key) [0..<256] (map of_nat [0..<256], 0)), rc4_i = 0, rc4_j = 0\<rparr>)"

definition rc4_next :: "rc4_cipher \<Rightarrow> byte \<times> rc4_cipher" where
  "rc4_next c =
     (let i = rc4_i c + 1; x = rc4_s c ! unat i; j = rc4_j c + x; y = rc4_s c ! unat j; s = swap_at i j (rc4_s c)
      in (s ! unat (x + y), \<lparr>rc4_s = s, rc4_i = i, rc4_j = j\<rparr>))"

fun rc4_stream :: "rc4_cipher \<Rightarrow> byte list \<Rightarrow> byte list" where
  "rc4_stream c [] = []"
| "rc4_stream c (v # src) = (let (k, c') = rc4_next c in (v XOR k) # rc4_stream c' src)"

text \<open>The call on a nil cipher returns at once on an empty source and panics otherwise.\<close>

definition XORKeyStream :: "rc4_cipher option \<Rightarrow> byte list \<Rightarrow> byte list go_result" where
  "XORKeyStream c src = (case c of Some c \<Rightarrow> Ok (rc4_stream c src) | None \<Rightarrow> if src = [] then Ok [] else Panic)"

lemma length_rc4_stream [simp]: "length (rc4_stream c src) = length src"
  by (induction c src rule: rc4_stream.induct) (simp_all split: prod.split)

lemma rc4_stream_involution: "rc4_stream c (rc4_stream c src) = src"
  by (induction c src rule: rc4_stream.induct) (simp_all split: prod.split add: xor.assoc)

lemma XORKeyStream_involution: "XORKeyStream c src = Ok enc \<Longrightarrow> XORKeyStream c enc = Ok src \<and> length enc = length src"
proof (cases c)
  case (Some k)
  assume "XORKeyStream c src = Ok enc"
  then have "enc = rc4_stream k src"
    using Some by (simp add: XORKeyStream_def)
  then show ?thesis
    using Some by (simp add: XORKeyStream_def rc4_stream_involution)
qed (simp add: XORKeyStream_def split: if_splits)

end
