(* ===== verification/Nex_Kerberos.thy ===== *)
theory Nex_Kerberos
  imports Nex_Crypto Nex_Types
begin

text \<open>
  The Kerberos layer, \<^verbatim>\<open>nextendo-nex/kerberos.go\<close>: key derivation, the encrypt-then-MAC envelope
  and the two tickets. Random bytes (\<open>rand.Read\<close>) are an argument. \<open>Fail\<close> is a returned error,
  \<open>Panic\<close> the use of a nil cipher.
\<close>

section \<open>Keys\<close>

definition deriveKeyOld :: "byte list \<Rightarrow> pid \<Rightarrow> nat \<Rightarrow> nat \<Rightarrow> byte list" where
  "deriveKeyOld password p baseCount pidCount = (md5_Sum ^^ (baseCount + unat p mod pidCount)) password"

definition deriveKeyNew :: "byte list \<Rightarrow> pid \<Rightarrow> nat \<Rightarrow> nat \<Rightarrow> byte list" where
  "deriveKeyNew password p baseCount pidCount =
     (md5_Sum ^^ pidCount) ((md5_Sum ^^ baseCount) password @ le_bytes 8 (unat p))"

definition DeriveKey :: "settings \<Rightarrow> byte list \<Rightarrow> pid \<Rightarrow> byte list" where
  "DeriveKey s password p =
     (if KerberosKeyDerivation s = KeyDerivationNew then deriveKeyNew password p 1 1
      else deriveKeyOld password p 65000 1024)"

lemma length_DeriveKey: "length (DeriveKey s password p) = 16"
proof -
  define n where "n = 65000 + unat p mod 1024"
  have "0 < n"
    by (simp add: n_def)
  then show ?thesis
    unfolding DeriveKey_def deriveKeyNew_def deriveKeyOld_def n_def [symmetric]
    by (auto simp: md5.digest_length intro: md5.iterate_length)
qed

definition hmacMD5 :: "byte list \<Rightarrow> byte list \<Rightarrow> byte list" where
  "hmacMD5 key dat = hmac md5_Sum key dat"

definition md5Sum :: "byte list \<Rightarrow> byte list" where
  "md5Sum b = md5_Sum b"

lemma length_hash [simp]: "length (hmacMD5 key dat) = 16" "length (md5Sum b) = 16"
  by (simp_all add: hmacMD5_def md5Sum_def md5.hmac_length md5.digest_length)

section \<open>The envelope\<close>

definition kerberosEncrypt :: "byte list \<Rightarrow> byte list \<Rightarrow> byte list go_result" where
  "kerberosEncrypt key dat =
     go_bind (XORKeyStream (rc4_NewCipher key) dat) (\<lambda>enc. Ok (enc @ hmacMD5 key enc))"

definition kerberosDecrypt :: "byte list \<Rightarrow> byte list \<Rightarrow> byte list go_result" where
  "kerberosDecrypt key buffer =
     (if length buffer < 16 then Fail
      else let dat = take (length buffer - 16) buffer; checksum = drop (length buffer - 16) buffer
           in if checksum \<noteq> hmacMD5 key dat then Fail else XORKeyStream (rc4_NewCipher key) dat)"

text \<open>A key the cipher accepts.\<close>

definition rc4_key_ok :: "byte list \<Rightarrow> bool" where
  "rc4_key_ok key \<longleftrightarrow> 1 \<le> length key \<and> length key \<le> 256"

lemma XORKeyStream_total: "rc4_key_ok key \<Longrightarrow> \<exists>enc. XORKeyStream (rc4_NewCipher key) dat = Ok enc"
  by (auto simp: rc4_key_ok_def XORKeyStream_def rc4_NewCipher_def)

lemma kerberosEncrypt_total: "rc4_key_ok key \<Longrightarrow> \<exists>enc. kerberosEncrypt key dat = Ok enc"
  using XORKeyStream_total [of key dat] by (auto simp: kerberosEncrypt_def)

lemma length_kerberosEncrypt: "kerberosEncrypt key dat = Ok enc \<Longrightarrow> length enc = length dat + 16"
  using XORKeyStream_involution [of "rc4_NewCipher key" dat] by (auto simp: kerberosEncrypt_def go_bind_Ok)

lemma kerberosDecrypt_Encrypt: "kerberosEncrypt key dat = Ok enc \<Longrightarrow> kerberosDecrypt key enc = Ok dat"
proof -
  assume "kerberosEncrypt key dat = Ok enc"
  then obtain e where e: "XORKeyStream (rc4_NewCipher key) dat = Ok e" "enc = e @ hmacMD5 key e"
    by (auto simp: kerberosEncrypt_def go_bind_Ok)
  then show ?thesis
    using XORKeyStream_involution [OF e(1)] by (simp add: kerberosDecrypt_def)
qed

lemma kerberosDecrypt_no_panic: "rc4_key_ok key \<Longrightarrow> kerberosDecrypt key buffer \<noteq> Panic"
  using XORKeyStream_total [of key "take (length buffer - 16) buffer"] by (auto simp: kerberosDecrypt_def Let_def)

text \<open>The envelope accepts exactly what was made with the same key.\<close>

lemma kerberosDecrypt_iff: "kerberosDecrypt key buffer = Ok dat \<longleftrightarrow> kerberosEncrypt key dat = Ok buffer"
proof
  assume dec: "kerberosDecrypt key buffer = Ok dat"
  let ?d = "take (length buffer - 16) buffer"
  from dec have len: "16 \<le> length buffer" and mac: "drop (length buffer - 16) buffer = hmacMD5 key ?d"
    and x: "XORKeyStream (rc4_NewCipher key) ?d = Ok dat"
    by (auto simp: kerberosDecrypt_def Let_def split: if_splits)
  have "XORKeyStream (rc4_NewCipher key) dat = Ok ?d"
    using XORKeyStream_involution [OF x] by simp
  then show "kerberosEncrypt key dat = Ok buffer"
    using mac by (simp add: kerberosEncrypt_def flip: mac)
qed (rule kerberosDecrypt_Encrypt)

section \<open>Tickets\<close>

record ClientTicket =
  ct_SessionKey :: "byte list"
  ct_Target :: pid
  ct_Internal :: "byte list"

definition ClientTicket_Encrypt :: "ClientTicket \<Rightarrow> byte list \<Rightarrow> settings \<Rightarrow> byte list go_result" where
  "ClientTicket_Encrypt t key s =
     (if int (length (ct_SessionKey t)) \<noteq> KerberosKeySize s then Fail
      else kerberosEncrypt key (ct_SessionKey t @ out_PID s (ct_Target t) @ out_Buffer (ct_Internal t)))"

definition read_ClientTicket :: "settings \<Rightarrow> ClientTicket reader" where
  "read_ClientTicket s = do {
     sessionKey \<leftarrow> in_Read (KerberosKeySize s);
     target \<leftarrow> in_PID s;
     internal \<leftarrow> in_Buffer;
     ret \<lparr>ct_SessionKey = sessionKey, ct_Target = target, ct_Internal = internal\<rparr> }"

definition read_all_of :: "'a reader \<Rightarrow> byte list \<Rightarrow> 'a go_result" where
  "read_all_of r dat = (let (v, st) = run_state r (NewStreamIn dat) in if in_Err st then Fail else Ok v)"

definition DecryptClientTicket :: "byte list \<Rightarrow> byte list \<Rightarrow> settings \<Rightarrow> ClientTicket go_result" where
  "DecryptClientTicket dat key s = go_bind (kerberosDecrypt key dat) (read_all_of (read_ClientTicket s))"

record ServerTicket =
  st_Timestamp :: u64
  st_Source :: pid
  st_SessionKey :: "byte list"

definition ServerTicket_body :: "ServerTicket \<Rightarrow> settings \<Rightarrow> byte list" where
  "ServerTicket_body t s = out_DateTime (st_Timestamp t) @ out_PID s (st_Source t) @ st_SessionKey t"

text \<open>\<open>ticketKey\<close> are the 16 random bytes, none when the source of randomness fails.\<close>

definition ServerTicket_Encrypt :: "byte list option \<Rightarrow> ServerTicket \<Rightarrow> byte list \<Rightarrow> settings \<Rightarrow> byte list go_result" where
  "ServerTicket_Encrypt rnd t key s =
     (if int (length (st_SessionKey t)) \<noteq> KerberosKeySize s then Fail
      else if KerberosTicketVersion s = 1 then
        (case rnd of
           None \<Rightarrow> Fail
         | Some ticketKey \<Rightarrow>
             go_bind (kerberosEncrypt (md5Sum (key @ ticketKey)) (ServerTicket_body t s))
               (\<lambda>enc. Ok (out_Buffer ticketKey @ out_Buffer enc)))
      else kerberosEncrypt key (ServerTicket_body t s))"

definition read_ServerTicket :: "settings \<Rightarrow> ServerTicket reader" where
  "read_ServerTicket s = do {
     timestamp \<leftarrow> in_DateTime;
     source \<leftarrow> in_PID s;
     sessionKey \<leftarrow> in_Read (KerberosKeySize s);
     ret \<lparr>st_Timestamp = timestamp, st_Source = source, st_SessionKey = sessionKey\<rparr> }"

definition read_two_buffers :: "(byte list \<times> byte list) reader" where
  "read_two_buffers = do { a \<leftarrow> in_Buffer; b \<leftarrow> in_Buffer; ret (a, b) }"

definition DecryptServerTicket :: "byte list \<Rightarrow> byte list \<Rightarrow> settings \<Rightarrow> ServerTicket go_result" where
  "DecryptServerTicket dat key s =
     go_bind
       (if KerberosTicketVersion s = 1 then
          go_bind (read_all_of read_two_buffers dat) (\<lambda>(ticketKey, inner). kerberosDecrypt (md5Sum (key @ ticketKey)) inner)
        else kerberosDecrypt key dat)
       (read_all_of (read_ServerTicket s))"

section \<open>Round trips\<close>

lemma read_all_of_reads: "reads r bs v \<Longrightarrow> read_all_of r bs = Ok v"
  using readsD [of r bs v "[]" "[]"] by (simp add: read_all_of_def NewStreamIn_stream_at in_Err_def)

lemma reads_two_buffers: "buffer_ok a \<Longrightarrow> buffer_ok b \<Longrightarrow> reads read_two_buffers (out_Buffer a @ out_Buffer b) (a, b)"
  unfolding read_two_buffers_def
  by (intro reads_bind [OF reads_Buffer]) (auto intro: reads_bind_ret [OF reads_Buffer])

lemma reads_ServerTicket:
  assumes "int (length (st_SessionKey t)) = KerberosKeySize s" and "pid_ok s (st_Source t)"
  shows "reads (read_ServerTicket s) (ServerTicket_body t s) t"
  unfolding read_ServerTicket_def ServerTicket_body_def
  using assms by (intro reads_bind [OF reads_DateTime] reads_bind [OF reads_PID] reads_bind_ret [OF reads_in_Read]) simp_all

lemma reads_ClientTicket:
  assumes "int (length (ct_SessionKey t)) = KerberosKeySize s" and "pid_ok s (ct_Target t)" and "buffer_ok (ct_Internal t)"
  shows "reads (read_ClientTicket s) (ct_SessionKey t @ out_PID s (ct_Target t) @ out_Buffer (ct_Internal t)) t"
  unfolding read_ClientTicket_def
  using assms by (intro reads_bind [OF reads_in_Read] reads_bind [OF reads_PID] reads_bind_ret [OF reads_Buffer]) simp_all

lemma length_out_PID_le: "length (out_PID s p) \<le> 8"
  by (simp add: out_PID_def)

lemma length_ServerTicket_body: "length (ServerTicket_body t s) \<le> 16 + length (st_SessionKey t)"
  using length_out_PID_le [of s "st_Source t"] by (simp add: ServerTicket_body_def out_DateTime_def)

lemma DecryptServerTicket_Encrypt:
  assumes enc: "ServerTicket_Encrypt (Some ticketKey) t key s = Ok dat"
    and size: "length ticketKey = 16" "KerberosKeySize s < 2 ^ 31" and p: "pid_ok s (st_Source t)"
  shows "DecryptServerTicket dat key s = Ok t"
proof -
  from enc have key: "int (length (st_SessionKey t)) = KerberosKeySize s"
    by (simp add: ServerTicket_Encrypt_def split: if_splits)
  note readback = read_all_of_reads [OF reads_ServerTicket [OF key p]]
  show ?thesis
  proof (cases "KerberosTicketVersion s = 1")
    case True
    with enc key obtain e where e: "kerberosEncrypt (md5Sum (key @ ticketKey)) (ServerTicket_body t s) = Ok e"
      and dat: "dat = out_Buffer ticketKey @ out_Buffer e"
      by (auto simp: ServerTicket_Encrypt_def go_bind_Ok)
    have "buffer_ok e"
      using length_kerberosEncrypt [OF e] length_ServerTicket_body [of t s] size(2) key by (simp add: buffer_ok_def)
    then have "read_all_of read_two_buffers dat = Ok (ticketKey, e)"
      using size(1) unfolding dat by (intro read_all_of_reads reads_two_buffers) (simp_all add: buffer_ok_def)
    then show ?thesis
      using True kerberosDecrypt_Encrypt [OF e] readback by (simp add: DecryptServerTicket_def)
  next
    case False
    then show ?thesis
      using enc key kerberosDecrypt_Encrypt [of key "ServerTicket_body t s" dat] readback
      by (simp add: ServerTicket_Encrypt_def DecryptServerTicket_def)
  qed
qed

lemma DecryptClientTicket_Encrypt:
  assumes enc: "ClientTicket_Encrypt t key s = Ok dat" and "pid_ok s (ct_Target t)" and "buffer_ok (ct_Internal t)"
  shows "DecryptClientTicket dat key s = Ok t"
proof -
  from enc have "int (length (ct_SessionKey t)) = KerberosKeySize s"
    by (simp add: ClientTicket_Encrypt_def split: if_splits)
  note readback = read_all_of_reads [OF reads_ClientTicket [OF this assms(2,3)]]
  then show ?thesis
    using enc kerberosDecrypt_Encrypt by (auto simp: ClientTicket_Encrypt_def DecryptClientTicket_def split: if_splits)
qed

lemma go_bind_no_panic: "r \<noteq> Panic \<Longrightarrow> (\<And>x. f x \<noteq> Panic) \<Longrightarrow> go_bind r f \<noteq> Panic"
  by (cases r) simp_all

lemma read_all_of_no_panic: "read_all_of r dat \<noteq> Panic"
  by (simp add: read_all_of_def split_beta Let_def)

lemma DecryptServerTicket_no_panic:
  assumes "rc4_key_ok key"
  shows "DecryptServerTicket dat key s \<noteq> Panic"
proof -
  have "kerberosDecrypt (md5Sum b) buffer \<noteq> Panic" for b buffer
    by (rule kerberosDecrypt_no_panic) (simp add: rc4_key_ok_def)
  then have "go_bind (read_all_of read_two_buffers dat) (\<lambda>(ticketKey, inner). kerberosDecrypt (md5Sum (key @ ticketKey)) inner) \<noteq> Panic"
    by (intro go_bind_no_panic read_all_of_no_panic) (simp split: prod.split)
  then show ?thesis
    unfolding DecryptServerTicket_def using kerberosDecrypt_no_panic [OF assms]
    by (intro go_bind_no_panic read_all_of_no_panic) simp_all
qed

end
