(* ===== verification/Nex_Auth.thy ===== *)
theory Nex_Auth
  imports Nex_Kerberos Nex_Net Nex_RMC
begin

unbundle bit_operations_syntax

text \<open>
  The ticket-granting server, \<^verbatim>\<open>nextendo-nex/ticketgranting.go\<close>: the table that remembers which
  account logged in from which address, with its file, and the two login handlers that issue
  Kerberos tickets.

  The account resolver is an argument of the handlers (\<open>ResolveUser\<close> of \<open>AuthConfig\<close>) with a state
  of its own. The file of the recall table is the map it holds; writing it as JSON and reading it
  back keeps the map. Random bytes, dates and clock readings are inputs of a call.
\<close>

section \<open>The recall table\<close>

definition ipHost :: "string \<Rightarrow> string" where
  "ipHost addr = (case SplitHostPort addr of Some (h, _) \<Rightarrow> h | None \<Rightarrow> addr)"

record authRecall =
  ar_pid :: pid
  ar_at :: gotime

record authRecallPersisted =
  ap_PID :: pid
  ap_At :: int

record auth_state =
  as_table :: "(string, authRecall) gomap"
  as_dirty :: bool
  as_once :: bool

definition empty_auth :: auth_state where
  "empty_auth = \<lparr>as_table = [], as_dirty = False, as_once = False\<rparr>"

definition authRecallTTL :: int where "authRecallTTL = 24 * 3600 * 1000000000"
definition authRecallMax :: nat where "authRecallMax = 50000"

text \<open>
  The file name, the content of the file at the first use (none when it cannot be read or decoded)
  and the clock when the loop comes to each entry.
\<close>

record recall_env =
  re_file :: string
  re_saved :: "(string, authRecallPersisted) gomap option"
  re_load_now :: "string \<Rightarrow> gotime"
  re_now :: gotime

definition restore_recall :: "(string \<Rightarrow> gotime) \<Rightarrow> string \<times> authRecallPersisted \<Rightarrow> (string, authRecall) gomap \<Rightarrow> (string, authRecall) gomap" where
  "restore_recall now e m =
     (let (ip, r) = e; t = ap_At r * 1000000000
      in if ap_PID r = 0 \<or> now ip - t > authRecallTTL then m else gm_put ip \<lparr>ar_pid = ap_PID r, ar_at = t\<rparr> m)"

definition authRecallInit :: "recall_env \<Rightarrow> auth_state \<Rightarrow> auth_state" where
  "authRecallInit env st =
     (if as_once st then st
      else
        let st1 = st\<lparr>as_once := True\<rparr>
        in if re_file env = '''' then st1
           else case re_saved env of
                  None \<Rightarrow> st1
                | Some m \<Rightarrow> st1\<lparr>as_table := fold (restore_recall (re_load_now env)) m (as_table st1)\<rparr>)"

text \<open>
  One turn of the flusher over the keys in the order \<open>Range\<close> visits them: the table without expired
  entries and what is written.
\<close>

definition flush_entry :: "(string \<Rightarrow> gotime) \<Rightarrow> string \<Rightarrow>
    (string, authRecall) gomap \<times> (string, authRecallPersisted) gomap \<Rightarrow>
    (string, authRecall) gomap \<times> (string, authRecallPersisted) gomap" where
  "flush_entry now ip acc =
     (let (table, out) = acc
      in case gm_get table ip of
           None \<Rightarrow> (table, out)
         | Some r \<Rightarrow>
             if ip = '''' then (table, out)
             else if now ip - ar_at r > authRecallTTL then (gm_del ip table, out)
             else if length out < authRecallMax
             then (table, gm_put ip \<lparr>ap_PID = ar_pid r, ap_At = ar_at r div 1000000000\<rparr> out)
             else (table, out))"

definition authRecallFlusher :: "(string \<Rightarrow> gotime) \<Rightarrow> string list \<Rightarrow> auth_state \<Rightarrow> auth_state \<times> (string, authRecallPersisted) gomap option" where
  "authRecallFlusher now ord st =
     (if \<not> as_dirty st then (st, None)
      else let (table, out) = fold (flush_entry now) ord (as_table st, [])
           in (st\<lparr>as_table := table, as_dirty := False\<rparr>, Some out))"

definition RememberAuthPID :: "recall_env \<Rightarrow> string \<Rightarrow> pid \<Rightarrow> auth_state \<Rightarrow> auth_state" where
  "RememberAuthPID env addr p st =
     (let st1 = authRecallInit env st
      in st1\<lparr>as_table := gm_put (ipHost addr) \<lparr>ar_pid = p, ar_at = re_now env\<rparr> (as_table st1), as_dirty := True\<rparr>)"

definition RecallAuthPID :: "recall_env \<Rightarrow> string \<Rightarrow> auth_state \<Rightarrow> auth_state \<times> pid option" where
  "RecallAuthPID env addr st =
     (let st1 = authRecallInit env st
      in case gm_get (as_table st1) (ipHost addr) of
           None \<Rightarrow> (st1, None)
         | Some r \<Rightarrow>
             if ar_pid r = 0 then (st1, None)
             else if re_now env - ar_at r > authRecallTTL
             then (st1\<lparr>as_table := gm_del (ipHost addr) (as_table st1)\<rparr>, None)
             else (st1, Some (ar_pid r)))"

section \<open>The login response\<close>

definition ProtocolTicketGranting :: u16 where "ProtocolTicketGranting = 0x0A"
definition MethodLogin :: u32 where "MethodLogin = 1"
definition MethodLoginEx :: u32 where "MethodLoginEx = 2"
definition MethodRequestTicket :: u32 where "MethodRequestTicket = 3"
definition MethodLoginWithContext :: u32 where "MethodLoginWithContext = 6"

record RVConnectionData =
  rv_MainStation :: "station_url option"
  rv_SpecialProtocols :: "byte list"
  rv_SpecialStation :: "station_url option"
  rv_ServerTime :: u64

definition orEmptyStation :: "station_url option \<Rightarrow> station_url" where
  "orEmptyStation u = (case u of None \<Rightarrow> NewStationURL ''prudp'' | Some u \<Rightarrow> u)"

definition save_RVConnectionData :: "RVConnectionData \<Rightarrow> byte list" where
  "save_RVConnectionData d =
     out_StationURL (orEmptyStation (rv_MainStation d)) @ WriteList out_U8 (rv_SpecialProtocols d) @
     out_StationURL (orEmptyStation (rv_SpecialStation d)) @ out_DateTime (rv_ServerTime d)"

definition load_RVConnectionData :: "RVConnectionData reader" where
  "load_RVConnectionData = do {
     a \<leftarrow> in_StationURL;
     b \<leftarrow> ReadList in_U8;
     c \<leftarrow> in_StationURL;
     d \<leftarrow> in_DateTime;
     ret \<lparr>rv_MainStation = Some a, rv_SpecialProtocols = b, rv_SpecialStation = Some c, rv_ServerTime = d\<rparr> }"

record AuthConfig =
  ac_Settings :: settings
  ac_SecurePID :: pid
  ac_SecurePassword :: string
  ac_SecureStationURL :: "station_url option"
  ac_SpecialProtocols :: "byte list"
  ac_ServerName :: string
  ac_SessionKeyLength :: int

record login_env =
  le_recall :: recall_env
  le_sessionKey :: "byte list option"
  le_ticketKey :: "byte list option"
  le_ticketDate :: u64
  le_replyDate :: u64

definition bytes_of :: "string \<Rightarrow> byte list" where
  "bytes_of str = map byte_of_char str"

definition buildResponse :: "AuthConfig \<Rightarrow> u64 \<Rightarrow> rmc_message \<Rightarrow> u32 \<Rightarrow> pid \<Rightarrow> byte list \<Rightarrow> byte list \<Rightarrow> rmc_message" where
  "buildResponse cfg now req retval p ticket sourceKey =
     (let s = ac_Settings cfg;
          rvcd = \<lparr>rv_MainStation = Some (orEmptyStation (ac_SecureStationURL cfg)), rv_SpecialProtocols = ac_SpecialProtocols cfg,
                  rv_SpecialStation = Some (NewStationURL ''prudp''), rv_ServerTime = now\<rparr>
      in NewRMCSuccess s ProtocolTicketGranting (rm_Method req) (rm_CallID req)
           (out_U32 retval @ out_PID s p @ out_Buffer ticket @ WriteStructure s [(1, save_RVConnectionData rvcd)] @
            out_String (ac_ServerName cfg) @
            (if NexVersion s \<ge> 40000 then out_String (hex_EncodeToString sourceKey) else [])))"

section \<open>Issuing a ticket\<close>

definition session_key_len :: "AuthConfig \<Rightarrow> int" where
  "session_key_len cfg =
     (if ac_SessionKeyLength cfg = 0 then KerberosKeySize (ac_Settings cfg) else ac_SessionKeyLength cfg)"

text \<open>
  Both handlers make the ticket in the same way: the session key and the account inside a ticket for
  the secure server, and that inside a ticket for the client. A negative key length panics in
  \<open>make\<close>; \<open>le_sessionKey\<close> is none when the random source fails.
\<close>

definition issue_ticket :: "AuthConfig \<Rightarrow> login_env \<Rightarrow> pid \<Rightarrow> byte list \<Rightarrow> byte list go_result" where
  "issue_ticket cfg env p sourceKey =
     (let s = ac_Settings cfg
      in if session_key_len cfg < 0 then Panic
         else case le_sessionKey env of
                None \<Rightarrow> Fail
              | Some sessionKey \<Rightarrow>
                  (let targetKey = DeriveKey s (bytes_of (ac_SecurePassword cfg)) (ac_SecurePID cfg)
                   in go_bind
                        (ServerTicket_Encrypt (le_ticketKey env)
                           \<lparr>st_Timestamp = le_ticketDate env, st_Source = p, st_SessionKey = sessionKey\<rparr> targetKey s)
                        (\<lambda>internal. ClientTicket_Encrypt
                           \<lparr>ct_SessionKey = sessionKey, ct_Target = ac_SecurePID cfg, ct_Internal = internal\<rparr> sourceKey s)))"

type_synonym 'r resolver = "string \<Rightarrow> byte list \<Rightarrow> 'r \<Rightarrow> 'r \<times> (pid \<times> byte list) option"

definition login_fields :: "rmc_message \<Rightarrow> string \<times> byte list" where
  "login_fields req = fst (run_state (in_String \<bind> (\<lambda>u. in_ReadAll \<bind> (\<lambda>x. ret (u, x)))) (NewStreamIn (rm_Body req)))"

definition handleLogin :: "'r resolver \<Rightarrow> AuthConfig \<Rightarrow> login_env \<Rightarrow> string \<Rightarrow> rmc_message \<Rightarrow> 'r \<Rightarrow> auth_state \<Rightarrow>
    'r \<times> auth_state \<times> rmc_message go_result" where
  "handleLogin ResolveUser cfg env remoteAddr req rs st =
     (let (username, extraData) = login_fields req;
          fail = (\<lambda>code. buildResponse cfg (le_replyDate env) req (code OR ResultErrorMask) 0 [] [])
      in case ResolveUser username extraData rs of
           (rs', None) \<Rightarrow> (rs', st, Ok (fail ResultAuthTokenParseError))
         | (rs', Some (p, sourceKey)) \<Rightarrow>
             (rs', RememberAuthPID (le_recall env) remoteAddr p st,
              case issue_ticket cfg env p sourceKey of
                Panic \<Rightarrow> Panic
              | Fail \<Rightarrow> Ok (fail ResultAuthUnknown)
              | Ok ticket \<Rightarrow> Ok (buildResponse cfg (le_replyDate env) req ResultCoreUnknown p ticket sourceKey)))"

definition context_fields :: "rmc_message \<Rightarrow> string \<times> byte list" where
  "context_fields req =
     fst (run_state (in_U8 \<bind> (\<lambda>_. in_U32 \<bind> (\<lambda>_. in_U32 \<bind> (\<lambda>_. in_String \<bind> (\<lambda>u. in_ReadAll \<bind> (\<lambda>x. ret (u, x)))))))
       (NewStreamIn (rm_Body req)))"

definition context_response :: "AuthConfig \<Rightarrow> u64 \<Rightarrow> rmc_message \<Rightarrow> pid \<Rightarrow> byte list \<Rightarrow> byte list \<Rightarrow> rmc_message" where
  "context_response cfg now req p ticket sourceKey =
     (let s = ac_Settings cfg;
          body = out_PID s p @ out_Buffer ticket @ out_StationURL (orEmptyStation (ac_SecureStationURL cfg)) @ out_DateTime now @
                 out_String (ac_ServerName cfg) @ out_String (hex_EncodeToString sourceKey)
      in NewRMCSuccess s ProtocolTicketGranting (rm_Method req) (rm_CallID req) (out_U8 1 @ out_U32 (of_nat (length body)) @ body))"

definition handleLoginWithContext :: "'r resolver \<Rightarrow> AuthConfig \<Rightarrow> login_env \<Rightarrow> string \<Rightarrow> rmc_message \<Rightarrow> 'r \<Rightarrow> auth_state \<Rightarrow>
    'r \<times> auth_state \<times> rmc_message go_result" where
  "handleLoginWithContext ResolveUser cfg env remoteAddr req rs st =
     (let s = ac_Settings cfg; (username, extraData) = context_fields req;
          err = (\<lambda>code. NewRMCError s ProtocolTicketGranting (rm_CallID req) code)
      in case ResolveUser username extraData rs of
           (rs', None) \<Rightarrow> (rs', st, Ok (err ResultAuthTokenParseError))
         | (rs', Some (p, sourceKey)) \<Rightarrow>
             (rs', RememberAuthPID (le_recall env) remoteAddr p st,
              case issue_ticket cfg env p sourceKey of
                Panic \<Rightarrow> Panic
              | Fail \<Rightarrow> Ok (err ResultAuthUnknown)
              | Ok ticket \<Rightarrow> Ok (context_response cfg (le_replyDate env) req p ticket sourceKey)))"

definition AuthHandler :: "'r resolver \<Rightarrow> AuthConfig \<Rightarrow> login_env \<Rightarrow> string \<Rightarrow> rmc_message \<Rightarrow> 'r \<Rightarrow> auth_state \<Rightarrow>
    'r \<times> auth_state \<times> rmc_message go_result" where
  "AuthHandler ResolveUser cfg env remoteAddr req rs st =
     (if rm_Method req = MethodLogin \<or> rm_Method req = MethodLoginEx then handleLogin ResolveUser cfg env remoteAddr req rs st
      else if rm_Method req = MethodLoginWithContext then handleLoginWithContext ResolveUser cfg env remoteAddr req rs st
      else (rs, st, Ok (NewRMCError (ac_Settings cfg) ProtocolTicketGranting (rm_CallID req) ResultCoreNotImplemented)))"

section \<open>Who can be recalled\<close>

text \<open>
  The table together with its file and the log of the logins so far. The first use of the table
  reads the file as it is; a restart forgets the table and keeps the file. Of what the flusher writes, the file may lose
  entries, or give nothing at all; that the bytes of the file give all of it back is shown in \<^verbatim>\<open>Nex_Files\<close>.
\<close>

record recall_sys =
  rs_state :: auth_state
  rs_disk :: "(string, authRecallPersisted) gomap option"
  rs_log :: "(string \<times> pid \<times> gotime) list"

definition recall_start :: "recall_sys \<Rightarrow> bool" where
  "recall_start s \<longleftrightarrow> s = \<lparr>rs_state = empty_auth, rs_disk = None, rs_log = []\<rparr>"

inductive recall_step :: "recall_sys \<Rightarrow> recall_sys \<Rightarrow> bool" where
  step_remember: "re_saved env = rs_disk s \<Longrightarrow>
    recall_step s (s\<lparr>rs_state := RememberAuthPID env addr p (rs_state s), rs_log := (ipHost addr, p, re_now env) # rs_log s\<rparr>)"
| step_recall: "re_saved env = rs_disk s \<Longrightarrow> recall_step s (s\<lparr>rs_state := fst (RecallAuthPID env addr (rs_state s))\<rparr>)"
| step_flush: "authRecallFlusher now ord (rs_state s) = (st, Some out) \<Longrightarrow> (case d of None \<Rightarrow> True | Some m \<Rightarrow> set m \<subseteq> set out) \<Longrightarrow>
    recall_step s (s\<lparr>rs_state := st, rs_disk := (if written then d else rs_disk s)\<rparr>)"
| step_restart: "recall_step s (s\<lparr>rs_state := empty_auth\<rparr>)"

definition logged :: "(string \<times> pid \<times> gotime) list \<Rightarrow> string \<Rightarrow> pid \<Rightarrow> gotime \<Rightarrow> bool" where
  "logged lg ip p t0 \<longleftrightarrow> (\<exists>t. (ip, p, t) \<in> set lg \<and> t0 \<le> t)"

definition table_logged :: "(string \<times> pid \<times> gotime) list \<Rightarrow> (string, authRecall) gomap \<Rightarrow> bool" where
  "table_logged lg m \<longleftrightarrow> (\<forall>ip r. gm_get m ip = Some r \<longrightarrow> logged lg ip (ar_pid r) (ar_at r))"

definition disk_logged :: "(string \<times> pid \<times> gotime) list \<Rightarrow> (string, authRecallPersisted) gomap \<Rightarrow> bool" where
  "disk_logged lg m \<longleftrightarrow> (\<forall>(ip, r) \<in> set m. logged lg ip (ap_PID r) (ap_At r * 1000000000))"

definition recall_inv :: "recall_sys \<Rightarrow> bool" where
  "recall_inv s \<longleftrightarrow> table_logged (rs_log s) (as_table (rs_state s)) \<and>
     (case rs_disk s of None \<Rightarrow> True | Some m \<Rightarrow> disk_logged (rs_log s) m)"

lemma logged_Cons: "logged lg ip p t \<Longrightarrow> logged (e # lg) ip p t"
  by (auto simp: logged_def)

lemma table_logged_Nil [simp]: "table_logged lg []"
  by (simp add: table_logged_def)

lemma table_logged_put:
  "table_logged lg m \<Longrightarrow> logged lg ip (ar_pid r) (ar_at r) \<Longrightarrow> table_logged lg (gm_put ip r m)"
  by (simp add: table_logged_def)

lemma table_logged_del: "table_logged lg m \<Longrightarrow> table_logged lg (gm_del ip m)"
  by (auto simp: table_logged_def split: if_splits)

lemma table_logged_Cons: "table_logged lg m \<Longrightarrow> table_logged (e # lg) m"
  by (auto simp: table_logged_def intro: logged_Cons)

lemma disk_logged_Cons: "disk_logged lg m \<Longrightarrow> disk_logged (e # lg) m"
  by (auto simp: disk_logged_def intro: logged_Cons)

lemma table_logged_restore:
  "table_logged lg m \<Longrightarrow> disk_logged lg es \<Longrightarrow> table_logged lg (fold (restore_recall now) es m)"
proof (induction es arbitrary: m)
  case (Cons e es)
  have "table_logged lg (restore_recall now e m)"
    using Cons.prems by (auto simp: restore_recall_def Let_def disk_logged_def split: prod.split intro!: table_logged_put)
  then show ?case
    using Cons by (simp add: disk_logged_def)
qed simp

lemma table_logged_init:
  assumes "table_logged lg (as_table st)" and "case re_saved env of None \<Rightarrow> True | Some m \<Rightarrow> disk_logged lg m"
  shows "table_logged lg (as_table (authRecallInit env st))"
  using assms by (auto simp: authRecallInit_def Let_def table_logged_restore split: option.splits)

lemma gm_put_subset: "e \<in> set (gm_put k v m) \<Longrightarrow> e = (k, v) \<or> e \<in> set m"
  by (induction m) (auto split: if_splits)

lemma flush_entry_logged:
  assumes "table_logged lg (fst acc)" and "disk_logged lg (snd acc)"
  shows "table_logged lg (fst (flush_entry now ip acc)) \<and> disk_logged lg (snd (flush_entry now ip acc))"
proof (cases "gm_get (fst acc) ip")
  case None
  then show ?thesis using assms by (simp add: flush_entry_def split_beta)
next
  case (Some r)
  then have "logged lg ip (ar_pid r) (ar_at r)"
    using assms(1) by (simp add: table_logged_def)
  moreover have "ar_at r div 1000000000 * 1000000000 \<le> ar_at r"
    using div_mult_mod_eq [of "ar_at r" 1000000000] pos_mod_sign [of 1000000000 "ar_at r"] by linarith
  ultimately have "logged lg ip (ar_pid r) (ar_at r div 1000000000 * 1000000000)"
    unfolding logged_def by (meson order_trans)
  then show ?thesis
    using assms Some
    by (auto simp: flush_entry_def split_beta Let_def disk_logged_def intro: table_logged_del dest!: gm_put_subset split: if_splits)
qed

lemma fold_flush_logged:
  "table_logged lg (fst acc) \<Longrightarrow> disk_logged lg (snd acc) \<Longrightarrow>
   table_logged lg (fst (fold (flush_entry now) ord acc)) \<and> disk_logged lg (snd (fold (flush_entry now) ord acc))"
proof (induction ord arbitrary: acc)
  case (Cons ip ord)
  then show ?case
    using flush_entry_logged [OF Cons.prems, of now ip] by simp
qed simp

lemma recall_step_inv:
  assumes "recall_inv s" and "recall_step s s'"
  shows "recall_inv s'"
  using assms(2,1)
proof (cases rule: recall_step.cases)
  case (step_remember env addr p)
  have "table_logged (rs_log s) (as_table (authRecallInit env (rs_state s)))"
    using assms(1) step_remember by (intro table_logged_init) (simp_all add: recall_inv_def)
  then have "table_logged ((ipHost addr, p, re_now env) # rs_log s) (as_table (RememberAuthPID env addr p (rs_state s)))"
    by (auto simp: RememberAuthPID_def Let_def logged_def intro!: table_logged_put [OF table_logged_Cons])
  then show ?thesis
    using assms(1) step_remember by (auto simp: recall_inv_def intro: disk_logged_Cons split: option.splits)
next
  case (step_recall env addr)
  have "table_logged (rs_log s) (as_table (authRecallInit env (rs_state s)))"
    using assms(1) step_recall by (intro table_logged_init) (simp_all add: recall_inv_def)
  then show ?thesis
    using assms(1) step_recall
    by (auto simp: recall_inv_def RecallAuthPID_def Let_def intro: table_logged_del split: option.splits)
next
  case (step_flush now ord st out d written)
  have "table_logged (rs_log s) (as_table st) \<and> disk_logged (rs_log s) out"
    using assms(1) step_flush(2) fold_flush_logged [of "rs_log s" "(as_table (rs_state s), [])" now ord]
    by (auto simp: recall_inv_def authRecallFlusher_def disk_logged_def split: if_splits prod.splits)
  moreover have "disk_logged (rs_log s) m" if "d = Some m" "disk_logged (rs_log s) out" for m
    using that step_flush(3) by (auto simp: disk_logged_def)
  ultimately show ?thesis
    using assms(1) step_flush by (auto simp: recall_inv_def split: option.splits)
next
  case step_restart
  then show ?thesis
    using assms(1) by (simp add: recall_inv_def empty_auth_def split: option.splits)
qed

interpretation recall: inductive_invariant recall_start recall_step recall_inv
proof
  show "recall_inv s" if "recall_start s" for s
    using that by (simp add: recall_start_def recall_inv_def empty_auth_def)
qed (rule recall_step_inv)

lemma recalled_logged:
  assumes "recall_inv s" and "re_saved env = rs_disk s" and got: "snd (RecallAuthPID env addr (rs_state s)) = Some p"
  shows "\<exists>t. (ipHost addr, p, t) \<in> set (rs_log s) \<and> p \<noteq> 0 \<and> re_now env - t \<le> authRecallTTL"
proof -
  have lg: "table_logged (rs_log s) (as_table (authRecallInit env (rs_state s)))"
    using assms(1,2) by (intro table_logged_init) (simp_all add: recall_inv_def)
  from got obtain r where r: "gm_get (as_table (authRecallInit env (rs_state s))) (ipHost addr) = Some r"
    "ar_pid r = p" "p \<noteq> 0" "re_now env - ar_at r \<le> authRecallTTL"
    by (auto simp: RecallAuthPID_def Let_def split: option.splits if_splits)
  with lg obtain t where "(ipHost addr, p, t) \<in> set (rs_log s)" "ar_at r \<le> t"
    by (auto simp: table_logged_def logged_def)
  with r(3,4) show ?thesis
    by force
qed

text \<open>
  C27: a connection without a ticket inherits an identity only from its own address. Whatever logins,
  recalls, flushes and restarts came before, a recall that yields an account finds a login of that
  account from the same host at most 24 hours ago; and a login is recalled from its host for that
  long.
\<close>

theorem recall_same_host:
  assumes "reach recall_start recall_step s" and "re_saved env = rs_disk s" and "re_saved env' = rs_disk s"
  shows "(snd (RecallAuthPID env addr (rs_state s)) = Some p \<longrightarrow>
      (\<exists>t. (ipHost addr, p, t) \<in> set (rs_log s) \<and> p \<noteq> 0 \<and> re_now env - t \<le> authRecallTTL)) \<and>
    (q \<noteq> 0 \<and> ipHost addr = ipHost addr' \<and> re_now env - re_now env' \<le> authRecallTTL \<longrightarrow>
      snd (RecallAuthPID env addr (RememberAuthPID env' addr' q (rs_state s))) = Some q)"
proof (intro conjI impI)
  assume "snd (RecallAuthPID env addr (rs_state s)) = Some p"
  then show "\<exists>t. (ipHost addr, p, t) \<in> set (rs_log s) \<and> p \<noteq> 0 \<and> re_now env - t \<le> authRecallTTL"
    by (rule recalled_logged [OF recall.reachable_inv [OF assms(1)] assms(2)])
next
  have once: "as_once (authRecallInit e st)" for e st
    by (simp add: authRecallInit_def Let_def split: option.split)
  assume "q \<noteq> 0 \<and> ipHost addr = ipHost addr' \<and> re_now env - re_now env' \<le> authRecallTTL"
  then show "snd (RecallAuthPID env addr (RememberAuthPID env' addr' q (rs_state s))) = Some q"
    by (simp add: RecallAuthPID_def RememberAuthPID_def Let_def authRecallInit_def [of env] once)
qed

definition recall_env_at :: "gotime \<Rightarrow> recall_env" where
  "recall_env_at now = \<lparr>re_file = [], re_saved = None, re_load_now = (\<lambda>_. now), re_now = now\<rparr>"

definition one_login :: recall_sys where
  "one_login = \<lparr>rs_state = RememberAuthPID (recall_env_at 5) ''10.0.0.1:4000'' 7 empty_auth, rs_disk = None,
     rs_log = [(ipHost ''10.0.0.1:4000'', 7, 5)]\<rparr>"

lemma recall_env_at_simps [simp]: "re_saved (recall_env_at t) = None" "re_now (recall_env_at t) = t" "re_file (recall_env_at t) = []"
  by (simp_all add: recall_env_at_def)

lemma reach_one_login: "reach recall_start recall_step one_login"
proof -
  let ?s = "\<lparr>rs_state = empty_auth, rs_disk = None, rs_log = []\<rparr>"
  have "reach recall_start recall_step ?s"
    by (rule reach_init) (simp add: recall_start_def)
  moreover have "recall_step ?s one_login"
    using step_remember [of "recall_env_at 5" ?s "''10.0.0.1:4000''" 7] by (simp add: one_login_def)
  ultimately show ?thesis
    by (rule reach_step)
qed

theorem recall_same_host_witness:
  "(\<exists>t. (ipHost ''10.0.0.1:5000'', 7, t) \<in> set (rs_log one_login) \<and> 9 - t \<le> authRecallTTL) \<and>
   snd (RecallAuthPID (recall_env_at 9) ''10.0.0.1:5000'' (rs_state one_login)) = Some 7"
proof -
  have host: "ipHost ''10.0.0.1:5000'' = ipHost ''10.0.0.1:4000''"
    by code_simp
  have "snd (RecallAuthPID (recall_env_at 9) ''10.0.0.1:5000'' (rs_state one_login)) = Some 7"
    by (simp add: RecallAuthPID_def one_login_def RememberAuthPID_def authRecallInit_def Let_def empty_auth_def host authRecallTTL_def)
  with recall_same_host [OF reach_one_login, of "recall_env_at 9" "recall_env_at 9" "''10.0.0.1:5000''" 7] show ?thesis
    by (simp add: one_login_def)
qed

end
