(* ===== verification/Nex_Json.thy ===== *)
theory Nex_Json
  imports Nex_Net "HOL-Library.Char_ord" "HOL-Library.List_Lexorder"
begin

text \<open>
  What \<open>encoding/json\<close> does with the values of this program: parsing a text, printing a value, and decoding the members of
  an object into the fields of a structure. What is printed is parsed back, whatever the strings hold, as long as they are
  valid UTF-8; a number is kept as it is written.

  The fuel of the parser is twice the length of the input plus two: of two successive calls at least one consumes a
  byte, so the fuel does not run out before the input.
\<close>

section \<open>Values\<close>

datatype json = JNull | JBool bool | JNumber string | JString string | JArray "json list" | JObject "(string \<times> json) list"

definition json_space :: "char \<Rightarrow> bool" where
  "json_space c \<longleftrightarrow> c = CHR '' '' \<or> c = CHR 0x09 \<or> c = CHR 0x0A \<or> c = CHR 0x0D"

definition skip_space :: "string \<Rightarrow> string" where
  "skip_space s = dropWhile json_space s"

section \<open>Strings\<close>

definition code_of :: "char \<Rightarrow> nat" where
  "code_of c = of_char c"

definition is_cont :: "nat \<Rightarrow> nat \<Rightarrow> string \<Rightarrow> bool" where
  "is_cont lo hi s \<longleftrightarrow> s \<noteq> [] \<and> lo \<le> code_of (hd s) \<and> code_of (hd s) \<le> hi"

text \<open>
  What the first byte of a UTF-8 sequence says: its number of bytes, 0 for a byte that starts none, and the range of
  the second one. The size of the sequence at the front of a text is 0 when it is not valid.
\<close>

definition utf8_lead :: "nat \<Rightarrow> nat \<times> nat \<times> nat" where
  "utf8_lead b =
     (if b < 0x80 then (1, 0, 0)
      else if b < 0xC2 then (0, 0, 0)
      else if b < 0xE0 then (2, 0x80, 0xBF)
      else if b < 0xF0 then (3, if b = 0xE0 then 0xA0 else 0x80, if b = 0xED then 0x9F else 0xBF)
      else if b < 0xF5 then (4, if b = 0xF0 then 0x90 else 0x80, if b = 0xF4 then 0x8F else 0xBF)
      else (0, 0, 0))"

definition utf8_size :: "string \<Rightarrow> nat" where
  "utf8_size s =
     (if s = [] then 0
      else
        let (n, lo, hi) = utf8_lead (code_of (hd s))
        in if (n \<le> 1 \<or> is_cont lo hi (drop 1 s)) \<and> (n \<le> 2 \<or> is_cont 0x80 0xBF (drop 2 s)) \<and> (n \<le> 3 \<or> is_cont 0x80 0xBF (drop 3 s))
           then n else 0)"

definition utf8_encode :: "nat \<Rightarrow> string" where
  "utf8_encode n =
     map char_of
       (if n < 0x80 then [n]
        else if n < 0x800 then [0xC0 + n div 64, 0x80 + n mod 64]
        else if n < 0x10000 then [0xE0 + n div 4096, 0x80 + n div 64 mod 64, 0x80 + n mod 64]
        else [0xF0 + n div 262144, 0x80 + n div 4096 mod 64, 0x80 + n div 64 mod 64, 0x80 + n mod 64])"

definition replacement_char :: string where
  "replacement_char = [CHR 0xEF, CHR 0xBF, CHR 0xBD]"

definition hex4 :: "string \<Rightarrow> nat option" where
  "hex4 s =
     (case map hex_val (take 4 s) of
        [Some a, Some b, Some c, Some d] \<Rightarrow> Some (((a * 16 + b) * 16 + c) * 16 + d)
      | _ \<Rightarrow> None)"

text \<open>
  A code unit of an escape sequence followed by the text \<open>rest\<close>: the bytes it stands for and how many
  characters of \<open>rest\<close> belong to it.
\<close>

definition unit_bytes :: "nat \<Rightarrow> string \<Rightarrow> string \<times> nat" where
  "unit_bytes u rest =
     (if u < 0xD800 \<or> 0xDFFF < u then (utf8_encode u, 0)
      else case (if take 2 rest = [CHR 0x5C, CHR ''u''] then hex4 (drop 2 rest) else None) of
             Some v \<Rightarrow>
               if u < 0xDC00 \<and> 0xDC00 \<le> v \<and> v \<le> 0xDFFF
               then (utf8_encode ((u - 0xD800) * 1024 + (v - 0xDC00) + 0x10000), 6)
               else (replacement_char, 0)
           | None \<Rightarrow> (replacement_char, 0))"

definition simple_escape :: "char \<Rightarrow> char option" where
  "simple_escape e =
     map_of [(CHR 0x22, CHR 0x22), (CHR 0x5C, CHR 0x5C), (CHR ''/'', CHR ''/''), (CHR ''b'', CHR 0x08), (CHR ''f'', CHR 0x0C),
             (CHR ''n'', CHR 0x0A), (CHR ''r'', CHR 0x0D), (CHR ''t'', CHR 0x09)] e"

text \<open>The text behind an opening quote: the string and what follows its closing quote.\<close>

function json_string :: "string \<Rightarrow> (string \<times> string) option" where
  "json_string [] = None"
| "json_string (c # cs) =
     (if c = CHR 0x22 then Some ([], cs)
      else if c = CHR 0x5C then
        (case cs of
           [] \<Rightarrow> None
         | e # es \<Rightarrow>
             if e = CHR ''u'' then
               (case hex4 es of
                  None \<Rightarrow> None
                | Some u \<Rightarrow> (let (bs, n) = unit_bytes u (drop 4 es)
                            in map_option (\<lambda>(str, rest). (bs @ str, rest)) (json_string (drop (4 + n) es))))
             else
               (case simple_escape e of
                  None \<Rightarrow> None
                | Some d \<Rightarrow> map_option (\<lambda>(str, rest). (d # str, rest)) (json_string es)))
      else if code_of c < 0x20 then None
      else
        let n = utf8_size (c # cs)
        in if n = 0 then map_option (\<lambda>(str, rest). (replacement_char @ str, rest)) (json_string cs)
           else map_option (\<lambda>(str, rest). (take n (c # cs) @ str, rest)) (json_string (drop (n - 1) cs)))"
  by pat_completeness auto
termination by (relation "measure length") auto

section \<open>Numbers and words\<close>

definition skip_digits :: "string \<Rightarrow> string option" where
  "skip_digits s = (if s = [] \<or> \<not> is_digit (hd s) then None else Some (dropWhile is_digit s))"

definition skip_int :: "string \<Rightarrow> string option" where
  "skip_int s = (if s \<noteq> [] \<and> hd s = CHR ''0'' then Some (tl s) else skip_digits s)"

definition skip_frac :: "string \<Rightarrow> string option" where
  "skip_frac s = (if s \<noteq> [] \<and> hd s = CHR ''.'' then skip_digits (tl s) else Some s)"

definition skip_exp :: "string \<Rightarrow> string option" where
  "skip_exp s =
     (if s \<noteq> [] \<and> (hd s = CHR ''e'' \<or> hd s = CHR ''E'') then
        (let r = tl s in skip_digits (if r \<noteq> [] \<and> (hd r = CHR ''+'' \<or> hd r = CHR ''-'') then tl r else r))
      else Some s)"

definition skip_number :: "string \<Rightarrow> string option" where
  "skip_number s =
     Option.bind (Option.bind (skip_int (if s \<noteq> [] \<and> hd s = CHR ''-'' then tl s else s)) skip_frac) skip_exp"

section \<open>Parsing a value\<close>

definition max_nesting :: nat where "max_nesting = 10000"

fun json_value :: "nat \<Rightarrow> nat \<Rightarrow> string \<Rightarrow> (json \<times> string) option"
and json_members :: "nat \<Rightarrow> nat \<Rightarrow> string \<Rightarrow> ((string \<times> json) list \<times> string) option"
and json_elements :: "nat \<Rightarrow> nat \<Rightarrow> string \<Rightarrow> (json list \<times> string) option" where
  "json_value 0 d s = None"
| "json_value (Suc fuel) d s =
     (case skip_space s of
        [] \<Rightarrow> None
      | c # cs \<Rightarrow>
          if c = CHR 0x22 then map_option (\<lambda>(str, rest). (JString str, rest)) (json_string cs)
          else if c = CHR ''{'' then
            (if d \<ge> max_nesting then None
             else if starts_with ''}'' (skip_space cs) then Some (JObject [], tl (skip_space cs))
             else map_option (\<lambda>(ms, rest). (JObject ms, rest)) (json_members fuel (Suc d) cs))
          else if c = CHR ''['' then
            (if d \<ge> max_nesting then None
             else if starts_with '']'' (skip_space cs) then Some (JArray [], tl (skip_space cs))
             else map_option (\<lambda>(vs, rest). (JArray vs, rest)) (json_elements fuel (Suc d) cs))
          else if starts_with ''null'' (c # cs) then Some (JNull, drop 4 (c # cs))
          else if starts_with ''true'' (c # cs) then Some (JBool True, drop 4 (c # cs))
          else if starts_with ''false'' (c # cs) then Some (JBool False, drop 5 (c # cs))
          else map_option (\<lambda>rest. (JNumber (take (Suc (length cs) - length rest) (c # cs)), rest)) (skip_number (c # cs)))"
| "json_members 0 d s = None"
| "json_members (Suc fuel) d s =
     (case skip_space s of
        [] \<Rightarrow> None
      | c # cs \<Rightarrow>
          if c \<noteq> CHR 0x22 then None
          else
            case json_string cs of
              None \<Rightarrow> None
            | Some (key, r1) \<Rightarrow>
                if \<not> starts_with '':'' (skip_space r1) then None
                else
                  case json_value fuel d (tl (skip_space r1)) of
                    None \<Rightarrow> None
                  | Some (v, r2) \<Rightarrow>
                      (case skip_space r2 of
                         [] \<Rightarrow> None
                       | e # r3 \<Rightarrow>
                           if e = CHR ''}'' then Some ([(key, v)], r3)
                           else if e = CHR '','' then
                             map_option (\<lambda>(ms, rest). ((key, v) # ms, rest)) (json_members fuel d r3)
                           else None))"
| "json_elements 0 d s = None"
| "json_elements (Suc fuel) d s =
     (case json_value fuel d s of
        None \<Rightarrow> None
      | Some (v, r) \<Rightarrow>
          (case skip_space r of
             [] \<Rightarrow> None
           | e # r' \<Rightarrow>
               if e = CHR '']'' then Some ([v], r')
               else if e = CHR '','' then map_option (\<lambda>(vs, rest). (v # vs, rest)) (json_elements fuel d r')
               else None))"

definition json_parse :: "string \<Rightarrow> json option" where
  "json_parse s =
     (case json_value (2 * length s + 2) 0 s of
        None \<Rightarrow> None
      | Some (v, rest) \<Rightarrow> if skip_space rest = [] then Some v else None)"

text \<open>What a \<open>Decoder\<close> reads from a stream: its first value, whatever follows.\<close>

definition decode_body :: "string \<Rightarrow> json option" where
  "decode_body s = map_option fst (json_value (2 * length s + 2) 0 s)"

section \<open>Decoding into a structure\<close>

definition lower :: "char \<Rightarrow> char" where
  "lower c = (if 65 \<le> code_of c \<and> code_of c \<le> 90 then char_of (code_of c + 32) else c)"

text \<open>
  Names of members and fields match without regard to case. Beside the capital letters, the Kelvin sign folds to
  \<open>k\<close> and the long s to \<open>s\<close>.
\<close>

function fold_name :: "string \<Rightarrow> string" where
  "fold_name [] = []"
| "fold_name (c # cs) =
     (if starts_with [CHR 0xE2, CHR 0x84, CHR 0xAA] (c # cs) then CHR ''k'' # fold_name (drop 2 cs)
      else if starts_with [CHR 0xC5, CHR 0xBF] (c # cs) then CHR ''s'' # fold_name (drop 1 cs)
      else lower c # fold_name cs)"
  by pat_completeness auto
termination by (relation "measure length") auto

text \<open>
  The value of one field after all members of the object: each member of its name is decoded over the value so far. Go goes on
  after a value of the wrong kind and reports the error at the end; the results of such a call are not used, so that an
  error is None here.
\<close>

fun field :: "string \<Rightarrow> ('a \<Rightarrow> json \<Rightarrow> 'a option) \<Rightarrow> (string \<times> json) list \<Rightarrow> 'a \<Rightarrow> 'a option" where
  "field name dec [] x = Some x"
| "field name dec ((key, j) # ms) x = (if fold_name key = name then Option.bind (dec x j) (field name dec ms) else field name dec ms x)"

definition dec_string :: "string \<Rightarrow> json \<Rightarrow> string option" where
  "dec_string x j = (case j of JNull \<Rightarrow> Some x | JString str \<Rightarrow> Some str | _ \<Rightarrow> None)"

definition dec_bool :: "bool \<Rightarrow> json \<Rightarrow> bool option" where
  "dec_bool x j = (case j of JNull \<Rightarrow> Some x | JBool b \<Rightarrow> Some b | _ \<Rightarrow> None)"

definition dec_u64 :: "u64 \<Rightarrow> json \<Rightarrow> u64 option" where
  "dec_u64 x j = (case j of JNull \<Rightarrow> Some x | JNumber n \<Rightarrow> ParseUint n | _ \<Rightarrow> None)"

definition dec_u32 :: "u32 \<Rightarrow> json \<Rightarrow> u32 option" where
  "dec_u32 x j =
     (case j of
        JNull \<Rightarrow> Some x
      | JNumber n \<Rightarrow> (case ParseUint n of Some v \<Rightarrow> if v < 2 ^ 32 then Some (ucast v) else None | None \<Rightarrow> None)
      | _ \<Rightarrow> None)"

definition dec_u8 :: "byte \<Rightarrow> json \<Rightarrow> byte option" where
  "dec_u8 x j =
     (case j of
        JNull \<Rightarrow> Some x
      | JNumber n \<Rightarrow> (case ParseUint n of Some v \<Rightarrow> if v < 2 ^ 8 then Some (ucast v) else None | None \<Rightarrow> None)
      | _ \<Rightarrow> None)"

definition dec_i64 :: "int \<Rightarrow> json \<Rightarrow> int option" where
  "dec_i64 x j = (case j of JNull \<Rightarrow> Some x | JNumber n \<Rightarrow> (case Atoi n of (v, ok) \<Rightarrow> if ok then Some v else None) | _ \<Rightarrow> None)"

text \<open>
  A slice is decoded in place: the state is its backing array, as far as it was written, and its length. An element null
  leaves what the cell held before, which a longer value of an earlier member of the same name may have left there.
\<close>

fun dec_cells :: "('a \<Rightarrow> json \<Rightarrow> 'a option) \<Rightarrow> 'a \<Rightarrow> json list \<Rightarrow> 'a list \<Rightarrow> 'a list option" where
  "dec_cells dec zero [] cells = Some cells"
| "dec_cells dec zero (j # js) [] = Option.bind (dec zero j) (\<lambda>x. map_option ((#) x) (dec_cells dec zero js []))"
| "dec_cells dec zero (j # js) (c # cells) = Option.bind (dec c j) (\<lambda>x. map_option ((#) x) (dec_cells dec zero js cells))"

definition dec_slice :: "('a \<Rightarrow> json \<Rightarrow> 'a option) \<Rightarrow> 'a \<Rightarrow> 'a list \<times> nat \<Rightarrow> json \<Rightarrow> ('a list \<times> nat) option" where
  "dec_slice dec zero sl j =
     (case j of
        JNull \<Rightarrow> Some ([], 0)
      | JArray [] \<Rightarrow> Some ([], 0)
      | JArray js \<Rightarrow> map_option (\<lambda>cells. (cells, length js)) (dec_cells dec zero js (fst sl))
      | _ \<Rightarrow> None)"

definition slice_field :: "string \<Rightarrow> ('a list \<times> nat \<Rightarrow> json \<Rightarrow> ('a list \<times> nat) option) \<Rightarrow> (string \<times> json) list \<Rightarrow> 'a list option" where
  "slice_field name dec ms = map_option (\<lambda>(cells, n). take n cells) (field name dec ms ([], 0))"

text \<open>Decoding a whole text into a structure: null leaves its fields zero.\<close>

definition dec_struct :: "((string \<times> json) list \<Rightarrow> 'a option) \<Rightarrow> 'a \<Rightarrow> json \<Rightarrow> 'a option" where
  "dec_struct flds x j = (case j of JNull \<Rightarrow> Some x | JObject ms \<Rightarrow> flds ms | _ \<Rightarrow> None)"

text \<open>
  Decoding into a fresh map, where a later member replaces an earlier one of the same name, and into a fresh slice; null is the
  empty map or slice.
\<close>

fun dec_members :: "(json \<Rightarrow> 'a option) \<Rightarrow> (string \<times> json) list \<Rightarrow> (string, 'a) gomap \<Rightarrow> (string, 'a) gomap option" where
  "dec_members dec [] m = Some m"
| "dec_members dec ((key, j) # ms) m = Option.bind (dec j) (\<lambda>x. dec_members dec ms (gm_put key x m))"

definition dec_map :: "(json \<Rightarrow> 'a option) \<Rightarrow> json \<Rightarrow> (string, 'a) gomap option" where
  "dec_map dec j = (case j of JNull \<Rightarrow> Some [] | JObject ms \<Rightarrow> dec_members dec ms [] | _ \<Rightarrow> None)"

fun dec_elements :: "(json \<Rightarrow> 'a option) \<Rightarrow> json list \<Rightarrow> 'a list option" where
  "dec_elements dec [] = Some []"
| "dec_elements dec (j # js) = Option.bind (dec j) (\<lambda>x. map_option ((#) x) (dec_elements dec js))"

definition dec_list :: "(json \<Rightarrow> 'a option) \<Rightarrow> json \<Rightarrow> 'a list option" where
  "dec_list dec j = (case j of JNull \<Rightarrow> Some [] | JArray js \<Rightarrow> dec_elements dec js | _ \<Rightarrow> None)"

definition unmarshal_field :: "string \<Rightarrow> string \<Rightarrow> string option" where
  "unmarshal_field name payload = Option.bind (json_parse payload) (dec_struct (\<lambda>ms. field name dec_string ms []) [])"

section \<open>Printing\<close>

definition short_escape :: "char \<Rightarrow> char option" where
  "short_escape c =
     map_of [(CHR 0x22, CHR 0x22), (CHR 0x5C, CHR 0x5C), (CHR 0x08, CHR ''b''), (CHR 0x0C, CHR ''f''), (CHR 0x0A, CHR ''n''),
             (CHR 0x0D, CHR ''r''), (CHR 0x09, CHR ''t'')] c"

definition escape_char :: "char \<Rightarrow> string" where
  "escape_char c =
     (case short_escape c of
        Some e \<Rightarrow> [CHR 0x5C, e]
      | None \<Rightarrow>
          if code_of c < 0x20 \<or> c \<in> set ''<>&''
          then [CHR 0x5C] @ ''u00'' @ [hex_char (code_of c div 16), hex_char (code_of c mod 16)]
          else [c])"

function json_escape :: "string \<Rightarrow> string" where
  "json_escape [] = []"
| "json_escape (c # cs) =
     (if code_of c < 0x80 then escape_char c @ json_escape cs
      else
        let n = utf8_size (c # cs)
        in if n = 0 then [CHR 0x5C] @ ''ufffd'' @ json_escape cs
           else if take n (c # cs) = [CHR 0xE2, CHR 0x80, CHR 0xA8] then [CHR 0x5C] @ ''u2028'' @ json_escape (drop (n - 1) cs)
           else if take n (c # cs) = [CHR 0xE2, CHR 0x80, CHR 0xA9] then [CHR 0x5C] @ ''u2029'' @ json_escape (drop (n - 1) cs)
           else take n (c # cs) @ json_escape (drop (n - 1) cs))"
  by pat_completeness auto
termination by (relation "measure length") auto

definition json_quote :: "string \<Rightarrow> string" where
  "json_quote s = [CHR 0x22] @ json_escape s @ [CHR 0x22]"

fun json_print :: "json \<Rightarrow> string" where
  "json_print JNull = ''null''"
| "json_print (JBool b) = (if b then ''true'' else ''false'')"
| "json_print (JNumber n) = n"
| "json_print (JString s) = json_quote s"
| "json_print (JArray vs) = ''['' @ str_join '','' (map json_print vs) @ '']''"
| "json_print (JObject ms) = ''{'' @ str_join '','' (map (\<lambda>(k, v). json_quote k @ '':'' @ json_print v) ms) @ ''}''"

text \<open>Numbers and maps as \<open>json.Marshal\<close> writes them: the members of a map are sorted by name.\<close>

definition enc_uint :: "'a :: len word \<Rightarrow> json" where
  "enc_uint x = JNumber (nat_str (unat x))"

definition enc_int :: "int \<Rightarrow> json" where
  "enc_int i = JNumber (Itoa i)"

definition enc_map :: "('a \<Rightarrow> json) \<Rightarrow> (string, 'a) gomap \<Rightarrow> json" where
  "enc_map enc m = JObject (map (\<lambda>(k, x). (k, enc x)) (sort_key fst m))"

section \<open>What is printed is parsed back\<close>

subsection \<open>Strings\<close>

text \<open>The string with every byte that is not part of valid UTF-8 replaced by U+FFFD.\<close>

function to_valid :: "string \<Rightarrow> string" where
  "to_valid [] = []"
| "to_valid (c # cs) =
     (let n = utf8_size (c # cs)
      in if n = 0 then replacement_char @ to_valid cs else take n (c # cs) @ to_valid (drop (n - 1) cs))"
  by pat_completeness auto
termination by (relation "measure length") auto

lemma is_cont_length: "is_cont lo hi (drop k s) \<Longrightarrow> k < length s"
  by (simp add: is_cont_def)

lemma is_cont_prefix: "k < n \<Longrightarrow> n \<le> length s \<Longrightarrow> is_cont lo hi (drop k (take n s @ t)) = is_cont lo hi (drop k s)"
  by (simp add: is_cont_def hd_drop_conv_nth nth_append)

text \<open>The size looks at no byte behind the sequence.\<close>

lemma utf8_lead_le: "fst (utf8_lead b) \<le> 4"
  by (simp add: utf8_lead_def)

lemma utf8_size_le: "utf8_size s \<le> length s"
proof -
  obtain n lo hi where lead: "utf8_lead (code_of (hd s)) = (n, lo, hi)"
    by (cases "utf8_lead (code_of (hd s))")
  moreover have "n \<in> {0, 1, 2, 3, 4}"
    using utf8_lead_le [of "code_of (hd s)"] lead by auto
  ultimately show ?thesis
    using is_cont_length [of lo hi 1 s] is_cont_length [of 128 191 2 s] is_cont_length [of 128 191 3 s]
    by (cases "s = []") (auto simp: utf8_size_def Suc_le_eq)
qed

lemma utf8_size_ascii: "code_of c < 0x80 \<Longrightarrow> utf8_size (c # cs) = 1"
  by (simp add: utf8_size_def utf8_lead_def)

lemma utf8_size_prefix:
  assumes "utf8_size s = n" and "0 < n"
  shows "utf8_size (take n s @ t) = n"
proof -
  have le: "n \<le> length s" and s: "s \<noteq> []"
    using utf8_size_le [of s] assms by auto
  then have hd: "hd (take n s @ t) = hd s" "take n s @ t \<noteq> []"
    using assms(2) by (cases s; cases n; simp)+
  have c: "is_cont lo hi (drop k (take n s @ t)) = is_cont lo hi (drop k s)" if "k < n" for k lo hi
    using that le by (rule is_cont_prefix)
  obtain m lo hi where lead: "utf8_lead (code_of (hd s)) = (m, lo, hi)"
    by (cases "utf8_lead (code_of (hd s))")
  moreover from this assms have "m = n"
    by (simp add: utf8_size_def split: if_splits)
  moreover have "m \<in> {0, 1, 2, 3, 4}"
    using utf8_lead_le [of "code_of (hd s)"] lead by auto
  ultimately show ?thesis
    using assms hd s c [of 1 lo hi] c [of 2 128 191] c [of 3 128 191] unfolding utf8_size_def
    by (auto simp del: drop_append take_append split: if_splits)
qed

lemma char_of_code [simp]: "char_of (code_of c) = c"
  by (simp add: code_of_def)

lemma hex4_escape:
  assumes "n < 256"
  shows "hex4 (CHR ''0'' # CHR ''0'' # hex_char (n div 16) # hex_char (n mod 16) # r) = Some n"
proof -
  have "hex_val CHR ''0'' = Some 0" "n div 16 < 16"
    using assms by (simp_all add: hex_val_def less_mult_imp_div_less)
  then show ?thesis
    by (simp add: hex4_def hex_val_hex_char)
qed

lemma json_string_unit:
  assumes "hex4 (take 4 es) = Some u" and "u < 0xD800 \<or> 0xDFFF < u" and "4 \<le> length es"
  shows "json_string (CHR 0x5C # CHR ''u'' # es) = map_option (\<lambda>(str, rest). (utf8_encode u @ str, rest)) (json_string (drop 4 es))"
  using assms by (simp add: hex4_def unit_bytes_def min_def)

lemma json_string_plain:
  assumes "c \<noteq> CHR 0x22" and "c \<noteq> CHR 0x5C" and "\<not> code_of c < 0x20" and "utf8_size (c # cs) = Suc n"
  shows "json_string (c # cs) = map_option (\<lambda>(str, rest). (c # take n cs @ str, rest)) (json_string (drop n cs))"
  using assms by (simp add: Let_def)

lemma short_escape_read: "short_escape c = Some e \<Longrightarrow> simple_escape e = Some c \<and> e \<noteq> CHR ''u''"
  by (auto simp: short_escape_def simple_escape_def split: if_splits)

lemma json_string_escaped:
  "simple_escape e = Some c \<Longrightarrow> e \<noteq> CHR ''u'' \<Longrightarrow>
   json_string (CHR 0x5C # e # r) = map_option (\<lambda>(str, rest). (c # str, rest)) (json_string r)"
  by simp

lemma escape_char_read:
  assumes "code_of c < 0x80"
  shows "json_string (escape_char c @ r) = map_option (\<lambda>(str, rest). (c # str, rest)) (json_string r)"
proof (cases "short_escape c")
  case (Some e)
  then show ?thesis
    using short_escape_read [OF Some] by (simp add: escape_char_def json_string_escaped del: json_string.simps)
next
  case None
  then have plain: "c \<noteq> CHR 0x22" "c \<noteq> CHR 0x5C"
    by (auto simp: short_escape_def)
  show ?thesis
  proof (cases "code_of c < 0x20 \<or> c \<in> set ''<>&''")
    case True
    have "utf8_encode (code_of c) = [c]"
      using assms by (simp add: utf8_encode_def)
    then show ?thesis
      using assms hex4_escape [of "code_of c" "[]"] True None by (simp only: escape_char_def option.case if_True) (simp add: json_string_unit del: json_string.simps)
  next
    case False
    then show ?thesis
      using utf8_size_ascii [OF assms, of r] None plain
      by (simp only: escape_char_def option.case if_False) (simp add: json_string_plain del: json_string.simps)
  qed
qed


lemma escaped_units:
  "utf8_encode 0xFFFD = replacement_char" "utf8_encode 0x2028 = [CHR 0xE2, CHR 0x80, CHR 0xA8]" "utf8_encode 0x2029 = [CHR 0xE2, CHR 0x80, CHR 0xA9]"
  "hex4 ''fffd'' = Some 0xFFFD" "hex4 ''2028'' = Some 0x2028" "hex4 ''2029'' = Some 0x2029"
proof -
  have "char_of (239 :: nat) = CHR 0xEF \<and> char_of (191 :: nat) = CHR 0xBF \<and> char_of (189 :: nat) = CHR 0xBD \<and> char_of (226 :: nat) = CHR 0xE2 \<and>
      char_of (128 :: nat) = CHR 0x80 \<and> char_of (168 :: nat) = CHR 0xA8 \<and> char_of (169 :: nat) = CHR 0xA9"
    by code_simp
  then show "utf8_encode 0xFFFD = replacement_char" "utf8_encode 0x2028 = [CHR 0xE2, CHR 0x80, CHR 0xA8]" "utf8_encode 0x2029 = [CHR 0xE2, CHR 0x80, CHR 0xA9]"
    by (simp_all add: utf8_encode_def replacement_char_def)
qed (simp_all add: hex4_def hex_val_def)

text \<open>A printed string is read back, as far as it is valid UTF-8.\<close>

lemma json_string_escape: "json_string (json_escape s @ CHR 0x22 # rest) = Some (to_valid s, rest)"
proof (induction s rule: json_escape.induct)
  case (2 c cs)
  define n where "n = utf8_size (c # cs)"
  consider (ascii) "code_of c < 0x80" | (bad) "\<not> code_of c < 0x80" "n = 0" | (sep) "\<not> code_of c < 0x80" "0 < n"
      "take n (c # cs) \<in> {[CHR 0xE2, CHR 0x80, CHR 0xA8], [CHR 0xE2, CHR 0x80, CHR 0xA9]}"
    | (wide) "\<not> code_of c < 0x80" "0 < n" "take n (c # cs) \<notin> {[CHR 0xE2, CHR 0x80, CHR 0xA8], [CHR 0xE2, CHR 0x80, CHR 0xA9]}"
    by blast
  then show ?case
  proof cases
    case ascii
    then show ?thesis
      using 2(1) utf8_size_ascii [OF ascii, of cs] by (simp add: escape_char_read del: json_string.simps)
  next
    case bad
    then show ?thesis
      using 2 by (simp add: n_def json_string_unit escaped_units del: json_string.simps)
  next
    case sep
    then show ?thesis
      using 2 by (auto simp: Let_def json_string_unit escaped_units simp flip: n_def simp del: json_string.simps)
  next
    case wide
    obtain k where k: "n = Suc k"
      using wide(2) by (cases n) auto
    have "k \<le> length cs" "utf8_size (c # take k cs @ t) = Suc k" for t
      using utf8_size_le [of "c # cs"] utf8_size_prefix [of "c # cs" "Suc k"] k by (simp_all flip: n_def)
    moreover have "c \<noteq> CHR 0x22" "c \<noteq> CHR 0x5C" "\<not> code_of c < 0x20"
      using wide(1) by (auto simp: code_of_def)
    ultimately have "json_string (c # take k cs @ t) = map_option (\<lambda>(str, rest). (c # take k cs @ str, rest)) (json_string t)" for t
      using json_string_plain [of c "take k cs @ t" k] by simp
    then show ?thesis
      using 2 wide k by (auto simp: Let_def simp flip: n_def simp del: json_string.simps)
  qed
qed simp

lemma json_string_quote: "to_valid s = s \<Longrightarrow> json_string (json_escape s @ CHR 0x22 # rest) = Some (s, rest)"
  by (simp add: json_string_escape)

lemma to_valid_ascii: "list_all (\<lambda>c. code_of c < 0x80) s \<Longrightarrow> to_valid s = s"
  by (induction s) (simp_all add: utf8_size_ascii [simplified])

subsection \<open>Numbers\<close>

definition json_delim :: "string \<Rightarrow> bool" where
  "json_delim r \<longleftrightarrow> r = [] \<or> \<not> is_digit (hd r) \<and> hd r \<notin> set ''.eE''"

lemma skip_digits_append: "skip_digits s = Some t \<Longrightarrow> json_delim r \<Longrightarrow> skip_digits (s @ r) = Some (t @ r)"
  by (cases r) (auto simp: skip_digits_def json_delim_def dropWhile_append dropWhile_eq_self_iff split: if_splits)

lemma skip_int_append: "skip_int s = Some t \<Longrightarrow> json_delim r \<Longrightarrow> skip_int (s @ r) = Some (t @ r)"
  by (cases s) (auto simp: skip_int_def skip_digits_def [of "[]"] dest: skip_digits_append split: if_splits)

lemma skip_frac_append: "skip_frac s = Some t \<Longrightarrow> json_delim r \<Longrightarrow> skip_frac (s @ r) = Some (t @ r)"
  by (cases s) (auto simp: skip_frac_def json_delim_def dest: skip_digits_append split: if_splits)

lemma skip_exp_append: "skip_exp s = Some t \<Longrightarrow> json_delim r \<Longrightarrow> skip_exp (s @ r) = Some (t @ r)"
proof (cases s)
  case (Cons c cs)
  assume "skip_exp s = Some t" "json_delim r"
  then show ?thesis
    using Cons by (cases cs) (auto simp: skip_exp_def Let_def skip_digits_def [of "[]"] dest: skip_digits_append split: if_splits)
qed (auto simp: skip_exp_def json_delim_def)

lemma skip_number_append:
  assumes "skip_number s = Some t" and "json_delim r"
  shows "skip_number (s @ r) = Some (t @ r)"
proof -
  define u where "u = (if s \<noteq> [] \<and> hd s = CHR ''-'' then tl s else s)"
  obtain a b where ab: "skip_int u = Some a" "skip_frac a = Some b" "skip_exp b = Some t"
    using assms(1) by (auto simp: skip_number_def bind_eq_Some_conv u_def)
  then have "s \<noteq> []"
    by (auto simp: u_def skip_int_def skip_digits_def)
  then have "skip_number (s @ r) = Option.bind (Option.bind (skip_int (u @ r)) skip_frac) skip_exp"
    by (simp add: skip_number_def u_def)
  then show ?thesis
    by (simp add: skip_int_append [OF ab(1) assms(2)] skip_frac_append [OF ab(2) assms(2)] skip_exp_append [OF ab(3) assms(2)])
qed

lemma skip_number_hd: "skip_number (c # cs) = Some t \<Longrightarrow> is_digit c \<or> c = CHR ''-''"
  by (auto simp: skip_number_def skip_int_def skip_digits_def bind_eq_Some_conv is_digit_def split: if_splits)

lemma skip_int_nat_str: "skip_int (nat_str n) = Some []"
proof (cases "n = 0")
  case False
  then show ?thesis
    using nat_str_digits [of n] hd_nat_str [of n] hd_nat_str_nonzero [of n] by (simp add: skip_int_def skip_digits_def list_all_iff)
qed (simp add: skip_int_def nat_str.simps digit_char_def)

lemma nat_str_number: "skip_number (nat_str n) = Some []"
proof -
  have "hd (nat_str n) \<noteq> CHR ''-''"
    using hd_nat_str [of n] by (auto simp: is_digit_def)
  then show ?thesis
    by (simp add: skip_number_def skip_int_nat_str skip_frac_def skip_exp_def)
qed

lemma Itoa_number: "skip_number (Itoa i) = Some []"
  using nat_str_number [of "nat i"]
  by (simp add: Itoa_def) (simp add: skip_number_def skip_int_nat_str skip_frac_def skip_exp_def)

subsection \<open>Values\<close>

text \<open>
  The values that are read back as they are: strings are valid UTF-8, numbers are written as numbers, and the nesting is
  within the bound of the parser.
\<close>

fun json_ok :: "nat \<Rightarrow> json \<Rightarrow> bool" where
  "json_ok d JNull \<longleftrightarrow> True"
| "json_ok d (JBool b) \<longleftrightarrow> True"
| "json_ok d (JNumber n) \<longleftrightarrow> skip_number n = Some []"
| "json_ok d (JString s) \<longleftrightarrow> to_valid s = s"
| "json_ok d (JArray vs) \<longleftrightarrow> d < max_nesting \<and> (\<forall>v \<in> set vs. json_ok (Suc d) v)"
| "json_ok d (JObject ms) \<longleftrightarrow> d < max_nesting \<and> (\<forall>(k, v) \<in> set ms. to_valid k = k \<and> json_ok (Suc d) v)"

lemma skip_space_solid: "\<not> json_space c \<Longrightarrow> skip_space (c # cs) = c # cs"
  by (simp add: skip_space_def)

lemma json_delims [simp]: "json_delim []" "json_delim (CHR '','' # r)" "json_delim (CHR '']'' # r)" "json_delim (CHR ''}'' # r)"
  by (simp_all add: json_delim_def is_digit_def)

lemma skip_space_delims [simp]:
  "skip_space (CHR '','' # r) = CHR '','' # r" "skip_space (CHR '']'' # r) = CHR '']'' # r" "skip_space (CHR ''}'' # r) = CHR ''}'' # r"
  "skip_space (CHR '':'' # r) = CHR '':'' # r" "skip_space (CHR 0x22 # r) = CHR 0x22 # r" "skip_space [] = []"
  by (simp_all add: skip_space_def json_space_def)

text \<open>A printed value begins with a byte that is neither white space nor a closing bracket.\<close>

definition value_start :: "char \<Rightarrow> bool" where
  "value_start c \<longleftrightarrow> \<not> json_space c \<and> c \<noteq> CHR '']'' \<and> c \<noteq> CHR ''}''"

lemma json_print_start:
  assumes "json_ok d v"
  obtains c cs where "json_print v = c # cs" "value_start c"
proof (cases v)
  case (JNumber n)
  then obtain c cs where n: "n = c # cs"
    using assms by (cases n) (auto simp: skip_number_def skip_int_def skip_digits_def)
  then have "is_digit c \<or> c = CHR ''-''"
    using assms JNumber skip_number_hd by simp
  then have "value_start c"
    by (auto simp: value_start_def json_space_def is_digit_def)
  then show ?thesis
    using that JNumber n by simp
next
  case (JBool b)
  then show ?thesis
    using that by (cases b) (simp_all add: value_start_def json_space_def)
qed (use that in \<open>auto simp: value_start_def json_space_def json_quote_def split: if_splits\<close>)


definition reads :: "nat \<Rightarrow> json \<Rightarrow> bool" where
  "reads d v \<longleftrightarrow>
     (\<forall>fuel rest. json_delim rest \<longrightarrow> 2 * length (json_print v) \<le> fuel \<longrightarrow> json_value fuel d (json_print v @ rest) = Some (v, rest))"

lemma reads_value:
  "reads d v \<Longrightarrow> json_delim rest \<Longrightarrow> 2 * length (json_print v) \<le> fuel \<Longrightarrow> json_value fuel d (json_print v @ rest) = Some (v, rest)"
  by (simp add: reads_def)

lemma json_elements_print:
  assumes "vs \<noteq> []" and "\<forall>v \<in> set vs. reads d v" and "2 * length (str_join '','' (map json_print vs)) < fuel"
  shows "json_elements fuel d (str_join '','' (map json_print vs) @ CHR '']'' # rest) = Some (vs, rest)"
  using assms
proof (induction vs arbitrary: fuel rule: induct_list012)
  case (2 v)
  then obtain n where f: "fuel = Suc n" "2 * length (json_print v) \<le> n"
    by (cases fuel) auto
  have "json_value n d (json_print v @ CHR '']'' # rest) = Some (v, CHR '']'' # rest)"
    using 2(2) f by (intro reads_value) auto
  then show ?case
    by (simp add: f)
next
  case (3 v w vs)
  then obtain n where f: "fuel = Suc n" "2 * length (json_print v) \<le> n" "2 * length (str_join '','' (map json_print (w # vs))) < n"
    by (cases fuel) auto
  let ?r = "str_join '','' (map json_print (w # vs)) @ CHR '']'' # rest"
  have "json_value n d (json_print v @ CHR '','' # ?r) = Some (v, CHR '','' # ?r)"
    using 3(4) f by (intro reads_value) auto
  moreover have "json_elements n d ?r = Some (w # vs, rest)"
    using 3 f by simp
  ultimately show ?case
    by (simp add: f)
qed simp

abbreviation print_member :: "string \<times> json \<Rightarrow> string" where
  "print_member m \<equiv> case m of (k, v) \<Rightarrow> json_quote k @ '':'' @ json_print v"

lemma json_members_print:
  assumes "ms \<noteq> []" and "\<forall>(k, v) \<in> set ms. to_valid k = k \<and> reads d v" and "2 * length (str_join '','' (map print_member ms)) < fuel"
  shows "json_members fuel d (str_join '','' (map print_member ms) @ CHR ''}'' # rest) = Some (ms, rest)"
  using assms
proof (induction ms arbitrary: fuel rule: induct_list012)
  case (2 m)
  obtain k v where m: "m = (k, v)"
    by (cases m)
  with 2 obtain n where f: "fuel = Suc n" "2 * length (json_print v) \<le> n"
    by (cases fuel) auto
  have "json_value n d (json_print v @ CHR ''}'' # rest) = Some (v, CHR ''}'' # rest)"
    using 2(2) f m by (intro reads_value) auto
  then show ?case
    using 2(2) by (simp add: f m json_quote_def json_string_quote starts_with_def)
next
  case (3 m m' ms)
  obtain k v where m: "m = (k, v)"
    by (cases m)
  with 3 obtain n where f: "fuel = Suc n" "2 * length (json_print v) \<le> n" "2 * length (str_join '','' (map print_member (m' # ms))) < n"
    by (cases fuel) auto
  let ?r = "str_join '','' (map print_member (m' # ms)) @ CHR ''}'' # rest"
  have "json_value n d (json_print v @ CHR '','' # ?r) = Some (v, CHR '','' # ?r)"
    using 3(4) f m by (intro reads_value) auto
  moreover have "json_members n d ?r = Some (m' # ms, rest)"
    using 3 f by simp
  ultimately show ?case
    using 3(4) by (simp add: f m json_quote_def json_string_quote starts_with_def)
qed simp

lemma join_start: "xs \<noteq> [] \<Longrightarrow> hd xs = c # cs \<Longrightarrow> \<exists>t. str_join sep xs = c # t"
  by (cases "(sep, xs)" rule: str_join.cases) auto

lemma reads_array:
  assumes "d < max_nesting" and "\<forall>v \<in> set vs. json_ok (Suc d) v \<and> reads (Suc d) v"
  shows "reads d (JArray vs)"
  unfolding reads_def
proof (intro allI impI)
  fix fuel rest
  assume "json_delim rest" and "2 * length (json_print (JArray vs)) \<le> fuel"
  then obtain n where f: "fuel = Suc n" "2 * length (str_join '','' (map json_print vs)) < n"
    by (cases fuel) auto
  show "json_value fuel d (json_print (JArray vs) @ rest) = Some (JArray vs, rest)"
  proof (cases vs)
    case Nil
    then show ?thesis
      using assms(1) by (simp add: f starts_with_def skip_space_solid json_space_def)
  next
    case (Cons v ws)
    then obtain c cs where c: "json_print v = c # cs" "value_start c"
      using assms(2) json_print_start [of "Suc d" v] by auto
    then obtain t where t: "str_join '','' (map json_print vs) = c # t"
      using join_start [of "map json_print vs" c cs "'',''"] Cons by auto
    have "json_elements n (Suc d) (str_join '','' (map json_print vs) @ CHR '']'' # rest) = Some (vs, rest)"
      using Cons assms(2) f by (intro json_elements_print) auto
    then show ?thesis
      using assms(1) c(2) by (simp add: f t starts_with_def skip_space_solid json_space_def value_start_def)
  qed
qed

lemma reads_object:
  assumes "d < max_nesting" and "\<forall>(k, v) \<in> set ms. to_valid k = k \<and> reads (Suc d) v"
  shows "reads d (JObject ms)"
  unfolding reads_def
proof (intro allI impI)
  fix fuel rest
  define body where "body = str_join '','' (map print_member ms)"
  have print: "json_print (JObject ms) = CHR ''{'' # body @ ''}''"
    by (simp add: body_def)
  assume "json_delim rest" and "2 * length (json_print (JObject ms)) \<le> fuel"
  then obtain n where f: "fuel = Suc n" "2 * length body < n"
    unfolding print by (cases fuel) auto
  show "json_value fuel d (json_print (JObject ms) @ rest) = Some (JObject ms, rest)"
  proof (cases ms)
    case Nil
    then show ?thesis
      using assms(1) by (simp add: f starts_with_def skip_space_solid json_space_def)
  next
    case (Cons m ns)
    then obtain t where t: "body = CHR 0x22 # t"
      using join_start [of "map print_member ms" "CHR 0x22" _ "'',''"] by (cases m) (auto simp: json_quote_def body_def)
    have "json_members n (Suc d) (body @ CHR ''}'' # rest) = Some (ms, rest)"
      using Cons assms(2) f unfolding body_def by (intro json_members_print) auto
    then show ?thesis
      using assms(1) unfolding print by (simp add: f t starts_with_def skip_space_solid json_space_def)
  qed
qed

lemma reads_scalar:
  assumes "\<And>n rest. json_delim rest \<Longrightarrow> json_value (Suc n) d (json_print v @ rest) = Some (v, rest)" and "json_print v \<noteq> []"
  shows "reads d v"
  unfolding reads_def using assms by (metis Suc_le_D length_0_conv mult_is_0 not0_implies_Suc old.nat.distinct(1) le_zero_eq zero_neq_numeral)

lemma json_print_reads: "json_ok d v \<Longrightarrow> reads d v"
proof (induction v arbitrary: d rule: json_print.induct)
  case 1
  then show ?case
    by (intro reads_scalar) (simp_all add: starts_with_def skip_space_solid json_space_def)
next
  case (2 b)
  then show ?case
    by (intro reads_scalar) (simp_all add: starts_with_def skip_space_solid json_space_def)
next
  case (3 n)
  then obtain c cs where n: "n = c # cs" "value_start c"
    using json_print_start [OF 3] by auto
  have c: "is_digit c \<or> c = CHR ''-''"
    using 3 n skip_number_hd by simp
  then have "c \<notin> set [CHR 0x22, CHR ''{'', CHR ''['', CHR ''n'', CHR ''t'', CHR ''f'']"
    by (auto simp: is_digit_def)
  then show ?case
    using 3 n skip_number_append [of n "[]"]
    by (intro reads_scalar) (auto simp: starts_with_def skip_space_solid value_start_def)
next
  case (4 s)
  then show ?case
    by (intro reads_scalar) (simp_all add: json_quote_def json_string_quote)
next
  case (5 vs)
  then show ?case
    by (intro reads_array) auto
next
  case (6 ms)
  then show ?case
    by (intro reads_object) auto
qed

text \<open>Printing and parsing are inverse.\<close>

lemma json_parse_print: "json_ok 0 v \<Longrightarrow> json_parse (json_print v) = Some v"
  using reads_value [OF json_print_reads [of 0 v], of "[]"] by (simp add: json_parse_def del: json_value.simps)

lemma decode_body_print: "json_ok 0 v \<Longrightarrow> decode_body (json_print v) = Some v"
  using reads_value [OF json_print_reads [of 0 v], of "[]"] by (simp add: decode_body_def del: json_value.simps)

subsection \<open>Decoding what was encoded\<close>

lemma fold_name_plain: "list_all (\<lambda>c. lower c = c \<and> code_of c < 0x80) s \<Longrightarrow> fold_name s = s \<and> to_valid s = s"
  by (induction s) (auto simp: starts_with_def code_of_def utf8_size_ascii [simplified code_of_def, simplified])

declare fold_name.simps(2) [simp del] to_valid.simps(2) [simp del] json_escape.simps(2) [simp del]

lemma dec_enc_uint [simp]: "dec_u64 y (enc_uint x) = Some x" "dec_u32 z (enc_uint w) = Some w"
proof -
  show "dec_u64 y (enc_uint x) = Some x"
    using ParseUint_nat_str [of "unat x"] unsigned_less [of x, where ?'a = nat] by (simp add: dec_u64_def enc_uint_def)
  have "unat w < 2 ^ 32" "unat w < 2 ^ 64"
    using unsigned_less [of w, where ?'a = nat] by simp_all
  moreover from this have "(ucast (ucast w :: u64) :: u32) = w" "unat (ucast w :: u64) = unat w"
    by (simp_all add: word_unat_eq_iff unsigned_ucast_eq take_bit_word_eq_self take_bit_nat_eq_self)
  ultimately show "dec_u32 z (enc_uint w) = Some w"
    using ParseUint_nat_str [of "unat w"] by (simp add: dec_u32_def enc_uint_def word_less_nat_alt unat_of_nat take_bit_nat_eq_self)
qed

lemma dec_enc_int [simp]: "- (2 ^ 63) \<le> i \<Longrightarrow> i < 2 ^ 63 \<Longrightarrow> dec_i64 y (enc_int i) = Some i"
  using Atoi_Itoa [of i] by (simp add: dec_i64_def enc_int_def)

lemma enc_number_ok [simp]: "json_ok d (enc_uint x)" "json_ok d (enc_int i)"
  by (simp_all add: enc_uint_def enc_int_def nat_str_number Itoa_number)

lemma dec_members_encoded:
  "\<forall>(k, x) \<in> set ms. dec (enc x) = Some x \<Longrightarrow>
   dec_members dec (map (\<lambda>(k, x). (k, enc x)) ms) m = Some (fold (\<lambda>(k, x). gm_put k x) ms m)"
  by (induction ms arbitrary: m) auto

lemma dec_elements_encoded: "\<forall>x \<in> set xs. dec (enc x) = Some x \<Longrightarrow> dec_elements dec (map enc xs) = Some xs"
  by (induction xs) auto

lemma fold_put_get:
  "distinct (map fst ms) \<Longrightarrow> gm_get (fold (\<lambda>(k, v). gm_put k v) ms m) k = (case gm_get ms k of Some v \<Rightarrow> Some v | None \<Rightarrow> gm_get m k)"
proof (induction ms arbitrary: m)
  case (Cons kv ms)
  obtain k' v where kv: "kv = (k', v)"
    by fastforce
  then have "gm_get ms k' = None"
    using Cons.prems by (simp add: map_of_eq_None_iff)
  then show ?case
    using Cons by (auto simp: kv split: option.split)
qed simp

lemma fold_put_wf: "gm_wf m \<Longrightarrow> gm_wf (fold (\<lambda>(k, v). gm_put k v) ms m)"
  by (induction ms arbitrary: m) auto

lemma sort_key_get: "gm_wf m \<Longrightarrow> gm_get (sort_key fst m) = gm_get m"
  by (intro map_of_eqI) (auto simp: gm_wf_def distinct_map intro!: map_of_is_SomeI dest: )

text \<open>
  A file holds a map or a list of structures. The locale states what is needed of one structure: it can be printed inside the
  map or list, and decoding it gives it back. Then the whole file gives the map or the list back.
\<close>

locale json_codec =
  fixes enc :: "'a \<Rightarrow> json" and dec :: "json \<Rightarrow> 'a option" and ok :: "'a \<Rightarrow> bool"
  assumes printable: "ok x \<Longrightarrow> json_ok 1 (enc x)"
    and decodes: "ok x \<Longrightarrow> dec (enc x) = Some x"
begin

lemma list_file: "list_all ok xs \<Longrightarrow> Option.bind (json_parse (json_print (JArray (map enc xs)))) (dec_list dec) = Some xs"
  by (subst json_parse_print) (auto simp: list_all_iff max_nesting_def dec_list_def intro: printable [simplified] dec_elements_encoded decodes)

lemma map_file:
  assumes "gm_wf m" and "\<forall>(k, x) \<in> set m. to_valid k = k \<and> ok x"
  obtains m' where "Option.bind (json_parse (json_print (enc_map enc m))) (dec_map dec) = Some m'" "gm_get m' = gm_get m" "gm_wf m'"
proof
  show "Option.bind (json_parse (json_print (enc_map enc m))) (dec_map dec) = Some (fold (\<lambda>(k, x). gm_put k x) (sort_key fst m) [])"
    using assms(2) unfolding enc_map_def
    by (subst json_parse_print) (auto simp: max_nesting_def dec_map_def intro: printable [simplified] intro!: dec_members_encoded decodes)
  have "distinct (map fst (sort_key fst m))"
    using assms(1) by (simp add: gm_wf_def distinct_map)
  then show "gm_get (fold (\<lambda>(k, x). gm_put k x) (sort_key fst m) []) = gm_get m"
    using sort_key_get [OF assms(1)] by (auto simp: fold_put_get fun_eq_iff split: option.split)
qed (rule fold_put_wf, simp add: gm_wf_def)

end

interpretation string_json: json_codec JString "dec_string []" "\<lambda>s. to_valid s = s"
  by unfold_locales (simp_all add: dec_string_def)

end
