(* ===== verification/Nex_Login.thy ===== *)
theory Nex_Login
  imports Nex_Auth Nex_Json
begin

unbundle bit_operations_syntax

text \<open>
  Who a login is: \<^verbatim>\<open>server/main.go\<close> (the signed account tokens, \<open>resolveUser\<close>), \<^verbatim>\<open>server/gates.go\<close> (the
  calls to the account service and their caches) and \<^verbatim>\<open>nextendo-nex/authbinding.go\<close> (the token inside
  the extra data of a login).

  The account service is another program: \<open>account_service\<close> is what it answers to HTTP requests, status and body; the requests and the
  decoding of the answers are translated. The environment of a call holds the shared secret, the two
  switches, clock readings and the number of calls to the service that are under way.
\<close>

section \<open>Configuration of the server\<close>

definition accessKey :: string where "accessKey = ''09c1c475''"
definition nexVersion :: int where "nexVersion = 40000"
definition securePID :: pid where "securePID = 2"
definition securePassword :: string where "securePassword = ''securepasswordplz1''"
definition sessionKeyLen :: int where "sessionKeyLen = 32"

definition secureURL :: "string \<Rightarrow> int \<Rightarrow> station_url" where
  "secureURL nextendoHost securePort =
     su_SetInt ''type'' 2 (su_SetInt ''stream'' 10 (su_SetInt ''sid'' 1 (su_SetInt ''PID'' (uint securePID)
       (su_SetInt ''CID'' 1 (su_SetInt ''port'' securePort (su_Set ''address'' nextendoHost (NewStationURL ''prudp'')))))))"

definition authCfg :: "string \<Rightarrow> int \<Rightarrow> AuthConfig" where
  "authCfg nextendoHost securePort =
     \<lparr>ac_Settings = NewSwitchSettings accessKey nexVersion, ac_SecurePID = securePID, ac_SecurePassword = securePassword,
      ac_SecureStationURL = Some (secureURL nextendoHost securePort), ac_SpecialProtocols = [], ac_ServerName = ''Nextendo'',
      ac_SessionKeyLength = sessionKeyLen\<rparr>"

text \<open>The value of \<open>NEXTENDO_SECRET\<close>, the content of the secret file, none when it cannot be read.\<close>

definition loadNextendoSecret :: "string \<Rightarrow> string option \<Rightarrow> byte list" where
  "loadNextendoSecret v file =
     (if v \<noteq> '''' then bytes_of v
      else case file of
             None \<Rightarrow> []
           | Some b \<Rightarrow> (case hex_DecodeString (TrimSpace b) of
                          None \<Rightarrow> []
                        | Some dec \<Rightarrow> if length dec \<ge> 16 then dec else []))"

section \<open>The token in the extra data\<close>

definition isJWTByte :: "char \<Rightarrow> bool" where
  "isJWTByte c \<longleftrightarrow>
     (let b = (of_char c :: nat)
      in c = CHR ''.'' \<or> c = CHR ''-'' \<or> c = CHR ''_'' \<or> (48 \<le> b \<and> b \<le> 57) \<or> (65 \<le> b \<and> b \<le> 90) \<or> (97 \<le> b \<and> b \<le> 122))"

definition trim_right :: "char \<Rightarrow> string \<Rightarrow> string" where
  "trim_right c s = rev (dropWhile (\<lambda>x. x = c) (rev s))"

definition string_of :: "byte list \<Rightarrow> string" where
  "string_of bs = map char_of_byte bs"

definition NexTokenFromLoginExtraData :: "byte list \<Rightarrow> string option" where
  "NexTokenFromLoginExtraData extraData =
     (let dat = string_of extraData
      in case str_index ''eyJ'' dat of
           None \<Rightarrow> None
         | Some i \<Rightarrow>
             (let segments = str_split CHR ''.'' (takeWhile isJWTByte (drop i dat))
              in if length segments < 2 then None
                 else case b64_decode (trim_right CHR ''='' (segments ! 1)) of
                        None \<Rightarrow> None
                      | Some payload \<Rightarrow>
                          (case unmarshal_field ''nnex'' (string_of payload) of
                             None \<Rightarrow> None
                           | Some nnex \<Rightarrow> if nnex = '''' then None else Some nnex)))"

section \<open>Signed tokens\<close>

definition revokedNexPayloads :: "string list" where
  "revokedNexPayloads = [''1800000006.Kazuu.1787343209'']"

definition token_mac :: "byte list \<Rightarrow> byte list \<Rightarrow> string" where
  "token_mac secret raw = b64_encode (hmac sha256_Sum secret (bytes_of ''nex:'' @ raw))"

text \<open>The three parts of \<open>pid.username.expiry\<close>, cut at the first two dots; \<open>now\<close> is in seconds.\<close>

definition payload_pid :: "int \<Rightarrow> string \<Rightarrow> pid option" where
  "payload_pid now raw =
     (case str_cut CHR ''.'' raw of
        None \<Rightarrow> None
      | Some (f0, r) \<Rightarrow>
          (case str_cut CHR ''.'' r of
             None \<Rightarrow> None
           | Some (f1, f2) \<Rightarrow>
               (case ParseUint f0 of
                  None \<Rightarrow> None
                | Some p \<Rightarrow> (let (e, ok) = Atoi f2 in if \<not> ok \<or> now > e then None else Some p))))"

definition nextendoPIDFromToken :: "byte list \<Rightarrow> int \<Rightarrow> string \<Rightarrow> pid option" where
  "nextendoPIDFromToken secret now s =
     (if secret = [] \<or> \<not> starts_with ''nx2.'' s then None
      else case str_split CHR ''.'' (drop 4 s) of
             [p0, p1] \<Rightarrow>
               (case b64_decode p0 of
                  None \<Rightarrow> None
                | Some raw \<Rightarrow>
                    if p1 \<noteq> token_mac secret raw then None
                    else if string_of raw \<in> set revokedNexPayloads then None
                    else payload_pid now (string_of raw))
           | _ \<Rightarrow> None)"

definition anonymousPID :: "string \<Rightarrow> pid" where
  "anonymousPID username = 1800000000 + ucast (fnv32a (bytes_of username) mod 100000000)"

section \<open>Gates\<close>

datatype nsaStatus = nsaOK | nsaUnknown | nsaUnreachable

text \<open>The account service answers HTTP requests: the status and the body, or nothing when the call fails.\<close>

record http_request =
  rq_Method :: string
  rq_URL :: string
  rq_Header :: "(string \<times> string) list"
  rq_Body :: string

record account_service =
  acc_baseURL :: string
  acc_internalKey :: string
  acc_reply :: "http_request \<Rightarrow> (int \<times> string) option"

record nsaNegEntry =
  neg_status :: nsaStatus
  neg_at :: gotime

record resolver_state =
  rv_nsaCache :: "(u64, pid) gomap"
  rv_nsaNegCache :: "(u64, nsaNegEntry) gomap"

record gate_env =
  ge_secret :: "byte list"
  ge_requireAccount :: bool
  ge_requireSigned :: string
  ge_unix :: int
  ge_neg_now :: gotime
  ge_fail_now :: gotime
  ge_inflight :: nat

definition nsaNegTTL :: int where "nsaNegTTL = 60 * 1000000000"
definition nsaMaxInflight :: nat where "nsaMaxInflight = 16"
definition nsaNegCacheMax :: nat where "nsaNegCacheMax = 4096"

definition online_request :: "account_service \<Rightarrow> pid \<Rightarrow> string \<Rightarrow> http_request" where
  "online_request acc p kind =
     \<lparr>rq_Method = ''POST'', rq_URL = acc_baseURL acc @ ''/internal/online-check'',
      rq_Header = (''Content-Type'', ''application/json'') # (if acc_internalKey acc = [] then [] else [(''X-Internal-Key'', acc_internalKey acc)]),
      rq_Body = json_print (JObject [(''kind'', JString kind), (''pid'', enc_uint p)])\<rparr>"

definition dec_online :: "json \<Rightarrow> (bool \<times> string) option" where
  "dec_online =
     dec_struct
       (\<lambda>ms. Option.bind (field ''allow'' dec_bool ms False) (\<lambda>a. Option.bind (field ''reason'' dec_string ms []) (\<lambda>r. Some (a, r))))
       (False, [])"

definition nextendoOnlineCheck :: "account_service \<Rightarrow> pid \<Rightarrow> string \<Rightarrow> bool \<times> string" where
  "nextendoOnlineCheck acc p kind =
     (case acc_reply acc (online_request acc p kind) of
        None \<Rightarrow> (True, [])
      | Some (_, body) \<Rightarrow> (case Option.bind (decode_body body) dec_online of None \<Rightarrow> (True, []) | Some r \<Rightarrow> r))"

definition rememberNSAFailure :: "gotime \<Rightarrow> u64 \<Rightarrow> nsaStatus \<Rightarrow> resolver_state \<Rightarrow> resolver_state" where
  "rememberNSAFailure now nsa status rs =
     (let neg = (if length (rv_nsaNegCache rs) \<ge> nsaNegCacheMax then [] else rv_nsaNegCache rs)
      in rs\<lparr>rv_nsaNegCache := gm_put nsa \<lparr>neg_status = status, neg_at = now\<rparr> neg\<rparr>)"

definition fresh_failure :: "gotime \<Rightarrow> u64 \<Rightarrow> resolver_state \<Rightarrow> nsaStatus option" where
  "fresh_failure now nsa rs =
     (case gm_get (rv_nsaNegCache rs) nsa of
        None \<Rightarrow> None
      | Some neg \<Rightarrow> if now - neg_at neg < nsaNegTTL then Some (neg_status neg) else None)"

definition nsa_request :: "account_service \<Rightarrow> u64 \<Rightarrow> http_request" where
  "nsa_request acc nsa = \<lparr>rq_Method = ''GET'', rq_URL = acc_baseURL acc @ ''/api/nsa?id='' @ nat_str (unat nsa), rq_Header = [], rq_Body = []\<rparr>"

definition ask_account :: "gate_env \<Rightarrow> account_service \<Rightarrow> u64 \<Rightarrow> resolver_state \<Rightarrow> resolver_state \<times> pid \<times> nsaStatus" where
  "ask_account env acc nsa rs =
     (let failed = (\<lambda>st. (rememberNSAFailure (ge_fail_now env) nsa st rs, 0, st))
      in case acc_reply acc (nsa_request acc nsa) of
           None \<Rightarrow> failed nsaUnreachable
         | Some (code, body) \<Rightarrow>
             if code = 404 then failed nsaUnknown
             else if code \<noteq> 200 then failed nsaUnreachable
             else (case Option.bind (decode_body body) (dec_struct (\<lambda>ms. field ''pid'' dec_u64 ms 0) 0) of
                     None \<Rightarrow> failed nsaUnreachable
                   | Some p \<Rightarrow>
                       if p = 0 then failed nsaUnreachable
                       else (rs\<lparr>rv_nsaCache := gm_put nsa p (rv_nsaCache rs),
                                rv_nsaNegCache := gm_del nsa (rv_nsaNegCache rs)\<rparr>, p, nsaOK)))"

definition resolveNSAtoPID :: "gate_env \<Rightarrow> account_service \<Rightarrow> u64 \<Rightarrow> resolver_state \<Rightarrow> resolver_state \<times> pid \<times> nsaStatus" where
  "resolveNSAtoPID env acc nsa rs =
     (case gm_get (rv_nsaCache rs) nsa of
        Some p \<Rightarrow> (rs, p, nsaOK)
      | None \<Rightarrow>
          (case fresh_failure (ge_neg_now env) nsa rs of
             Some st \<Rightarrow> (rs, 0, st)
           | None \<Rightarrow>
               if ge_inflight env \<ge> nsaMaxInflight then (rs, 0, nsaUnreachable)
               else ask_account env acc nsa rs))"

section \<open>Resolving a user\<close>

definition source_key :: "string \<Rightarrow> byte list" where
  "source_key username = sha256_Sum (bytes_of (''nextendo-src:'' @ username))"

definition proven_pid :: "gate_env \<Rightarrow> byte list \<Rightarrow> pid option" where
  "proven_pid env extraData =
     (case NexTokenFromLoginExtraData extraData of
        None \<Rightarrow> None
      | Some tok \<Rightarrow> nextendoPIDFromToken (ge_secret env) (ge_unix env) tok)"

definition checked :: "account_service \<Rightarrow> string \<Rightarrow> pid \<Rightarrow> string \<Rightarrow> (pid \<times> byte list) option" where
  "checked acc kind p username =
     (if fst (nextendoOnlineCheck acc p kind) then Some (p, source_key username) else None)"

definition numeric_user :: "gate_env \<Rightarrow> account_service \<Rightarrow> u64 \<Rightarrow> string \<Rightarrow> byte list \<Rightarrow> resolver_state \<Rightarrow>
    resolver_state \<times> (pid \<times> byte list) option" where
  "numeric_user env acc n username extraData rs =
     (if n < 1810000000 then
        (if requireSignedToken (ge_requireSigned env) \<and> proven_pid env extraData \<noteq> Some n then (rs, None)
         else (rs, checked acc ''ryujinx'' n username))
      else
        case resolveNSAtoPID env acc n rs of
          (rs', p, nsaOK) \<Rightarrow> (rs', checked acc ''switch'' p username)
        | (rs', _, _) \<Rightarrow> (rs', None))"

definition resolveUser :: "gate_env \<Rightarrow> account_service \<Rightarrow> string \<Rightarrow> byte list \<Rightarrow> resolver_state \<Rightarrow>
    resolver_state \<times> (pid \<times> byte list) option" where
  "resolveUser env acc username extraData rs =
     (case nextendoPIDFromToken (ge_secret env) (ge_unix env) username of
        Some p \<Rightarrow> (rs, checked acc ''ryujinx'' p username)
      | None \<Rightarrow>
          (case ParseUint username of
             Some n \<Rightarrow>
               if n \<ge> 1800000000 then numeric_user env acc n username extraData rs
               else if ge_requireAccount env then (rs, None)
               else (rs, Some (anonymousPID username, source_key username))
           | None \<Rightarrow>
               if ge_requireAccount env then (rs, None)
               else (rs, Some (anonymousPID username, source_key username))))"

section \<open>What a signed token proves\<close>

text \<open>
  \<open>signed_token\<close>: the text carries a payload naming the account, with the MAC that only a holder of the
  secret computes, not expired and not revoked.
\<close>

definition signed_token :: "byte list \<Rightarrow> int \<Rightarrow> string \<Rightarrow> pid \<Rightarrow> bool" where
  "signed_token secret now tok p \<longleftrightarrow>
     (\<exists>p0 raw user e. tok = ''nx2.'' @ p0 @ ''.'' @ token_mac secret raw \<and> b64_decode p0 = Some raw \<and>
        (\<exists>digits. string_of raw = digits @ ''.'' @ user @ ''.'' @ e \<and> ParseUint digits = Some p) \<and>
        snd (Atoi e) \<and> now \<le> fst (Atoi e) \<and> string_of raw \<notin> set revokedNexPayloads)"

lemma str_cut_Some: "str_cut c s = Some (a, b) \<Longrightarrow> s = a @ c # b"
  by (induction s arbitrary: a b) (auto split: if_splits)

lemma payload_pid_Some:
  assumes "payload_pid now raw = Some p"
  shows "\<exists>digits user e. raw = digits @ ''.'' @ user @ ''.'' @ e \<and> ParseUint digits = Some p \<and> snd (Atoi e) \<and> now \<le> fst (Atoi e)"
proof -
  from assms obtain f0 r f1 f2 where "str_cut CHR ''.'' raw = Some (f0, r)" "str_cut CHR ''.'' r = Some (f1, f2)"
    "ParseUint f0 = Some p" "snd (Atoi f2)" "now \<le> fst (Atoi f2)"
    by (auto simp: payload_pid_def split_beta Let_def split: option.splits if_splits)
  then show ?thesis
    using str_cut_Some by (intro exI [of _ f0] exI [of _ f1] exI [of _ f2]) fastforce
qed

lemma str_split_two:
  assumes "str_split c s = [a, b]"
  shows "s = a @ c # b"
proof -
  have "concat (map (\<lambda>x. c # x) (str_split c s)) = c # s" for s
    by (induction s) (auto split: list.splits)
  from this [of s] show ?thesis
    using assms by simp
qed

lemma nextendoPIDFromToken_signed:
  assumes "nextendoPIDFromToken secret now tok = Some p"
  shows "signed_token secret now tok p"
proof -
  from assms obtain p0 p1 where tok: "starts_with ''nx2.'' tok" "str_split CHR ''.'' (drop 4 tok) = [p0, p1]"
    by (auto simp: nextendoPIDFromToken_def split: if_splits list.splits)
  with assms obtain raw where raw: "b64_decode p0 = Some raw" "p1 = token_mac secret raw"
    "string_of raw \<notin> set revokedNexPayloads" "payload_pid now (string_of raw) = Some p"
    by (auto simp: nextendoPIDFromToken_def split: if_splits option.splits)
  have "take 4 tok = ''nx2.''"
    using tok(1) by (simp add: starts_with_def eval_nat_numeral)
  then have "tok = ''nx2.'' @ drop 4 tok"
    by (metis append_take_drop_id)
  also have "drop 4 tok = p0 @ ''.'' @ token_mac secret raw"
    using str_split_two [OF tok(2)] raw(2) by simp
  finally show ?thesis
    using raw payload_pid_Some [OF raw(4)] unfolding signed_token_def by blast
qed

lemma anonymousPID_range: "1800000000 \<le> anonymousPID username \<and> anonymousPID username < 1900000000"
proof -
  let ?x = "fnv32a (bytes_of username) mod 100000000"
  have "unat ?x < 100000000"
    by (simp add: unat_mod)
  moreover have "unat (ucast ?x :: u64) = unat ?x"
    by (simp add: unsigned_ucast_eq take_bit_nat_eq_self less_le_trans [OF unsigned_less])
  ultimately have "unat (anonymousPID username) = 1800000000 + unat ?x" and "unat ?x < 100000000"
    by (simp_all add: anonymousPID_def unat_plus_if_size word_size)
  then show ?thesis
    by (simp add: word_le_nat_alt word_less_nat_alt)
qed

lemma checked_Some: "checked acc kind p username = Some (q, key) \<Longrightarrow> q = p \<and> key = source_key username \<and> fst (nextendoOnlineCheck acc p kind)"
  by (simp add: checked_def split: if_splits)

lemma numeric_user_identity:
  assumes "numeric_user env acc n username extraData rs = (rs', Some (p, key))"
  shows "key = source_key username \<and>
    ((n = p \<and> p < 1810000000 \<and> fst (nextendoOnlineCheck acc p ''ryujinx'') \<and>
       (requireSignedToken (ge_requireSigned env) \<longrightarrow> proven_pid env extraData = Some p)) \<or>
     (1810000000 \<le> n \<and> resolveNSAtoPID env acc n rs = (rs', p, nsaOK) \<and> fst (nextendoOnlineCheck acc p ''switch'')))"
  using assms
  by (auto simp: numeric_user_def dest: checked_Some split: if_splits prod.splits nsaStatus.splits)

text \<open>
  C30: the identity of a login. A login is accepted only in one of four ways, each with the 32-byte key
  of its user name: the user name is a signed token for the account; it is the account number
  itself, below 1810000000, and where signed tokens are required the extra data holds a signed
  token for exactly that account; it is a larger number that the account service resolves to the
  account; or accounts are not required and it gets the anonymous number of its name, between
  1800000000 and 1900000000. In the first three cases the account service did not refuse it.
\<close>

theorem resolveUser_identity:
  assumes "resolveUser env acc username extraData rs = (rs', Some (p, key))"
  shows "length key = 32 \<and>
    ((signed_token (ge_secret env) (ge_unix env) username p \<and> fst (nextendoOnlineCheck acc p ''ryujinx'')) \<or>
     (ParseUint username = Some p \<and> 1800000000 \<le> p \<and> p < 1810000000 \<and> fst (nextendoOnlineCheck acc p ''ryujinx'') \<and>
      (requireSignedToken (ge_requireSigned env) \<longrightarrow>
         (\<exists>tok. NexTokenFromLoginExtraData extraData = Some tok \<and> signed_token (ge_secret env) (ge_unix env) tok p))) \<or>
     (\<exists>n. ParseUint username = Some n \<and> 1810000000 \<le> n \<and> resolveNSAtoPID env acc n rs = (rs', p, nsaOK) \<and>
      fst (nextendoOnlineCheck acc p ''switch'')) \<or>
     (\<not> ge_requireAccount env \<and> p = anonymousPID username \<and> 1800000000 \<le> p \<and> p < 1900000000))"
proof -
  have len: "length (source_key username) = 32"
    by (simp add: source_key_def sha256.digest_length)
  show ?thesis
  proof (cases "nextendoPIDFromToken (ge_secret env) (ge_unix env) username")
    case (Some q)
    then show ?thesis
      using assms len nextendoPIDFromToken_signed [OF Some] by (auto simp: resolveUser_def dest: checked_Some)
  next
    case None
    note anon = len anonymousPID_range [of username]
    show ?thesis
    proof (cases "\<exists>n. ParseUint username = Some n \<and> 1800000000 \<le> n")
      case True
      then obtain n where n: "ParseUint username = Some n" "1800000000 \<le> n"
        by blast
      then have "numeric_user env acc n username extraData rs = (rs', Some (p, key))"
        using assms None by (simp add: resolveUser_def)
      from numeric_user_identity [OF this] show ?thesis
        using n len nextendoPIDFromToken_signed by (auto simp: proven_pid_def split: option.splits)
    next
      case False
      then show ?thesis
        using assms None anon by (auto simp: resolveUser_def split: option.splits if_splits)
    qed
  qed
qed

definition open_account :: account_service where
  "open_account =
     \<lparr>acc_baseURL = ''http://nextendo-account:8080'', acc_internalKey = [],
      acc_reply = \<lambda>rq. if rq_Method rq = ''POST'' then Some (200, json_print (JObject [(''allow'', JBool True)])) else None\<rparr>"

lemma open_account_allows: "nextendoOnlineCheck open_account p kind = (True, [])"
proof -
  have names: "fold_name ''allow'' = ''allow'' \<and> to_valid ''allow'' = ''allow''"
    by (rule fold_name_plain) code_simp
  then have "decode_body (json_print (JObject [(''allow'', JBool True)])) = Some (JObject [(''allow'', JBool True)])"
    by (intro decode_body_print) (simp add: max_nesting_def)
  then show ?thesis
    using names by (simp add: nextendoOnlineCheck_def open_account_def online_request_def dec_online_def dec_struct_def dec_bool_def del: json_print.simps)
qed

text \<open>
  A call that fails, or an answer that cannot be decoded, lets the account through. The status of the answer is not looked at: an error
  page in the form of a JSON object without the member \<open>allow\<close> refuses it.
\<close>

lemma online_check_cases:
  "acc_reply acc (online_request acc p kind) = None \<Longrightarrow> nextendoOnlineCheck acc p kind = (True, [])"
  "acc_reply acc (online_request acc p kind) = Some (code, body) \<Longrightarrow> decode_body body = None \<Longrightarrow> nextendoOnlineCheck acc p kind = (True, [])"
  "acc_reply acc (online_request acc p kind) = Some (503, json_print (JObject [(''error'', JString ''busy'')])) \<Longrightarrow> nextendoOnlineCheck acc p kind = (False, [])"
proof -
  have names: "fold_name ''error'' = ''error'' \<and> to_valid ''error'' = ''error''" "to_valid ''busy'' = ''busy''"
    by (rule fold_name_plain, code_simp) (rule to_valid_ascii, code_simp)
  then have "decode_body (json_print (JObject [(''error'', JString ''busy'')])) = Some (JObject [(''error'', JString ''busy'')])"
    by (intro decode_body_print) (simp add: max_nesting_def)
  then show "acc_reply acc (online_request acc p kind) = Some (503, json_print (JObject [(''error'', JString ''busy'')])) \<Longrightarrow>
      nextendoOnlineCheck acc p kind = (False, [])"
    using names by (simp add: nextendoOnlineCheck_def dec_online_def dec_struct_def del: json_print.simps)
qed (simp_all add: nextendoOnlineCheck_def)

definition plain_gate :: gate_env where
  "plain_gate = \<lparr>ge_secret = [], ge_requireAccount = True, ge_requireSigned = '''', ge_unix = 0, ge_neg_now = 0, ge_fail_now = 0,
     ge_inflight = 0\<rparr>"

definition no_resolutions :: resolver_state where
  "no_resolutions = \<lparr>rv_nsaCache = [], rv_nsaNegCache = []\<rparr>"

theorem resolveUser_identity_witness:
  "resolveUser plain_gate open_account (nat_str 1800000007) [] no_resolutions = (no_resolutions, Some (1800000007, source_key (nat_str 1800000007))) \<and>
   length (source_key (nat_str 1800000007)) = 32 \<and> ParseUint (nat_str 1800000007) = Some 1800000007"
proof -
  have n: "ParseUint (nat_str 1800000007) = Some 1800000007"
    using ParseUint_nat_str [of 1800000007] by simp
  have "nextendoPIDFromToken [] t u = None" for t u
    by (simp add: nextendoPIDFromToken_def)
  then have run: "resolveUser plain_gate open_account (nat_str 1800000007) [] no_resolutions =
      (no_resolutions, Some (1800000007, source_key (nat_str 1800000007)))"
    by (simp add: resolveUser_def n numeric_user_def checked_def open_account_allows plain_gate_def
        requireSignedToken_def env_true_def)
  show ?thesis
    using run n resolveUser_identity [OF run] by simp
qed

section \<open>Issued tokens are accepted\<close>

definition token_payload :: "pid \<Rightarrow> string \<Rightarrow> int \<Rightarrow> string" where
  "token_payload p user e = nat_str (unat p) @ ''.'' @ user @ ''.'' @ Itoa e"

definition mint_token :: "byte list \<Rightarrow> pid \<Rightarrow> string \<Rightarrow> int \<Rightarrow> string" where
  "mint_token secret p user e =
     (let raw = bytes_of (token_payload p user e) in ''nx2.'' @ b64_encode raw @ ''.'' @ token_mac secret raw)"

lemma b64_no_dot: "CHR ''.'' \<notin> set (b64_encode bs)"
proof -
  have table: "list_all (\<lambda>v. b64_sym (int v) \<noteq> CHR ''.'') [0..<64]"
    by code_simp
  have "b64_sym v \<noteq> CHR ''.''" if "0 \<le> v" "v < 64" for v
  proof -
    have "nat v \<in> set [0..<64]"
      using that by auto
    with table have "b64_sym (int (nat v)) \<noteq> CHR ''.''"
      unfolding list_all_iff by blast
    then show ?thesis
      using that by simp
  qed
  then show ?thesis
    using b64_groups_small [of bs] unfolding b64_encode_groups list_all_iff set_map by fastforce
qed

lemma string_of_bytes_of [simp]: "string_of (bytes_of str) = str"
  by (simp add: string_of_def bytes_of_def)

text \<open>
  A token signed with the shared secret is accepted for its account until it expires, unless
  its payload is on the list of revoked ones.
\<close>

lemma issued_token_accepted:
  assumes "secret \<noteq> []" and user: "CHR ''.'' \<notin> set user" and "now \<le> e" and range: "- (2 ^ 63) \<le> e" "e < 2 ^ 63"
    and ok: "token_payload p user e \<notin> set revokedNexPayloads"
  shows "nextendoPIDFromToken secret now (mint_token secret p user e) = Some p"
proof -
  let ?raw = "bytes_of (token_payload p user e)"
  have split: "str_split CHR ''.'' (b64_encode ?raw @ CHR ''.'' # token_mac secret ?raw) = [b64_encode ?raw, token_mac secret ?raw]"
    by (simp add: str_split_append str_split_none b64_no_dot token_mac_def)
  have "CHR ''.'' \<notin> set (nat_str (unat p))"
    using nat_str_digits [of "unat p"] by (auto simp: list_all_iff is_digit_def)
  then have "payload_pid now (token_payload p user e) = Some p"
    using \<open>now \<le> e\<close> user ParseUint_nat_str [of "unat p"] unsigned_less [of p, where ?'a = nat]
    by (simp add: payload_pid_def token_payload_def str_cut_append Atoi_Itoa [OF range])
  then show ?thesis
    using assms(1) ok
    by (simp add: nextendoPIDFromToken_def mint_token_def Let_def starts_with_def split b64_roundtrip)
qed

lemma issued_token_accepted_example:
  "nextendoPIDFromToken [1, 2, 3] 100 (mint_token [1, 2, 3] 1800000007 ''Ann'' 200) = Some 1800000007"
proof (rule issued_token_accepted)
  have "nat_str 1800000007 @ ''.Ann.200'' \<noteq> ''1800000006.Kazuu.1787343209''"
    by (simp add: nat_str.simps digit_char_def)
  moreover have "Itoa 200 = ''200''"
    by (simp add: Itoa_def nat_str.simps digit_char_def)
  ultimately show "token_payload 1800000007 ''Ann'' 200 \<notin> set revokedNexPayloads"
    by (simp add: token_payload_def revokedNexPayloads_def)
qed simp_all

section \<open>The caches of the gates\<close>

definition neg_cache_ok :: "resolver_state \<Rightarrow> bool" where
  "neg_cache_ok rs \<longleftrightarrow> length (rv_nsaNegCache rs) \<le> nsaNegCacheMax \<and> (\<forall>e \<in> set (rv_nsaNegCache rs). neg_status (snd e) \<noteq> nsaOK)"

lemma length_gm_put_le: "length (gm_put k v m) \<le> Suc (length m)"
  by (induction m) auto

lemma rememberNSAFailure_ok:
  assumes "neg_cache_ok rs" and "st \<noteq> nsaOK"
  shows "neg_cache_ok (rememberNSAFailure now nsa st rs)"
proof -
  have "length (gm_put nsa v m) \<le> nsaNegCacheMax" if "length m < nsaNegCacheMax" for v and m :: "(u64, nsaNegEntry) gomap"
    using length_gm_put_le [of nsa v m] that by simp
  then have "length (rv_nsaNegCache (rememberNSAFailure now nsa st rs)) \<le> nsaNegCacheMax"
    by (simp add: rememberNSAFailure_def Let_def nsaNegCacheMax_def not_le)
  then show ?thesis
    using assms by (auto simp: neg_cache_ok_def rememberNSAFailure_def Let_def dest!: gm_put_subset split: if_splits)
qed

lemma ask_account_cases:
  "ask_account env acc nsa rs = (rememberNSAFailure (ge_fail_now env) nsa nsaUnreachable rs, 0, nsaUnreachable) \<or>
   ask_account env acc nsa rs = (rememberNSAFailure (ge_fail_now env) nsa nsaUnknown rs, 0, nsaUnknown) \<or>
   (\<exists>p. p \<noteq> 0 \<and> ask_account env acc nsa rs =
     (rs\<lparr>rv_nsaCache := gm_put nsa p (rv_nsaCache rs), rv_nsaNegCache := gm_del nsa (rv_nsaNegCache rs)\<rparr>, p, nsaOK))"
  by (auto simp: ask_account_def Let_def split: option.split prod.split option.split)

lemma neg_cache_ok_del: "neg_cache_ok rs \<Longrightarrow> neg_cache_ok (rs\<lparr>rv_nsaCache := c, rv_nsaNegCache := gm_del nsa (rv_nsaNegCache rs)\<rparr>)"
  using order_trans [OF length_gm_del_le [of nsa "rv_nsaNegCache rs"]] by (auto simp: neg_cache_ok_def gm_in_del)

lemma resolveNSAtoPID_ok:
  assumes "neg_cache_ok rs" and "resolveNSAtoPID env acc nsa rs = (rs1, r)"
  shows "neg_cache_ok rs1"
  using assms(2) ask_account_cases [of env acc nsa rs] rememberNSAFailure_ok [OF assms(1)] neg_cache_ok_del [OF assms(1)] assms(1)
  by (auto simp: resolveNSAtoPID_def split: option.splits if_splits)

lemma fresh_failure_not_ok: "neg_cache_ok rs \<Longrightarrow> fresh_failure now nsa rs \<noteq> Some nsaOK"
  by (auto simp: fresh_failure_def neg_cache_ok_def dest!: gm_get_Some_in split: option.splits)

text \<open>
  C31: a flood of unknown consoles cannot exhaust the server or the account service. The table of
  failed lookups never holds more than 4096 entries; a lookup that failed is answered again for the
  next 60 seconds, and one that succeeded for ever, whatever the account service would say; and
  with 16 calls under way no lookup changes anything.
\<close>

theorem nsa_lookups_bounded:
  assumes ok: "neg_cache_ok rs" and run: "resolveNSAtoPID env acc nsa rs = (rs1, p, status)"
  shows "neg_cache_ok (fst (resolveUser env acc username extraData rs)) \<and>
    (status = nsaOK \<longrightarrow> resolveNSAtoPID env' acc' nsa rs1 = (rs1, p, nsaOK)) \<and>
    (status \<noteq> nsaOK \<and> rs1 \<noteq> rs \<and> ge_neg_now env' - ge_fail_now env < nsaNegTTL \<longrightarrow>
      resolveNSAtoPID env' acc' nsa rs1 = (rs1, 0, status)) \<and>
    (nsaMaxInflight \<le> ge_inflight env \<longrightarrow> rs1 = rs)"
proof -
  have "neg_cache_ok (fst (resolveUser env acc username extraData rs))"
    using ok
    by (auto simp: resolveUser_def numeric_user_def split: option.split prod.splits nsaStatus.splits
        dest: resolveNSAtoPID_ok [OF ok])
  moreover have "resolveNSAtoPID env' acc' nsa rs1 = (rs1, p, nsaOK)" if "status = nsaOK"
    using run ask_account_cases [of env acc nsa rs] that fresh_failure_not_ok [OF ok]
    by (auto simp: resolveNSAtoPID_def split: option.splits if_splits)
  moreover have "resolveNSAtoPID env' acc' nsa rs1 = (rs1, 0, status)"
    if "status \<noteq> nsaOK \<and> rs1 \<noteq> rs \<and> ge_neg_now env' - ge_fail_now env < nsaNegTTL"
    using run ask_account_cases [of env acc nsa rs] that
    by (auto simp: resolveNSAtoPID_def rememberNSAFailure_def fresh_failure_def Let_def split: option.splits if_splits)
  moreover have "rs1 = rs" if "nsaMaxInflight \<le> ge_inflight env"
    using run that by (auto simp: resolveNSAtoPID_def split: option.splits)
  ultimately show ?thesis
    by blast
qed

definition five_account :: account_service where
  "five_account =
     \<lparr>acc_baseURL = ''http://nextendo-account:8080'', acc_internalKey = [], acc_reply = \<lambda>_. Some (200, json_print (JObject [(''pid'', enc_uint (5 :: pid))]))\<rparr>"

theorem nsa_lookups_bounded_witness:
  "let rs1 = fst (resolveNSAtoPID plain_gate open_account 1810000005 no_resolutions)
   in neg_cache_ok (fst (resolveUser plain_gate open_account ''x'' [] no_resolutions)) \<and>
      resolveNSAtoPID plain_gate five_account 1810000005 rs1 =
      (rs1, 0, nsaUnreachable)"
proof -
  let ?rs1 = "rememberNSAFailure 0 1810000005 nsaUnreachable no_resolutions"
  have small: "neg_cache_ok no_resolutions"
    by (simp add: neg_cache_ok_def no_resolutions_def)
  have run: "resolveNSAtoPID plain_gate open_account 1810000005 no_resolutions = (?rs1, 0, nsaUnreachable)"
    by (simp add: resolveNSAtoPID_def no_resolutions_def fresh_failure_def plain_gate_def nsaMaxInflight_def ask_account_def
        open_account_def nsa_request_def)
  moreover have "?rs1 \<noteq> no_resolutions"
    by (simp add: rememberNSAFailure_def no_resolutions_def)
  ultimately show ?thesis
    using nsa_lookups_bounded [OF small run, of "''x''" "[]" plain_gate five_account]
    by (simp add: plain_gate_def nsaNegTTL_def)
qed

end
