(* ===== verification/Nex_Transport.thy ===== *)
theory Nex_Transport
  imports Nex_Prudp Nex_Auth Nex_Endpoint
begin

unbundle bit_operations_syntax

text \<open>
  The PRUDP-Lite connection: \<open>ConnectionSignature\<close> and \<open>LitePacketSignature\<close> of
  \<^verbatim>\<open>nextendo-nex/prudp_lite.go\<close> and the packet handlers of \<^verbatim>\<open>nextendo-nex/endpoint.go\<close>.

  The state \<open>transport\<close> holds the endpoint, the recall table, the frames handed to the sockets in
  order, the goroutines that send the fragments of large messages, and the retransmission loops
  (one per accepted CONNECT). It is extensible: a server
  adds its own fields. What the endpoint calls (protocol handlers, hooks, handlers of other packet
  types) is the record \<open>service\<close> of functions on that state.

  A goroutine of \<open>sendData\<close> advances one loop turn at a time (\<open>sender_turn\<close>), and so does the
  retransmission loop (\<open>retransmit_turn\<close>); these turns interleave freely with packets.
\<close>

section \<open>State and services\<close>

record sender =
  sj_conn :: cref
  sj_fragmentID :: byte
  sj_rest :: "byte list"

record transport =
  t_ep :: endpoint
  t_auth :: auth_state
  t_sent :: "(cref \<times> byte list) list"
  t_senders :: "sender list"
  t_loops :: "cref list"

type_synonym 'a rmc_handler = "cref \<Rightarrow> rmc_message \<Rightarrow> 'a transport_scheme \<Rightarrow> 'a transport_scheme \<times> rmc_message option"
type_synonym 'a hook = "cref \<Rightarrow> 'a transport_scheme \<Rightarrow> 'a transport_scheme"

record 'a service =
  sv_handlers :: "(u16, 'a rmc_handler) gomap"
  sv_fallback :: "'a rmc_handler option"
  sv_custom :: "(byte, cref \<Rightarrow> Packet \<Rightarrow> 'a transport_scheme \<Rightarrow> 'a transport_scheme) gomap"
  sv_OnConnect :: "'a hook option"
  sv_OnDisconnect :: "'a hook option"
  sv_OnRMC :: "(cref \<Rightarrow> rmc_message \<Rightarrow> 'a transport_scheme \<Rightarrow> 'a transport_scheme) option"

definition new_service :: "'a service" where
  "new_service = \<lparr>sv_handlers = [], sv_fallback = None, sv_custom = [], sv_OnConnect = None, sv_OnDisconnect = None, sv_OnRMC = None\<rparr>"

definition Register :: "u16 \<Rightarrow> 'a rmc_handler \<Rightarrow> 'a service \<Rightarrow> 'a service" where
  "Register protocolID h srv = srv\<lparr>sv_handlers := gm_put protocolID h (sv_handlers srv)\<rparr>"

definition RegisterFallback :: "'a rmc_handler option \<Rightarrow> 'a service \<Rightarrow> 'a service" where
  "RegisterFallback h srv = srv\<lparr>sv_fallback := h\<rparr>"

definition RegisterCustomPacketHandler ::
  "byte \<Rightarrow> (cref \<Rightarrow> Packet \<Rightarrow> 'a transport_scheme \<Rightarrow> 'a transport_scheme) \<Rightarrow> 'a service \<Rightarrow> 'a service" where
  "RegisterCustomPacketHandler packetType h srv = srv\<lparr>sv_custom := gm_put packetType h (sv_custom srv)\<rparr>"

definition handler :: "'a service \<Rightarrow> u16 \<Rightarrow> 'a rmc_handler option" where
  "handler srv protocolID =
     (case gm_get (sv_handlers srv) protocolID of Some h \<Rightarrow> Some h | None \<Rightarrow> sv_fallback srv)"

definition SetSecureAccount :: "string \<Rightarrow> pid \<Rightarrow> endpoint \<Rightarrow> endpoint" where
  "SetSecureAccount password p ep =
     ep\<lparr>ep_Secure := True, ep_SecureKey := DeriveKey (ep_Settings ep) (bytes_of password) p\<rparr>"

text \<open>What handling one packet reads: the clock, random bytes, and the environment of the recall table.\<close>

record packet_env =
  pe_now :: gotime
  pe_random :: "byte list"
  pe_recall :: recall_env

abbreviation conn_of :: "'a transport_scheme \<Rightarrow> cref \<Rightarrow> connection" where
  "conn_of st r \<equiv> conn_at (t_ep st) r"

definition upd_of :: "cref \<Rightarrow> (connection \<Rightarrow> connection) \<Rightarrow> 'a transport_scheme \<Rightarrow> 'a transport_scheme" where
  "upd_of r f st = st\<lparr>t_ep := upd_conn r f (t_ep st)\<rparr>"

definition emit :: "cref \<Rightarrow> byte list \<Rightarrow> 'a transport_scheme \<Rightarrow> 'a transport_scheme" where
  "emit r frame st = st\<lparr>t_sent := t_sent st @ [(r, frame)]\<rparr>"

section \<open>Signatures\<close>

definition liteConnSigKey :: "byte list" where
  "liteConnSigKey = the (hex_DecodeString ''26c31f381e46d6eb38e1af6ab70d11'')"

definition ConnectionSignature :: "byte list \<Rightarrow> string \<Rightarrow> byte list" where
  "ConnectionSignature random addr =
     (case SplitHostPort addr of
        None \<Rightarrow> random
      | Some (host, portStr) \<Rightarrow>
          (case Option.bind (ParseIP host) To4 of
             None \<Rightarrow> random
           | Some ip \<Rightarrow>
               (let (port, ok) = Atoi portStr
                in if ok then hmacMD5 liteConnSigKey (ip @ be_bytes 2 (unat (of_int port :: u16))) else random)))"

definition LitePacketSignature :: "string \<Rightarrow> Packet \<Rightarrow> byte list \<Rightarrow> byte list" where
  "LitePacketSignature accessKey p connectionSig =
     (if p_Type p = PacketCONNECT \<and> HasFlag p FlagNeedACK
      then (let key = md5Sum (bytes_of accessKey) in hmacMD5 key (key @ connectionSig))
      else [])"

definition min8 :: "int \<Rightarrow> byte \<Rightarrow> byte" where
  "min8 a b = (if a < uint b then of_int a else b)"

section \<open>Sending\<close>

definition reply_packet :: "connection \<Rightarrow> Packet" where
  "reply_packet c = zero_packet\<lparr>p_SourceType := c_srcType c, p_SourcePort := c_srcPort c, p_DestType := c_dstType c, p_DestPort := c_dstPort c\<rparr>"

definition sendAck :: "cref \<Rightarrow> Packet \<Rightarrow> 'a transport_scheme \<Rightarrow> 'a transport_scheme" where
  "sendAck r p st =
     emit r (EncodePacket ((reply_packet (conn_of st r))\<lparr>p_Type := p_Type p, p_Flags := FlagACK,
        p_FragmentID := p_FragmentID p, p_PacketID := p_PacketID p\<rparr>)) st"

definition data_fragment :: "connection \<Rightarrow> byte list \<Rightarrow> byte \<Rightarrow> Packet" where
  "data_fragment c chunk fragmentID =
     (reply_packet c)\<lparr>p_Type := PacketDATA, p_Flags := FlagReliable OR FlagNeedACK, p_FragmentID := fragmentID,
        p_PacketID := c_outReliable c, p_Payload := chunk\<rparr>"

definition sendOneFragment :: "cref \<Rightarrow> byte list \<Rightarrow> byte \<Rightarrow> 'a transport_scheme \<Rightarrow> 'a transport_scheme" where
  "sendOneFragment r chunk fragmentID st =
     (let c = conn_of st r; encoded = EncodePacket (data_fragment c chunk fragmentID);
          st1 = emit r encoded (upd_of r (\<lambda>c. c\<lparr>c_outReliable := c_outReliable c + 1\<rparr>) st)
      in upd_of r (\<lambda>c'. c'\<lparr>c_pending := gm_put (c_outReliable c) encoded (c_pending c')\<rparr>) st1)"

definition fragmentPacing :: "string \<Rightarrow> int" where
  "fragmentPacing v = wrap64 ((if v \<noteq> [] \<and> snd (Atoi v) then fst (Atoi v) else 15) * 1000000)"

definition frag_size :: "settings \<Rightarrow> nat" where
  "frag_size s = (if FragmentSize s \<le> 0 then 1300 else nat (FragmentSize s))"

definition sendData :: "cref \<Rightarrow> byte list \<Rightarrow> 'a transport_scheme \<Rightarrow> 'a transport_scheme" where
  "sendData r dat st =
     (if length dat \<le> frag_size (ep_Settings (t_ep st)) then sendOneFragment r dat 0 st
      else st\<lparr>t_senders := t_senders st @ [\<lparr>sj_conn = r, sj_fragmentID = 1, sj_rest = dat\<rparr>]\<rparr>)"

text \<open>One turn of the loop of a sending goroutine; none when it returns.\<close>

definition sender_step :: "sender \<Rightarrow> 'a transport_scheme \<Rightarrow> 'a transport_scheme \<times> sender option" where
  "sender_step j st =
     (let fragSize = frag_size (ep_Settings (t_ep st)); r = sj_conn j
      in if c_state (conn_of st r) = stateClosed then (st, None)
         else
           let more = (length (sj_rest j) > fragSize);
               chunk = (if more then take fragSize (sj_rest j) else sj_rest j);
               fragmentID = (if more then sj_fragmentID j else 0);
               st1 = sendOneFragment r chunk fragmentID st
           in (st1, if fragmentID = 0 then None
                    else Some (j\<lparr>sj_fragmentID := fragmentID + 1, sj_rest := drop fragSize (sj_rest j)\<rparr>)))"

definition sender_turn :: "nat \<Rightarrow> 'a transport_scheme \<Rightarrow> 'a transport_scheme" where
  "sender_turn i st =
     (if i \<ge> length (t_senders st) then st
      else
        let (st1, next) = sender_step (t_senders st ! i) st
        in st1\<lparr>t_senders := (case next of Some j \<Rightarrow> (t_senders st1)[i := j] | None \<Rightarrow> take i (t_senders st1) @ drop (Suc i) (t_senders st1))\<rparr>)"

definition SendRMC :: "cref \<Rightarrow> rmc_message \<Rightarrow> 'a transport_scheme \<Rightarrow> 'a transport_scheme" where
  "SendRMC r msg st = sendData r (rmc_Encode msg) st"

definition ackPackets :: "u16 \<Rightarrow> u16 list \<Rightarrow> connection \<Rightarrow> connection" where
  "ackPackets base extra c =
     c\<lparr>c_pending := fold gm_del extra (filter (\<lambda>e. \<not> fst e \<le> base) (c_pending c))\<rparr>"

text \<open>
  One tick of a retransmission loop; \<open>ord\<close> is the order in which Go visits the pending packets. The
  loop of a closed connection returns.
\<close>

definition retransmit_turn :: "nat \<Rightarrow> u16 list \<Rightarrow> 'a transport_scheme \<Rightarrow> 'a transport_scheme" where
  "retransmit_turn i ord st =
     (if i \<ge> length (t_loops st) then st
      else let r = t_loops st ! i
           in if c_state (conn_of st r) = stateClosed then st\<lparr>t_loops := take i (t_loops st) @ drop (Suc i) (t_loops st)\<rparr>
              else fold (emit r) (List.map_filter (gm_get (c_pending (conn_of st r))) ord) st)"

section \<open>Receiving\<close>

definition processSYN :: "packet_env \<Rightarrow> cref \<Rightarrow> Packet \<Rightarrow> 'a transport_scheme \<Rightarrow> 'a transport_scheme" where
  "processSYN env r p st =
     (let s = ep_Settings (t_ep st);
          c = (conn_of st r)\<lparr>c_srcType := p_DestType p, c_srcPort := p_DestPort p, c_dstType := p_SourceType p,
                c_dstPort := p_SourcePort p, c_connectionSig := ConnectionSignature (pe_random env) (c_RemoteAddr (conn_of st r)),
                c_minorVersion := min8 (PrudpMinorVersion s) (p_MinorVersion p),
                c_supportedFunc := of_int (SupportedFunctions s) AND p_SupportedFunc p\<rparr>;
          ack = (reply_packet c)\<lparr>p_Type := PacketSYN, p_Flags := FlagACK OR FlagHasSize, p_ConnectionSig := c_connectionSig c,
                p_MinorVersion := c_minorVersion c, p_SupportedFunc := c_supportedFunc c\<rparr>
      in emit r (EncodePacket ack) (upd_of r (\<lambda>_. c) st))"

definition read_check :: "settings \<Rightarrow> (pid \<times> u32 \<times> u32) reader" where
  "read_check s = in_PID s \<bind> (\<lambda>p. in_U32 \<bind> (\<lambda>cid. in_U32 \<bind> (\<lambda>check. ret (p, cid, check))))"

definition ticket_login :: "settings \<Rightarrow> byte list \<Rightarrow> byte list \<Rightarrow> (ServerTicket \<times> u32 \<times> u32) go_result" where
  "ticket_login s secureKey payload =
     go_bind (read_all_of read_two_buffers payload) (\<lambda>(ticketData, requestData).
     go_bind (DecryptServerTicket ticketData secureKey s) (\<lambda>ticket.
     go_bind (kerberosDecrypt (st_SessionKey ticket) requestData) (\<lambda>decrypted.
       if int (length decrypted) \<noteq> PIDSize s + 8 then Fail
       else
         let (p, cid, check) = fst (run_state (read_check s) (NewStreamIn decrypted))
         in if p \<noteq> st_Source ticket then Fail else Ok (ticket, cid, check))))"

definition processLoginRequest :: "packet_env \<Rightarrow> cref \<Rightarrow> byte list \<Rightarrow> 'a transport_scheme \<Rightarrow> 'a transport_scheme \<times> byte list go_result" where
  "processLoginRequest env r payload st =
     (let ep = t_ep st; s = ep_Settings ep
      in if \<not> ep_Secure ep then (st, Ok [])
         else if payload = [] then
           (case RecallAuthPID (pe_recall env) (c_RemoteAddr (conn_of st r)) (t_auth st) of
              (auth, None) \<Rightarrow> (st\<lparr>t_auth := auth\<rparr>, Fail)
            | (auth, Some p) \<Rightarrow> (upd_of r (c_PID_update (\<lambda>_. p)) (st\<lparr>t_auth := auth\<rparr>), Ok []))
         else
           (case ticket_login s (ep_SecureKey ep) payload of
              Fail \<Rightarrow> (st, Fail)
            | Panic \<Rightarrow> (st, Panic)
            | Ok (ticket, cid, check) \<Rightarrow>
                (upd_of r (\<lambda>c. c\<lparr>c_PID := st_Source ticket, c_CID := cid, c_sessionKey := st_SessionKey ticket\<rparr>) st,
                 Ok (out_U32 4 @ out_U32 (check + 1)))))"

definition run_hook :: "'a hook option \<Rightarrow> 'a hook" where
  "run_hook h r st = (case h of None \<Rightarrow> st | Some f \<Rightarrow> f r st)"

text \<open>The result of handling a packet: the state, and whether the handler panicked.\<close>

definition connected :: "'a service \<Rightarrow> cref \<Rightarrow> byte list \<Rightarrow> 'a transport_scheme \<Rightarrow> 'a transport_scheme" where
  "connected srv r response st =
     (let c = conn_of st r;
          ack = (reply_packet c)\<lparr>p_Type := PacketCONNECT, p_Flags := FlagACK OR FlagHasSize, p_MinorVersion := c_minorVersion c,
                p_SupportedFunc := c_supportedFunc c, p_PacketID := 1, p_Payload := response\<rparr>;
          st1 = upd_of r (c_state_update (\<lambda>_. stateConnected)) (emit r (EncodePacket ack) st)
      in run_hook (sv_OnConnect srv) r (st1\<lparr>t_ep := registerConnection r (t_ep st1), t_loops := t_loops st1 @ [r]\<rparr>))"

definition processCONNECT :: "'a service \<Rightarrow> packet_env \<Rightarrow> cref \<Rightarrow> Packet \<Rightarrow> 'a transport_scheme \<Rightarrow> 'a transport_scheme \<times> bool" where
  "processCONNECT srv env r p st =
     (if LitePacketSignature (AccessKey (ep_Settings (t_ep st))) p (c_connectionSig (conn_of st r)) \<noteq> p_Signature p then (st, False)
      else
        case processLoginRequest env r (p_Payload p) st of
          (st1, Fail) \<Rightarrow> (st1, False)
        | (st1, Panic) \<Rightarrow> (st1, True)
        | (st1, Ok response) \<Rightarrow> (connected srv r response st1, False))"

definition dispatchRMC :: "'a service \<Rightarrow> cref \<Rightarrow> byte list \<Rightarrow> 'a transport_scheme \<Rightarrow> 'a transport_scheme" where
  "dispatchRMC srv r payload st =
     (let s = ep_Settings (t_ep st)
      in case ParseRMC s payload of
           None \<Rightarrow> st
         | Some req \<Rightarrow>
             if rm_Mode req \<noteq> RMCRequest then st
             else
               let st1 = (case sv_OnRMC srv of None \<Rightarrow> st | Some f \<Rightarrow> f r req st)
               in case handler srv (rm_Protocol req) of
                    None \<Rightarrow> SendRMC r (NewRMCError s (rm_Protocol req) (rm_CallID req) ResultCoreNotImplemented) st1
                  | Some h \<Rightarrow>
                      (case h r req st1 of
                         (st2, None) \<Rightarrow> st2
                       | (st2, Some resp) \<Rightarrow> SendRMC r resp st2))"

fun read_extra :: "nat \<Rightarrow> byte list \<Rightarrow> u16 list" where
  "read_extra 0 pl = []"
| "read_extra (Suc n) pl = (if length pl < 2 then [] else of_nat (le_nat (take 2 pl)) # read_extra n (drop 2 pl))"

text \<open>Reassembly: the fragments so far, and the whole message behind its last fragment.\<close>

definition reassemble :: "byte list \<Rightarrow> Packet \<Rightarrow> byte list \<times> byte list option" where
  "reassemble fragBuf p =
     (let buf = fragBuf @ p_Payload p in if p_FragmentID p = 0 then ([], Some buf) else (buf, None))"

definition processData :: "'a service \<Rightarrow> cref \<Rightarrow> Packet \<Rightarrow> 'a transport_scheme \<Rightarrow> 'a transport_scheme" where
  "processData srv r p st =
     (if HasFlag p FlagMultiACK then
        (let pl = p_Payload p
         in if length pl \<ge> 4
            then upd_of r (ackPackets (of_nat (le_nat (take 2 (drop 2 pl)))) (read_extra (unat (pl ! 1)) (drop 4 pl))) st
            else st)
      else if HasFlag p FlagACK then upd_of r (ackPackets (p_PacketID p) []) st
      else
        let st1 = (if HasFlag p FlagNeedACK then sendAck r p st else st);
            (buf, full) = reassemble (c_fragBuf (conn_of st1 r)) p;
            st2 = upd_of r (c_fragBuf_update (\<lambda>_. buf)) st1
        in case full of None \<Rightarrow> st2 | Some msg \<Rightarrow> dispatchRMC srv r msg st2)"

definition processPing :: "cref \<Rightarrow> Packet \<Rightarrow> 'a transport_scheme \<Rightarrow> 'a transport_scheme" where
  "processPing r p st = (if HasFlag p FlagACK then st else if HasFlag p FlagNeedACK then sendAck r p st else st)"

definition close :: "'a service \<Rightarrow> cref \<Rightarrow> 'a transport_scheme \<Rightarrow> 'a transport_scheme" where
  "close srv r st =
     (let (ep, hook) = close_conn r (t_ep st)
      in if hook then run_hook (sv_OnDisconnect srv) r (st\<lparr>t_ep := ep\<rparr>) else st)"

definition handlePacket :: "'a service \<Rightarrow> packet_env \<Rightarrow> cref \<Rightarrow> Packet \<Rightarrow> 'a transport_scheme \<Rightarrow> 'a transport_scheme \<times> bool" where
  "handlePacket srv env r p st0 =
     (let st = upd_of r (c_lastSeen_update (\<lambda>_. pe_now env)) st0; t = p_Type p
      in if t = PacketSYN then (if HasFlag p FlagACK then st else processSYN env r p st, False)
         else if t = PacketCONNECT then (if HasFlag p FlagACK then (st, False) else processCONNECT srv env r p st)
         else if t = PacketDATA then (processData srv r p st, False)
         else if t = PacketPING then (processPing r p st, False)
         else if t = PacketDISCONNECT then
           (if HasFlag p FlagACK then st else close srv r (if HasFlag p FlagNeedACK then sendAck r p st else st), False)
         else (case gm_get (sv_custom srv) t of None \<Rightarrow> st | Some h \<Rightarrow> h r p st, False))"

text \<open>The packets of one read, each with the environment of its turn; a panic ends the read.\<close>

fun handle_packets :: "'a service \<Rightarrow> (nat \<Rightarrow> packet_env) \<Rightarrow> nat \<Rightarrow> cref \<Rightarrow> Packet list \<Rightarrow> 'a transport_scheme \<Rightarrow> 'a transport_scheme" where
  "handle_packets srv env k r [] st = st"
| "handle_packets srv env k r (p # ps) st =
     (case handlePacket srv (env k) r p st of
        (st1, True) \<Rightarrow> st1
      | (st1, False) \<Rightarrow> handle_packets srv env (Suc k) r ps st1)"

definition Feed :: "'a service \<Rightarrow> (nat \<Rightarrow> packet_env) \<Rightarrow> cref \<Rightarrow> byte list \<Rightarrow> 'a transport_scheme \<Rightarrow> 'a transport_scheme" where
  "Feed srv env r dat st =
     (let (rest, packets) = feed (c_recvBuf (conn_of st r)) dat
      in handle_packets srv env 0 r packets (upd_of r (c_recvBuf_update (\<lambda>_. rest)) st))"

section \<open>Sockets\<close>

text \<open>
  The events of the WebSocket library: \<open>conns\<close> maps an open socket to its connection. A binary frame
  is fed to the connection; \<open>binary\<close> tells whether the frame is one.
\<close>

type_synonym 'a sockets = "(nat, cref) gomap \<times> 'a transport_scheme"

definition OnOpen :: "nat \<Rightarrow> string \<Rightarrow> 'a sockets \<Rightarrow> 'a sockets" where
  "OnOpen socket addr s =
     (case s of (conns, st) \<Rightarrow>
        (gm_put socket (length (ep_sockets (t_ep st))) conns, st\<lparr>t_ep := open_socket addr (t_ep st)\<rparr>))"

definition OnClose :: "'a service \<Rightarrow> nat \<Rightarrow> 'a sockets \<Rightarrow> 'a sockets" where
  "OnClose srv socket s =
     (case s of (conns, st) \<Rightarrow>
        (case gm_get conns socket of None \<Rightarrow> s | Some r \<Rightarrow> (gm_del socket conns, close srv r st)))"

definition OnMessage :: "'a service \<Rightarrow> (nat \<Rightarrow> packet_env) \<Rightarrow> nat \<Rightarrow> bool \<Rightarrow> byte list \<Rightarrow> 'a sockets \<Rightarrow> 'a sockets" where
  "OnMessage srv env socket binary dat s =
     (case s of (conns, st) \<Rightarrow>
        if \<not> binary then s
        else (case gm_get conns socket of None \<Rightarrow> s | Some r \<Rightarrow> (conns, Feed srv env r dat st)))"

section \<open>Fragments\<close>

lemma upd_of_simps [simp]:
  "r < length (ep_sockets (t_ep st)) \<Longrightarrow> conn_of (upd_of r f st) r' = (if r' = r then f (conn_of st r) else conn_of st r')"
  "ep_Settings (t_ep (upd_of r f st)) = ep_Settings (t_ep st)" "length (ep_sockets (t_ep (upd_of r f st))) = length (ep_sockets (t_ep st))"
  "ep_connections (t_ep (upd_of r f st)) = ep_connections (t_ep st)" "ep_connCounter (t_ep (upd_of r f st)) = ep_connCounter (t_ep st)"
  "ep_Secure (t_ep (upd_of r f st)) = ep_Secure (t_ep st)" "ep_SecureKey (t_ep (upd_of r f st)) = ep_SecureKey (t_ep st)"
  "t_sent (upd_of r f st) = t_sent st" "t_senders (upd_of r f st) = t_senders st" "t_loops (upd_of r f st) = t_loops st"
  "t_auth (upd_of r f st) = t_auth st"
  by (simp_all add: upd_of_def upd_conn_def conn_at_def)

lemma emit_simps [simp]:
  "t_ep (emit r frame st) = t_ep st" "t_sent (emit r frame st) = t_sent st @ [(r, frame)]" "t_senders (emit r frame st) = t_senders st"
  "t_loops (emit r frame st) = t_loops st" "t_auth (emit r frame st) = t_auth st"
  by (simp_all add: emit_def)

text \<open>The messages a receiver reassembles from a sequence of packets.\<close>

fun reassemble_all :: "byte list \<Rightarrow> Packet list \<Rightarrow> byte list \<times> byte list list" where
  "reassemble_all buf [] = (buf, [])"
| "reassemble_all buf (p # ps) =
     (let (buf', full) = reassemble buf p; (rest, msgs) = reassemble_all buf' ps
      in (rest, case full of None \<Rightarrow> msgs | Some m \<Rightarrow> m # msgs))"


lemma upd_conn_upd: "r < length (ep_sockets ep) \<Longrightarrow> upd_conn r g (upd_conn r f ep) = upd_conn r (g \<circ> f) ep"
  by (simp add: upd_conn_def conn_at_def)









lemma conn_of_other [simp]: "r' \<noteq> r \<Longrightarrow> conn_of (upd_of r' f st) r = conn_of st r"
  by (simp add: upd_of_def upd_conn_def conn_at_def)



lemma data_fragment_simps [simp]:
  "p_PacketID (data_fragment c chunk i) = c_outReliable c" "\<not> HasFlag (data_fragment c chunk i) FlagACK"
  "reassemble buf (data_fragment c chunk i) = (if i = 0 then ([], Some (buf @ chunk)) else (buf @ chunk, None))"
  by (simp_all add: data_fragment_def HasFlag_def flag_consts reassemble_def)













text \<open>Two connections; a message is sent on each, and the goroutines take turns.\<close>

definition sample_transport :: transport where
  "sample_transport =
     \<lparr>t_ep = (NewEndpoint ((NewSwitchSettings ''09c1c475'' 40000)\<lparr>FragmentSize := 2\<rparr>))\<lparr>ep_sockets := [NewConnection ''10.0.0.1:5000'', NewConnection ''10.0.0.2:5000'']\<rparr>,
      t_auth = empty_auth, t_sent = [], t_senders = [], t_loops = []\<rparr>"




text \<open>
  Two messages of several fragments sent at the same time share the fragment stream of the
  connection: when their goroutines alternate, the peer reassembles two messages that nobody sent.
\<close>

lemma interleaved_senders:
  defines "st \<equiv> sendData 0 [4, 5, 6] (sendData 0 [1, 2, 3] sample_transport)"
  shows "\<exists>ps. t_sent (sender_turn 0 (sender_turn 0 (sender_turn 1 (sender_turn 0 st)))) = map (\<lambda>p. (0, EncodePacket p)) ps \<and>
     reassemble_all [] ps = ([], [[1, 2, 4, 5, 3], [6]])"
proof -
  let ?c = "\<lambda>n. (NewConnection ''10.0.0.1:5000'')\<lparr>c_outReliable := n\<rparr>"
  show ?thesis
    by (intro exI [of _ "[data_fragment (?c 1) [1, 2] 1, data_fragment (?c 2) [4, 5] 1, data_fragment (?c 3) [3] 0, data_fragment (?c 4) [6] 0]"])
      (simp add: st_def sample_transport_def sendData_def sender_turn_def sender_step_def sendOneFragment_def Let_def emit_def upd_of_def
         upd_conn_def conn_at_def NewEndpoint_def NewConnection_def frag_size_def data_fragment_def reply_packet_def reassemble_def)
qed

section \<open>Acknowledgements\<close>

lemma ackPackets_pending:
  "gm_get (c_pending (ackPackets base extra c)) i = (if i \<le> base \<or> i \<in> set extra then None else gm_get (c_pending c) i)"
proof -
  have "gm_get (filter (\<lambda>e. \<not> fst e \<le> base) m) i = (if i \<le> base then None else gm_get m i)" for m :: "(u16, byte list) gomap"
    by (induction m) auto
  then show ?thesis
    by (simp add: ackPackets_def gm_get_fold_del)
qed

text \<open>
  The comparison is not modular: once the ids have wrapped, an acknowledgement of the last id before
  the wrap also drops the packets sent after it, which the peer may never have received.
\<close>

lemma ack_after_wrap:
  assumes "c_outReliable (conn_of st r) = 0xFFFF" and "r < length (ep_sockets (t_ep st))"
  shows "c_pending (ackPackets 0xFFFF [] (conn_of (sendOneFragment r y 0 (sendOneFragment r x 0 st)) r)) = []"
    and "gm_get (c_pending (conn_of (sendOneFragment r y 0 (sendOneFragment r x 0 st)) r)) 0 \<noteq> None"
proof -
  have "e \<le> (0xFFFF :: u16)" for e
    using unat_lt_bytes(1) [of e] by (simp add: word_le_nat_alt)
  then show "c_pending (ackPackets 0xFFFF [] (conn_of (sendOneFragment r y 0 (sendOneFragment r x 0 st)) r)) = []"
    by (simp add: ackPackets_def)
  show "gm_get (c_pending (conn_of (sendOneFragment r y 0 (sendOneFragment r x 0 st)) r)) 0 \<noteq> None"
    using assms by (simp add: sendOneFragment_def Let_def)
qed

section \<open>From login to connection\<close>

definition check_data :: "settings \<Rightarrow> pid \<Rightarrow> u32 \<Rightarrow> u32 \<Rightarrow> byte list" where
  "check_data s p cid check = out_PID s p @ out_U32 cid @ out_U32 check"

lemma read_check_data:
  "pid_ok s p \<Longrightarrow> fst (run_state (read_check s) (NewStreamIn (check_data s p cid check))) = (p, cid, check)"
proof -
  assume "pid_ok s p"
  then have "reads (read_check s) (check_data s p cid check) (p, cid, check)"
    unfolding read_check_def check_data_def
    by (intro reads_bind [OF reads_PID] reads_bind [OF reads_U32] reads_bind_ret [OF reads_U32]) simp_all
  then show ?thesis
    using readsD [of "read_check s" "check_data s p cid check" "(p, cid, check)" "[]" "[]"] by (simp add: NewStreamIn_stream_at)
qed

lemma ticket_login_issued:
  assumes t: "DecryptServerTicket internal key s = Ok t" "buffer_ok internal" and size: "PIDSize s \<in> {4, 8}" and q: "pid_ok s q"
    and e: "kerberosEncrypt (st_SessionKey t) (check_data s q cid check) = Ok request"
  shows "ticket_login s key (out_Buffer internal @ out_Buffer request) = (if q = st_Source t then Ok (t, cid, check) else Fail)"
proof -
  have "length (check_data s q cid check) \<le> 16"
    using length_out_PID_le [of s q] by (simp add: check_data_def out_U32_def)
  then have "buffer_ok request"
    using length_kerberosEncrypt [OF e] by (simp add: buffer_ok_def)
  then have "read_all_of read_two_buffers (out_Buffer internal @ out_Buffer request) = Ok (internal, request)"
    using t(2) by (intro read_all_of_reads reads_two_buffers)
  moreover have "int (length (check_data s q cid check)) = PIDSize s + 8"
    using size by (auto simp: check_data_def out_PID_def out_U32_def out_U64_def)
  ultimately show ?thesis
    using t(1) kerberosDecrypt_Encrypt [OF e] read_check_data [OF q, of cid check] by (simp add: ticket_login_def)
qed

text \<open>The ticket a login issues, as its two receivers see it.\<close>

lemma issue_ticket_opens:
  assumes keys: "le_sessionKey env = Some sk" "int (length sk) = KerberosKeySize (ac_Settings cfg)" "rc4_key_ok sk"
    "le_ticketKey env = Some tk" "length tk = 16" "rc4_key_ok sourceKey" "0 \<le> session_key_len cfg"
    and pids: "pid_ok (ac_Settings cfg) p" "pid_ok (ac_Settings cfg) (ac_SecurePID cfg)"
  obtains ticket internal where "issue_ticket cfg env p sourceKey = Ok ticket"
    and "DecryptClientTicket ticket sourceKey (ac_Settings cfg) = Ok \<lparr>ct_SessionKey = sk, ct_Target = ac_SecurePID cfg, ct_Internal = internal\<rparr>"
    and "DecryptServerTicket internal (DeriveKey (ac_Settings cfg) (bytes_of (ac_SecurePassword cfg)) (ac_SecurePID cfg)) (ac_Settings cfg)
       = Ok \<lparr>st_Timestamp = le_ticketDate env, st_Source = p, st_SessionKey = sk\<rparr>"
    and "buffer_ok internal"
proof -
  let ?s = "ac_Settings cfg" and ?t = "\<lparr>st_Timestamp = le_ticketDate env, st_Source = p, st_SessionKey = sk\<rparr>"
  let ?k = "DeriveKey ?s (bytes_of (ac_SecurePassword cfg)) (ac_SecurePID cfg)"
  obtain internal where i: "ServerTicket_Encrypt (Some tk) ?t ?k ?s = Ok internal"
    using keys(2) kerberosEncrypt_total [of "md5Sum (?k @ tk)" "ServerTicket_body ?t ?s"] kerberosEncrypt_total [of ?k "ServerTicket_body ?t ?s"]
    by (cases "KerberosTicketVersion ?s = 1") (auto simp: ServerTicket_Encrypt_def rc4_key_ok_def length_DeriveKey)
  have len: "length internal \<le> 16 + 8 + (32 + length sk)"
    using i length_kerberosEncrypt length_ServerTicket_body [of ?t ?s] keys(5)
    by (fastforce simp: ServerTicket_Encrypt_def go_bind_Ok out_Buffer_def split: if_splits)
  have b: "buffer_ok internal"
    using len keys(3) by (simp add: buffer_ok_def rc4_key_ok_def)
  let ?c = "\<lparr>ct_SessionKey = sk, ct_Target = ac_SecurePID cfg, ct_Internal = internal\<rparr>"
  obtain ticket where t: "ClientTicket_Encrypt ?c sourceKey ?s = Ok ticket"
    using keys(2,6) kerberosEncrypt_total [of sourceKey] by (auto simp: ClientTicket_Encrypt_def)
  show ?thesis
  proof (rule that)
    show "issue_ticket cfg env p sourceKey = Ok ticket"
      using keys i t by (simp add: issue_ticket_def)
    show "DecryptClientTicket ticket sourceKey ?s = Ok ?c"
      using t pids(2) b by (intro DecryptClientTicket_Encrypt) simp_all
    show "DecryptServerTicket internal ?k ?s = Ok ?t"
      using i keys(2,3,5) pids(1) by (intro DecryptServerTicket_Encrypt) (simp_all add: rc4_key_ok_def)
  qed (rule b)
qed

text \<open>
  C33: a login leads to a connection as the same account. When the keys have the sizes the settings
  ask for, a login for the account \<open>p\<close> issues a ticket; the holder of the source key opens it; and the
  CONNECT payload made of the inner ticket and the check data encrypted under its session key is
  accepted by an endpoint of the same secure account: the answer proves the session key with the
  incremented check value, and the connection carries \<open>p\<close>, the client's connection id and the session
  key. The same ticket with the check data of any other account is refused and changes nothing.
\<close>

theorem ticket_admits:
  fixes cid check :: u32
  assumes keys: "le_sessionKey env = Some sk" "int (length sk) = KerberosKeySize (ac_Settings cfg)" "rc4_key_ok sk"
    "le_ticketKey env = Some tk" "length tk = 16" "rc4_key_ok sourceKey" "0 \<le> session_key_len cfg"
    and pids: "PIDSize (ac_Settings cfg) \<in> {4, 8}" "pid_ok (ac_Settings cfg) p" "pid_ok (ac_Settings cfg) (ac_SecurePID cfg)"
    and ep: "t_ep st = SetSecureAccount (ac_SecurePassword cfg) (ac_SecurePID cfg) ep0" "ep_Settings ep0 = ac_Settings cfg"
    and r: "r < length (ep_sockets (t_ep st))"
  shows "\<exists>ticket ct. issue_ticket cfg env p sourceKey = Ok ticket \<and> DecryptClientTicket ticket sourceKey (ac_Settings cfg) = Ok ct \<and>
     (\<forall>q. pid_ok (ac_Settings cfg) q \<longrightarrow>
        (\<exists>request. kerberosEncrypt (ct_SessionKey ct) (check_data (ac_Settings cfg) q cid check) = Ok request \<and>
        (case processLoginRequest penv r (out_Buffer (ct_Internal ct) @ out_Buffer request) st of (st', result) \<Rightarrow>
           if q = p then result = Ok (out_U32 4 @ out_U32 (check + 1)) \<and> c_PID (conn_of st' r) = p \<and> c_CID (conn_of st' r) = cid \<and>
             c_sessionKey (conn_of st' r) = ct_SessionKey ct
           else result = Fail \<and> st' = st)))"
proof -
  let ?s = "ac_Settings cfg"
  obtain ticket internal where t: "issue_ticket cfg env p sourceKey = Ok ticket"
    "DecryptClientTicket ticket sourceKey ?s = Ok \<lparr>ct_SessionKey = sk, ct_Target = ac_SecurePID cfg, ct_Internal = internal\<rparr>"
    "DecryptServerTicket internal (DeriveKey ?s (bytes_of (ac_SecurePassword cfg)) (ac_SecurePID cfg)) ?s
       = Ok \<lparr>st_Timestamp = le_ticketDate env, st_Source = p, st_SessionKey = sk\<rparr>" "buffer_ok internal"
    using issue_ticket_opens [OF keys pids(2,3)] by metis
  note login = ticket_login_issued [OF t(3,4) pids(1), unfolded ServerTicket.select_convs]
  have nonempty: "out_Buffer internal @ x \<noteq> []" for x
    by (simp add: out_Buffer_def out_U32_def flip: length_0_conv)
  have accepted: "case processLoginRequest penv r (out_Buffer internal @ out_Buffer request) st of (st', result) \<Rightarrow>
      if q = p then result = Ok (out_U32 4 @ out_U32 (check + 1)) \<and> c_PID (conn_of st' r) = p \<and> c_CID (conn_of st' r) = cid \<and>
        c_sessionKey (conn_of st' r) = sk
      else result = Fail \<and> st' = st"
    if "pid_ok ?s q" and "kerberosEncrypt sk (check_data ?s q cid check) = Ok request" for q request
    using login [OF that] nonempty ep r by (simp add: processLoginRequest_def SetSecureAccount_def)
  let ?ct = "\<lparr>ct_SessionKey = sk, ct_Target = ac_SecurePID cfg, ct_Internal = internal\<rparr>"
  show ?thesis
  proof (rule exI [of _ ticket], rule exI [of _ ?ct], intro conjI allI impI t(1,2))
    fix q
    assume q: "pid_ok ?s q"
    obtain request where e: "kerberosEncrypt sk (check_data ?s q cid check) = Ok request"
      using kerberosEncrypt_total [OF keys(3)] by blast
    show "\<exists>request. kerberosEncrypt (ct_SessionKey ?ct) (check_data ?s q cid check) = Ok request \<and>
      (case processLoginRequest penv r (out_Buffer (ct_Internal ?ct) @ out_Buffer request) st of (st', result) \<Rightarrow>
        if q = p then result = Ok (out_U32 4 @ out_U32 (check + 1)) \<and> c_PID (conn_of st' r) = p \<and> c_CID (conn_of st' r) = cid \<and>
          c_sessionKey (conn_of st' r) = ct_SessionKey ?ct
        else result = Fail \<and> st' = st)"
      unfolding ClientTicket.select_convs by (intro exI [of _ request] conjI e accepted [OF q e])
  qed
qed

definition sample_auth :: AuthConfig where
  "sample_auth = \<lparr>ac_Settings = NewSwitchSettings ''09c1c475'' 40000, ac_SecurePID = 2, ac_SecurePassword = ''password'',
     ac_SecureStationURL = None, ac_SpecialProtocols = [], ac_ServerName = ''nextendo'', ac_SessionKeyLength = 32\<rparr>"

definition sample_recall :: recall_env where
  "sample_recall = \<lparr>re_file = [], re_saved = None, re_load_now = (\<lambda>_. 0), re_now = 1\<rparr>"

definition sample_login :: login_env where
  "sample_login = \<lparr>le_recall = sample_recall, le_sessionKey = Some (replicate 32 7), le_ticketKey = Some (replicate 16 9), le_ticketDate = 0, le_replyDate = 0\<rparr>"

definition sample_penv :: packet_env where
  "sample_penv = \<lparr>pe_now = 1, pe_random = replicate 16 0, pe_recall = sample_recall\<rparr>"

definition secure_transport :: transport where
  "secure_transport = sample_transport\<lparr>t_ep := SetSecureAccount ''password'' 2 ((NewEndpoint (ac_Settings sample_auth))
     \<lparr>ep_sockets := [NewConnection ''10.0.0.1:5000'']\<rparr>)\<rparr>"

lemma sample_env: "le_sessionKey sample_login = Some (replicate 32 7)" "le_ticketKey sample_login = Some (replicate 16 9)"
  by (simp_all add: sample_login_def)

lemma sample_sizes:
  "int (length (replicate 32 (7 :: byte))) = KerberosKeySize (ac_Settings sample_auth)" "0 \<le> session_key_len sample_auth"
  "PIDSize (ac_Settings sample_auth) \<in> {4, 8}" "pid_ok (ac_Settings sample_auth) 1001" "pid_ok (ac_Settings sample_auth) (ac_SecurePID sample_auth)"
  by (simp_all add: sample_auth_def session_key_len_def NewSwitchSettings_def pid_ok_def)

lemma sample_keys: "rc4_key_ok (replicate 32 7)" "length (replicate 16 (9 :: byte)) = 16" "rc4_key_ok [1, 2, 3]"
  by (simp_all add: rc4_key_ok_def)

theorem ticket_admits_witness:
  "\<exists>ticket ct request. issue_ticket sample_auth sample_login 1001 [1, 2, 3] = Ok ticket \<and>
     DecryptClientTicket ticket [1, 2, 3] (ac_Settings sample_auth) = Ok ct \<and>
     kerberosEncrypt (ct_SessionKey ct) (check_data (ac_Settings sample_auth) 1001 5 6) = Ok request \<and>
     snd (processLoginRequest sample_penv 0 (out_Buffer (ct_Internal ct) @ out_Buffer request) secure_transport) = Ok (out_U32 4 @ out_U32 7)"
proof -
  let ?s = "ac_Settings sample_auth" and ?ep = "(NewEndpoint (ac_Settings sample_auth))\<lparr>ep_sockets := [NewConnection ''10.0.0.1:5000'']\<rparr>"
  have ep: "t_ep secure_transport = SetSecureAccount (ac_SecurePassword sample_auth) (ac_SecurePID sample_auth) ?ep" "ep_Settings ?ep = ?s"
    "0 < length (ep_sockets (t_ep secure_transport))"
    by (simp_all add: secure_transport_def sample_auth_def SetSecureAccount_def NewEndpoint_def)
  obtain ticket ct where t: "issue_ticket sample_auth sample_login 1001 [1, 2, 3] = Ok ticket" "DecryptClientTicket ticket [1, 2, 3] ?s = Ok ct"
    and q: "\<And>q. pid_ok ?s q \<Longrightarrow> \<exists>request. kerberosEncrypt (ct_SessionKey ct) (check_data ?s q 5 6) = Ok request \<and>
      (case processLoginRequest sample_penv 0 (out_Buffer (ct_Internal ct) @ out_Buffer request) secure_transport of (st', result) \<Rightarrow>
         if q = 1001 then result = Ok (out_U32 4 @ out_U32 (6 + 1)) \<and> c_PID (conn_of st' 0) = 1001 \<and> c_CID (conn_of st' 0) = 5 \<and>
           c_sessionKey (conn_of st' 0) = ct_SessionKey ct
         else result = Fail \<and> st' = secure_transport)"
    using ticket_admits [OF sample_env(1) sample_sizes(1) sample_keys(1) sample_env(2) sample_keys(2,3) sample_sizes(2-5) ep, of 5 6 sample_penv] by blast
  from t q [OF sample_sizes(4)] show ?thesis
    by (simp add: split_beta) blast
qed

section \<open>A CONNECT that arrives twice\<close>

definition keeps_table :: "'a hook option \<Rightarrow> bool" where
  "keeps_table h \<longleftrightarrow> (\<forall>r st. t_ep (run_hook h r st) = t_ep st)"

definition connect_with :: "Packet \<Rightarrow> 'a transport_scheme \<Rightarrow> cref \<Rightarrow> ServerTicket \<Rightarrow> u32 \<Rightarrow> u32 \<Rightarrow> bool" where
  "connect_with p st r ticket cid check \<longleftrightarrow>
     ep_Secure (t_ep st) \<and> p_Type p = PacketCONNECT \<and> \<not> HasFlag p FlagACK \<and> p_Payload p \<noteq> [] \<and>
     p_Signature p = LitePacketSignature (AccessKey (ep_Settings (t_ep st))) p (c_connectionSig (conn_of st r)) \<and>
     ticket_login (ep_Settings (t_ep st)) (ep_SecureKey (t_ep st)) (p_Payload p) = Ok (ticket, cid, check)"

lemma connect_accepted:
  assumes "connect_with p st r ticket cid check" and "r < length (ep_sockets (t_ep st))"
  shows "handlePacket srv env r p st =
    (connected srv r (out_U32 4 @ out_U32 (check + 1))
       (upd_of r (\<lambda>c. c\<lparr>c_lastSeen := pe_now env, c_PID := st_Source ticket, c_CID := cid, c_sessionKey := st_SessionKey ticket\<rparr>) st), False)"
proof -
  have "upd_of r g (upd_of r f st) = upd_of r (g \<circ> f) st" for f g
    using assms(2) by (simp add: upd_of_def upd_conn_upd)
  then show ?thesis
    using assms by (simp add: connect_with_def handlePacket_def processCONNECT_def processLoginRequest_def packet_consts o_def)
qed

lemma connected_ep:
  assumes "keeps_table (sv_OnConnect srv)"
  shows "t_ep (connected srv r response st) = registerConnection r (upd_conn r (c_state_update (\<lambda>_. stateConnected)) (t_ep st))"
  using assms by (simp add: connected_def keeps_table_def Let_def upd_of_def)

text \<open>
  C34: a repeated CONNECT leaves an entry behind. A client that repeats its CONNECT, as it does when the
  first acknowledgement is late, is registered again under a new id; closing the connection removes
  only the newer entry. The older one keeps mapping its id to the closed connection, and closing that
  connection again, which is all that eviction does, changes nothing.
\<close>

theorem repeated_connect_leaves_entry:
  fixes st :: "'a transport_scheme" and env1 env2 :: packet_env
  assumes "connect_with p st r ticket cid check" and "r < length (ep_sockets (t_ep st))" and "ep_connCounter (t_ep st) + 2 \<noteq> 0"
    and "keeps_table (sv_OnConnect srv)" and "keeps_table (sv_OnDisconnect srv)"
  defines "st2 \<equiv> fst (handlePacket srv env2 r p (fst (handlePacket srv env1 r p st)))"
  shows "c_ID (conn_of st2 r) = ep_connCounter (t_ep st) + 2 \<and>
    FindConnectionByID (t_ep (close srv r st2)) (ep_connCounter (t_ep st) + 2) = None \<and>
    FindConnectionByID (t_ep (close srv r st2)) (ep_connCounter (t_ep st) + 1) = Some r \<and>
    c_state (conn_of (close srv r st2) r) = stateClosed \<and>
    close srv r (close srv r st2) = close srv r st2"
proof -
  let ?n = "ep_connCounter (t_ep st)" and ?st1 = "fst (handlePacket srv env1 r p st)"
  have add: "?n + 1 + 1 = ?n + 2"
    by simp
  note reg = registerConnection_def Let_def upd_conn_def conn_at_def
  have ep1: "ep_connCounter (t_ep ?st1) = ?n + 1" "gm_get (ep_connections (t_ep ?st1)) (?n + 1) = Some r"
    "length (ep_sockets (t_ep ?st1)) = length (ep_sockets (t_ep st))" and c1: "connect_with p ?st1 r ticket cid check"
    using assms(1,2) by (simp_all add: connect_accepted connected_ep [OF assms(4)] reg upd_of_def connect_with_def)
  then have r1: "r < length (ep_sockets (t_ep ?st1))"
    using assms(2) by simp
  have ep2: "c_ID (conn_of st2 r) = ?n + 2" "c_state (conn_of st2 r) = stateConnected" "r < length (ep_sockets (t_ep st2))"
    "gm_get (ep_connections (t_ep st2)) = (gm_get (ep_connections (t_ep ?st1)))(?n + 2 \<mapsto> r)"
    using r1 ep1(1) add unfolding st2_def connect_accepted [OF c1 r1] fst_conv connected_ep [OF assms(4)]
    by (auto simp: reg upd_of_def fun_eq_iff)
  have cl: "t_ep (close srv r st2) = unregisterConnection r (upd_conn r (c_state_update (\<lambda>_. stateClosed)) (t_ep st2))"
    using assms(5) ep2(2) by (simp add: close_def close_conn_def keeps_table_def)
  have "gm_get (ep_connections (t_ep (close srv r st2))) k = (if k = ?n + 2 then None else gm_get (ep_connections (t_ep ?st1)) k)" for k
    using assms(3) ep2 by (simp add: cl unregisterConnection_def)
  moreover have closed: "c_state (conn_of (close srv r st2) r) = stateClosed"
    using ep2(3) by (simp add: cl unregisterConnection_def conn_at_def upd_conn_def)
  moreover have "close srv r (close srv r st2) = close srv r st2"
    using closed by (subst close_def) (simp add: close_conn_def)
  ultimately show ?thesis
    using ep1(2) ep2(1) by (simp add: FindConnectionByID_def)
qed

lemma sample_connect:
  obtains p ticket cid check where "connect_with p secure_transport 0 ticket cid check"
proof -
  let ?s = "ac_Settings sample_auth" and ?t = "\<lparr>st_Timestamp = le_ticketDate sample_login, st_Source = 1001, st_SessionKey = replicate 32 7\<rparr>"
  let ?k = "DeriveKey ?s (bytes_of (ac_SecurePassword sample_auth)) (ac_SecurePID sample_auth)"
  obtain internal where i: "DecryptServerTicket internal ?k ?s = Ok ?t" "buffer_ok internal"
    using issue_ticket_opens [OF sample_env(1) sample_sizes(1) sample_keys(1) sample_env(2) sample_keys(2,3) sample_sizes(2,4,5)] by metis
  obtain request where "kerberosEncrypt (st_SessionKey ?t) (check_data ?s 1001 5 6) = Ok request"
    using kerberosEncrypt_total [OF sample_keys(1)] by auto
  then have login: "ticket_login ?s ?k (out_Buffer internal @ out_Buffer request) = Ok (?t, 5, 6)"
    by (simp add: ticket_login_issued [OF i sample_sizes(3,4)])
  let ?p = "zero_packet\<lparr>p_Type := PacketCONNECT, p_Payload := out_Buffer internal @ out_Buffer request\<rparr>"
  have "out_Buffer internal \<noteq> []"
    by (simp add: out_Buffer_def out_U32_def flip: length_0_conv)
  moreover have "ep_Secure (t_ep secure_transport)" "ep_SecureKey (t_ep secure_transport) = ?k" "ep_Settings (t_ep secure_transport) = ?s"
    by (simp_all add: secure_transport_def SetSecureAccount_def NewEndpoint_def sample_auth_def)
  ultimately have "connect_with ?p secure_transport 0 ?t 5 6"
    using login by (simp add: connect_with_def LitePacketSignature_def HasFlag_def zero_packet_def)
  then show ?thesis
    by (rule that)
qed

theorem repeated_connect_leaves_entry_witness:
  "\<exists>p. let st2 = fst (handlePacket new_service sample_penv 0 p (fst (handlePacket new_service sample_penv 0 p secure_transport)));
          st3 = close new_service 0 st2
       in FindConnectionByID (t_ep st3) 1 = Some 0 \<and> c_state (conn_of st3 0) = stateClosed"
proof -
  obtain p ticket cid check where p: "connect_with p secure_transport 0 ticket cid check"
    by (rule sample_connect)
  have "ep_connCounter (t_ep secure_transport) = 0" "0 < length (ep_sockets (t_ep secure_transport))"
    by (simp_all add: secure_transport_def SetSecureAccount_def NewEndpoint_def)
  then show ?thesis
    using repeated_connect_leaves_entry [OF p, of new_service sample_penv sample_penv]
    by (auto simp: keeps_table_def new_service_def run_hook_def Let_def)
qed

section \<open>Who a connection speaks for\<close>

definition keeps_identity :: "'a transport_scheme \<Rightarrow> 'a transport_scheme \<Rightarrow> bool" where
  "keeps_identity st st' \<longleftrightarrow> length (ep_sockets (t_ep st')) = length (ep_sockets (t_ep st)) \<and>
     (\<forall>q < length (ep_sockets (t_ep st)). c_PID (conn_of st' q) = c_PID (conn_of st q)) \<and> (refs_ok (t_ep st) \<longrightarrow> refs_ok (t_ep st'))"

lemma keeps_refl [simp]: "keeps_identity st st"
  by (simp add: keeps_identity_def)

lemma keeps_trans: "keeps_identity a b \<Longrightarrow> keeps_identity b c \<Longrightarrow> keeps_identity a c"
  by (simp add: keeps_identity_def)

lemma keeps_ep: "t_ep b = t_ep a \<Longrightarrow> keeps_identity a b"
  by (simp add: keeps_identity_def)

lemma keeps_upd_conn: "c_PID (f (conn_of a r)) = c_PID (conn_of a r) \<Longrightarrow> t_ep b = upd_conn r f (t_ep a) \<Longrightarrow> keeps_identity a b"
  by (cases "r < length (ep_sockets (t_ep a))")
    (simp_all add: keeps_identity_def, simp add: upd_conn_def conn_at_def list_update_beyond)

lemma keeps_upd_of: "c_PID (f (conn_of st r)) = c_PID (conn_of st r) \<Longrightarrow> keeps_identity st (upd_of r f st)"
  by (rule keeps_upd_conn [of f _ r]) (simp_all add: upd_of_def)

lemma keeps_sendOneFragment: "keeps_identity st (sendOneFragment r chunk i st)"
  unfolding sendOneFragment_def Let_def
  by (rule keeps_trans [OF keeps_trans [OF keeps_upd_of keeps_ep [OF emit_simps(1)]] keeps_upd_of]) simp_all

lemma keeps_SendRMC: "keeps_identity st (SendRMC r msg st)"
  by (simp add: SendRMC_def sendData_def keeps_sendOneFragment keeps_ep)

lemma keeps_sendAck: "keeps_identity st (sendAck r p st)"
  by (rule keeps_ep) (simp add: sendAck_def)

lemma keeps_close_conn: "t_ep b = fst (close_conn r (t_ep a)) \<Longrightarrow> keeps_identity a b"
  using refs_ok_close [of "t_ep a" r]
  by (cases "r < length (ep_sockets (t_ep a))")
    (auto simp: keeps_identity_def close_conn_def unregisterConnection_def upd_conn_def conn_at_def list_update_beyond nth_list_update)

definition proven_account :: "packet_env \<Rightarrow> 'a transport_scheme \<Rightarrow> cref \<Rightarrow> byte list \<Rightarrow> pid \<Rightarrow> bool" where
  "proven_account env st r payload p \<longleftrightarrow>
     payload = [] \<and> snd (RecallAuthPID (pe_recall env) (c_RemoteAddr (conn_of st r)) (t_auth st)) = Some p \<or>
     (\<exists>ticket cid check. ticket_login (ep_Settings (t_ep st)) (ep_SecureKey (t_ep st)) payload = Ok (ticket, cid, check) \<and> st_Source ticket = p)"

text \<open>What a service promises: none of its functions changes the account of a connection.\<close>

locale identity_service =
  fixes srv :: "'a service"
  assumes handler_keeps: "handler srv k = Some h \<Longrightarrow> keeps_identity st (fst (h r req st))"
    and custom_keeps: "gm_get (sv_custom srv) t = Some hc \<Longrightarrow> keeps_identity st (hc r p st)"
    and OnConnect_keeps: "keeps_identity st (run_hook (sv_OnConnect srv) r st)"
    and OnDisconnect_keeps: "keeps_identity st (run_hook (sv_OnDisconnect srv) r st)"
    and OnRMC_keeps: "sv_OnRMC srv = Some hr \<Longrightarrow> keeps_identity st (hr r req st)"
begin

lemma close_keeps: "keeps_identity st (close srv r st)"
proof (cases "close_conn r (t_ep st)")
  case (Pair ep hook)
  have "keeps_identity st (st\<lparr>t_ep := ep\<rparr>)"
    using Pair by (intro keeps_close_conn [of _ r]) simp
  then show ?thesis
    using keeps_trans [OF _ OnDisconnect_keeps, of st "st\<lparr>t_ep := ep\<rparr>"] by (simp add: close_def Pair)
qed

lemma dispatch_keeps: "keeps_identity st (dispatchRMC srv r payload st)"
proof (cases "ParseRMC (ep_Settings (t_ep st)) payload")
  case (Some req)
  define st1 where "st1 = (case sv_OnRMC srv of None \<Rightarrow> st | Some f \<Rightarrow> f r req st)"
  have st1: "keeps_identity st st1"
    using OnRMC_keeps by (simp add: st1_def split: option.split)
  show ?thesis
  proof (cases "handler srv (rm_Protocol req)")
    case None
    then show ?thesis
      using Some keeps_trans [OF st1 keeps_SendRMC] by (simp add: dispatchRMC_def st1_def)
  next
    case h: (Some h)
    obtain st2 resp where st2: "h r req st1 = (st2, resp)"
      by fastforce
    have "keeps_identity st st2"
      using keeps_trans [OF st1 handler_keeps [OF h, of st1 r req]] st2 by simp
    then show ?thesis
      using Some h st2 keeps_trans [of st st2, OF _ keeps_SendRMC] by (cases resp) (simp_all add: dispatchRMC_def Let_def flip: st1_def split: option.split)
  qed
qed (simp add: dispatchRMC_def)

lemma processData_keeps: "keeps_identity st (processData srv r p st)"
proof -
  define st1 where "st1 = (if HasFlag p FlagNeedACK then sendAck r p st else st)"
  obtain buf full where re: "reassemble (c_fragBuf (conn_of st1 r)) p = (buf, full)"
    by fastforce
  have "keeps_identity st st1"
    by (simp add: st1_def keeps_sendAck)
  then have st2: "keeps_identity st (upd_of r (c_fragBuf_update (\<lambda>_. buf)) st1)"
    by (rule keeps_trans [OF _ keeps_upd_of]) simp
  have "keeps_identity st (upd_of r (ackPackets base extra) st)" for base extra
    by (rule keeps_upd_of) (simp add: ackPackets_def)
  then show ?thesis
    using st2 keeps_trans [OF st2 dispatch_keeps] re by (simp add: processData_def Let_def flip: st1_def split: option.split)
qed

lemma connected_keeps:
  assumes "r < length (ep_sockets (t_ep st))"
  shows "keeps_identity st (connected srv r response st)"
proof -
  have "keeps_identity st st'" if "t_ep st' = registerConnection r (upd_conn r (c_state_update (\<lambda>_. stateConnected)) (t_ep st))"
    for st' :: "'a transport_scheme"
    using that assms refs_ok_register [of "upd_conn r (c_state_update (\<lambda>_. stateConnected)) (t_ep st)" r]
    by (auto simp: keeps_identity_def) (auto simp: registerConnection_def Let_def upd_conn_def conn_at_def nth_list_update)
  then show ?thesis
    unfolding connected_def Let_def by (rule keeps_trans [OF _ OnConnect_keeps]) (simp add: upd_of_def)
qed

lemma handlePacket_keeps:
  assumes "p_Type p \<noteq> PacketCONNECT"
  shows "keeps_identity st (fst (handlePacket srv env r p st))"
proof -
  define st1 where "st1 = upd_of r (c_lastSeen_update (\<lambda>_. pe_now env)) st"
  have st1: "keeps_identity st st1"
    unfolding st1_def by (rule keeps_upd_of) simp
  have "keeps_identity st1 (processSYN env r p st1)"
    unfolding processSYN_def Let_def
    by (rule keeps_trans [OF keeps_upd_of keeps_ep [OF emit_simps(1)]]) simp
  moreover have "keeps_identity st1 (close srv r (sendAck r p st1))"
    by (rule keeps_trans [OF keeps_sendAck close_keeps])
  moreover have "keeps_identity st (sendAck r p st1)"
    by (rule keeps_trans [OF st1 keeps_sendAck])
  ultimately show ?thesis
    using assms st1 keeps_trans [OF st1] processData_keeps close_keeps custom_keeps
    by (auto simp: handlePacket_def Let_def processPing_def simp flip: st1_def split: option.split)
qed

text \<open>The account a CONNECT may give a connection: the recalled one, or the one of a ticket.\<close>

lemma login_identity:
  assumes "processLoginRequest env r payload st = (st', result)" and "r < length (ep_sockets (t_ep st))"
  shows "keeps_identity st st' \<or> ep_Secure (t_ep st) \<and> (\<forall>q < length (ep_sockets (t_ep st)). q \<noteq> r \<longrightarrow> c_PID (conn_of st' q) = c_PID (conn_of st q)) \<and>
    length (ep_sockets (t_ep st')) = length (ep_sockets (t_ep st)) \<and> proven_account env st r payload (c_PID (conn_of st' r))"
proof (cases "ep_Secure (t_ep st) \<and> payload \<noteq> []")
  case True
  then show ?thesis
    using assms by (auto simp: processLoginRequest_def proven_account_def Let_def split: go_result.splits prod.splits)
next
  case False
  have "keeps_identity st (st\<lparr>t_auth := a\<rparr>)" for a
    by (rule keeps_ep) simp
  then show ?thesis
    using False assms by (auto simp: processLoginRequest_def proven_account_def Let_def upd_of_def split: prod.splits option.splits if_splits)
qed

lemma handlePacket_sockets: "length (ep_sockets (t_ep (fst (handlePacket srv env r p st)))) = length (ep_sockets (t_ep st))"
proof (cases "p_Type p = PacketCONNECT")
  case True
  define st1 where "st1 = upd_of r (c_lastSeen_update (\<lambda>_. pe_now env)) st"
  have st1: "length (ep_sockets (t_ep st1)) = length (ep_sockets (t_ep st))"
    by (simp add: st1_def)
  have "length (ep_sockets (t_ep st2)) = length (ep_sockets (t_ep st1))" if "processLoginRequest env r (p_Payload p) st1 = (st2, result)" for st2 result
    using that by (auto simp: processLoginRequest_def Let_def split: if_splits prod.splits option.splits go_result.splits)
  moreover have "length (ep_sockets (t_ep (connected srv r response s))) = length (ep_sockets (t_ep s))" for response s
    using OnConnect_keeps unfolding connected_def Let_def keeps_identity_def by (simp add: registerConnection_def Let_def)
  ultimately have "length (ep_sockets (t_ep (fst (processCONNECT srv env r p st1)))) = length (ep_sockets (t_ep st1))"
    by (auto simp: processCONNECT_def split: prod.split go_result.split)
  then show ?thesis
    using True st1 by (simp add: handlePacket_def packet_consts Let_def flip: st1_def)
next
  case False
  then show ?thesis
    using handlePacket_keeps [of p st env r] by (simp add: keeps_identity_def)
qed

text \<open>Every entry of the table stays one of a connection that exists.\<close>

lemma handlePacket_refs:
  assumes "refs_ok (t_ep st)" and "r < length (ep_sockets (t_ep st))"
  shows "refs_ok (t_ep (fst (handlePacket srv env r p st)))"
proof (cases "p_Type p = PacketCONNECT")
  case True
  define st1 where "st1 = upd_of r (c_lastSeen_update (\<lambda>_. pe_now env)) st"
  have st1: "refs_ok (t_ep st1)" "r < length (ep_sockets (t_ep st1))"
    using assms by (simp_all add: st1_def upd_of_def)
  have "refs_ok (t_ep st2) \<and> r < length (ep_sockets (t_ep st2))" if "processLoginRequest env r (p_Payload p) st1 = (st2, result)" for st2 result
    using that st1 by (auto simp: processLoginRequest_def Let_def upd_of_def split: if_splits prod.splits option.splits go_result.splits)
  then have "refs_ok (t_ep (fst (processCONNECT srv env r p st1)))"
    using st1 connected_keeps by (auto simp: processCONNECT_def keeps_identity_def split: prod.split go_result.split)
  then show ?thesis
    using True st1(1) by (simp add: handlePacket_def packet_consts Let_def flip: st1_def)
next
  case False
  then show ?thesis
    using handlePacket_keeps [of p st env r] assms(1) by (simp add: keeps_identity_def)
qed

lemma handlePacket_identity:
  assumes "r < length (ep_sockets (t_ep st))" and "q < length (ep_sockets (t_ep st))"
    and "c_PID (conn_of (fst (handlePacket srv env r p st)) q) \<noteq> c_PID (conn_of st q)"
  shows "q = r \<and> p_Type p = PacketCONNECT \<and> ep_Secure (t_ep st) \<and>
    p_Signature p = LitePacketSignature (AccessKey (ep_Settings (t_ep st))) p (c_connectionSig (conn_of st r)) \<and>
    proven_account env st r (p_Payload p) (c_PID (conn_of (fst (handlePacket srv env r p st)) r))"
proof -
  have con: "p_Type p = PacketCONNECT"
    using handlePacket_keeps [of p st env r] assms(2,3) by (auto simp: keeps_identity_def)
  define st1 where "st1 = upd_of r (c_lastSeen_update (\<lambda>_. pe_now env)) st"
  have same: "c_PID (conn_of st1 k) = c_PID (conn_of st k)" "c_RemoteAddr (conn_of st1 k) = c_RemoteAddr (conn_of st k)"
    "c_connectionSig (conn_of st1 k) = c_connectionSig (conn_of st k)" for k
    using assms(1) by (simp_all add: st1_def)
  obtain st2 result where login: "processLoginRequest env r (p_Payload p) st1 = (st2, result)"
    by fastforce
  let ?sig = "p_Signature p = LitePacketSignature (AccessKey (ep_Settings (t_ep st))) p (c_connectionSig (conn_of st r))"
  have final: "fst (handlePacket srv env r p st) = st1 \<or>
      ?sig \<and> (fst (handlePacket srv env r p st) = st2 \<or> (\<exists>response. fst (handlePacket srv env r p st) = connected srv r response st2))"
    using con login same(3) by (auto simp: handlePacket_def processCONNECT_def packet_consts Let_def st1_def split: go_result.split)
  have len: "length (ep_sockets (t_ep st1)) = length (ep_sockets (t_ep st))" "ep_Secure (t_ep st1) = ep_Secure (t_ep st)"
    by (simp_all add: st1_def)
  have account: "proven_account env st1 r x y = proven_account env st r x y" for x y
    using same by (simp add: proven_account_def st1_def)
  note login_identity [OF login, unfolded len account same(1)]
  moreover have "r < length (ep_sockets (t_ep st1))"
    using assms(1) len by simp
  moreover define st' where "st' = fst (handlePacket srv env r p st)"
  have "st' \<noteq> st1"
    using assms(3) same(1) unfolding st'_def by metis
  then have sig: ?sig and st': "st' = st2 \<or> (\<exists>response. st' = connected srv r response st2)"
    using final unfolding st'_def by blast+
  have eq: "c_PID (conn_of st' k) = c_PID (conn_of st2 k)"
    if "k < length (ep_sockets (t_ep st))" "length (ep_sockets (t_ep st)) \<le> length (ep_sockets (t_ep st2))" for k
    using st' that assms(1) connected_keeps [of r st2] by (auto simp: keeps_identity_def)
  ultimately show ?thesis
    using con sig assms eq [OF assms(1)] eq [OF assms(2)] same(1) len by (fold st'_def) (auto simp: keeps_identity_def)
qed

end

section \<open>What a service keeps\<close>

text \<open>
  What the transport itself never touches: the addresses of the sockets, the settings, the keys, the
  recall table but for a CONNECT without a ticket, and the fields a server adds to the state
  (\<open>transport.more\<close>). So what every function of a service keeps of it, the handling of packets keeps.
\<close>

record 'a view =
  vw_hosts :: "string list"
  vw_Settings :: settings
  vw_Secure :: bool
  vw_SecureKey :: "byte list"
  vw_auth :: auth_state
  vw_more :: 'a

definition view :: "'a transport_scheme \<Rightarrow> 'a view" where
  "view st = \<lparr>vw_hosts = map c_RemoteAddr (ep_sockets (t_ep st)), vw_Settings = ep_Settings (t_ep st), vw_Secure = ep_Secure (t_ep st),
     vw_SecureKey = ep_SecureKey (t_ep st), vw_auth = t_auth st, vw_more = transport.more st\<rparr>"

lemma view_sel [simp]:
  "vw_hosts (view st) = map c_RemoteAddr (ep_sockets (t_ep st))" "vw_Settings (view st) = ep_Settings (t_ep st)"
  "vw_Secure (view st) = ep_Secure (t_ep st)" "vw_SecureKey (view st) = ep_SecureKey (t_ep st)" "vw_auth (view st) = t_auth st"
  "vw_more (view st) = transport.more st"
  by (simp_all add: view_def)

lemma hosts_upd_conn: "(\<And>c. c_RemoteAddr (f c) = c_RemoteAddr c) \<Longrightarrow> map c_RemoteAddr (ep_sockets (upd_conn r f ep)) = map c_RemoteAddr (ep_sockets ep)"
  by (simp add: upd_conn_def conn_at_def map_update) (metis list_update_beyond list_update_id not_le length_map nth_map)

lemma view_upd_of [simp]: "(\<And>c. c_RemoteAddr (f c) = c_RemoteAddr c) \<Longrightarrow> view (upd_of r f st) = view st"
  by (simp add: view_def upd_of_def hosts_upd_conn) (simp add: upd_conn_def)

lemma view_emit [simp]: "view (emit r frame st) = view st"
  by (simp add: view_def emit_def)

lemma view_sendOneFragment [simp]: "view (sendOneFragment r chunk i st) = view st"
  by (simp add: sendOneFragment_def Let_def)

lemma view_senders [simp]: "view (t_senders_update f st) = view st"
  by (simp add: view_def)

lemma view_SendRMC [simp]: "view (SendRMC r msg st) = view st"
  by (simp add: SendRMC_def sendData_def)

lemma view_sendAck [simp]: "view (sendAck r p st) = view st"
  by (simp add: sendAck_def)

lemma view_sender_turn [simp]: "view (sender_turn i st) = view st"
  by (simp add: sender_turn_def sender_step_def Let_def split: prod.split)

lemma view_retransmit_turn [simp]: "view (retransmit_turn i ord st) = view st"
proof -
  have "view (fold (emit r) frames st) = view st" for r frames
    by (induction frames arbitrary: st) simp_all
  then show ?thesis
    by (simp add: retransmit_turn_def Let_def)
qed

lemma view_upd_const:
  assumes "c_RemoteAddr c = c_RemoteAddr (conn_of st r)"
  shows "view (upd_of r (\<lambda>_. c) st) = view st"
proof (cases "r < length (ep_sockets (t_ep st))")
  case True
  then have "map c_RemoteAddr ((ep_sockets (t_ep st))[r := c]) = map c_RemoteAddr (ep_sockets (t_ep st))"
    using assms by (simp add: map_update conn_at_def list_update_same_conv)
  then show ?thesis
    by (simp add: view_def upd_of_def upd_conn_def)
qed (simp add: view_def upd_of_def upd_conn_def list_update_beyond)

lemma view_processSYN [simp]: "view (processSYN env r p st) = view st"
  by (simp add: processSYN_def Let_def view_upd_const)

lemma view_registered [simp]: "view (st\<lparr>t_ep := registerConnection r (t_ep st), t_loops := l\<rparr>) = view st"
proof -
  have "map c_RemoteAddr (ep_sockets (registerConnection r ep)) = map c_RemoteAddr (ep_sockets ep) \<and>
    ep_Settings (registerConnection r ep) = ep_Settings ep \<and> ep_Secure (registerConnection r ep) = ep_Secure ep \<and>
    ep_SecureKey (registerConnection r ep) = ep_SecureKey ep" for ep
    using hosts_upd_conn [of _ r] by (simp add: registerConnection_def Let_def upd_conn_def)
  then show ?thesis
    by (simp add: view_def)
qed

lemma view_closed [simp]: "view (st\<lparr>t_ep := fst (close_conn r (t_ep st))\<rparr>) = view st"
proof -
  have "map c_RemoteAddr (ep_sockets (fst (close_conn r ep))) = map c_RemoteAddr (ep_sockets ep) \<and>
    ep_Settings (fst (close_conn r ep)) = ep_Settings ep \<and> ep_Secure (fst (close_conn r ep)) = ep_Secure ep \<and>
    ep_SecureKey (fst (close_conn r ep)) = ep_SecureKey ep" for ep
    using hosts_upd_conn [of _ r] by (simp add: close_conn_def unregisterConnection_def upd_conn_def)
  then show ?thesis
    by (simp add: view_def)
qed

text \<open>The request a packet completes, if it does.\<close>

definition message_of :: "'a transport_scheme \<Rightarrow> cref \<Rightarrow> Packet \<Rightarrow> rmc_message option" where
  "message_of st r p =
     (if p_Type p = PacketDATA \<and> \<not> HasFlag p FlagMultiACK \<and> \<not> HasFlag p FlagACK \<and> p_FragmentID p = 0 then
        (case ParseRMC (ep_Settings (t_ep st)) (c_fragBuf (conn_of st r) @ p_Payload p) of
           None \<Rightarrow> None
         | Some req \<Rightarrow> if rm_Mode req = RMCRequest then Some req else None)
      else None)"

text \<open>
  What a service promises of the view: its functions keep \<open>P\<close>, on requests that satisfy \<open>R\<close>; and recalling
  a login keeps it, where what is read of the clock and the file satisfies \<open>E\<close>.
\<close>

locale guarded_service =
  fixes srv :: "'a service" and P :: "'a view \<Rightarrow> bool" and R :: "cref \<Rightarrow> rmc_message \<Rightarrow> 'a view \<Rightarrow> bool" and E :: "recall_env \<Rightarrow> bool"
  assumes handler_ok: "handler srv k = Some h \<Longrightarrow> P (view st) \<Longrightarrow> R r req (view st) \<Longrightarrow> P (view (fst (h r req st)))"
    and custom_ok: "gm_get (sv_custom srv) t = Some hc \<Longrightarrow> P (view st) \<Longrightarrow> P (view (hc r p st))"
    and OnConnect_ok: "P (view st) \<Longrightarrow> P (view (run_hook (sv_OnConnect srv) r st))"
    and OnDisconnect_ok: "P (view st) \<Longrightarrow> P (view (run_hook (sv_OnDisconnect srv) r st))"
    and OnRMC_ok: "sv_OnRMC srv = Some hr \<Longrightarrow> P (view st) \<Longrightarrow> R r req (view st) \<Longrightarrow> P (view (hr r req st)) \<and> R r req (view (hr r req st))"
    and recall_ok: "P (view st) \<Longrightarrow> E env \<Longrightarrow> P (view (st\<lparr>t_auth := fst (RecallAuthPID env addr (t_auth st))\<rparr>))"
begin

lemma close_ok: "P (view st) \<Longrightarrow> P (view (close srv r st))"
  using OnDisconnect_ok [of "st\<lparr>t_ep := fst (close_conn r (t_ep st))\<rparr>" r] by (simp add: close_def split_beta)

lemma dispatch_ok:
  assumes "P (view st)" and "\<And>req. ParseRMC (ep_Settings (t_ep st)) payload = Some req \<Longrightarrow> rm_Mode req = RMCRequest \<Longrightarrow> R r req (view st)"
  shows "P (view (dispatchRMC srv r payload st))"
proof (cases "ParseRMC (ep_Settings (t_ep st)) payload")
  case (Some req)
  define st1 where "st1 = (case sv_OnRMC srv of None \<Rightarrow> st | Some f \<Rightarrow> f r req st)"
  have "P (view (fst (h r req st1)))" if "handler srv (rm_Protocol req) = Some h" "rm_Mode req = RMCRequest" for h
    using handler_ok [OF that(1), of st1] OnRMC_ok [of _ st r req] assms(1) assms(2) [OF Some that(2)] by (auto simp: st1_def split: option.splits)
  moreover have "P (view st1)" if "rm_Mode req = RMCRequest"
    using OnRMC_ok [of _ st r req] assms(1) assms(2) [OF Some that] by (auto simp: st1_def split: option.split)
  ultimately show ?thesis
    using Some assms(1) unfolding dispatchRMC_def Let_def by (auto simp flip: st1_def split: option.split prod.split)
qed (simp add: dispatchRMC_def assms)

lemma processData_ok:
  assumes "P (view st)" and "r < length (ep_sockets (t_ep st))" and "p_Type p = PacketDATA" and "\<And>req. message_of st r p = Some req \<Longrightarrow> R r req (view st)"
  shows "P (view (processData srv r p st))"
proof -
  define st1 where "st1 = (if HasFlag p FlagNeedACK then sendAck r p st else st)"
  have v: "view (upd_of r (c_fragBuf_update (\<lambda>_. buf)) st1) = view st" for buf
    by (simp add: st1_def)
  have same: "c_fragBuf (conn_of st1 r) = c_fragBuf (conn_of st r)" "ep_Settings (t_ep st1) = ep_Settings (t_ep st)"
    by (simp_all add: st1_def sendAck_def)
  have "P (view (dispatchRMC srv r msg (upd_of r (c_fragBuf_update (\<lambda>_. buf)) st1)))"
    if "reassemble (c_fragBuf (conn_of st1 r)) p = (buf, Some msg)" "\<not> HasFlag p FlagMultiACK" "\<not> HasFlag p FlagACK" for buf msg
    using that assms same by (intro dispatch_ok) (simp_all add: v message_of_def reassemble_def Let_def split: if_splits)
  moreover have "view (upd_of r (ackPackets base extra) st) = view st" for base extra
    by (simp add: ackPackets_def)
  ultimately show ?thesis
    using assms(1) v by (auto simp: processData_def Let_def simp flip: st1_def split: prod.split option.split)
qed

lemma login_ok:
  assumes "P (view st)" and "E (pe_recall env)" and "processLoginRequest env r payload st = (st', result)"
  shows "P (view st')"
proof (cases "ep_Secure (t_ep st) \<and> payload = []")
  case True
  obtain auth found where re: "RecallAuthPID (pe_recall env) (c_RemoteAddr (conn_of st r)) (t_auth st) = (auth, found)"
    by fastforce
  then have "P (view (st\<lparr>t_auth := auth\<rparr>))"
    using recall_ok [OF assms(1,2), of "c_RemoteAddr (conn_of st r)"] by simp
  then show ?thesis
    using True assms(3) re by (cases found) (auto simp: processLoginRequest_def Let_def)
next
  case False
  then show ?thesis
    using assms(1,3) by (auto simp: processLoginRequest_def Let_def split: if_splits go_result.splits prod.splits)
qed

lemma connected_ok: "P (view st) \<Longrightarrow> P (view (connected srv r response st))"
  unfolding connected_def Let_def by (rule OnConnect_ok) simp

lemma handlePacket_ok:
  assumes "P (view st)" and "E (pe_recall env)" and "r < length (ep_sockets (t_ep st))"
    and "\<And>req. message_of st r p = Some req \<Longrightarrow> R r req (view st)"
  shows "P (view (fst (handlePacket srv env r p st)))"
proof -
  define st1 where "st1 = upd_of r (c_lastSeen_update (\<lambda>_. pe_now env)) st"
  have v: "view st1 = view st" and m: "message_of st1 r p = message_of st r p" and len: "r < length (ep_sockets (t_ep st1))"
    using assms(3) by (simp_all add: st1_def message_of_def)
  have st1: "P (view st1)"
    using assms(1) v by simp
  have "P (view (fst (processCONNECT srv env r p st1)))"
    using st1 login_ok [OF st1 assms(2)] connected_ok by (auto simp: processCONNECT_def split: prod.split go_result.split)
  moreover have "P (view (processData srv r p st1))" if "p_Type p = PacketDATA"
    using assms(4) by (intro processData_ok [OF st1 len that]) (simp add: m v)
  ultimately show ?thesis
    using st1 close_ok custom_ok
    by (auto simp: handlePacket_def Let_def processPing_def simp flip: st1_def split: option.split)
qed

end

text \<open>A service that keeps an invariant of the server's own fields.\<close>

locale stable_service =
  fixes srv :: "'a service" and Q :: "'a \<Rightarrow> bool"
  assumes handler_stable: "handler srv k = Some h \<Longrightarrow> Q (transport.more st) \<Longrightarrow> Q (transport.more (fst (h r req st)))"
    and custom_stable: "gm_get (sv_custom srv) t = Some hc \<Longrightarrow> Q (transport.more st) \<Longrightarrow> Q (transport.more (hc r p st))"
    and OnConnect_stable: "Q (transport.more st) \<Longrightarrow> Q (transport.more (run_hook (sv_OnConnect srv) r st))"
    and OnDisconnect_stable: "Q (transport.more st) \<Longrightarrow> Q (transport.more (run_hook (sv_OnDisconnect srv) r st))"
    and OnRMC_stable: "sv_OnRMC srv = Some hr \<Longrightarrow> Q (transport.more st) \<Longrightarrow> Q (transport.more (hr r req st))"

sublocale stable_service < stable: guarded_service srv "\<lambda>v. Q (vw_more v)" "\<lambda>_ _ _. True" "\<lambda>_. True"
  by unfold_locales (auto intro: handler_stable custom_stable OnConnect_stable OnDisconnect_stable OnRMC_stable)

context stable_service
begin

lemma close_stable: "Q (transport.more st) \<Longrightarrow> Q (transport.more (close srv r st))"
  using stable.close_ok [of st r] by simp

lemma handlePacket_stable: "Q (transport.more st) \<Longrightarrow> r < length (ep_sockets (t_ep st)) \<Longrightarrow> Q (transport.more (fst (handlePacket srv env r p st)))"
  using stable.handlePacket_ok [where st = st and env = env and r = r and p = p] by simp

end

lemma more_view: "view st' = view st \<Longrightarrow> transport.more st' = transport.more st"
  by (metis view_sel(6))

lemma more_transport [simp]:
  "transport.more (upd_of r f st) = transport.more st" "transport.more (emit r frame st) = transport.more st"
  "transport.more (SendRMC r msg st) = transport.more st" "transport.more (sender_turn i st) = transport.more st"
  "transport.more (retransmit_turn i ord st) = transport.more st"
  by (simp add: upd_of_def) (rule more_view, simp)+

end
