(* ===== verification/Nex_Dispatch.thy ===== *)
theory Nex_Dispatch
  imports Nex_Handlers Nex_Tournament Nex_Stations
begin

text \<open>
  The dispatchers of the matchmaking protocols in \<^verbatim>\<open>nextendo-nex/matchmaking_handlers.go\<close>
  (\<open>ExtensionHandler\<close>, \<open>MatchMakingHandler\<close>, \<open>MatchMakingExtHandler\<close>) with the method numbers, and
  the session URLs: \<open>getSessionURLs\<close> and the goroutine that waits for the host's station.

  The stores are the matchmaking store and the tournament store. \<open>ExtensionHandler\<close> returns no value
  where the code does not return (an attribute index that makes the padding loop run forever). A
  waiting goroutine is a record \<open>url_wait\<close>, advanced one poll at a time by \<open>url_poll\<close>.
\<close>

section \<open>Methods\<close>

definition MethodUnregisterGathering :: u32 where "MethodUnregisterGathering = 0x02"
definition MethodFindBySingleID15 :: u32 where "MethodFindBySingleID15 = 0x15"
definition MethodUpdateSessionURL :: u32 where "MethodUpdateSessionURL = 0x1B"
definition MethodUpdateSessionHostV1 :: u32 where "MethodUpdateSessionHostV1 = 0x28"
definition MethodGetSessionURLs :: u32 where "MethodGetSessionURLs = 0x29"
definition MethodUpdateSessionHost :: u32 where "MethodUpdateSessionHost = 0x2A"
definition MethodMigrateGatheringOwnershipV1 :: u32 where "MethodMigrateGatheringOwnershipV1 = 0x24"
definition MethodUpdateGatheringOwnership :: u32 where "MethodUpdateGatheringOwnership = 0x2B"
definition MethodMigrateGatheringOwnership :: u32 where "MethodMigrateGatheringOwnership = 0x2C"
definition MethodCloseParticipation :: u32 where "MethodCloseParticipation = 0x01"
definition MethodOpenParticipation :: u32 where "MethodOpenParticipation = 0x02"
definition MethodCreateMatchmakeSessionWithParam :: u32 where "MethodCreateMatchmakeSessionWithParam = 0x26"
definition MethodJoinMatchmakeSessionWithParam :: u32 where "MethodJoinMatchmakeSessionWithParam = 0x27"
definition MethodAutoMatchmakeWithParamPostpone :: u32 where "MethodAutoMatchmakeWithParamPostpone = 0x28"
definition MethodUpdateApplicationBuffer :: u32 where "MethodUpdateApplicationBuffer = 0x0B"
definition MethodModifyCurrentGameAttribute :: u32 where "MethodModifyCurrentGameAttribute = 0x08"
definition MethodUpdateMatchmakeSessionPart :: u32 where "MethodUpdateMatchmakeSessionPart = 0x2C"
definition MethodUpdateProgressScore :: u32 where "MethodUpdateProgressScore = 0x22"
definition MethodFindMatchmakeSessionBySingleID :: u32 where "MethodFindMatchmakeSessionBySingleID = 0x31"
definition MethodCustomPlayingSession :: u32 where "MethodCustomPlayingSession = 0x3C"
definition MethodCustomFriendsQuery :: u32 where "MethodCustomFriendsQuery = 0x41"
definition MethodCustomPrivateRoomCreate :: u32 where "MethodCustomPrivateRoomCreate = 0x44"
definition MethodCustomResolveCode :: u32 where "MethodCustomResolveCode = 0x45"
definition MethodFindByParticipant :: u32 where "MethodFindByParticipant = 0x33"
definition MethodBrowseNoHolder :: u32 where "MethodBrowseNoHolder = 0x34"
definition MethodSSBUArenaCode :: u32 where "MethodSSBUArenaCode = 0x37"
definition MethodSSBUArenaResolve :: u32 where "MethodSSBUArenaResolve = 0x38"
definition MethodFindByGidList :: u32 where "MethodFindByGidList = 0x30"
definition MethodSSBUPreMatch :: u32 where "MethodSSBUPreMatch = 0x3A"
definition MethodTournamentSearch :: u32 where "MethodTournamentSearch = 0x39"
definition MethodTournamentJoin :: u32 where "MethodTournamentJoin = 0x3F"
definition MethodEndParticipation :: u32 where "MethodEndParticipation = 0x1"
definition MethodUpdateNotificationData :: u32 where "MethodUpdateNotificationData = 9"
definition MethodGetFriendNotificationData :: u32 where "MethodGetFriendNotificationData = 10"
definition MethodGetFriendNotificationDataList :: u32 where "MethodGetFriendNotificationDataList = 13"
definition MethodTournamentCreate :: u32 where "MethodTournamentCreate = 0x3D"
definition MethodTournamentDelete :: u32 where "MethodTournamentDelete = 0x3E"

lemmas ext_methods = MethodCloseParticipation_def MethodOpenParticipation_def MethodCreateMatchmakeSessionWithParam_def
  MethodJoinMatchmakeSessionWithParam_def MethodAutoMatchmakeWithParamPostpone_def MethodUpdateApplicationBuffer_def
  MethodModifyCurrentGameAttribute_def MethodUpdateMatchmakeSessionPart_def MethodUpdateProgressScore_def
  MethodFindMatchmakeSessionBySingleID_def MethodCustomPlayingSession_def MethodCustomFriendsQuery_def
  MethodCustomPrivateRoomCreate_def MethodCustomResolveCode_def MethodFindByParticipant_def MethodBrowseNoHolder_def
  MethodSSBUArenaCode_def MethodSSBUArenaResolve_def MethodFindByGidList_def MethodSSBUPreMatch_def MethodTournamentSearch_def
  MethodTournamentJoin_def MethodUpdateNotificationData_def MethodGetFriendNotificationData_def
  MethodGetFriendNotificationDataList_def MethodTournamentCreate_def MethodTournamentDelete_def

lemmas mm_methods = MethodUnregisterGathering_def MethodFindBySingleID15_def MethodUpdateSessionURL_def MethodUpdateSessionHostV1_def
  MethodGetSessionURLs_def MethodUpdateSessionHost_def MethodMigrateGatheringOwnershipV1_def MethodUpdateGatheringOwnership_def
  MethodMigrateGatheringOwnership_def

section \<open>MatchmakeExtension\<close>

record ext_env =
  x_call :: call_env
  x_tournament :: tournament_env
  x_ord :: "u32 list"

type_synonym stores = "matchmaking \<times> tournamentStore"
type_synonym ext_outcome = "stores \<times> push list \<times> rmc_message"

definition of_mm :: "outcome \<Rightarrow> tournamentStore \<Rightarrow> ext_outcome" where
  "of_mm out ts = (case out of (m, pushes, resp) \<Rightarrow> ((m, ts), pushes, resp))"

definition of_ts :: "matchmaking \<Rightarrow> tournamentStore \<times> rmc_message \<Rightarrow> ext_outcome" where
  "of_ts m out = (case out of (ts, resp) \<Rightarrow> ((m, ts), [], resp))"

definition ExtensionHandler :: "ext_env \<Rightarrow> endpoint \<Rightarrow> cref \<Rightarrow> rmc_message \<Rightarrow> stores \<Rightarrow> ext_outcome option" where
  "ExtensionHandler env ep r req sts =
     (case sts of (m, ts) \<Rightarrow>
        let s = ep_Settings ep; call = x_call env; k = rm_Method req;
            answer = (\<lambda>resp. Some ((m, ts), [], resp)); mm = (\<lambda>out. Some (of_mm out ts)); tour = (\<lambda>out. Some (of_ts m out))
        in if k = MethodCloseParticipation \<or> k = MethodOpenParticipation
             then mm (setParticipation ep req (k = MethodOpenParticipation) m)
           else if k = MethodAutoMatchmakeWithParamPostpone then mm (autoMatchmake call ep r req m)
           else if k = MethodCreateMatchmakeSessionWithParam then mm (createSession call ep r req m)
           else if k = MethodJoinMatchmakeSessionWithParam then mm (joinSession call ep r req m)
           else if k = MethodFindMatchmakeSessionBySingleID then mm (findBySingleID ep req m)
           else if k = MethodCustomPrivateRoomCreate then mm (privateRoomCreate ep req m)
           else if k = MethodCustomResolveCode then mm (resolveCode ep req m)
           else if k = MethodCustomPlayingSession then mm (playingSession call ep r req m)
           else if k = MethodFindByParticipant
             then (if m_FindByParticipantEnabled m then mm (findByParticipant call ep req m)
                   else answer (emptyList s ProtocolMatchmakeExtension req))
           else if k = MethodCustomFriendsQuery then answer (emptyList s ProtocolMatchmakeExtension req)
           else if k = MethodUpdateNotificationData then mm (updateNotificationData ep r req m)
           else if k = MethodGetFriendNotificationData then mm (getFriendNotificationData ep r req False m)
           else if k = MethodGetFriendNotificationDataList then mm (getFriendNotificationData ep r req True m)
           else if k = MethodUpdateMatchmakeSessionPart then mm (updateSessionPart ep req m)
           else if k = MethodUpdateApplicationBuffer then mm (updateApplicationBuffer ep r req m)
           else if k = MethodModifyCurrentGameAttribute
             then map_option (\<lambda>out. of_mm out ts) (modifyCurrentGameAttribute ep r req m)
           else if k = MethodSSBUArenaCode then mm (privateRoomCreate ep req m)
           else if k = MethodSSBUArenaResolve then mm (resolveCode ep req m)
           else if k = MethodFindByGidList then mm (findByGidList ep req m)
           else if k = MethodBrowseNoHolder then mm (browseNoHolder call ep req m)
           else if k = MethodSSBUPreMatch
             then (if isTournamentIDList (rm_Body req) then answer (tournamentsByIDs ep req ts)
                   else answer (reply s ProtocolMatchmakeExtension req (out_U32 2)))
           else if k = MethodTournamentSearch then answer (searchTournaments (x_ord env) ep req ts)
           else if k = MethodTournamentCreate then tour (createTournament (x_tournament env) ep r req ts)
           else if k = MethodTournamentDelete then tour (removeTournament ep r req ts)
           else if k = MethodTournamentJoin then tour (registerTournament ep r req ts)
           else if k = MethodUpdateProgressScore then answer (reply s ProtocolMatchmakeExtension req [])
           else answer (notImplemented s ProtocolMatchmakeExtension req))"

section \<open>Session URLs\<close>

definition hostReplaceURLWait :: int where "hostReplaceURLWait = 2500000000"
definition hostReplaceURLPoll :: int where "hostReplaceURLPoll = 100000000"

definition sessionURLsResponse :: "settings \<Rightarrow> rmc_message \<Rightarrow> station_url list \<Rightarrow> rmc_message" where
  "sessionURLsResponse s req urls = reply s ProtocolMatchMaking req (WriteList out_StationURL urls)"

record url_wait =
  uw_conn :: cref
  uw_req :: rmc_message
  uw_host :: cref
  uw_deadline :: gotime

text \<open>
  \<open>now\<close> is the clock when the goroutine starts. The result is the response, or the goroutine that
  will answer later.
\<close>

definition getSessionURLs :: "gotime \<Rightarrow> nat_env \<Rightarrow> endpoint \<Rightarrow> cref \<Rightarrow> rmc_message \<Rightarrow> matchmaking \<Rightarrow> nat_cache
    \<Rightarrow> nat_cache \<times> (rmc_message + url_wait)" where
  "getSessionURLs now nenv ep r req m cache =
     (let s = ep_Settings ep; gid = first_u32 req
      in case Option.bind (gm_get (m_gatherings m) gid) (\<lambda>g. FindConnectionByID ep (g_hostConnID g)) of
           None \<Rightarrow> (cache, Inl (sessionURLsResponse s req []))
         | Some host \<Rightarrow>
             (case natBridgeStations nenv (c_stationURLs (conn_at ep host)) (m_PublicStationFirst m) cache of
                (cache', urls, status) \<Rightarrow>
                  (cache', if status \<noteq> bridgeNoRVCID then Inl (sessionURLsResponse s req urls)
                     else Inr \<lparr>uw_conn = r, uw_req = req, uw_host = host, uw_deadline = now + hostReplaceURLWait\<rparr>)))"

text \<open>
  One turn of the waiting loop: the clock at its test, then, after the sleep, the host's stations and
  the environment of the bridge. At the deadline the stations are sent as they are.
\<close>

record poll_obs =
  po_now :: gotime
  po_stations :: "station_url list"
  po_env :: nat_env

definition url_poll :: "poll_obs \<Rightarrow> bool \<Rightarrow> url_wait \<Rightarrow> nat_cache \<Rightarrow> nat_cache \<times> station_url list option" where
  "url_poll ob publicFirst w cache =
     (if po_now ob < uw_deadline w then
        (case natBridgeStations (po_env ob) (po_stations ob) publicFirst cache of
           (cache', urls, status) \<Rightarrow> (cache', if status = bridgeOK then Some urls else None))
      else (cache, Some (po_stations ob)))"

partial_function (option) answerSessionURLsWhenHostIsReady ::
  "(nat \<Rightarrow> poll_obs) \<Rightarrow> bool \<Rightarrow> url_wait \<Rightarrow> nat \<Rightarrow> nat_cache \<Rightarrow> (nat \<times> nat_cache \<times> station_url list) option" where
  "answerSessionURLsWhenHostIsReady obs publicFirst w k cache =
     (case url_poll (obs k) publicFirst w cache of
        (cache', Some urls) \<Rightarrow> Some (k, cache', urls)
      | (cache', None) \<Rightarrow> answerSessionURLsWhenHostIsReady obs publicFirst w (Suc k) cache')"

section \<open>MatchMaking and MatchMakingExt\<close>

definition MatchMakingHandler :: "gotime \<Rightarrow> nat_env \<Rightarrow> endpoint \<Rightarrow> cref \<Rightarrow> rmc_message \<Rightarrow> matchmaking \<Rightarrow> nat_cache
    \<Rightarrow> (matchmaking \<times> nat_cache) \<times> push list \<times> (rmc_message + url_wait)" where
  "MatchMakingHandler now nenv ep r req m cache =
     (let s = ep_Settings ep; k = rm_Method req; mm = (\<lambda>(m', pushes, resp). ((m', cache), pushes, Inl resp))
      in if k = MethodGetSessionURLs then
           (case getSessionURLs now nenv ep r req m cache of (cache', out) \<Rightarrow> ((m, cache'), [], out))
         else if k = MethodUnregisterGathering then mm (unregister ep r req m, [], boolResponse s ProtocolMatchMaking req True)
         else if k = MethodUpdateSessionURL then mm (m, [], boolResponse s ProtocolMatchMaking req True)
         else if k = MethodUpdateSessionHost \<or> k = MethodUpdateSessionHostV1 then mm (m, [], reply s ProtocolMatchMaking req [])
         else if k = MethodMigrateGatheringOwnership then mm (migrateGatheringOwnership ep r req True m)
         else if k = MethodMigrateGatheringOwnershipV1 then mm (migrateGatheringOwnership ep r req False m)
         else if k = MethodUpdateGatheringOwnership then mm (updateGatheringOwnership ep req m)
         else if k = MethodFindBySingleID15 then mm (findBySingleID15 ep req m)
         else mm (m, [], notImplemented s ProtocolMatchMaking req))"

definition MatchMakingExtHandler :: "endpoint \<Rightarrow> cref \<Rightarrow> rmc_message \<Rightarrow> matchmaking \<Rightarrow> matchmaking \<times> rmc_message" where
  "MatchMakingExtHandler ep r req m =
     (let s = ep_Settings ep
      in if rm_Method req = MethodEndParticipation then (endParticipation ep r req m, boolResponse s ProtocolMatchMakingExt req True)
         else (m, notImplemented s ProtocolMatchMakingExt req))"

definition natClass_String :: "natClass \<Rightarrow> string" where
  "natClass_String c = (case c of natOpen \<Rightarrow> ''open'' | natModerate \<Rightarrow> ''moderate'' | natStrict \<Rightarrow> ''strict'' | natUnknown \<Rightarrow> ''unknown'')"

section \<open>The wait ends with an answer\<close>

lemma wait_unfold:
  "answerSessionURLsWhenHostIsReady obs pf w k cache =
     (case url_poll (obs k) pf w cache of
        (cache', Some urls) \<Rightarrow> Some (k, cache', urls)
      | (cache', None) \<Rightarrow> answerSessionURLsWhenHostIsReady obs pf w (Suc k) cache')"
  by (rule answerSessionURLsWhenHostIsReady.simps)

definition wait_answer :: "(nat \<Rightarrow> poll_obs) \<Rightarrow> bool \<Rightarrow> url_wait \<Rightarrow> nat \<Rightarrow> station_url list \<Rightarrow> bool" where
  "wait_answer obs pf w k urls \<longleftrightarrow>
     (if po_now (obs k) < uw_deadline w
      then \<exists>c c'. natBridgeStations (po_env (obs k)) (po_stations (obs k)) pf c = (c', urls, bridgeOK)
      else urls = po_stations (obs k))"

lemma wait_ends:
  assumes "uw_deadline w \<le> po_now (obs (k + d))"
  shows "\<exists>k' c' urls. answerSessionURLsWhenHostIsReady obs pf w k cache = Some (k', c', urls) \<and> k \<le> k' \<and> k' \<le> k + d \<and> wait_answer obs pf w k' urls"
  using assms
proof (induction d arbitrary: k cache)
  case 0
  then show ?case
    by (subst wait_unfold) (simp add: url_poll_def wait_answer_def)
next
  case (Suc d)
  obtain c' out where poll: "url_poll (obs k) pf w cache = (c', out)"
    by fastforce
  show ?case
  proof (cases out)
    case None
    then show ?thesis
      using Suc.IH [of "Suc k" c'] Suc.prems poll by (subst wait_unfold) (fastforce)
  next
    case (Some urls)
    then have "wait_answer obs pf w k urls"
      using poll by (auto simp: url_poll_def wait_answer_def split: prod.splits if_splits)
    then show ?thesis
      using poll Some by (subst wait_unfold) simp
  qed
qed

text \<open>
  C35: a request for session URLs is always answered. Either at once; or, when the host's station is
  still missing its RVCID, by the goroutine that waits for it. If every sleep of its loop lasts at
  least the polling interval, the loop ends after at most 25 polls with exactly one answer: the
  bridged stations of a poll before the deadline that found them ready, or the host's own stations
  at the deadline. It answers the connection and the request that asked.
\<close>

theorem session_urls_answered:
  assumes "getSessionURLs now nenv ep r req m cache = (cache', Inr w)"
    and "\<forall>k. now + int k * hostReplaceURLPoll \<le> po_now (obs k)"
  shows "uw_conn w = r \<and> uw_req w = req \<and>
    (\<exists>k c urls. answerSessionURLsWhenHostIsReady obs pf w 0 cache' = Some (k, c, urls) \<and> k \<le> 25 \<and> wait_answer obs pf w k urls)"
proof -
  have w: "uw_conn w = r" "uw_req w = req" "uw_deadline w = now + 2500000000"
    using assms(1) by (auto simp: getSessionURLs_def hostReplaceURLWait_def Let_def split: option.splits prod.splits if_splits)
  have "uw_deadline w \<le> po_now (obs (0 + 25))"
    using assms(2) [rule_format, of 25] by (simp add: w hostReplaceURLPoll_def)
  from wait_ends [of w obs 0 25 pf cache', OF this] show ?thesis
    using w by auto
qed

definition waiting_stations :: "station_url list" where
  "waiting_stations =
     [su_Set ''type'' ''3'' (su_Set ''port'' ''50021'' (su_Set ''address'' ''10.0.1.2'' (NewStationURL ''prudp''))),
      su_Set ''port'' ''50021'' (su_Set ''address'' ''82.6.1.9'' (NewStationURL ''prudp''))]"

definition waiting_endpoint :: endpoint where
  "waiting_endpoint = upd_conn 0 (SetStations waiting_stations) demo_endpoint"

definition urls_request :: rmc_message where
  "urls_request = NewRMCRequest demo_settings ProtocolMatchMaking MethodGetSessionURLs 1 (out_U32 1)"

definition slow_host :: "nat \<Rightarrow> poll_obs" where
  "slow_host k = \<lparr>po_now = int k * 100000000, po_stations = waiting_stations, po_env = responder_env\<rparr>"

theorem session_urls_answered_witness:
  "\<exists>w k c urls. snd (getSessionURLs 0 responder_env waiting_endpoint 1 urls_request demo_host no_nat_cache) = Inr w \<and>
     answerSessionURLsWhenHostIsReady slow_host False w 0
       (fst (getSessionURLs 0 responder_env waiting_endpoint 1 urls_request demo_host no_nat_cache)) = Some (k, c, urls) \<and> k \<le> 25"
proof -
  let ?g = "getSessionURLs 0 responder_env waiting_endpoint 1 urls_request demo_host no_nat_cache"
  have "isl (snd ?g) = False"
    by code_simp
  then obtain w where w: "snd ?g = Inr w"
    by (cases "snd ?g") simp_all
  then have "?g = (fst ?g, Inr w)"
    by (metis prod.collapse)
  moreover have "\<forall>k. 0 + int k * hostReplaceURLPoll \<le> po_now (slow_host k)"
    by (simp add: slow_host_def hostReplaceURLPoll_def)
  ultimately show ?thesis
    using session_urls_answered [of 0 responder_env waiting_endpoint 1 urls_request demo_host no_nat_cache "fst ?g" w slow_host False] w by blast
qed

end
