(* ===== verification/Nex_Time.thy ===== *)
theory Nex_Time
  imports Nex_Types
begin

unbundle bit_operations_syntax

text \<open>
  Calendar dates as Go's \<^verbatim>\<open>time\<close> package computes them from an instant (here: nanoseconds since
  1970-01-01 UTC), the packed form \<open>nexDateTime\<close> of \<^verbatim>\<open>ranking_board.go\<close> and \<open>NowDateTime\<close> of
  \<^verbatim>\<open>types.go\<close>. The date is found by splitting off whole cycles of 400, 100, 4 and 1 years; the lemmas
  show that the fields are those of a real date and that the day number can be computed back.
\<close>

section \<open>Dates\<close>

definition unix_seconds :: "gotime \<Rightarrow> int" where
  "unix_seconds t = t div 1000000000"

text \<open>The number of days from 0001-01-01 to the day of the instant.\<close>

definition abs_days :: "gotime \<Rightarrow> int" where
  "abs_days t = unix_seconds t div 86400 + 719162"

definition cycle_split :: "int \<Rightarrow> int \<Rightarrow> int \<times> int" where
  "cycle_split len d = (let n = d div len; n' = n - n div 4 in (n', d - len * n'))"

text \<open>Year and day within the year.\<close>

definition year_day :: "int \<Rightarrow> int \<times> int" where
  "year_day d0 =
     (let n400 = d0 div 146097; d1 = d0 - 146097 * n400;
          (n100, d2) = cycle_split 36524 d1;
          n4 = d2 div 1461; d3 = d2 - 1461 * n4;
          (n1, d4) = cycle_split 365 d3
      in (400 * n400 + 100 * n100 + 4 * n4 + n1 + 1, d4))"

definition isLeap :: "int \<Rightarrow> bool" where
  "isLeap year \<longleftrightarrow> year mod 4 = 0 \<and> (year mod 100 \<noteq> 0 \<or> year mod 400 = 0)"

definition daysBefore :: "int list" where
  "daysBefore = [0, 31, 59, 90, 120, 151, 181, 212, 243, 273, 304, 334, 365]"

definition month_day :: "bool \<Rightarrow> int \<Rightarrow> int \<times> int" where
  "month_day leap yday =
     (if leap \<and> yday = 59 then (2, 29)
      else
        let day = (if leap \<and> yday > 59 then yday - 1 else yday);
            month = day div 31; e = daysBefore ! nat (month + 1)
        in if day \<ge> e then (month + 2, day - e + 1) else (month + 1, day - daysBefore ! nat month + 1))"

definition civil :: "gotime \<Rightarrow> int \<times> int \<times> int" where
  "civil t = (let (year, yday) = year_day (abs_days t); (month, day) = month_day (isLeap year) yday in (year, month, day))"

definition clock :: "gotime \<Rightarrow> int \<times> int \<times> int" where
  "clock t = (let s = unix_seconds t mod 86400 in (s div 3600, s mod 3600 div 60, s mod 60))"

section \<open>Packed forms\<close>

definition nexDateTime :: "gotime \<Rightarrow> u64" where
  "nexDateTime t =
     (case (civil t, clock t) of ((year, month, day), (hour, minute, second)) \<Rightarrow>
        of_int second OR push_bit 6 (of_int minute) OR push_bit 12 (of_int hour) OR
        push_bit 17 (of_int day) OR push_bit 22 (of_int month) OR push_bit 26 (of_int year))"

definition NowDateTime :: "gotime \<Rightarrow> u64" where
  "NowDateTime now =
     (case (civil now, clock now) of ((year, month, day), (hour, minute, second)) \<Rightarrow> MakeDateTime year month day hour minute second)"

lemma nexDateTime_NowDateTime: "nexDateTime t = NowDateTime t"
  by (simp add: nexDateTime_def NowDateTime_def MakeDateTime_def)

section \<open>Bounds\<close>

lemma cycle_split_bounds:
  assumes "0 \<le> d" and "d \<le> 4 * len" and "0 < len"
  obtains n r where "cycle_split len d = (n, r)" "0 \<le> n" "n \<le> 3" "0 \<le> r" "r \<le> len" "n < 3 \<longrightarrow> r < len" "d = len * n + r"
proof -
  define n where "n = d div len"
  have "0 \<le> n" "n \<le> 4"
    using assms by (simp_all add: n_def pos_imp_zdiv_nonneg_iff) (metis zdiv_mono1 nonzero_mult_div_cancel_right less_irrefl)
  then consider "n = 0" | "n = 1" | "n = 2" | "n = 3" | "n = 4"
    by linarith
  moreover have "d = len * n + d mod len" "0 \<le> d mod len" "d mod len < len"
    using assms(3) by (simp_all add: n_def)
  ultimately have "0 \<le> n - n div 4 \<and> n - n div 4 \<le> 3 \<and> 0 \<le> d - len * (n - n div 4) \<and> d - len * (n - n div 4) \<le> len \<and>
    (n - n div 4 < 3 \<longrightarrow> d - len * (n - n div 4) < len)"
    using assms(2) by cases auto
  then show thesis
    by (intro that [of "n - n div 4" "d - len * (n - n div 4)"]) (simp_all add: cycle_split_def Let_def flip: n_def)
qed

lemma isLeap_fourth:
  assumes "0 \<le> c" and "c \<le> 24" and "c = 24 \<Longrightarrow> b = 3" and "0 \<le> b" and "b \<le> 3"
  shows "isLeap (400 * a + 100 * b + 4 * c + 4)"
proof -
  define y where "y = 400 * a + 100 * b + 4 * c + 4"
  have "y = (100 * a + 25 * b + c + 1) * 4"
    by (simp add: y_def)
  then have "y mod 4 = 0"
    by simp
  moreover have "y mod 400 = 0 \<or> y mod 100 \<noteq> 0"
  proof (cases "c = 24")
    case True
    then have "y = (a + 1) * 400"
      using assms(3) by (simp add: y_def)
    then show ?thesis
      by simp
  next
    case False
    have "y = (4 * c + 4) + (4 * a + b) * 100"
      by (simp add: y_def)
    then have "y mod 100 = (4 * c + 4) mod 100"
      by (simp only: mod_mult_self1)
    then show ?thesis
      using False assms(1,2) by simp
  qed
  ultimately show ?thesis
    by (auto simp: isLeap_def simp flip: y_def)
qed

text \<open>The last day of a leap year is the only 366th day.\<close>

lemma year_day_bounds:
  "case year_day d of (year, yday) \<Rightarrow> 0 \<le> yday \<and> yday \<le> (if isLeap year then 365 else 364)"
proof -
  define n400 d1 where "n400 = d div 146097" and "d1 = d - 146097 * n400"
  have "d1 = d mod 146097"
    by (simp add: d1_def n400_def minus_mult_div_eq_mod)
  then have "0 \<le> d1" "d1 \<le> 4 * 36524"
    using pos_mod_bound [of 146097 d] by simp_all
  then obtain n100 d2 where c: "cycle_split 36524 d1 = (n100, d2)" "0 \<le> n100" "n100 \<le> 3" "0 \<le> d2" "d2 \<le> 36524" "n100 < 3 \<longrightarrow> d2 < 36524"
    by (rule cycle_split_bounds [of d1 36524]) simp_all
  define n4 d3 where "n4 = d2 div 1461" and "d3 = d2 - 1461 * n4"
  have m: "d3 = d2 mod 1461" "0 \<le> n4" "n4 \<le> 24"
    using c(4,5) by (simp_all add: d3_def n4_def minus_mult_div_eq_mod pos_imp_zdiv_nonneg_iff)
  then have "0 \<le> d3" "d3 \<le> 4 * 365"
    using pos_mod_bound [of 1461 d2] by simp_all
  then obtain n1 d4 where e: "cycle_split 365 d3 = (n1, d4)" "n1 \<le> 3" "0 \<le> d4" "d4 \<le> 365" "n1 < 3 \<longrightarrow> d4 < 365" "d3 = 365 * n1 + d4"
    by (rule cycle_split_bounds [of d3 365]) simp_all
  have leap: "isLeap (400 * n400 + 100 * n100 + 4 * n4 + n1 + 1)" if "d4 = 365"
  proof -
    have "n1 = 3" "d3 = 1460"
      using that e by auto
    moreover have "n100 = 3" if "n4 = 24"
    proof -
      have "d2 = 36524"
        using \<open>d3 = 1460\<close> that d3_def by simp
      then show ?thesis
        using c(3,6) by simp
    qed
    ultimately show ?thesis
      using isLeap_fourth [of n4 n100 n400] m(2,3) c(2,3) by (simp add: algebra_simps)
  qed
  have "year_day d = (400 * n400 + 100 * n100 + 4 * n4 + n1 + 1, d4)"
    using c(1) e(1) by (simp add: year_day_def Let_def n4_def d3_def d1_def n400_def)
  moreover have "d4 \<noteq> 365 \<Longrightarrow> d4 \<le> 364"
    using e(4) by simp
  ultimately show ?thesis
    using e(3,4) leap by (cases "d4 = 365") simp_all
qed

text \<open>The length of a month.\<close>

definition daysIn :: "bool \<Rightarrow> int \<Rightarrow> int" where
  "daysIn leap month = (if month = 2 \<and> leap then 29 else daysBefore ! nat month - daysBefore ! nat (month - 1))"

definition day_number :: "bool \<Rightarrow> int \<Rightarrow> int \<Rightarrow> int" where
  "day_number leap month day = daysBefore ! nat (month - 1) + day - 1 + (if leap \<and> month > 2 then 1 else 0)"

lemma month_table:
  assumes "0 \<le> day" and "day \<le> 364"
  defines "k \<equiv> day div 31"
  defines "e \<equiv> daysBefore ! nat (k + 1)"
  shows "case (if day \<ge> e then (k + 2, day - e + 1) else (k + 1, day - daysBefore ! nat k + 1)) of (month, d) \<Rightarrow>
    1 \<le> month \<and> month \<le> 12 \<and> 1 \<le> d \<and> d \<le> daysIn False month \<and> day_number False month d = day \<and> (month > 2 \<longleftrightarrow> day \<ge> 59)"
proof -
  have k: "0 \<le> k" "k \<le> 11" and b: "31 * k \<le> day" "day < 31 * k + 31"
    using assms(1,2) unfolding k_def by (simp_all add: pos_imp_zdiv_nonneg_iff)
  from k have "k = 0 \<or> k = 1 \<or> k = 2 \<or> k = 3 \<or> k = 4 \<or> k = 5 \<or> k = 6 \<or> k = 7 \<or> k = 8 \<or> k = 9 \<or> k = 10 \<or> k = 11"
    by presburger
  with b assms(2) show ?thesis
    unfolding e_def by (elim disjE) (simp_all add: daysBefore_def daysIn_def day_number_def eval_nat_numeral)
qed

lemma month_day_bounds:
  assumes "0 \<le> yday" and "yday \<le> (if leap then 365 else 364)"
  shows "case month_day leap yday of (month, day) \<Rightarrow>
    1 \<le> month \<and> month \<le> 12 \<and> 1 \<le> day \<and> day \<le> daysIn leap month \<and> day_number leap month day = yday"
proof (cases "leap \<and> yday = 59")
  case True
  then show ?thesis
    by (simp add: month_day_def daysIn_def day_number_def daysBefore_def)
next
  case False
  define day where "day = (if leap \<and> yday > 59 then yday - 1 else yday)"
  obtain month d where md: "month_day leap yday = (month, d)"
    by fastforce
  have "0 \<le> day" "day \<le> 364"
    using assms False by (auto simp: day_def split: if_splits)
  from month_table [OF this]
  have t: "1 \<le> month \<and> month \<le> 12 \<and> 1 \<le> d \<and> d \<le> daysIn False month" "day_number False month d = day" "month > 2 \<longleftrightarrow> day \<ge> 59"
    using md False by (simp_all add: month_day_def Let_def flip: day_def)
  have "daysIn False month \<le> daysIn leap month"
    by (simp add: daysIn_def daysBefore_def)
  moreover have "day_number leap month d = (if leap \<and> day \<ge> 59 then day + 1 else day)"
    using t(2,3) by (simp add: day_number_def)
  moreover have "(if leap \<and> day \<ge> 59 then day + 1 else day) = yday"
    using False by (cases leap) (auto simp: day_def)
  ultimately show ?thesis
    using t(1) unfolding md prod.case by linarith
qed

lemma civil_bounds:
  "case civil t of (year, month, day) \<Rightarrow> 1 \<le> month \<and> month \<le> 12 \<and> 1 \<le> day \<and> day \<le> daysIn (isLeap year) month"
proof -
  obtain year yday month day where y: "year_day (abs_days t) = (year, yday)" and m: "month_day (isLeap year) yday = (month, day)"
    by (metis surj_pair)
  have "0 \<le> yday" "yday \<le> (if isLeap year then 365 else 364)"
    using year_day_bounds [of "abs_days t"] y by simp_all
  from month_day_bounds [OF this] show ?thesis
    by (simp add: civil_def y m)
qed

lemma clock_bounds: "case clock t of (hour, minute, second) \<Rightarrow> 0 \<le> hour \<and> hour < 24 \<and> 0 \<le> minute \<and> minute < 60 \<and> 0 \<le> second \<and> second < 60"
proof -
  define s where "s = unix_seconds t mod 86400"
  have "0 \<le> s" "s < 86400"
    by (simp_all add: s_def)
  then have "0 \<le> s div 3600" "s div 3600 < 24" "0 \<le> s mod 3600 div 60" "s mod 3600 div 60 < 60"
    using pos_mod_bound [of 3600 s] pos_mod_sign [of 3600 s] by (simp_all add: pos_imp_zdiv_nonneg_iff div_less_iff_less_mult)
  then show ?thesis
    by (simp add: clock_def Let_def flip: s_def)
qed

lemma daysIn_le: "1 \<le> month \<Longrightarrow> month \<le> 12 \<Longrightarrow> daysIn leap month \<le> 31"
proof -
  have "list_all (\<lambda>b. list_all (\<lambda>m. daysIn b (int m) \<le> 31) [1..<13]) [True, False]"
    by code_simp
  moreover assume "1 \<le> month" "month \<le> 12"
  then have "nat month \<in> set [1..<13]" "int (nat month) = month"
    by auto
  ultimately show ?thesis
    unfolding list_all_iff by (cases leap) (auto dest!: bspec [of _ _ "nat month"])
qed

section \<open>The packed date is read back\<close>

lemma NowDateTime_fields:
  assumes "civil t = (year, month, day)" and "clock t = (hour, minute, second)" and "0 \<le> year" and "year < 2 ^ 38"
  shows "dt_Year (NowDateTime t) = year" "dt_Month (NowDateTime t) = month" "dt_Day (NowDateTime t) = day"
    "dt_Hour (NowDateTime t) = hour" "dt_Minute (NowDateTime t) = minute" "dt_Second (NowDateTime t) = second"
proof -
  have "1 \<le> month \<and> month \<le> 12 \<and> 1 \<le> day \<and> day \<le> daysIn (isLeap year) month"
    using civil_bounds [of t] assms(1) by simp
  moreover have "daysIn (isLeap year) month \<le> 31"
    using calculation by (intro daysIn_le) auto
  moreover have "0 \<le> hour \<and> hour < 24 \<and> 0 \<le> minute \<and> minute < 60 \<and> 0 \<le> second \<and> second < 60"
    using clock_bounds [of t] assms(2) by simp
  ultimately have "dt_valid year month day hour minute second"
    using assms(3,4) unfolding dt_valid_def by linarith
  note f = dt_roundtrip [OF this]
  show "dt_Year (NowDateTime t) = year" "dt_Month (NowDateTime t) = month" "dt_Day (NowDateTime t) = day"
    "dt_Hour (NowDateTime t) = hour" "dt_Minute (NowDateTime t) = minute" "dt_Second (NowDateTime t) = second"
    using f assms(1,2) by (simp_all add: NowDateTime_def)
qed

end
