(* ===== verification/Nex_Dashboard.thy ===== *)
theory Nex_Dashboard
  imports Nex_Login Nex_Dispatch Nex_Time
begin

text \<open>
  The monitoring of \<^verbatim>\<open>server/dashboard.go\<close> and the snapshots of \<^verbatim>\<open>nextendo-nex/dashboard_data.go\<close>: what is
  noted of each call (\<open>noteRMC\<close>, \<open>noteNAT\<close>), the geolocation cache, the statistics (\<open>buildStats\<close>) and the
  HTTP interface behind its token.

  Texts are byte strings; accented letters are written as their UTF-8 bytes. The order in which Go visits a
  map is an argument. A duration in seconds is the quotient of its nanoseconds; the rounding of Go's
  floating-point division, which shows beyond about a hundred days, is not modelled.
\<close>

section \<open>Noting calls\<close>

record playerInfo =
  pi_PID :: pid
  pi_FirstSeen :: gotime
  pi_LastSeen :: "gotime option"
  pi_IP :: string
  pi_Calls :: int
  pi_LastProto :: u16
  pi_LastMethod :: u32
  pi_NATMap :: u32
  pi_NATFilter :: u32
  pi_Ping :: u32

record rmcEvent =
  ev_T :: gotime
  ev_PID :: pid
  ev_Proto :: u16
  ev_Method :: u32

record geoInfo =
  geo_Country :: string
  geo_CC :: string
  geo_City :: string
  geo_ISP :: string

definition no_geo :: geoInfo where
  "no_geo = \<lparr>geo_Country = [], geo_CC = [], geo_City = [], geo_ISP = []\<rparr>"

text \<open>The variables of the package; \<open>geoPending\<close> are the lookups whose goroutine has not finished.\<close>

record dashboard =
  dashStart :: gotime
  playerMeta :: "(pid, playerInfo) gomap"
  sessionsSeen :: int
  peakConnected :: nat
  rmcTotal :: int
  db_events :: "rmcEvent list"
  methodCount :: "(string, int) gomap"
  geoCache :: "(string, geoInfo) gomap"
  geoPending :: "string list"

definition new_dashboard :: "gotime \<Rightarrow> dashboard" where
  "new_dashboard now =
     \<lparr>dashStart = now, playerMeta = [], sessionsSeen = 0, peakConnected = 0, rmcTotal = 0, db_events = [], methodCount = [],
      geoCache = [], geoPending = []\<rparr>"

definition ghostIdle :: "string \<Rightarrow> int" where
  "ghostIdle v =
     (let (n, ok) = Atoi (envOr v '''') in if ok \<and> n > 0 then wrap64 (n * 1000000000) else 15 * 60 * 1000000000)"

definition new_player :: "pid \<Rightarrow> gotime \<Rightarrow> playerInfo" where
  "new_player p now =
     \<lparr>pi_PID = p, pi_FirstSeen = now, pi_LastSeen = None, pi_IP = [], pi_Calls = 0, pi_LastProto = 0, pi_LastMethod = 0,
      pi_NATMap = 0, pi_NATFilter = 0, pi_Ping = 0\<rparr>"

definition hexdigit :: "nat \<Rightarrow> char" where
  "hexdigit d = ''0123456789ABCDEF'' ! d"

fun hex_str :: "nat \<Rightarrow> string" where
  "hex_str n = (if n < 16 then [hexdigit n] else hex_str (n div 16) @ [hexdigit (n mod 16)])"

declare hex_str.simps [simp del]

definition proto_names :: "(u16 \<times> string) list" where
  "proto_names =
     [(0x0A, ''TicketGranting''), (0x0B, ''SecureConnection''), (0x6E, ''Utility''), (0x70, ''Ranking''), (0x6D, ''MatchmakeExt''),
      (0x15, ''MatchMaking''), (0x32, ''MatchMakingExt''), (0x03, ''NATTraversal''), (0x0E, ''Notifications'')]"

definition method_names :: "(u16 \<times> (u32 \<times> string) list) list" where
  "method_names =
     [(0x0A, [(1, ''Login''), (2, ''LoginEx''), (3, ''RequestTicket'')]),
      (0x0B, [(1, ''Register''), (4, ''RegisterEx''), (7, ''ReplaceURL'')]),
      (0x6E, [(1, ''AcquireNexUniqueID''), (7, ''GetIntegerSettings''), (8, ''GetStringSettings'')]),
      (0x70, [(1, ''UploadScore''), (4, ''UploadCommonData''), (6, ''GetCommonData'')]),
      (0x6D, [(0x26, ''CreateMatchmakeSessionWithParam''), (0x27, ''JoinMatchmakeSessionWithParam''),
              (0x28, ''AutoMatchmakeWithParamPostpone''), (0x22, ''UpdateProgressScore''), (0x31, ''FindMatchmakeSessionBySingleID''),
              (0x3C, ''GetSimplePlayingSession''), (0x44, ''PrivateRoomCreate''), (0x45, ''ResolveCode'')]),
      (0x15, [(0x02, ''UnregisterGathering''), (0x29, ''GetSessionURLs''), (0x15, ''FindBySingleID'')]),
      (0x32, [(0x01, ''EndParticipation'')]),
      (0x03, [(2, ''InitiateProbe''), (3, ''RequestProbeInitiationExt''), (5, ''ReportNATProperties'')])]"

definition rmcName :: "u16 \<Rightarrow> u32 \<Rightarrow> string" where
  "rmcName proto method =
     (let pn = (case map_of proto_names proto of Some n \<Rightarrow> n | None \<Rightarrow> ''Proto-0x'' @ hex_str (unat proto));
          mn = (case Option.bind (map_of method_names proto) (\<lambda>t. map_of t method) of
                  Some n \<Rightarrow> n | None \<Rightarrow> ''m'' @ nat_str (unat method))
      in pn @ ''::'' @ mn)"

definition note_player :: "int \<Rightarrow> gotime \<Rightarrow> connection \<Rightarrow> rmc_message \<Rightarrow> playerInfo option \<Rightarrow> playerInfo" where
  "note_player idle now c req old =
     (let p = (case old of
                 None \<Rightarrow> new_player (c_PID c) now
               | Some p \<Rightarrow> (case pi_LastSeen p of
                             Some l \<Rightarrow> if now - l > idle then p\<lparr>pi_FirstSeen := now\<rparr> else p
                           | None \<Rightarrow> p))
      in p\<lparr>pi_LastSeen := Some now, pi_Calls := wrap64 (pi_Calls p + 1), pi_LastProto := rm_Protocol req, pi_LastMethod := rm_Method req,
           pi_IP := (if c_RemoteAddr c \<noteq> [] then c_RemoteAddr c else pi_IP p)\<rparr>)"

definition add_event :: "rmcEvent \<Rightarrow> rmcEvent list \<Rightarrow> rmcEvent list" where
  "add_event e evs = (let evs' = evs @ [e] in if length evs' > 100 then drop (length evs' - 100) evs' else evs')"

text \<open>\<open>now\<close> is the reading under the first lock, \<open>now2\<close> the one for the event.\<close>

definition noteRMC :: "string \<Rightarrow> gotime \<Rightarrow> gotime \<Rightarrow> connection \<Rightarrow> rmc_message \<Rightarrow> dashboard \<Rightarrow> dashboard" where
  "noteRMC ghost now now2 c req d =
     (let p = c_PID c; old = gm_get (playerMeta d) p; name = rmcName (rm_Protocol req) (rm_Method req)
      in if p = 0 then d
         else d\<lparr>rmcTotal := wrap64 (rmcTotal d + 1),
                playerMeta := gm_put p (note_player (ghostIdle ghost) now c req old) (playerMeta d),
                sessionsSeen := (if old = None then wrap64 (sessionsSeen d + 1) else sessionsSeen d),
                db_events := add_event \<lparr>ev_T = now2, ev_PID = p, ev_Proto = rm_Protocol req, ev_Method = rm_Method req\<rparr> (db_events d),
                methodCount := gm_put name (wrap64 ((case gm_get (methodCount d) name of Some n \<Rightarrow> n | None \<Rightarrow> 0) + 1)) (methodCount d)\<rparr>)"

definition noteNAT :: "gotime \<Rightarrow> pid \<Rightarrow> u32 \<Rightarrow> u32 \<Rightarrow> u32 \<Rightarrow> dashboard \<Rightarrow> dashboard" where
  "noteNAT now p natMap natFilter rtt d =
     (if p = 0 then d
      else let q = (case gm_get (playerMeta d) p of Some q \<Rightarrow> q | None \<Rightarrow> new_player p now)
           in d\<lparr>playerMeta := gm_put p (q\<lparr>pi_NATMap := natMap, pi_NATFilter := natFilter, pi_Ping := (if rtt > 0 then rtt else pi_Ping q)\<rparr>)
                  (playerMeta d)\<rparr>)"

definition natTypeLabel :: "u32 \<Rightarrow> u32 \<Rightarrow> string" where
  "natTypeLabel m f =
     (if m = 0 \<and> f = 0 then [] else if m \<le> 1 \<and> f \<le> 1 then ''Ouvert''
      else if m \<le> 1 then ''Mod'' @ [CHR 0xC3, CHR 0xA9] @ ''r'' @ [CHR 0xC3, CHR 0xA9] else ''Strict'')"

section \<open>Geolocation\<close>

definition ipOnly :: "string \<Rightarrow> string" where
  "ipOnly addr = (case last_index (CHR '':'') addr of Some i \<Rightarrow> if i > 0 then take i addr else addr | None \<Rightarrow> addr)"

definition geoLookup :: "string \<Rightarrow> dashboard \<Rightarrow> dashboard \<times> geoInfo" where
  "geoLookup addr d =
     (let ip = ipOnly addr
      in case gm_get (geoCache d) ip of
           Some g \<Rightarrow> (d, g)
         | None \<Rightarrow> (d\<lparr>geoCache := gm_put ip no_geo (geoCache d), geoPending := geoPending d @ [ip]\<rparr>, no_geo))"

text \<open>The goroutine of a lookup ends with what the service answered, or with nothing.\<close>

definition geo_fetched :: "nat \<Rightarrow> geoInfo \<Rightarrow> dashboard \<Rightarrow> dashboard" where
  "geo_fetched i gi d =
     (if i \<ge> length (geoPending d) then d
      else d\<lparr>geoCache := gm_put (geoPending d ! i) gi (geoCache d), geoPending := take i (geoPending d) @ drop (Suc i) (geoPending d)\<rparr>)"

definition gameModeName :: "u32 \<Rightarrow> string" where
  "gameModeName mode =
     (if mode = 1 then ''Course'' else if mode = 2 then ''Course ('' @ [CHR 0xC3, CHR 0xA9] @ ''quipe)''
      else if mode = 3 then ''Bataille'' else if mode = 4 then ''Bataille ('' @ [CHR 0xC3, CHR 0xA9] @ ''quipe)''
      else ''Mode '' @ nat_str (unat mode))"

section \<open>Snapshots\<close>

record GatheringInfo =
  gi_ID :: u32
  gi_OwnerPID :: pid
  gi_HostPID :: pid
  gi_Participants :: "pid list"
  gi_GameMode :: u32
  gi_VR :: u32
  gi_Attribs :: "u32 list"
  gi_MaxPart :: u16
  gi_State :: u32
  gi_Code :: string

definition gathering_info :: "gid \<Rightarrow> gathering \<Rightarrow> GatheringInfo" where
  "gathering_info gid g =
     (let s = g_session g
      in \<lparr>gi_ID = gid, gi_OwnerPID = gt_OwnerPID (ms_Gathering s), gi_HostPID = gt_HostPID (ms_Gathering s), gi_Participants = g_participants g,
          gi_GameMode = ms_GameMode s, gi_VR = (if length (ms_Attribs s) > 1 then ms_Attribs s ! 1 else 0), gi_Attribs = ms_Attribs s,
          gi_MaxPart = gt_MaxParticipants (ms_Gathering s), gi_State = gt_State (ms_Gathering s), gi_Code = g_code g\<rparr>)"

definition Snapshot :: "gid list \<Rightarrow> matchmaking \<Rightarrow> GatheringInfo list" where
  "Snapshot ord m = List.map_filter (\<lambda>gid. map_option (gathering_info gid) (gm_get (m_gatherings m) gid)) ord"

section \<open>The statistics\<close>

record apiPlayer =
  pl_PID :: pid
  pl_Name :: string
  pl_IP :: string
  pl_State :: string
  pl_Gathering :: u32
  pl_OnlineSecs :: int
  pl_Calls :: int
  pl_LastAction :: string
  pl_IdleSecs :: int
  pl_Country :: string
  pl_CC :: string
  pl_City :: string
  pl_ISP :: string
  pl_NatType :: string
  pl_Ping :: int
  pl_VR :: u32
  pl_Mode :: string
  pl_IsHost :: bool

record apiLobbyP =
  lp_PID :: pid
  lp_Name :: string
  lp_VR :: u32
  lp_Host :: bool

record apiGathering =
  ag_ID :: u32
  ag_HostPID :: pid
  ag_HostName :: string
  ag_Type :: string
  ag_Mode :: u32
  ag_VR :: u32
  ag_Players :: "apiLobbyP list"
  ag_Count :: nat
  ag_Max :: u16
  ag_State :: string
  ag_Code :: string
  ag_Attribs :: "u32 list"

record apiEvent =
  ae_Ago :: int
  ae_PID :: pid
  ae_Action :: string

record apiMethod =
  am_Name :: string
  am_Count :: int

record apiServer =
  as_AccessKey :: string
  as_NexVersion :: string
  as_AuthPort :: string
  as_SecurePort :: int
  as_SNIHost :: string
  as_SessionKey :: int
  as_Stack :: string

record apiStats =
  stat_ServerTime :: string
  stat_UptimeSeconds :: int
  stat_Connected :: nat
  stat_InLobby :: nat
  stat_ActiveLobbies :: nat
  stat_TotalSessions :: int
  stat_TotalRMC :: int
  stat_GatheringsMade :: nat
  stat_PeakConnected :: nat
  stat_Server :: apiServer
  stat_Players :: "apiPlayer list"
  stat_Gatherings :: "apiGathering list"
  stat_Events :: "apiEvent list"
  stat_Methods :: "apiMethod list"

definition dispName :: "pid \<Rightarrow> string" where
  "dispName p = ''Joueur-'' @ nat_str (unat (p mod 100000))"

definition seconds :: "int \<Rightarrow> int" where
  "seconds d = (if d \<ge> 0 then d div 1000000000 else - (- d div 1000000000))"

text \<open>What the loop over the gatherings remembers of each participant.\<close>

record lobby_index =
  pidGathering :: "(pid, u32) gomap"
  pidMode :: "(pid, u32) gomap"
  pidVR :: "(pid, u32) gomap"
  pidIsHost :: "(pid, bool) gomap"

definition index_player :: "GatheringInfo \<Rightarrow> pid \<Rightarrow> lobby_index \<Rightarrow> lobby_index" where
  "index_player g p idx =
     idx\<lparr>pidGathering := gm_put p (gi_ID g) (pidGathering idx), pidMode := gm_put p (gi_GameMode g) (pidMode idx),
         pidVR := gm_put p (gi_VR g) (pidVR idx),
         pidIsHost := (if p = gi_HostPID g then gm_put p True (pidIsHost idx) else pidIsHost idx)\<rparr>"

definition stats_gathering :: "GatheringInfo \<Rightarrow> apiGathering" where
  "stats_gathering g =
     \<lparr>ag_ID = gi_ID g, ag_HostPID = gi_HostPID g, ag_HostName = dispName (gi_HostPID g), ag_Type = gameModeName (gi_GameMode g),
      ag_Mode = gi_GameMode g, ag_VR = gi_VR g,
      ag_Players = map (\<lambda>p. \<lparr>lp_PID = p, lp_Name = dispName p, lp_VR = gi_VR g, lp_Host = (p = gi_HostPID g)\<rparr>) (gi_Participants g),
      ag_Count = length (gi_Participants g), ag_Max = (if gi_MaxPart g = 0 then 12 else gi_MaxPart g),
      ag_State = (if length (gi_Participants g) \<ge> 2 then ''appari'' @ [CHR 0xC3, CHR 0xA9] else ''en recherche''),
      ag_Code = gi_Code g, ag_Attribs = gi_Attribs g\<rparr>"

definition stats_gatherings :: "GatheringInfo list \<Rightarrow> lobby_index \<times> apiGathering list" where
  "stats_gatherings gaths =
     (let live = filter (\<lambda>g. gi_Participants g \<noteq> []) gaths
      in (fold (\<lambda>g. fold (index_player g) (gi_Participants g)) live \<lparr>pidGathering = [], pidMode = [], pidVR = [], pidIsHost = []\<rparr>,
          sort_key ag_ID (map stats_gathering live)))"

abbreviation value_or :: "('k, 'v) gomap \<Rightarrow> 'k \<Rightarrow> 'v \<Rightarrow> 'v" where
  "value_or m k dflt \<equiv> (case gm_get m k of Some v \<Rightarrow> v | None \<Rightarrow> dflt)"

definition stats_player :: "gotime \<Rightarrow> lobby_index \<Rightarrow> playerInfo \<Rightarrow> gotime \<Rightarrow> pid \<Rightarrow> string \<Rightarrow> geoInfo \<Rightarrow> apiPlayer" where
  "stats_player now idx s lastSeen p ip geo =
     (let gid = value_or (pidGathering idx) p 0; mode = value_or (pidMode idx) p 0
      in \<lparr>pl_PID = p, pl_Name = dispName p, pl_IP = ip, pl_State = (if gid \<noteq> 0 then ''dans un lobby'' else ''en ligne''), pl_Gathering = gid,
          pl_OnlineSecs = seconds (now - pi_FirstSeen s), pl_Calls = pi_Calls s, pl_LastAction = rmcName (pi_LastProto s) (pi_LastMethod s),
          pl_IdleSecs = seconds (now - lastSeen), pl_Country = geo_Country geo, pl_CC = geo_CC geo, pl_City = geo_City geo, pl_ISP = geo_ISP geo,
          pl_NatType = natTypeLabel (pi_NATMap s) (pi_NATFilter s), pl_Ping = uint (pi_Ping s), pl_VR = value_or (pidVR idx) p 0,
          pl_Mode = (if mode \<noteq> 0 then gameModeName mode else []), pl_IsHost = value_or (pidIsHost idx) p False\<rparr>)"

text \<open>The time of the last call of a player who counts as online.\<close>

definition online :: "string \<Rightarrow> gotime \<Rightarrow> dashboard \<Rightarrow> pid \<Rightarrow> (playerInfo \<times> gotime) option" where
  "online ghost now d p =
     (case gm_get (playerMeta d) p of
        None \<Rightarrow> None
      | Some s \<Rightarrow> (case pi_LastSeen s of
                    None \<Rightarrow> None
                  | Some l \<Rightarrow> if now - l > ghostIdle ghost then None else Some (s, l)))"

text \<open>The loop over the connections: an account is listed once, whatever its connections.\<close>

fun stats_players :: "string \<Rightarrow> gotime \<Rightarrow> lobby_index \<Rightarrow> ConnInfo list \<Rightarrow> pid list \<Rightarrow> dashboard \<Rightarrow> dashboard \<times> apiPlayer list" where
  "stats_players ghost now idx [] seen d = (d, [])"
| "stats_players ghost now idx (c # cs) seen d =
     (if ci_PID c = 0 \<or> ci_PID c \<in> set seen then stats_players ghost now idx cs seen d
      else
        case online ghost now d (ci_PID c) of
          None \<Rightarrow> stats_players ghost now idx cs seen d
        | Some (s, l) \<Rightarrow>
            (let ip = (if ci_Addr c = [] then pi_IP s else ci_Addr c); (d', geo) = geoLookup ip d;
                 (d'', ps) = stats_players ghost now idx cs (ci_PID c # seen) d'
             in (d'', stats_player now idx s l (ci_PID c) ip geo # ps)))"

definition two_digits :: "int \<Rightarrow> string" where
  "two_digits n = (if n < 10 then ''0'' @ nat_str (nat n) else nat_str (nat n))"

text \<open>\<open>15:04:05\<close> in the local time zone, \<open>zone\<close> seconds ahead of UTC.\<close>

definition format_clock :: "int \<Rightarrow> gotime \<Rightarrow> string" where
  "format_clock zone now =
     (case clock (now + zone * 1000000000) of (h, m, s) \<Rightarrow> two_digits h @ '':'' @ two_digits m @ '':'' @ two_digits s)"

record stats_env =
  se_now :: gotime
  se_zone :: int
  se_ghost :: string
  se_authPort :: int
  se_securePort :: int
  se_conns :: "u32 list"
  se_gids :: "gid list"
  se_methods :: "string list"

definition server_card :: "int \<Rightarrow> int \<Rightarrow> apiServer" where
  "server_card authPort securePort =
     \<lparr>as_AccessKey = accessKey, as_NexVersion = ''4.0.0'', as_AuthPort = Itoa authPort, as_SecurePort = securePort,
      as_SNIHost = ''g2b309e01-lp1.s.n.srv.nintendo.net'', as_SessionKey = sessionKeyLen, as_Stack = ''closed-source (no AGPL)''\<rparr>"

definition buildStats :: "stats_env \<Rightarrow> endpoint \<Rightarrow> matchmaking \<Rightarrow> dashboard \<Rightarrow> dashboard \<times> apiStats" where
  "buildStats env ep m d =
     (let now = se_now env;
          (idx, gs) = stats_gatherings (Snapshot (se_gids env) m);
          (d1, ps) = stats_players (se_ghost env) now idx (SnapshotConnections (se_conns env) ep) [] d;
          d2 = d1\<lparr>peakConnected := max (peakConnected d1) (length ps)\<rparr>;
          evs = map (\<lambda>e. \<lparr>ae_Ago = seconds (now - ev_T e), ae_PID = ev_PID e, ae_Action = rmcName (ev_Proto e) (ev_Method e)\<rparr>) (rev (db_events d));
          ms = sort_key (\<lambda>m. - am_Count m)
                 (List.map_filter (\<lambda>n. map_option (\<lambda>c. \<lparr>am_Name = n, am_Count = c\<rparr>) (gm_get (methodCount d) n)) (se_methods env))
      in (d2, \<lparr>stat_ServerTime = format_clock (se_zone env) now, stat_UptimeSeconds = seconds (now - dashStart d), stat_Connected = length ps,
               stat_InLobby = length (filter (\<lambda>p. pl_Gathering p \<noteq> 0) ps), stat_ActiveLobbies = length gs, stat_TotalSessions = sessionsSeen d,
               stat_TotalRMC = rmcTotal d, stat_GatheringsMade = length gs, stat_PeakConnected = peakConnected d2,
               stat_Server = server_card (se_authPort env) (se_securePort env), stat_Players = sort_key pl_PID ps, stat_Gatherings = gs,
               stat_Events = evs, stat_Methods = ms\<rparr>))"

section \<open>The HTTP interface\<close>

text \<open>A request: its path and its query parameters. The answer, before it is written as JSON.\<close>

datatype answer = Forbidden | Stats apiStats | KickedAccount pid nat | KickedConnection u32 bool | Reaped nat | Healthy | NotFound

definition authed :: "string \<Rightarrow> (string \<Rightarrow> string) \<Rightarrow> bool" where
  "authed token query \<longleftrightarrow> token \<noteq> [] \<and> query ''key'' = token"

definition ParseUint32 :: "string \<Rightarrow> u32 option" where
  "ParseUint32 s = (case ParseUint s of Some v \<Rightarrow> if unat v < 2 ^ 32 then Some (ucast v) else None | None \<Rightarrow> None)"

text \<open>
  The connections closed by a kick are returned with the answer: their \<open>OnDisconnect\<close> hook runs. \<open>idle\<close> gives
  the clock reading for each connection, \<open>reap\<close> the environment variable of the idle limit.
\<close>

definition kick_connection :: "(cref \<Rightarrow> gotime) \<Rightarrow> string \<Rightarrow> (string \<Rightarrow> string) \<Rightarrow> endpoint \<times> dashboard \<Rightarrow>
    (endpoint \<times> dashboard) \<times> cref list \<times> answer" where
  "kick_connection idle reap query st =
     (case st of (ep, d) \<Rightarrow>
        let evict = (case ReapIdle idle (ReapIdleTimeout reap) ep of (ep', dropped, n) \<Rightarrow> ((ep', d), dropped, Reaped n))
        in (case ParseUint32 (query ''rvcid'') of
              Some rv \<Rightarrow>
                (if rv \<noteq> 0 then (case KickConnection rv ep of (ep', dropped, ok) \<Rightarrow> ((ep', d), dropped, KickedConnection rv ok)) else evict)
            | None \<Rightarrow> evict))"

definition serve :: "string \<Rightarrow> stats_env \<Rightarrow> (cref \<Rightarrow> gotime) \<Rightarrow> string \<Rightarrow> string \<Rightarrow> (string \<Rightarrow> string) \<Rightarrow> matchmaking \<Rightarrow>
    endpoint \<times> dashboard \<Rightarrow> (endpoint \<times> dashboard) \<times> cref list \<times> answer" where
  "serve token env idle reap path query m st =
     (case st of (ep, d) \<Rightarrow>
        if path = ''/api/stats'' then
          (if \<not> authed token query then (st, [], Forbidden)
           else case buildStats env ep m d of (d', stats) \<Rightarrow> ((ep, d'), [], Stats stats))
        else if path = ''/api/kick'' then
          (if \<not> authed token query then (st, [], Forbidden)
           else
             (case ParseUint (query ''pid'') of
                Some p \<Rightarrow>
                  (if p \<noteq> 0 then (case KickPID p ep of (ep', dropped, n) \<Rightarrow> ((ep', d), dropped, KickedAccount p n))
                   else kick_connection idle reap query st)
              | None \<Rightarrow> kick_connection idle reap query st))
        else if path = ''/healthz'' then (st, [], Healthy)
        else (st, [], NotFound))"

section \<open>The dashboard tells the truth\<close>

definition dashboard_wf :: "dashboard \<Rightarrow> bool" where
  "dashboard_wf d \<longleftrightarrow>
     gm_wf (playerMeta d) \<and> (\<forall>p q. gm_get (playerMeta d) p = Some q \<longrightarrow> pi_PID q = p \<and> p \<noteq> 0) \<and> length (db_events d) \<le> 100 \<and>
     gm_wf (methodCount d) \<and> gm_wf (geoCache d) \<and> (\<forall>ip\<in>set (geoPending d). gm_has (geoCache d) ip)"

lemma new_dashboard_wf: "dashboard_wf (new_dashboard now)"
  by (simp add: dashboard_wf_def new_dashboard_def)

lemma note_player_PID: "pi_PID (note_player idle now c req old) = (case old of Some q \<Rightarrow> pi_PID q | None \<Rightarrow> c_PID c)"
  by (simp add: note_player_def new_player_def Let_def split: option.split)

lemma length_add_event: "length (add_event e evs) \<le> 100"
  by (simp add: add_event_def Let_def)

lemma noteRMC_wf: "dashboard_wf d \<Longrightarrow> dashboard_wf (noteRMC ghost now now2 c req d)"
  by (auto simp: dashboard_wf_def noteRMC_def Let_def note_player_PID length_add_event split: option.split)

lemma noteNAT_wf: "dashboard_wf d \<Longrightarrow> dashboard_wf (noteNAT now p natMap natFilter rtt d)"
  by (auto simp: dashboard_wf_def noteNAT_def Let_def new_player_def split: option.split)

lemma geoLookup_wf: "dashboard_wf d \<Longrightarrow> dashboard_wf (fst (geoLookup ip d))"
  by (auto simp: dashboard_wf_def geoLookup_def Let_def split: option.split)

lemma geo_fetched_wf: "dashboard_wf d \<Longrightarrow> dashboard_wf (geo_fetched i gi d)"
  by (auto simp: dashboard_wf_def geo_fetched_def dest: in_set_takeD in_set_dropD)

text \<open>A lookup only adds to the cache.\<close>

lemma geoLookup_meta: "playerMeta (fst (geoLookup ip d)) = playerMeta d" "online ghost now (fst (geoLookup ip d)) = online ghost now d"
  by (auto simp: geoLookup_def Let_def online_def fun_eq_iff split: option.split)

lemma stats_players_wf: "dashboard_wf d \<Longrightarrow> dashboard_wf (fst (stats_players ghost now idx cs seen d))"
proof (induction cs arbitrary: seen d)
  case (Cons c cs)
  have "dashboard_wf (fst (geoLookup ip d))" for ip
    by (rule geoLookup_wf [OF Cons.prems])
  then show ?case
    using Cons by (simp add: Let_def split_beta split: option.split)
qed simp

lemma buildStats_wf: "dashboard_wf d \<Longrightarrow> dashboard_wf (fst (buildStats env ep m d))"
  using stats_players_wf [of d]
  by (auto simp: buildStats_def Let_def split_beta dashboard_wf_def)

lemma stats_players_online:
  "set (map pl_PID (snd (stats_players ghost now idx cs seen d))) =
     {p. p \<noteq> 0 \<and> p \<notin> set seen \<and> p \<in> set (map ci_PID cs) \<and> online ghost now d p \<noteq> None}"
  "distinct (map pl_PID (snd (stats_players ghost now idx cs seen d)))"
proof (induction cs arbitrary: seen d)
  case (Cons c cs)
  { case 1
    then show ?case
      using Cons(1) by (auto simp: Let_def split_beta geoLookup_meta stats_player_def split: option.split) }
  { case 2
    then show ?case
      using Cons by (auto simp: Let_def split_beta geoLookup_meta stats_player_def split: option.split) }
qed simp_all

text \<open>What the index of the lobbies knows is true of the store.\<close>

definition index_true :: "matchmaking \<Rightarrow> lobby_index \<Rightarrow> bool" where
  "index_true m idx \<longleftrightarrow>
     (\<forall>p gid. gm_get (pidGathering idx) p = Some gid \<longrightarrow> (\<exists>g. gm_get (m_gatherings m) gid = Some g \<and> p \<in> set (g_participants g)))"

lemma index_gathering_true:
  assumes "index_true m idx" and "gm_get (m_gatherings m) (gi_ID g) = Some h" and "set ps \<subseteq> set (g_participants h)"
  shows "index_true m (fold (index_player g) ps idx)"
  using assms(1,3)
proof (induction ps arbitrary: idx)
  case (Cons p ps)
  have "index_true m (index_player g p idx)"
    using Cons.prems assms(2) by (simp add: index_true_def index_player_def)
  then show ?case
    using Cons by simp
qed simp

lemma Snapshot_true:
  assumes "g \<in> set (Snapshot ord m)"
  obtains h where "gm_get (m_gatherings m) (gi_ID g) = Some h" and "gi_Participants g = g_participants h"
  using assms by (auto simp: Snapshot_def List.map_filter_def gathering_info_def Let_def)

lemma stats_gatherings_true: "index_true m (fst (stats_gatherings (Snapshot ord m)))"
proof -
  have "index_true m (fold (\<lambda>g. fold (index_player g) (gi_Participants g)) gs idx)"
    if "set gs \<subseteq> set (Snapshot ord m)" and "index_true m idx" for gs idx
    using that
  proof (induction gs arbitrary: idx)
    case (Cons g gs)
    obtain h where "gm_get (m_gatherings m) (gi_ID g) = Some h" "gi_Participants g = g_participants h"
      using Snapshot_true [of g ord m] Cons.prems(1) by auto
    then show ?case
      using Cons index_gathering_true [of m idx g h "gi_Participants g"] by simp
  qed simp
  moreover have "index_true m \<lparr>pidGathering = [], pidMode = [], pidVR = [], pidIsHost = []\<rparr>"
    by (simp add: index_true_def)
  ultimately show ?thesis
    by (simp add: stats_gatherings_def Let_def)
qed

lemma stats_players_keep:
  "playerMeta (fst (stats_players ghost now idx cs seen d)) = playerMeta d \<and> db_events (fst (stats_players ghost now idx cs seen d)) = db_events d"
proof (induction cs arbitrary: seen d)
  case (Cons c cs)
  have "db_events (fst (geoLookup ip d)) = db_events d" for ip
    by (simp add: geoLookup_def Let_def split: option.split)
  then show ?case
    using Cons by (simp add: Let_def split_beta geoLookup_meta split: option.split)
qed simp

lemma stats_player_sel [simp]:
  "pl_PID (stats_player now idx s l p ip geo) = p"
  "pl_Gathering (stats_player now idx s l p ip geo) = value_or (pidGathering idx) p 0"
  by (simp_all add: stats_player_def Let_def)

lemma stats_players_index:
  "list_all (\<lambda>pl. pl_Gathering pl = value_or (pidGathering idx) (pl_PID pl) 0) (snd (stats_players ghost now idx cs seen d))"
proof (induction cs arbitrary: seen d)
  case (Cons c cs)
  then show ?case
    by (simp add: Let_def split_beta split: option.split)
qed simp

lemma sort_key_strict: "distinct (map f xs) \<Longrightarrow> sorted_wrt (<) (map f (sort_key f xs))"
  by (rule strict_sorted_iff [THEN iffD2]) (simp add: distinct_map)

lemma SnapshotConnections_PIDs:
  assumes "visits ord (ep_connections ep)"
  shows "set (map ci_PID (SnapshotConnections ord ep)) = {c_PID (conn_at ep r) | i r. gm_get (ep_connections ep) i = Some r}"
proof -
  have "i \<in> set ord" if "gm_get (ep_connections ep) i = Some r" for i r
    using that assms gm_has_get [of "ep_connections ep" i] by (simp add: visits_def gm_has_def)
  then show ?thesis
    by (fastforce simp: SnapshotConnections_def List.map_filter_def Let_def image_iff)
qed

text \<open>C40: the statistics tell the truth. The players listed are exactly the accounts that have a registered connection
  and made a call within the idle limit, each once, in ascending order, and their number is the one reported; a
  player said to be in a gathering is a participant of it in the store; the peak covers the players now online; and the
  call changes nothing else of what was noted.\<close>

theorem dashboard_truthful:
  assumes "visits (se_conns env) (ep_connections ep)" and "buildStats env ep m d = (d', stats)"
  shows "sorted_wrt (<) (map pl_PID (stat_Players stats)) \<and>
    set (map pl_PID (stat_Players stats)) =
      {p. p \<noteq> 0 \<and> (\<exists>i r. gm_get (ep_connections ep) i = Some r \<and> c_PID (conn_at ep r) = p) \<and> online (se_ghost env) (se_now env) d p \<noteq> None} \<and>
    stat_Connected stats = length (stat_Players stats) \<and> stat_InLobby stats \<le> stat_Connected stats \<and>
    (\<forall>pl\<in>set (stat_Players stats). pl_Gathering pl \<noteq> 0 \<longrightarrow>
      (\<exists>g. gm_get (m_gatherings m) (pl_Gathering pl) = Some g \<and> pl_PID pl \<in> set (g_participants g))) \<and>
    stat_Connected stats \<le> peakConnected d' \<and> playerMeta d' = playerMeta d \<and> db_events d' = db_events d"
proof -
  obtain idx gs where g: "stats_gatherings (Snapshot (se_gids env) m) = (idx, gs)"
    by fastforce
  obtain d1 ps where p: "stats_players (se_ghost env) (se_now env) idx (SnapshotConnections (se_conns env) ep) [] d = (d1, ps)"
    by fastforce
  have b: "stat_Players stats = sort_key pl_PID ps" "stat_Connected stats = length ps" "d' = d1\<lparr>peakConnected := max (peakConnected d1) (length ps)\<rparr>"
    "stat_InLobby stats = length (filter (\<lambda>p. pl_Gathering p \<noteq> 0) ps)"
    using assms(2) by (auto simp: buildStats_def Let_def g p)
  note o = stats_players_online [of "se_ghost env" "se_now env" idx "SnapshotConnections (se_conns env) ep" "[]" d, unfolded p snd_conv]
  have "index_true m idx"
    using stats_gatherings_true [of m "se_gids env"] by (simp add: g)
  moreover have "pl_Gathering pl = value_or (pidGathering idx) (pl_PID pl) 0" if "pl \<in> set ps" for pl
    using stats_players_index [of idx "se_ghost env" "se_now env" "SnapshotConnections (se_conns env) ep" "[]" d] that
    by (simp add: p list_all_iff)
  ultimately have i: "\<exists>g. gm_get (m_gatherings m) (pl_Gathering pl) = Some g \<and> pl_PID pl \<in> set (g_participants g)"
    if "pl \<in> set ps" and "pl_Gathering pl \<noteq> 0" for pl
    using that by (cases "gm_get (pidGathering idx) (pl_PID pl)") (auto simp: index_true_def)
  have k: "playerMeta d1 = playerMeta d \<and> db_events d1 = db_events d"
    using stats_players_keep [of "se_ghost env" "se_now env" idx "SnapshotConnections (se_conns env) ep" "[]" d] by (simp add: p)
  show ?thesis
    unfolding b using o sort_key_strict [OF o(2)] SnapshotConnections_PIDs [OF assms(1)] i k by (auto simp: length_filter_le)
qed

text \<open>A server with two connections, of which one made a call.\<close>

definition sample_noted :: dashboard where
  "sample_noted = noteRMC [] 5 6 (conn_at demo_endpoint 0) (NewRMCRequest demo_settings 0x6D 0x28 1 []) (new_dashboard 0)"

definition sample_stats_env :: stats_env where
  "sample_stats_env =
     \<lparr>se_now = 3000000000, se_zone = 0, se_ghost = [], se_authPort = 443, se_securePort = 60003, se_conns = map fst (ep_connections demo_endpoint),
      se_gids = map fst (m_gatherings demo_host), se_methods = [''MatchmakeExt::AutoMatchmakeWithParamPostpone'']\<rparr>"

theorem dashboard_truthful_witness:
  "\<exists>d' stats. buildStats sample_stats_env demo_endpoint demo_host sample_noted = (d', stats) \<and>
    set (map pl_PID (stat_Players stats)) = {11} \<and> sorted_wrt (<) (map pl_PID (stat_Players stats)) \<and>
    stat_Connected stats = length (stat_Players stats)"
proof -
  obtain d' stats where b: "buildStats sample_stats_env demo_endpoint demo_host sample_noted = (d', stats)"
    by fastforce
  have v: "visits (se_conns sample_stats_env) (ep_connections demo_endpoint)"
    by (simp add: visits_def sample_stats_env_def) code_simp
  have "online (se_ghost sample_stats_env) (se_now sample_stats_env) sample_noted 11 \<noteq> None"
    "online (se_ghost sample_stats_env) (se_now sample_stats_env) sample_noted 12 = None"
    by code_simp+
  then have "{p. p \<noteq> 0 \<and> (\<exists>i r. gm_get (ep_connections demo_endpoint) i = Some r \<and> c_PID (conn_at demo_endpoint r) = p) \<and>
      online (se_ghost sample_stats_env) (se_now sample_stats_env) sample_noted p \<noteq> None} = {11}"
    by (auto simp: demo_endpoint_def conn_at_def intro: exI [of _ 1])
  then show ?thesis
    using dashboard_truthful [OF v b] b by (intro exI [of _ d'] exI [of _ stats]) simp
qed

text \<open>Without the configured token, or when none is configured, nothing is shown and nobody is disconnected.\<close>

lemma serve_denied:
  assumes "token = [] \<or> query ''key'' \<noteq> token" and "path = ''/api/stats'' \<or> path = ''/api/kick''"
  shows "serve token env idle reap path query m st = (st, [], Forbidden)"
  using assms by (auto simp: serve_def authed_def split: prod.split)

end
