(* ===== verification/Nex_Render.thy ===== *)
theory Nex_Render
  imports Nex_Dashboard Nex_Json
begin

text \<open>
  What the dashboard writes to its clients: the answers of \<^verbatim>\<open>server/dashboard.go\<close> as HTTP status and body, byte
  by byte, with the structures as \<open>encoding/json\<close> renders them; and the time stamps of log lines (\<^verbatim>\<open>diag.go\<close>).
\<close>

section \<open>The geolocation answer\<close>

text \<open>
  The goroutine of a lookup ignores every error: without a reply, and for a body that is not an object, all fields stay empty, and a member
  that is not a string leaves its field as it is.
\<close>

definition keep_string :: "string \<Rightarrow> json \<Rightarrow> string option" where
  "keep_string x j = (case j of JString str \<Rightarrow> Some str | _ \<Rightarrow> Some x)"

definition geo_field :: "string \<Rightarrow> (string \<times> json) list \<Rightarrow> string" where
  "geo_field name ms = (case field name keep_string ms [] of None \<Rightarrow> [] | Some str \<Rightarrow> str)"

definition geo_answer :: "string option \<Rightarrow> geoInfo" where
  "geo_answer got =
     (case Option.bind got decode_body of
        Some (JObject ms) \<Rightarrow>
          \<lparr>geo_Country = geo_field ''country'' ms, geo_CC = geo_field ''countrycode'' ms, geo_City = geo_field ''city'' ms, geo_ISP = geo_field ''isp'' ms\<rparr>
      | _ \<Rightarrow> no_geo)"

definition geo_turn :: "nat \<Rightarrow> string option \<Rightarrow> dashboard \<Rightarrow> dashboard" where
  "geo_turn i got d = geo_fetched i (geo_answer got) d"

lemma geo_turn_wf: "dashboard_wf d \<Longrightarrow> dashboard_wf (geo_turn i got d)"
  by (simp add: geo_turn_def geo_fetched_wf)

section \<open>The statistics as JSON\<close>

definition enc_player :: "apiPlayer \<Rightarrow> json" where
  "enc_player p =
     JObject [(''pid'', enc_uint (pl_PID p)), (''name'', JString (pl_Name p)), (''ip'', JString (pl_IP p)), (''state'', JString (pl_State p)),
              (''gathering'', enc_uint (pl_Gathering p)), (''onlineSeconds'', enc_int (pl_OnlineSecs p)), (''calls'', enc_int (pl_Calls p)),
              (''lastAction'', JString (pl_LastAction p)), (''idleSeconds'', enc_int (pl_IdleSecs p)), (''country'', JString (pl_Country p)),
              (''cc'', JString (pl_CC p)), (''city'', JString (pl_City p)), (''isp'', JString (pl_ISP p)), (''natType'', JString (pl_NatType p)),
              (''ping'', enc_int (pl_Ping p)), (''vr'', enc_uint (pl_VR p)), (''mode'', JString (pl_Mode p)), (''isHost'', JBool (pl_IsHost p))]"

definition enc_lobby_player :: "apiLobbyP \<Rightarrow> json" where
  "enc_lobby_player p =
     JObject [(''pid'', enc_uint (lp_PID p)), (''name'', JString (lp_Name p)), (''vr'', enc_uint (lp_VR p)), (''host'', JBool (lp_Host p))]"

definition enc_gathering :: "apiGathering \<Rightarrow> json" where
  "enc_gathering g =
     JObject ([(''id'', enc_uint (ag_ID g)), (''hostPid'', enc_uint (ag_HostPID g)), (''hostName'', JString (ag_HostName g)),
               (''type'', JString (ag_Type g)), (''mode'', enc_uint (ag_Mode g)), (''vr'', enc_uint (ag_VR g)),
               (''players'', JArray (map enc_lobby_player (ag_Players g))), (''count'', enc_int (int (ag_Count g))), (''max'', enc_uint (ag_Max g)),
               (''state'', JString (ag_State g))] @
              (if ag_Code g = [] then [] else [(''code'', JString (ag_Code g))]) @
              (if ag_Attribs g = [] then [] else [(''attribs'', JArray (map enc_uint (ag_Attribs g)))]))"

definition enc_event :: "apiEvent \<Rightarrow> json" where
  "enc_event e = JObject [(''agoSeconds'', enc_int (ae_Ago e)), (''pid'', enc_uint (ae_PID e)), (''action'', JString (ae_Action e))]"

definition enc_method :: "apiMethod \<Rightarrow> json" where
  "enc_method m = JObject [(''name'', JString (am_Name m)), (''count'', enc_int (am_Count m))]"

definition enc_server :: "apiServer \<Rightarrow> json" where
  "enc_server s =
     JObject [(''accessKey'', JString (as_AccessKey s)), (''nexVersion'', JString (as_NexVersion s)), (''authPort'', JString (as_AuthPort s)),
              (''securePort'', enc_int (as_SecurePort s)), (''sniHost'', JString (as_SNIHost s)), (''sessionKeyLen'', enc_int (as_SessionKey s)),
              (''stack'', JString (as_Stack s))]"

definition enc_stats :: "apiStats \<Rightarrow> json" where
  "enc_stats s =
     JObject [(''serverTime'', JString (stat_ServerTime s)), (''uptimeSeconds'', enc_int (stat_UptimeSeconds s)),
              (''connected'', enc_int (int (stat_Connected s))), (''inLobby'', enc_int (int (stat_InLobby s))),
              (''activeLobbies'', enc_int (int (stat_ActiveLobbies s))), (''totalSessions'', enc_int (stat_TotalSessions s)),
              (''totalRmc'', enc_int (stat_TotalRMC s)), (''gatheringsMade'', enc_int (int (stat_GatheringsMade s))),
              (''peakConnected'', enc_int (int (stat_PeakConnected s))), (''server'', enc_server (stat_Server s)),
              (''players'', JArray (map enc_player (stat_Players s))), (''gatherings'', JArray (map enc_gathering (stat_Gatherings s))),
              (''events'', JArray (map enc_event (stat_Events s))), (''methods'', JArray (map enc_method (stat_Methods s)))]"

section \<open>The answers\<close>

text \<open>Status and body. The members of a map are written in the order of their names; an encoder ends a value with a newline.\<close>

definition newline :: string where
  "newline = [CHR 0x0A]"

fun answer_body :: "answer \<Rightarrow> nat \<times> string" where
  "answer_body Forbidden = (403, ''forbidden'' @ newline)"
| "answer_body (Stats s) = (200, json_print (enc_stats s) @ newline)"
| "answer_body (KickedAccount p n) = (200, json_print (JObject [(''kicked'', enc_int (int n)), (''pid'', enc_uint p)]) @ newline)"
| "answer_body (KickedConnection rv ok) = (200, json_print (JObject [(''kicked'', JBool ok), (''rvcid'', enc_uint rv)]) @ newline)"
| "answer_body (Reaped n) = (200, json_print (JObject [(''reaped'', enc_int (int n))]) @ newline)"
| "answer_body Healthy = (200, ''ok'' @ newline)"
| "answer_body NotFound = (404, ''404 page not found'' @ newline)"

section \<open>Log time stamps\<close>

definition three_digits :: "nat \<Rightarrow> string" where
  "three_digits n = [digit_char (n div 100 mod 10), digit_char (n div 10 mod 10), digit_char (n mod 10)]"

text \<open>\<open>time.Now().Format("15:04:05.000")\<close>: milliseconds are cut, not rounded.\<close>

definition diag_ts :: "int \<Rightarrow> gotime \<Rightarrow> string" where
  "diag_ts zone now = format_clock zone now @ ''.'' @ three_digits (nat (now div 1000000 mod 1000))"

section \<open>The answers are JSON\<close>

lemma json_delim_newline: "json_delim newline" "skip_space newline = []"
  by (simp_all add: json_delim_def newline_def is_digit_def skip_space_def json_space_def)

lemma json_parse_line: "json_ok 0 v \<Longrightarrow> json_parse (json_print v @ newline) = Some v"
  using reads_value [OF json_print_reads [of 0 v] json_delim_newline(1), of "2 * length (json_print v @ newline) + 2"]
  by (simp add: json_parse_def json_delim_newline del: json_value.simps)

text \<open>
  A client that parses the answer gets the statistics as they were rendered, when their strings are valid UTF-8; the answers to a
  kick are always parsed.
\<close>

lemma answer_parsed:
  "json_ok 0 (enc_stats s) \<Longrightarrow> json_parse (snd (answer_body (Stats s))) = Some (enc_stats s)"
  "json_parse (snd (answer_body (Reaped n))) = Some (JObject [(''reaped'', enc_int (int n))])"
  "json_parse (snd (answer_body (KickedAccount p n))) = Some (JObject [(''kicked'', enc_int (int n)), (''pid'', enc_uint p)])"
  "json_parse (snd (answer_body (KickedConnection rv ok))) = Some (JObject [(''kicked'', JBool ok), (''rvcid'', enc_uint rv)])"
proof -
  have names: "to_valid ''reaped'' = ''reaped''" "to_valid ''kicked'' = ''kicked''" "to_valid ''pid'' = ''pid''" "to_valid ''rvcid'' = ''rvcid''"
    by (rule to_valid_ascii, code_simp)+
  show "json_ok 0 (enc_stats s) \<Longrightarrow> json_parse (snd (answer_body (Stats s))) = Some (enc_stats s)"
    by (simp add: json_parse_line)
  show "json_parse (snd (answer_body (Reaped n))) = Some (JObject [(''reaped'', enc_int (int n))])"
    "json_parse (snd (answer_body (KickedAccount p n))) = Some (JObject [(''kicked'', enc_int (int n)), (''pid'', enc_uint p)])"
    "json_parse (snd (answer_body (KickedConnection rv ok))) = Some (JObject [(''kicked'', JBool ok), (''rvcid'', enc_uint rv)])"
    unfolding answer_body.simps snd_conv by (rule json_parse_line; simp add: max_nesting_def names)+
qed

end
