(* ===== verification/Nex_Dedup.thy ===== *)
theory Nex_Dedup
  imports Nex_Dispatch Nex_Crypto
begin

text \<open>
  The deduplication of mutating calls, \<^verbatim>\<open>server/rmc_dedup.go\<close>: which calls it covers, the table of
  entries, and the concurrent behaviour of \<open>wrap\<close>.

  An entry is an object: the table maps a key to an index into \<open>dd_heap\<close>. \<open>de_inflight\<close> says that
  the channel \<open>ready\<close> of the entry is open. \<open>wrap_turn\<close> is one pass through the critical section of
  the loop of \<open>wrap\<close> and tells the goroutine what to do next; \<open>execute_end\<close> is the deferred function
  of \<open>execute\<close>. The step relation \<open>dd_step\<close> interleaves any number of goroutines, each with the key
  of its request; what the wrapped handler answers, and when, is arbitrary. Two ghost fields record
  the finished executions and the latest reading of the clock.
\<close>

section \<open>The table\<close>

record rmcDedupKey =
  dk_connectionID :: u32
  dk_pid :: pid
  dk_protocol :: u16
  dk_method :: u32
  dk_callID :: u32
  dk_bodyHash :: "byte list"

record rmcDedupEntry =
  de_inflight :: bool
  de_response :: "rmc_message option"
  de_expires :: gotime

record rmcDeduplicator =
  dd_entries :: "(rmcDedupKey, nat) gomap"
  dd_heap :: "rmcDedupEntry list"
  dd_ttl :: int
  dd_max :: int
  dd_calls :: u64

definition defaultRMCDedupEntries :: int where "defaultRMCDedupEntries = 4096"

definition newRMCDeduplicator :: "int \<Rightarrow> int \<Rightarrow> rmcDeduplicator" where
  "newRMCDeduplicator ttl maxEntries =
     \<lparr>dd_entries = [], dd_heap = [], dd_ttl = (if ttl \<le> 0 then 20 * 1000000000 else ttl),
      dd_max = (if maxEntries \<le> 0 then defaultRMCDedupEntries else maxEntries), dd_calls = 0\<rparr>"

definition deduplicateMatchmaking :: "rmc_message \<Rightarrow> bool" where
  "deduplicateMatchmaking req =
     (if rm_Protocol req = ProtocolMatchmakeExtension then
        rm_Method req \<in> {MethodCloseParticipation, MethodOpenParticipation, MethodCreateMatchmakeSessionWithParam,
          MethodJoinMatchmakeSessionWithParam, MethodAutoMatchmakeWithParamPostpone, MethodCustomPrivateRoomCreate,
          MethodUpdateMatchmakeSessionPart, MethodUpdateApplicationBuffer, MethodModifyCurrentGameAttribute,
          MethodUpdateNotificationData, MethodSSBUArenaCode, MethodTournamentCreate, MethodTournamentDelete, MethodTournamentJoin}
      else if rm_Protocol req = ProtocolMatchMaking then
        rm_Method req \<in> {MethodUnregisterGathering, MethodUpdateSessionURL, MethodUpdateSessionHost, MethodUpdateSessionHostV1,
          MethodMigrateGatheringOwnership, MethodMigrateGatheringOwnershipV1, MethodUpdateGatheringOwnership}
      else if rm_Protocol req = ProtocolMatchMakingExt then rm_Method req = MethodEndParticipation
      else False)"

definition dedup_key :: "connection \<Rightarrow> rmc_message \<Rightarrow> rmcDedupKey" where
  "dedup_key c req =
     \<lparr>dk_connectionID = c_ID c, dk_pid = c_PID c, dk_protocol = rm_Protocol req, dk_method = rm_Method req,
      dk_callID = rm_CallID req, dk_bodyHash = sha256_Sum (rm_Body req)\<rparr>"

definition cloneRMC :: "rmc_message option \<Rightarrow> rmc_message option" where
  "cloneRMC message = map_option (\<lambda>m. m\<lparr>rm_Body := [] @ rm_Body m\<rparr>) message"

definition expired :: "gotime \<Rightarrow> rmcDedupEntry \<Rightarrow> bool" where
  "expired now e \<longleftrightarrow> \<not> de_inflight e \<and> \<not> now < de_expires e"

definition pruneLocked :: "gotime \<Rightarrow> rmcDeduplicator \<Rightarrow> rmcDeduplicator" where
  "pruneLocked now d = d\<lparr>dd_entries := filter (\<lambda>(k, i). \<not> expired now (dd_heap d ! i)) (dd_entries d)\<rparr>"

datatype dd_decision = Wait nat | Answer "rmc_message option" | Untracked | Run nat

definition acquire :: "rmcDedupKey \<Rightarrow> rmcDeduplicator \<Rightarrow> rmcDeduplicator \<times> dd_decision" where
  "acquire key d =
     (if int (length (dd_entries d)) \<ge> dd_max d then (d, Untracked)
      else
        let i = length (dd_heap d)
        in (d\<lparr>dd_heap := dd_heap d @ [\<lparr>de_inflight = True, de_response = None, de_expires = 0\<rparr>],
              dd_entries := gm_put key i (dd_entries d)\<rparr>, Run i))"

definition count_call :: "gotime \<Rightarrow> rmcDeduplicator \<Rightarrow> rmcDeduplicator" where
  "count_call now d =
     (let d1 = d\<lparr>dd_calls := dd_calls d + 1\<rparr>
      in if dd_calls d1 mod 256 = 0 \<or> int (length (dd_entries d1)) \<ge> dd_max d1 then pruneLocked now d1 else d1)"

definition wrap_turn :: "gotime \<Rightarrow> rmcDedupKey \<Rightarrow> rmcDeduplicator \<Rightarrow> rmcDeduplicator \<times> dd_decision" where
  "wrap_turn now key d0 =
     (let d = count_call now d0
      in case gm_get (dd_entries d) key of
           None \<Rightarrow> acquire key d
         | Some i \<Rightarrow>
             (let e = dd_heap d ! i
              in if de_inflight e then (d, Wait i)
                 else if now < de_expires e then (d, Answer (cloneRMC (de_response e)))
                 else acquire key (d\<lparr>dd_entries := gm_del key (dd_entries d)\<rparr>)))"

definition execute_end :: "gotime \<Rightarrow> rmcDedupKey \<Rightarrow> nat \<Rightarrow> rmc_message option \<Rightarrow> rmcDeduplicator \<Rightarrow> rmcDeduplicator" where
  "execute_end now key i response d =
     (if gm_get (dd_entries d) key = Some i then
        (case response of
           None \<Rightarrow> d\<lparr>dd_entries := gm_del key (dd_entries d), dd_heap := (dd_heap d)[i := (dd_heap d ! i)\<lparr>de_inflight := False\<rparr>]\<rparr>
         | Some _ \<Rightarrow> d\<lparr>dd_heap := (dd_heap d)[i := (dd_heap d ! i)\<lparr>de_response := cloneRMC response, de_expires := now + dd_ttl d,
                          de_inflight := False\<rparr>]\<rparr>)
      else d)"

section \<open>Goroutines\<close>

datatype dd_pc = Entering | Waiting nat | Executing nat | Bypass | Returned "rmc_message option"

text \<open>
  All executions that finished are logged, with the call, the response, the time and whether the table
  kept track of them; so are the calls that were let past a full table when they came.
\<close>

record dd_sys =
  ds_dedup :: rmcDeduplicator
  ds_threads :: "nat \<rightharpoonup> rmcDedupKey \<times> dd_pc"
  ds_log :: "(rmcDedupKey \<times> rmc_message option \<times> gotime \<times> bool) list"
  ds_past :: "rmcDedupKey list"
  ds_clock :: gotime

definition next_pc :: "dd_decision \<Rightarrow> dd_pc" where
  "next_pc dec = (case dec of Wait i \<Rightarrow> Waiting i | Answer resp \<Rightarrow> Returned resp | Untracked \<Rightarrow> Bypass | Run i \<Rightarrow> Executing i)"

inductive dd_step :: "dd_sys \<Rightarrow> dd_sys \<Rightarrow> bool" where
  dd_arrive: "ds_threads s t = None \<Longrightarrow> dd_step s (s\<lparr>ds_threads := (ds_threads s)(t \<mapsto> (k, Entering))\<rparr>)"
| dd_enter: "ds_threads s t = Some (k, Entering) \<Longrightarrow> wrap_turn now k (ds_dedup s) = (d, dec) \<Longrightarrow>
    dd_step s (s\<lparr>ds_dedup := d, ds_threads := (ds_threads s)(t \<mapsto> (k, next_pc dec)),
      ds_past := (if dec = Untracked then k # ds_past s else ds_past s), ds_clock := max (ds_clock s) now\<rparr>)"
| dd_wake: "ds_threads s t = Some (k, Waiting i) \<Longrightarrow> \<not> de_inflight (dd_heap (ds_dedup s) ! i) \<Longrightarrow>
    dd_step s (s\<lparr>ds_threads := (ds_threads s)(t \<mapsto> (k, Entering))\<rparr>)"
| dd_finish: "ds_threads s t = Some (k, Executing i) \<Longrightarrow>
    dd_step s (s\<lparr>ds_dedup := execute_end now k i response (ds_dedup s), ds_threads := (ds_threads s)(t \<mapsto> (k, Returned response)),
      ds_log := (k, response, now, True) # ds_log s\<rparr>)"
| dd_bypassed: "ds_threads s t = Some (k, Bypass) \<Longrightarrow>
    dd_step s (s\<lparr>ds_threads := (ds_threads s)(t \<mapsto> (k, Returned response)), ds_log := (k, response, now, False) # ds_log s\<rparr>)"

definition dd_start :: "dd_sys \<Rightarrow> bool" where
  "dd_start s \<longleftrightarrow> (\<exists>ttl maxEntries clock. s = \<lparr>ds_dedup = newRMCDeduplicator ttl maxEntries, ds_threads = Map.empty, ds_log = [], ds_past = [], ds_clock = clock\<rparr>)"

section \<open>Every mutating call is covered\<close>

text \<open>
  What is not deduplicated changes nothing. A call of the matchmaking protocols for which
  \<open>deduplicateMatchmaking\<close> is false leaves the matchmaking store and the tournament store as they are,
  so that repeating it is harmless.
\<close>

lemma uncovered_calls_change_nothing:
  assumes "\<not> deduplicateMatchmaking req"
  shows "(rm_Protocol req = ProtocolMatchmakeExtension \<longrightarrow>
      (\<exists>pushes resp. ExtensionHandler env ep r req (m, ts) = Some ((m, ts), pushes, resp))) \<and>
    (rm_Protocol req = ProtocolMatchMaking \<longrightarrow> fst (fst (MatchMakingHandler now nenv ep r req m cache)) = m) \<and>
    (rm_Protocol req = ProtocolMatchMakingExt \<longrightarrow> fst (MatchMakingExtHandler ep r req m) = m)"
proof (intro conjI impI)
  assume p: "rm_Protocol req = ProtocolMatchmakeExtension"
  have reads: "\<exists>pushes resp. of_mm (findBySingleID ep req m) ts = ((m, ts), pushes, resp)"
    "\<exists>pushes resp. of_mm (resolveCode ep req m) ts = ((m, ts), pushes, resp)"
    "\<exists>pushes resp. of_mm (playingSession (x_call env) ep r req m) ts = ((m, ts), pushes, resp)"
    "\<exists>pushes resp. of_mm (findByParticipant (x_call env) ep req m) ts = ((m, ts), pushes, resp)"
    "\<exists>pushes resp. of_mm (getFriendNotificationData ep r req b m) ts = ((m, ts), pushes, resp)"
    "\<exists>pushes resp. of_mm (findByGidList ep req m) ts = ((m, ts), pushes, resp)"
    "\<exists>pushes resp. of_mm (browseNoHolder (x_call env) ep req m) ts = ((m, ts), pushes, resp)" for b
    by (simp_all add: of_mm_def findBySingleID_def resolveCode_def playingSession_def findByParticipant_def
        getFriendNotificationData_def findByGidList_def browseNoHolder_def Let_def split: option.split prod.split)
  from assms p show "\<exists>pushes resp. ExtensionHandler env ep r req (m, ts) = Some ((m, ts), pushes, resp)"
    by (simp add: deduplicateMatchmaking_def ExtensionHandler_def Let_def reads)
next
  assume "rm_Protocol req = ProtocolMatchMaking"
  with assms show "fst (fst (MatchMakingHandler now nenv ep r req m cache)) = m"
    by (auto simp: deduplicateMatchmaking_def MatchMakingHandler_def Let_def findBySingleID15_def
        ProtocolMatchMaking_def ProtocolMatchmakeExtension_def split: prod.split option.split)
next
  assume "rm_Protocol req = ProtocolMatchMakingExt"
  with assms show "fst (MatchMakingExtHandler ep r req m) = m"
    by (simp add: deduplicateMatchmaking_def MatchMakingExtHandler_def Let_def
        ProtocolMatchMaking_def ProtocolMatchmakeExtension_def ProtocolMatchMakingExt_def)
qed

definition friends_query :: rmc_message where
  "friends_query = NewRMCRequest demo_settings ProtocolMatchmakeExtension MethodCustomFriendsQuery 1 []"

lemma uncovered_calls_change_nothing_example:
  "\<not> deduplicateMatchmaking friends_query \<and>
   (\<exists>pushes resp. ExtensionHandler \<lparr>x_call = demo_env, x_tournament = small_env, x_ord = []\<rparr> demo_endpoint 0 friends_query (demo_host, empty_tournaments)
     = Some ((demo_host, empty_tournaments), pushes, resp))"
proof -
  have "\<not> deduplicateMatchmaking friends_query" "rm_Protocol friends_query = ProtocolMatchmakeExtension"
    by (simp_all add: deduplicateMatchmaking_def friends_query_def NewRMCRequest_def ext_methods)
  then show ?thesis
    using uncovered_calls_change_nothing [of friends_query "\<lparr>x_call = demo_env, x_tournament = small_env, x_ord = []\<rparr>" demo_endpoint 0
        demo_host empty_tournaments 0 responder_env no_nat_cache] by blast
qed

section \<open>The invariant\<close>

definition live :: "rmcDeduplicator \<Rightarrow> rmcDedupKey \<Rightarrow> nat \<Rightarrow> bool" where
  "live d k i \<longleftrightarrow> gm_get (dd_entries d) k = Some i"

abbreviation flying :: "rmcDeduplicator \<Rightarrow> nat \<Rightarrow> bool" where
  "flying d i \<equiv> de_inflight (dd_heap d ! i)"

text \<open>The table itself: its bound, and that no two keys share an entry.\<close>

definition table_ok :: "rmcDeduplicator \<Rightarrow> bool" where
  "table_ok d \<longleftrightarrow> gm_wf (dd_entries d) \<and> 0 < dd_max d \<and> int (length (dd_entries d)) \<le> dd_max d \<and>
     (\<forall>k i. live d k i \<longrightarrow> i < length (dd_heap d)) \<and> (\<forall>k k' i. live d k i \<longrightarrow> live d k' i \<longrightarrow> k = k')"

text \<open>The goroutines: an entry in flight has exactly one executor, and waiters wait for a live entry of their key.\<close>

definition threads_ok :: "rmcDeduplicator \<Rightarrow> (nat \<rightharpoonup> rmcDedupKey \<times> dd_pc) \<Rightarrow> bool" where
  "threads_ok d th \<longleftrightarrow>
     (\<forall>t k i. th t = Some (k, Executing i) \<longrightarrow> live d k i \<and> flying d i) \<and>
     (\<forall>t t' k k' i. th t = Some (k, Executing i) \<longrightarrow> th t' = Some (k', Executing i) \<longrightarrow> t = t') \<and>
     (\<forall>k i. live d k i \<longrightarrow> flying d i \<longrightarrow> (\<exists>t. th t = Some (k, Executing i))) \<and>
     (\<forall>t k i. th t = Some (k, Waiting i) \<longrightarrow> i < length (dd_heap d) \<and> (flying d i \<longrightarrow> live d k i))"

lemma threads_okI:
  assumes "\<And>t k i. th t = Some (k, Executing i) \<Longrightarrow> live d k i \<and> flying d i"
    and "\<And>t t' k k' i. th t = Some (k, Executing i) \<Longrightarrow> th t' = Some (k', Executing i) \<Longrightarrow> t = t'"
    and "\<And>k i. live d k i \<Longrightarrow> flying d i \<Longrightarrow> \<exists>t. th t = Some (k, Executing i)"
    and "\<And>t k i. th t = Some (k, Waiting i) \<Longrightarrow> i < length (dd_heap d) \<and> (flying d i \<longrightarrow> live d k i)"
  shows "threads_ok d th"
  using assms unfolding threads_ok_def by blast

lemma threads_okD:
  assumes "threads_ok d th"
  shows "th t = Some (k, Executing i) \<Longrightarrow> live d k i \<and> flying d i"
    and "th t = Some (k, Executing i) \<Longrightarrow> th t' = Some (k', Executing i) \<Longrightarrow> t = t'"
    and "live d k i \<Longrightarrow> flying d i \<Longrightarrow> \<exists>t. th t = Some (k, Executing i)"
    and "th t = Some (k, Waiting i) \<Longrightarrow> i < length (dd_heap d) \<and> (flying d i \<longrightarrow> live d k i)"
  using assms unfolding threads_ok_def by blast+

text \<open>The answers: a finished entry holds the response of a logged execution of its key.\<close>

definition log_ok :: "rmcDeduplicator \<Rightarrow> (rmcDedupKey \<times> rmc_message option \<times> gotime \<times> bool) list \<Rightarrow> gotime \<Rightarrow> bool" where
  "log_ok d lg clock \<longleftrightarrow>
     (\<forall>k i. live d k i \<longrightarrow> \<not> flying d i \<longrightarrow>
        (\<exists>t resp. de_response (dd_heap d ! i) = Some resp \<and> (k, Some resp, t, True) \<in> set lg \<and> de_expires (dd_heap d ! i) = t + dd_ttl d)) \<and>
     (\<forall>k resp t. (k, Some resp, t, True) \<in> set lg \<longrightarrow>
        t + dd_ttl d \<le> clock \<or> (\<exists>i. live d k i \<and> \<not> flying d i \<and> de_expires (dd_heap d ! i) = t + dd_ttl d))"

text \<open>What the table does not keep track of was let past it.\<close>

definition past_ok :: "dd_sys \<Rightarrow> bool" where
  "past_ok s \<longleftrightarrow> (\<forall>t k. ds_threads s t = Some (k, Bypass) \<longrightarrow> k \<in> set (ds_past s)) \<and>
     (\<forall>k resp t. (k, resp, t, False) \<in> set (ds_log s) \<longrightarrow> k \<in> set (ds_past s))"

definition tracked_ok :: "dd_sys \<Rightarrow> bool" where
  "tracked_ok s \<longleftrightarrow> table_ok (ds_dedup s) \<and> threads_ok (ds_dedup s) (ds_threads s) \<and> log_ok (ds_dedup s) (ds_log s) (ds_clock s)"

definition dd_inv :: "dd_sys \<Rightarrow> bool" where
  "dd_inv s \<longleftrightarrow> tracked_ok s \<and> past_ok s"

text \<open>Dropping expired entries: what pruning and the deletion of an expired entry have in common.\<close>

definition drops_expired :: "gotime \<Rightarrow> rmcDeduplicator \<Rightarrow> rmcDeduplicator \<Rightarrow> bool" where
  "drops_expired clock d d' \<longleftrightarrow>
     dd_heap d' = dd_heap d \<and> dd_ttl d' = dd_ttl d \<and> dd_max d' = dd_max d \<and> gm_wf (dd_entries d') \<and>
     length (dd_entries d') \<le> length (dd_entries d) \<and> (\<forall>k i. live d' k i \<longrightarrow> live d k i) \<and>
     (\<forall>k i. live d k i \<longrightarrow> \<not> live d' k i \<longrightarrow> \<not> flying d i \<and> de_expires (dd_heap d ! i) \<le> clock)"

lemma drops_table: "drops_expired clock d d' \<Longrightarrow> table_ok d \<Longrightarrow> table_ok d'"
  unfolding drops_expired_def table_ok_def by (simp, meson order_trans of_nat_mono)

lemma drops_threads:
  assumes "drops_expired clock d d'" and "threads_ok d th"
  shows "threads_ok d' th"
proof -
  have heap: "dd_heap d' = dd_heap d" and keep: "\<And>k i. flying d i \<Longrightarrow> live d' k i = live d k i"
    using assms(1) unfolding drops_expired_def by blast+
  note old = threads_okD [OF assms(2)]
  show ?thesis
  proof (rule threads_okI)
    show "\<exists>t. th t = Some (k, Executing i)" if "live d' k i" "flying d' i" for k i
      using old(3) keep that unfolding heap by blast
  qed (use old keep in \<open>auto simp: heap\<close>)
qed

lemma drops_log: "drops_expired clock d d' \<Longrightarrow> log_ok d lg clock \<Longrightarrow> log_ok d' lg clock"
  unfolding drops_expired_def log_ok_def by metis

lemma log_clock: "log_ok d lg clock \<Longrightarrow> clock \<le> clock' \<Longrightarrow> log_ok d lg clock'"
  unfolding log_ok_def by (meson order_trans)

lemma drops_trans: "drops_expired c a b \<Longrightarrow> drops_expired c b d \<Longrightarrow> drops_expired c a d"
  unfolding drops_expired_def by (simp, metis order_trans)

lemma get_filter:
  "gm_wf m \<Longrightarrow> gm_get (filter P m) k = (case gm_get m k of None \<Rightarrow> None | Some v \<Rightarrow> if P (k, v) then Some v else None)"
proof (induction m)
  case (Cons e m)
  then show ?case
    by (cases e) (auto simp: gm_wf_def gm_keys_def map_of_eq_None_iff split: option.splits dest: map_of_SomeD)
qed simp

lemma prune_drops: "gm_wf (dd_entries d) \<Longrightarrow> now \<le> clock \<Longrightarrow> drops_expired clock d (pruneLocked now d)"
  by (auto simp: drops_expired_def pruneLocked_def live_def get_filter expired_def split: option.splits if_splits)

lemma count_call_drops: "gm_wf (dd_entries d) \<Longrightarrow> now \<le> clock \<Longrightarrow> drops_expired clock d (count_call now d)"
  using prune_drops [of "d\<lparr>dd_calls := dd_calls d + 1\<rparr>" now clock]
  by (auto simp: count_call_def Let_def drops_expired_def live_def pruneLocked_def)

lemma delete_drops:
  "gm_wf (dd_entries d) \<Longrightarrow> live d k i \<Longrightarrow> \<not> flying d i \<Longrightarrow> de_expires (dd_heap d ! i) \<le> clock \<Longrightarrow>
   drops_expired clock d (d\<lparr>dd_entries := gm_del k (dd_entries d)\<rparr>)"
  by (auto simp: drops_expired_def live_def split: if_splits)

section \<open>The steps\<close>

text \<open>A goroutine that does not execute moves to another such state.\<close>

definition idle_pc :: "rmcDeduplicator \<Rightarrow> rmcDedupKey \<Rightarrow> dd_pc \<Rightarrow> bool" where
  "idle_pc d k pc \<longleftrightarrow> (case pc of Executing i \<Rightarrow> False | Waiting i \<Rightarrow> i < length (dd_heap d) \<and> live d k i | _ \<Rightarrow> True)"

lemma threads_move:
  assumes "threads_ok d th" and "\<forall>k i. th t \<noteq> Some (k, Executing i)" and "idle_pc d k pc"
  shows "threads_ok d (th(t \<mapsto> (k, pc)))"
proof -
  have pc: "pc \<noteq> Executing i" "pc = Waiting i \<Longrightarrow> i < length (dd_heap d) \<and> live d k i" for i
    using assms(3) by (auto simp: idle_pc_def)
  note old = threads_okD [OF assms(1)]
  show ?thesis
  proof (rule threads_okI)
    fix k' i
    assume "live d k' i" "flying d i"
    then obtain t' where t': "th t' = Some (k', Executing i)"
      using old(3) by blast
    then have "t' \<noteq> t"
      using assms(2) by blast
    with t' show "\<exists>t'. (th(t \<mapsto> (k, pc))) t' = Some (k', Executing i)"
      by (intro exI [of _ t']) simp
  qed (use old pc in \<open>auto split: if_splits\<close>)
qed

text \<open>A goroutine that starts to execute under a fresh entry.\<close>

lemma acquire_run:
  assumes inv: "table_ok d" "threads_ok d th" "log_ok d lg clock" and k: "gm_get (dd_entries d) k = None"
    and pc: "\<forall>k i. th t \<noteq> Some (k, Executing i)" and run: "acquire k d = (d', Run i)"
  shows "table_ok d'" "threads_ok d' (th(t \<mapsto> (k, Executing i)))" "log_ok d' lg clock"
proof -
  from run have i: "i = length (dd_heap d)" and room: "int (length (dd_entries d)) < dd_max d"
    and d': "d' = d\<lparr>dd_heap := dd_heap d @ [\<lparr>de_inflight = True, de_response = None, de_expires = 0\<rparr>], dd_entries := gm_put k i (dd_entries d)\<rparr>"
    by (auto simp: acquire_def Let_def split: if_splits)
  have live': "live d' k' j = (if k' = k then j = i else live d k' j)" for k' j
    by (auto simp: live_def d')
  have old: "j < length (dd_heap d)" if "live d k' j" for k' j
    using inv(1) that by (simp add: table_ok_def)
  have heap': "dd_heap d' ! j = dd_heap d ! j" if "j < length (dd_heap d)" for j
    using that by (simp add: d' nth_append)
  have new: "flying d' i" "length (dd_heap d') = Suc i"
    by (simp_all add: d' i)
  have none: "\<not> live d k j" for j
    using k by (simp add: live_def)
  show "table_ok d'"
    using inv(1) room k old unfolding table_ok_def live' by (auto simp: d' i length_gm_put gm_has_get less_Suc_eq dest: old)
  note th = threads_okD [OF inv(2)]
  have fly: "live d k' j \<Longrightarrow> flying d' j = flying d j" for k' j
    using old heap' by simp
  show "threads_ok d' (th(t \<mapsto> (k, Executing i)))"
  proof (rule threads_okI)
    fix t' k' j
    assume a: "(th(t \<mapsto> (k, Executing i))) t' = Some (k', Executing j)"
    show "live d' k' j \<and> flying d' j"
    proof (cases "t' = t")
      case False
      then have "live d k' j" "flying d j"
        using a th(1) by auto
      then show ?thesis
        using none fly by (auto simp: live')
    qed (use a new in \<open>auto simp: live'\<close>)
  next
    fix t1 t2 k1 k2 j
    assume a: "(th(t \<mapsto> (k, Executing i))) t1 = Some (k1, Executing j)" "(th(t \<mapsto> (k, Executing i))) t2 = Some (k2, Executing j)"
    have "th t3 \<noteq> Some (k3, Executing i)" for t3 k3
      using th(1) old i by blast
    then show "t1 = t2"
      using a th(2) by (auto split: if_splits)
  next
    fix k' j
    assume a: "live d' k' j" "flying d' j"
    show "\<exists>t'. (th(t \<mapsto> (k, Executing i))) t' = Some (k', Executing j)"
    proof (cases "k' = k")
      case False
      then have "live d k' j"
        using a(1) by (simp add: live')
      then obtain t' where "th t' = Some (k', Executing j)"
        using th(3) fly a(2) by blast
      then show ?thesis
        using pc by (intro exI [of _ t']) auto
    qed (use a in \<open>auto simp: live' intro: exI [of _ t]\<close>)
  next
    fix t' k' j
    assume "(th(t \<mapsto> (k, Executing i))) t' = Some (k', Waiting j)"
    then have w: "j < length (dd_heap d)" "flying d j \<Longrightarrow> live d k' j"
      using th(4) by (auto split: if_splits)
    then show "j < length (dd_heap d') \<and> (flying d' j \<longrightarrow> live d' k' j)"
      using heap' none new i by (auto simp: live')
  qed
  show "log_ok d' lg clock"
    using inv(3) new none old heap' unfolding log_ok_def live' by (simp add: d', metis)
qed

lemma wrap_turn_cases:
  assumes "wrap_turn now k d0 = (d, dec)" and "table_ok d0" and "now \<le> clock"
  obtains (wait) i where "drops_expired clock d0 d" "dec = Wait i" "live d k i" "flying d i"
    | (cached) i where "drops_expired clock d0 d" "dec = Answer (cloneRMC (de_response (dd_heap d ! i)))" "live d k i" "\<not> flying d i"
        "now < de_expires (dd_heap d ! i)"
    | (fresh) d1 where "drops_expired clock d0 d1" "gm_get (dd_entries d1) k = None" "acquire k d1 = (d, dec)"
proof -
  let ?d = "count_call now d0"
  have wf: "gm_wf (dd_entries d0)"
    using assms(2) by (simp add: table_ok_def)
  have drop: "drops_expired clock d0 ?d"
    by (rule count_call_drops [OF wf assms(3)])
  show ?thesis
  proof (cases "gm_get (dd_entries ?d) k")
    case None
    then show ?thesis
      using assms(1) drop by (intro fresh [of ?d]) (simp_all add: wrap_turn_def Let_def)
  next
    case (Some i)
    then have live: "live ?d k i"
      by (simp add: live_def)
    consider "flying ?d i" | "\<not> flying ?d i" "now < de_expires (dd_heap ?d ! i)" | "\<not> flying ?d i" "de_expires (dd_heap ?d ! i) \<le> now"
      by fastforce
    then show ?thesis
    proof cases
      case 3
      let ?d1 = "?d\<lparr>dd_entries := gm_del k (dd_entries ?d)\<rparr>"
      have "drops_expired clock ?d ?d1"
        using drop 3 assms(3) by (intro delete_drops [OF _ live]) (auto simp: drops_expired_def)
      then show ?thesis
        using assms(1) Some 3 drops_trans [OF drop] by (intro fresh [of ?d1]) (simp_all add: wrap_turn_def Let_def)
    qed (use assms(1) Some drop live in \<open>auto simp: wrap_turn_def Let_def intro: wait cached\<close>)
  qed
qed

text \<open>A goroutine that finishes: its entry is still the current one of its key.\<close>

lemma finish_ok:
  fixes now :: gotime and response :: "rmc_message option"
  assumes inv: "table_ok d" "threads_ok d th" "log_ok d lg clock" and t: "th t = Some (k, Executing i)"
  defines "d' \<equiv> execute_end now k i response d"
  shows "table_ok d'" "threads_ok d' (th(t \<mapsto> (k, Returned response)))" "log_ok d' ((k, response, now, True) # lg) clock"
proof -
  note th = threads_okD [OF inv(2)]
  have cur: "live d k i" "flying d i" "i < length (dd_heap d)"
    using th(1) [OF t] inv(1) by (auto simp: table_ok_def)
  have same: "dd_ttl d' = dd_ttl d" "dd_max d' = dd_max d" "length (dd_heap d') = length (dd_heap d)"
    using cur by (simp_all add: d'_def execute_end_def live_def split: option.split)
  have live': "live d' k' j \<longleftrightarrow> live d k' j \<and> (k' = k \<longrightarrow> response \<noteq> None)" for k' j
    using cur(1) by (auto simp: d'_def execute_end_def live_def split: option.split)
  have heap': "dd_heap d' ! j = (if j = i then (case response of None \<Rightarrow> (dd_heap d ! i)\<lparr>de_inflight := False\<rparr> | Some _ \<Rightarrow>
      (dd_heap d ! i)\<lparr>de_response := cloneRMC response, de_expires := now + dd_ttl d, de_inflight := False\<rparr>) else dd_heap d ! j)" for j
    using cur(1,3) by (auto simp: d'_def execute_end_def live_def split: option.split)
  have fly': "flying d' j \<longleftrightarrow> flying d j \<and> j \<noteq> i" for j
    by (simp add: heap' split: option.split)
  have livek: "live d k j \<longleftrightarrow> j = i" for j
    using cur(1) by (auto simp: live_def)
  have uniq: "k' = k" if "live d k' i" for k'
    using that cur(1) inv(1) by (auto simp: table_ok_def)
  have other: "j \<noteq> i" if "live d k' j" "k' \<noteq> k" for k' j
    using that uniq by blast
  have le: "length (dd_entries d') \<le> length (dd_entries d)" "gm_wf (dd_entries d')"
    using inv(1) by (simp_all add: d'_def execute_end_def table_ok_def split: option.split)
  show "table_ok d'"
    using inv(1) le unfolding table_ok_def live' same by (meson of_nat_mono order_trans)
  show "threads_ok d' (th(t \<mapsto> (k, Returned response)))"
  proof (rule threads_okI)
    fix t' k' j
    assume "(th(t \<mapsto> (k, Returned response))) t' = Some (k', Executing j)"
    then have a: "th t' = Some (k', Executing j)" "t' \<noteq> t"
      by (auto split: if_splits)
    then have "j \<noteq> i"
      using th(2) [OF t] by metis
    then show "live d' k' j \<and> flying d' j"
      using th(1) [OF a(1)] by (auto simp: live' fly' livek)
  next
    fix k' j
    assume a: "live d' k' j" "flying d' j"
    then obtain t' where "th t' = Some (k', Executing j)" "j \<noteq> i"
      using th(3) by (auto simp: live' fly')
    then show "\<exists>t'. (th(t \<mapsto> (k, Returned response))) t' = Some (k', Executing j)"
      using t by (intro exI [of _ t']) auto
  next
    fix t' k' j
    assume "(th(t \<mapsto> (k, Returned response))) t' = Some (k', Waiting j)"
    then have w: "j < length (dd_heap d)" "flying d j \<Longrightarrow> live d k' j"
      using th(4) by (auto split: if_splits)
    have "k' \<noteq> k" if "flying d' j"
      using that w by (auto simp: fly' livek)
    then show "j < length (dd_heap d') \<and> (flying d' j \<longrightarrow> live d' k' j)"
      using w by (auto simp: same fly' live')
  qed (use th(2) in \<open>auto split: if_splits\<close>)
  show "log_ok d' ((k, response, now, True) # lg) clock"
    unfolding log_ok_def
  proof (intro conjI allI impI)
    fix k' j
    assume a: "live d' k' j" "\<not> flying d' j"
    show "\<exists>t resp. de_response (dd_heap d' ! j) = Some resp \<and> (k', Some resp, t, True) \<in> set ((k, response, now, True) # lg) \<and>
        de_expires (dd_heap d' ! j) = t + dd_ttl d'"
    proof (cases "k' = k")
      case True
      then have "j = i" "response \<noteq> None"
        using a by (auto simp: live' livek)
      then show ?thesis
        using True by (auto simp: heap' same cloneRMC_def)
    next
      case False
      then show ?thesis
        using a other inv(3) unfolding log_ok_def by (auto simp: live' fly' heap' same)
    qed
  next
    fix k' resp t'
    assume a: "(k', Some resp, t', True) \<in> set ((k, response, now, True) # lg)"
    show "t' + dd_ttl d' \<le> clock \<or> (\<exists>j. live d' k' j \<and> \<not> flying d' j \<and> de_expires (dd_heap d' ! j) = t' + dd_ttl d')"
    proof (cases "(k', Some resp, t', True) \<in> set lg")
      case False
      then show ?thesis
        using a cur(1) by (intro disjI2 exI [of _ i]) (auto simp: live' fly' heap' same)
    next
      case True
      then consider "t' + dd_ttl d \<le> clock" | j where "live d k' j" "\<not> flying d j" "de_expires (dd_heap d ! j) = t' + dd_ttl d"
        using inv(3) unfolding log_ok_def by blast
      then show ?thesis
      proof cases
        case 2
        then have "k' \<noteq> k" "j \<noteq> i"
          using cur(2) by (auto simp: livek)
        then show ?thesis
          using 2 by (intro disjI2 exI [of _ j]) (auto simp: live' fly' heap' same)
      qed (simp add: same)
    qed
  qed
qed

lemma past_step: "past_ok s \<Longrightarrow> dd_step s s' \<Longrightarrow> past_ok s'"
  by (erule dd_step.cases) (auto simp: past_ok_def next_pc_def split: if_splits dd_decision.splits)

lemma log_untracked: "log_ok d ((k, response, now, False) # lg) clock = log_ok d lg clock"
  by (simp add: log_ok_def)

lemma tracked_step: "tracked_ok s \<Longrightarrow> dd_step s s' \<Longrightarrow> tracked_ok s'"
proof (erule dd_step.cases)
  fix s0 t k
  assume inv: "tracked_ok s" and "s = s0" "s' = s0\<lparr>ds_threads := (ds_threads s0)(t \<mapsto> (k, Entering))\<rparr>" "ds_threads s0 t = None"
  then show "tracked_ok s'"
    by (auto simp: tracked_ok_def idle_pc_def intro!: threads_move)
next
  fix s0 t k now d dec
  assume inv: "tracked_ok s" and s: "s = s0"
    "s' = s0\<lparr>ds_dedup := d, ds_threads := (ds_threads s0)(t \<mapsto> (k, next_pc dec)),
      ds_past := (if dec = Untracked then k # ds_past s0 else ds_past s0), ds_clock := max (ds_clock s0) now\<rparr>"
    and t: "ds_threads s0 t = Some (k, Entering)" and turn: "wrap_turn now k (ds_dedup s0) = (d, dec)"
  let ?c = "max (ds_clock s0) now" and ?th = "ds_threads s0"
  have ok: "table_ok (ds_dedup s0)" "threads_ok (ds_dedup s0) ?th" "log_ok (ds_dedup s0) (ds_log s0) ?c"
    using inv s(1) log_clock [of _ _ "ds_clock s0" ?c] by (auto simp: tracked_ok_def)
  have pc: "\<forall>k i. ?th t \<noteq> Some (k, Executing i)"
    using t by simp
  have dropped: "table_ok d1 \<and> threads_ok d1 ?th \<and> log_ok d1 (ds_log s0) ?c" if "drops_expired ?c (ds_dedup s0) d1" for d1
    using ok that drops_table drops_threads drops_log by blast
  have le: "now \<le> ?c"
    by simp
  from turn ok(1) le have "table_ok d \<and> threads_ok d (?th(t \<mapsto> (k, next_pc dec))) \<and> log_ok d (ds_log s0) ?c"
  proof (cases rule: wrap_turn_cases)
    case (wait i)
    then show ?thesis
      using dropped [OF wait(1)] pc by (auto simp: next_pc_def idle_pc_def table_ok_def intro!: threads_move)
  next
    case (cached i)
    then show ?thesis
      using dropped [OF cached(1)] pc by (auto simp: next_pc_def idle_pc_def intro!: threads_move)
  next
    case (fresh d1)
    note ok1 = dropped [OF fresh(1)]
    show ?thesis
    proof (cases dec)
      case (Run i)
      then show ?thesis
        using acquire_run [of d1 ?th "ds_log s0" ?c k t d i] ok1 fresh(2,3) pc by (simp add: next_pc_def)
    next
      case Untracked
      then show ?thesis
        using ok1 fresh(3) pc by (auto simp: next_pc_def idle_pc_def acquire_def Let_def intro!: threads_move split: if_splits)
    qed (use fresh(3) in \<open>auto simp: acquire_def Let_def split: if_splits\<close>)
  qed
  then show "tracked_ok s'"
    by (simp add: tracked_ok_def s(2))
next
  fix s0 t k i
  assume inv: "tracked_ok s" and "s = s0" "s' = s0\<lparr>ds_threads := (ds_threads s0)(t \<mapsto> (k, Entering))\<rparr>" "ds_threads s0 t = Some (k, Waiting i)"
  then show "tracked_ok s'"
    by (auto simp: tracked_ok_def idle_pc_def intro!: threads_move)
next
  fix s0 t k i now response
  assume inv: "tracked_ok s" and s: "s = s0" "s' = s0\<lparr>ds_dedup := execute_end now k i response (ds_dedup s0),
      ds_threads := (ds_threads s0)(t \<mapsto> (k, Returned response)), ds_log := (k, response, now, True) # ds_log s0\<rparr>"
    and t: "ds_threads s0 t = Some (k, Executing i)"
  then show "tracked_ok s'"
    using finish_ok [of "ds_dedup s0" "ds_threads s0" "ds_log s0" "ds_clock s0" t k i now response] by (simp add: tracked_ok_def)
next
  fix s0 t k response now
  assume inv: "tracked_ok s" and "s = s0" "s' = s0\<lparr>ds_threads := (ds_threads s0)(t \<mapsto> (k, Returned response)),
      ds_log := (k, response, now, False) # ds_log s0\<rparr>" "ds_threads s0 t = Some (k, Bypass)"
  then show "tracked_ok s'"
    by (auto simp: tracked_ok_def idle_pc_def log_untracked intro!: threads_move)
qed

interpretation dedup_calls: inductive_invariant dd_start dd_step dd_inv
proof
  show "dd_inv s" if "dd_start s" for s
    using that by (auto simp: dd_start_def dd_inv_def tracked_ok_def past_ok_def newRMCDeduplicator_def defaultRMCDedupEntries_def table_ok_def threads_ok_def log_ok_def live_def)
qed (auto simp: dd_inv_def intro: tracked_step past_step)

lemma flying_waits:
  assumes "table_ok d" and "live d k i \<and> flying d i"
  shows "snd (wrap_turn now k d) = Wait i"
proof -
  have "drops_expired now d (count_call now d)"
    using assms(1) by (intro count_call_drops) (auto simp: table_ok_def)
  then have "live (count_call now d) k i" "dd_heap (count_call now d) = dd_heap d"
    using assms(2) by (auto simp: drops_expired_def)
  then show ?thesis
    using assms(2) by (simp add: wrap_turn_def Let_def live_def)
qed

text \<open>A call goes past the table only when every one of its entries is in use: running, or finished and not expired.\<close>

lemma untracked_full:
  assumes "table_ok d0" and "wrap_turn now k d0 = (d, Untracked)"
  shows "int (length (dd_entries d)) = dd_max d" and "gm_get (dd_entries d) k' = Some i \<Longrightarrow> \<not> expired now (dd_heap d ! i)"
proof -
  let ?d = "count_call now d0"
  have ok: "table_ok ?d"
    using assms(1) count_call_drops [of d0 now now] drops_table by (auto simp: table_ok_def)
  have acq: "d' = d \<and> dd_max d \<le> int (length (dd_entries d))" if "acquire k d' = (d, Untracked)" for d'
    using that by (auto simp: acquire_def Let_def split: if_splits)
  have "length (gm_del k (dd_entries ?d)) < length (dd_entries ?d)" if "gm_get (dd_entries ?d) k = Some j" for j
    using that ok length_gm_del_has [of "dd_entries ?d" k j] by (simp add: table_ok_def)
  then have d: "d = ?d" "dd_max d \<le> int (length (dd_entries d))"
    using assms(2) acq ok by (auto simp: wrap_turn_def Let_def table_ok_def split: option.splits if_splits dest!: acq)
  then show "int (length (dd_entries d)) = dd_max d"
    using ok by (simp add: table_ok_def)
  have "d = pruneLocked now (d0\<lparr>dd_calls := dd_calls d0 + 1\<rparr>)"
    using d by (auto simp: count_call_def Let_def split: if_splits)
  then show "gm_get (dd_entries d) k' = Some i \<Longrightarrow> \<not> expired now (dd_heap d ! i)"
    by (auto simp: pruneLocked_def dest: map_of_SomeD)
qed

section \<open>Single flight and replay\<close>

definition runs :: "dd_sys \<Rightarrow> nat \<Rightarrow> rmcDedupKey \<Rightarrow> bool" where
  "runs s t k \<longleftrightarrow> (case ds_threads s t of Some (k', Executing i) \<Rightarrow> k' = k | Some (k', Bypass) \<Rightarrow> k' = k | _ \<Rightarrow> False)"

lemma runs_iff: "runs s t k \<longleftrightarrow> (\<exists>i. ds_threads s t = Some (k, Executing i)) \<or> ds_threads s t = Some (k, Bypass)"
  by (auto simp: runs_def split: option.splits dd_pc.splits)

text \<open>
  C36: no call is executed twice at a time, except past a full table. However the goroutines
  interleave, two of them run the same call only if the call was at some time let past a full table, and
  never both through the table. While one runs a call through the table, any other that comes with the call waits for it, however full
  the table is. A call is let past the table only when all of its entries are taken, each by a running call or by a response that has
  not expired. A waiting goroutine waits for an entry that is finished, so that it can go on, or that a goroutine
  with the same call is running. The table never holds more than its maximum.
\<close>

theorem single_flight:
  assumes "reach dd_start dd_step s"
  shows "(\<forall>t t' k. runs s t k \<and> runs s t' k \<and> k \<notin> set (ds_past s) \<longrightarrow> t = t') \<and>
    (\<forall>t t' k i i'. ds_threads s t = Some (k, Executing i) \<and> ds_threads s t' = Some (k, Executing i') \<longrightarrow> t = t') \<and>
    (\<forall>t k i now. ds_threads s t = Some (k, Executing i) \<longrightarrow> snd (wrap_turn now k (ds_dedup s)) = Wait i) \<and>
    (\<forall>now k d. wrap_turn now k (ds_dedup s) = (d, Untracked) \<longrightarrow>
       int (length (dd_entries d)) = dd_max d \<and> (\<forall>k' i. gm_get (dd_entries d) k' = Some i \<longrightarrow> \<not> expired now (dd_heap d ! i))) \<and>
    (\<forall>t k i. ds_threads s t = Some (k, Waiting i) \<longrightarrow>
       \<not> de_inflight (dd_heap (ds_dedup s) ! i) \<or> (\<exists>t'. ds_threads s t' = Some (k, Executing i))) \<and>
    int (length (dd_entries (ds_dedup s))) \<le> dd_max (ds_dedup s)"
proof -
  have inv: "table_ok (ds_dedup s)" "threads_ok (ds_dedup s) (ds_threads s)" "past_ok s"
    using dedup_calls.reachable_inv [OF assms] by (simp_all add: dd_inv_def tracked_ok_def)
  note th = threads_okD [OF inv(2)]
  have one: "t = t'" if "ds_threads s t = Some (k, Executing i)" "ds_threads s t' = Some (k, Executing i')" for t t' k i i'
    using th(1) [OF that(1)] th(1) [OF that(2)] th(2) that by (simp add: live_def)
  then have "t = t'" if "runs s t k" "runs s t' k" "k \<notin> set (ds_past s)" for t t' k
    using that inv(3) by (auto simp: runs_iff past_ok_def)
  moreover have "snd (wrap_turn now k (ds_dedup s)) = Wait i" if "ds_threads s t = Some (k, Executing i)" for t k i now
    using th(1) [OF that] flying_waits [OF inv(1)] by simp
  moreover have "\<exists>t'. ds_threads s t' = Some (k, Executing i)"
    if "ds_threads s t = Some (k, Waiting i)" "de_inflight (dd_heap (ds_dedup s) ! i)" for t k i
    using th(4) [OF that(1)] th(3) that(2) by blast
  ultimately show ?thesis
    using inv(1) one untracked_full [OF inv(1)] by (intro conjI allI impI) (auto simp: table_ok_def)
qed

text \<open>
  C37: a call the table keeps track of is answered, not repeated. When a goroutine passes through the table at the
  clock reading \<open>now\<close>: a cached answer is the response of a finished execution of the same call through the table, less
  than the lifetime ago; the goroutine waits only while the same call is being executed through the table; and it
  executes the call, in whichever way, only if the lifetime of every response the call got through the table has passed at some
  reading. An execution that is not tracked is one of a call let past a full table; it is not remembered.
\<close>

theorem replay_within_lifetime:
  assumes "reach dd_start dd_step s" and "wrap_turn now k (ds_dedup s) = (d, dec)"
  shows "(case dec of
      Answer answer \<Rightarrow> (\<exists>resp t. answer = Some resp \<and> (k, Some resp, t, True) \<in> set (ds_log s) \<and> now < t + dd_ttl (ds_dedup s))
    | Wait i \<Rightarrow> (\<exists>t. ds_threads s t = Some (k, Executing i))
    | _ \<Rightarrow> (\<forall>resp t. (k, Some resp, t, True) \<in> set (ds_log s) \<longrightarrow> t + dd_ttl (ds_dedup s) \<le> max (ds_clock s) now)) \<and>
    (\<forall>resp t tracked. (k, resp, t, tracked) \<in> set (ds_log s) \<longrightarrow> tracked \<or> k \<in> set (ds_past s))"
proof -
  let ?d0 = "ds_dedup s" and ?c = "max (ds_clock s) now"
  have inv: "table_ok ?d0" "threads_ok ?d0 (ds_threads s)" "log_ok ?d0 (ds_log s) ?c" "past_ok s"
    using dedup_calls.reachable_inv [OF assms(1)] log_clock [of ?d0 "ds_log s" "ds_clock s" ?c] by (auto simp: dd_inv_def tracked_ok_def)
  have le: "now \<le> ?c"
    by simp
  have ttl: "dd_ttl d1 = dd_ttl ?d0" if "drops_expired ?c ?d0 d1" for d1
    using that by (simp add: drops_expired_def)
  have past: "tracked \<or> k \<in> set (ds_past s)" if "(k, resp, t, tracked) \<in> set (ds_log s)" for resp t tracked
    using inv(4) that unfolding past_ok_def by (cases "tracked = False") (blast, simp)
  from assms(2) inv(1) le show ?thesis
  proof (cases rule: wrap_turn_cases)
    case (wait i)
    then show ?thesis
      using threads_okD(3) [OF drops_threads [OF wait(1) inv(2)]] past by simp
  next
    case (cached i)
    obtain t resp where "de_response (dd_heap d ! i) = Some resp" "(k, Some resp, t, True) \<in> set (ds_log s)" "de_expires (dd_heap d ! i) = t + dd_ttl d"
      using drops_log [OF cached(1) inv(3)] cached(3,4) unfolding log_ok_def by blast
    then show ?thesis
      using cached ttl [OF cached(1)] past by (auto simp: cloneRMC_def)
  next
    case (fresh d1)
    have "\<not> live d1 k i" for i
      using fresh(2) by (simp add: live_def)
    then have "t + dd_ttl ?d0 \<le> ?c" if "(k, Some resp, t, True) \<in> set (ds_log s)" for resp t
      using drops_log [OF fresh(1) inv(3)] that ttl [OF fresh(1)] unfolding log_ok_def by metis
    then show ?thesis
      using fresh(3) past by (auto simp: acquire_def Let_def split: if_splits)
  qed
qed

definition sample_key :: rmcDedupKey where
  "sample_key = \<lparr>dk_connectionID = 9, dk_pid = 90, dk_protocol = 0x6D, dk_method = 0x28, dk_callID = 77, dk_bodyHash = []\<rparr>"

definition sample_answer :: rmc_message where
  "sample_answer = NewRMCRequest demo_settings ProtocolMatchmakeExtension MethodCustomFriendsQuery 1 []"

definition one_entry :: "int \<Rightarrow> rmcDedupEntry \<Rightarrow> rmcDeduplicator" where
  "one_entry calls e = (newRMCDeduplicator 10 32)\<lparr>dd_calls := dd_calls (newRMCDeduplicator 10 32) + of_int calls, dd_heap := [e], dd_entries := [(sample_key, 0)]\<rparr>"

text \<open>Two transport retries of one call: the first executes, the second waits for it; then the first finishes.\<close>

definition retries_running :: dd_sys where
  "retries_running = \<lparr>ds_dedup = one_entry 2 \<lparr>de_inflight = True, de_response = None, de_expires = 0\<rparr>,
     ds_threads = [0 \<mapsto> (sample_key, Executing 0), 1 \<mapsto> (sample_key, Waiting 0)], ds_log = [], ds_past = [], ds_clock = 1\<rparr>"

definition retries_finished :: dd_sys where
  "retries_finished = \<lparr>ds_dedup = one_entry 2 \<lparr>de_inflight = False, de_response = Some sample_answer, de_expires = 15\<rparr>,
     ds_threads = [0 \<mapsto> (sample_key, Returned (Some sample_answer)), 1 \<mapsto> (sample_key, Waiting 0)],
     ds_log = [(sample_key, Some sample_answer, 5, True)], ds_past = [], ds_clock = 1\<rparr>"

lemmas retry_defs = one_entry_def wrap_turn_def count_call_def acquire_def newRMCDeduplicator_def Let_def

lemma retries_reach: "reach dd_start dd_step retries_running" "reach dd_start dd_step retries_finished"
proof -
  let ?d = "newRMCDeduplicator 10 32" and ?fly = "\<lparr>de_inflight = True, de_response = None, de_expires = 0\<rparr>"
  let ?s0 = "\<lparr>ds_dedup = ?d, ds_threads = Map.empty, ds_log = [], ds_past = [], ds_clock = 0\<rparr>"
  let ?s1 = "?s0\<lparr>ds_threads := (ds_threads ?s0)(0 \<mapsto> (sample_key, Entering))\<rparr>"
  let ?s2 = "?s1\<lparr>ds_threads := (ds_threads ?s1)(1 \<mapsto> (sample_key, Entering))\<rparr>"
  let ?s3 = "?s2\<lparr>ds_dedup := one_entry 1 ?fly, ds_threads := (ds_threads ?s2)(0 \<mapsto> (sample_key, next_pc (Run 0))),
    ds_past := (if Run 0 = Untracked then sample_key # ds_past ?s2 else ds_past ?s2), ds_clock := max (ds_clock ?s2) 0\<rparr>"
  let ?s4 = "?s3\<lparr>ds_dedup := one_entry 2 ?fly, ds_threads := (ds_threads ?s3)(1 \<mapsto> (sample_key, next_pc (Wait 0))),
    ds_past := (if Wait 0 = Untracked then sample_key # ds_past ?s3 else ds_past ?s3), ds_clock := max (ds_clock ?s3) 1\<rparr>"
  have "reach dd_start dd_step ?s0"
    by (rule reach_init) (auto simp: dd_start_def)
  moreover have "dd_step ?s0 ?s1" "dd_step ?s1 ?s2"
    by (rule dd_arrive; simp)+
  moreover have "dd_step ?s2 ?s3"
    by (rule dd_enter) (simp_all add: retry_defs)
  moreover have "dd_step ?s3 ?s4"
    by (rule dd_enter) (simp_all add: retry_defs next_pc_def)
  moreover have "?s4 = retries_running"
    by (simp add: retries_running_def next_pc_def)
  ultimately show r: "reach dd_start dd_step retries_running"
    using reach_step [OF reach_step [OF reach_step [OF reach_step]]] by simp
  let ?s5 = "retries_running\<lparr>ds_dedup := execute_end 5 sample_key 0 (Some sample_answer) (ds_dedup retries_running),
    ds_threads := (ds_threads retries_running)(0 \<mapsto> (sample_key, Returned (Some sample_answer))),
    ds_log := (sample_key, Some sample_answer, 5, True) # ds_log retries_running\<rparr>"
  have "dd_step retries_running ?s5"
    by (rule dd_finish) (simp add: retries_running_def)
  moreover have "?s5 = retries_finished"
    by (simp add: retries_running_def retries_finished_def execute_end_def cloneRMC_def retry_defs fun_upd_twist)
  ultimately show "reach dd_start dd_step retries_finished"
    using reach_step [OF r] by simp
qed

theorem single_flight_witness:
  "reach dd_start dd_step retries_running \<and> runs retries_running 0 sample_key \<and> sample_key \<notin> set (ds_past retries_running) \<and>
   {t. runs retries_running t sample_key} = {0} \<and> snd (wrap_turn 3 sample_key (ds_dedup retries_running)) = Wait 0 \<and>
   (\<exists>t'. ds_threads retries_running t' = Some (sample_key, Executing 0))"
proof -
  have "runs retries_running 0 sample_key" "sample_key \<notin> set (ds_past retries_running)" "ds_threads retries_running 0 = Some (sample_key, Executing 0)"
    by (simp_all add: runs_def retries_running_def)
  note run = this and sf = single_flight [OF retries_reach(1)]
  have "{t. runs retries_running t sample_key} = {0}"
    using sf [THEN conjunct1] run(1,2) by blast
  moreover have "snd (wrap_turn 3 sample_key (ds_dedup retries_running)) = Wait 0"
    using sf [THEN conjunct2, THEN conjunct2, THEN conjunct1] run(3) by blast
  ultimately show ?thesis
    using run retries_reach(1) by blast
qed

text \<open>While the call runs a retry waits; then it is answered; after the lifetime the call is executed again.\<close>

theorem replay_within_lifetime_witness:
  "snd (wrap_turn 2 sample_key (ds_dedup retries_running)) = Wait 0 \<and> (\<exists>t. ds_threads retries_running t = Some (sample_key, Executing 0)) \<and>
   snd (wrap_turn 9 sample_key (ds_dedup retries_finished)) = Answer (Some sample_answer) \<and>
   (\<exists>t. (sample_key, Some sample_answer, t, True) \<in> set (ds_log retries_finished) \<and> 9 < t + dd_ttl (ds_dedup retries_finished)) \<and>
   snd (wrap_turn 15 sample_key (ds_dedup retries_finished)) = Run 1 \<and>
   (sample_key, Some sample_answer, 5, True) \<in> set (ds_log retries_finished) \<and>
   5 + dd_ttl (ds_dedup retries_finished) \<le> max (ds_clock retries_finished) 15"
proof -
  have turns: "snd (wrap_turn 2 sample_key (ds_dedup retries_running)) = Wait 0"
    "snd (wrap_turn 9 sample_key (ds_dedup retries_finished)) = Answer (Some sample_answer)"
    "snd (wrap_turn 15 sample_key (ds_dedup retries_finished)) = Run 1"
    by (simp_all add: retries_running_def retries_finished_def retry_defs cloneRMC_def)
  have "(sample_key, Some sample_answer, 5, True) \<in> set (ds_log retries_finished)"
    by (simp add: retries_finished_def)
  then show ?thesis
    using turns replay_within_lifetime [OF retries_reach(1) prod.collapse [symmetric], where now = 2 and k = sample_key, THEN conjunct1]
      replay_within_lifetime [OF retries_reach(2) prod.collapse [symmetric], where now = 9 and k = sample_key, THEN conjunct1]
      replay_within_lifetime [OF retries_reach(2) prod.collapse [symmetric], where now = 15 and k = sample_key, THEN conjunct1]
    by simp
qed

end
