(* ===== verification/Nex_Profiles.thy ===== *)
theory Nex_Profiles
  imports Nex_RMC Nex_Json
begin

text \<open>
  The player profiles of the ranking protocol (first half of \<^verbatim>\<open>ranking.go\<close>): each player deposits a
  block of bytes (\<open>uploadCommonData\<close>), asks for those of others (\<open>commonDataByPIDs\<close>), and the table
  survives a restart in a JSON file (\<open>loadCommonData\<close>, \<open>writeCommonData\<close>, \<open>commonDataFlusher\<close>). Also the
  last submitted results, kept as they came (\<open>keepSubmittedScore\<close>).

  The file is modelled byte by byte. What Go's \<open>encoding/base64\<close>, \<open>encoding/json\<close> and \<open>fmt.Sscanf\<close> do
  with it is in the first section. The order in which Go visits a map is an argument.
\<close>

section \<open>Standard base64, Sscanf, maps of strings in JSON\<close>

text \<open>The standard alphabet is the URL one with two characters exchanged, and is padded.\<close>

definition std_char :: "char \<Rightarrow> char" where
  "std_char c = (if c = CHR ''-'' then CHR ''+'' else if c = CHR ''_'' then CHR ''/'' else c)"

definition url_char :: "char \<Rightarrow> char" where
  "url_char c = (if c = CHR ''+'' then CHR ''-'' else if c = CHR ''/'' then CHR ''_'' else c)"

definition StdEncoding_EncodeToString :: "byte list \<Rightarrow> string" where
  "StdEncoding_EncodeToString bs =
     (let s = map std_char (b64_encode bs) in s @ replicate ((4 - length s mod 4) mod 4) (CHR ''=''))"

definition StdEncoding_DecodeString :: "string \<Rightarrow> byte list option" where
  "StdEncoding_DecodeString s =
     (let t = filter (\<lambda>c. c \<noteq> CHR 0x0A \<and> c \<noteq> CHR 0x0D) s; core = takeWhile (\<lambda>c. c \<noteq> CHR ''='') t; pad = drop (length core) t
      in if length t mod 4 = 0 \<and> length pad \<le> 2 \<and> list_all (\<lambda>c. c = CHR ''='') pad \<and>
            list_all (\<lambda>c. c \<noteq> CHR ''-'' \<and> c \<noteq> CHR ''_'') core
         then b64_decode (map url_char core) else None)"

text \<open>
  \<open>fmt.Sscanf(s, "%d", &pid)\<close> for an unsigned 64-bit target: white space is skipped, a newline in it is
  an error, then the longest run of digits is read; what follows is not looked at.
\<close>

definition Sscanf_d :: "string \<Rightarrow> u64 option" where
  "Sscanf_d s =
     (let r = trim_left go_spaces s; ds = takeWhile is_digit r
      in if CHR 0x0A \<in> set (take (length s - length r) s) \<or> ds = [] then None else ParseUint ds)"

text \<open>The file holds a \<open>map[string]string\<close>.\<close>

definition unmarshal_string_map :: "string \<Rightarrow> (string, string) gomap option" where
  "unmarshal_string_map s = Option.bind (json_parse s) (dec_map (dec_string []))"

definition marshal_string_map :: "(string, string) gomap \<Rightarrow> string" where
  "marshal_string_map m = json_print (enc_map JString m)"

section \<open>The table and its file\<close>

definition ProtocolRanking :: u16 where "ProtocolRanking = 0x70"
definition MethodUploadCommonData :: u32 where "MethodUploadCommonData = 0x4"
definition methodRankingGetCompetitionInfo :: u32 where "methodRankingGetCompetitionInfo = 0x12"
definition methodRankingCompetitionRanking :: u32 where "methodRankingCompetitionRanking = 0x10"
definition methodRankingCommonDataByPIDs :: u32 where "methodRankingCommonDataByPIDs = 0x16"
definition methodRankingSubmitScore :: u32 where "methodRankingSubmitScore = 0x11"
definition methodRankingSubmitTime :: u32 where "methodRankingSubmitTime = 0x13"

definition commonDataMaxLen :: nat where "commonDataMaxLen = 4096"
definition commonDataMaxEntries :: u32 where "commonDataMaxEntries = 256"
definition commonDataMaxStored :: nat where "commonDataMaxStored = 50000"

text \<open>
  \<open>commonDataStore\<close>, whether \<open>commonDataOnce\<close> has run, \<open>commonDataDirty\<close>, and whether the flusher
  goroutine exists.
\<close>

record profiles =
  commonDataStore :: "(pid, byte list) gomap"
  commonDataOnce :: bool
  commonDataDirty :: bool
  commonDataFlushing :: bool

definition no_profiles :: profiles where
  "no_profiles = \<lparr>commonDataStore = [], commonDataOnce = False, commonDataDirty = False, commonDataFlushing = False\<rparr>"

text \<open>The path of the file, its contents (none when it cannot be read), and the visiting order of the decoded map.\<close>

record profile_file =
  commonDataFile :: string
  file_content :: "string option"
  file_order :: "string list"

definition load_entry :: "(string, string) gomap \<Rightarrow> string \<Rightarrow> (pid, byte list) gomap \<times> nat \<Rightarrow> (pid, byte list) gomap \<times> nat" where
  "load_entry m k acc =
     (case acc of (store, n) \<Rightarrow>
        case Sscanf_d k of
          None \<Rightarrow> (store, n)
        | Some pid \<Rightarrow>
            (case Option.bind (gm_get m k) StdEncoding_DecodeString of
               None \<Rightarrow> (store, n)
             | Some blob \<Rightarrow>
                 if blob = [] \<or> length blob > commonDataMaxLen then (store, n)
                 else (gm_put pid blob store, n + 1)))"

definition loadCommonData :: "string option \<Rightarrow> string list \<Rightarrow> (pid, byte list) gomap \<Rightarrow> (pid, byte list) gomap \<times> nat option" where
  "loadCommonData content ord store =
     (case Option.bind content unmarshal_string_map of
        None \<Rightarrow> (store, None)
      | Some m \<Rightarrow> (let (store', n) = fold (load_entry m) ord (store, 0) in (store', Some n)))"

definition commonDataInit :: "profile_file \<Rightarrow> profiles \<Rightarrow> profiles" where
  "commonDataInit f p =
     (if commonDataOnce p then p
      else if commonDataFile f = [] then p\<lparr>commonDataOnce := True\<rparr>
      else p\<lparr>commonDataOnce := True, commonDataFlushing := True,
             commonDataStore := fst (loadCommonData (file_content f) (file_order f) (commonDataStore p))\<rparr>)"

definition range_entry :: "(pid, byte list) gomap \<Rightarrow> pid \<Rightarrow> (string, string) gomap \<Rightarrow> (string, string) gomap" where
  "range_entry store pid out =
     (case gm_get store pid of
        Some blob \<Rightarrow>
          if length out < commonDataMaxStored then gm_put (nat_str (unat pid)) (StdEncoding_EncodeToString blob) out
          else out
      | None \<Rightarrow> out)"

text \<open>What is written, and the file after it: a failed write or rename leaves the old contents.\<close>

definition writeCommonData :: "pid list \<Rightarrow> bool \<Rightarrow> profiles \<Rightarrow> string option \<Rightarrow> string option" where
  "writeCommonData ord written p content =
     (let b = marshal_string_map (fold (range_entry (commonDataStore p)) ord []) in if written then Some b else content)"

text \<open>One tick of the flusher.\<close>

definition commonDataFlusher :: "pid list \<Rightarrow> bool \<Rightarrow> profiles \<times> string option \<Rightarrow> profiles \<times> string option" where
  "commonDataFlusher ord written st =
     (case st of (p, content) \<Rightarrow>
        if \<not> commonDataFlushing p \<or> \<not> commonDataDirty p then (p, content)
        else let p' = p\<lparr>commonDataDirty := False\<rparr> in (p', writeCommonData ord written p' content))"

section \<open>Reading and writing the table\<close>

definition PutCommonData :: "profile_file \<Rightarrow> pid \<Rightarrow> byte list \<Rightarrow> profiles \<Rightarrow> profiles" where
  "PutCommonData f pid blob p =
     (if blob = [] \<or> length blob > commonDataMaxLen then p
      else let p' = commonDataInit f p
           in p'\<lparr>commonDataStore := gm_put pid blob (commonDataStore p'), commonDataDirty := True\<rparr>)"

definition CommonData :: "profile_file \<Rightarrow> pid \<Rightarrow> profiles \<Rightarrow> profiles \<times> byte list" where
  "CommonData f pid p =
     (let p' = commonDataInit f p in (p', case gm_get (commonDataStore p') pid of Some b \<Rightarrow> b | None \<Rightarrow> []))"

definition ForgetCommonData :: "pid \<Rightarrow> profiles \<Rightarrow> profiles" where
  "ForgetCommonData pid p = p\<lparr>commonDataStore := gm_del pid (commonDataStore p)\<rparr>"

definition uploadCommonData :: "profile_file \<Rightarrow> settings \<Rightarrow> pid \<Rightarrow> rmc_message \<Rightarrow> profiles \<Rightarrow> profiles \<times> rmc_message" where
  "uploadCommonData f s caller req p =
     (case run_state in_Buffer (NewStreamIn (rm_Body req)) of (blob, st) \<Rightarrow>
        (if in_Err st then p else PutCommonData f caller blob p,
         NewRMCSuccess s ProtocolRanking (rm_Method req) (rm_CallID req) []))"

primrec profile_entries :: "profile_file \<Rightarrow> settings \<Rightarrow> nat \<Rightarrow> stream_in \<Rightarrow> profiles \<Rightarrow> profiles \<times> byte list option" where
  "profile_entries f s 0 st p = (p, Some [])"
| "profile_entries f s (Suc n) st p =
     (case run_state (in_PID s) st of (pid, st') \<Rightarrow>
        if in_Err st' then (p, None)
        else let (p', blob) = CommonData f pid p; (p'', rest) = profile_entries f s n st' p'
             in (p'', map_option (\<lambda>bs. out_QBuffer blob @ bs) rest))"

definition commonDataByPIDs :: "profile_file \<Rightarrow> settings \<Rightarrow> rmc_message \<Rightarrow> profiles \<Rightarrow> profiles \<times> rmc_message" where
  "commonDataByPIDs f s req p =
     (let answer = NewRMCSuccess s ProtocolRanking (rm_Method req) (rm_CallID req); vide = answer (out_U32 0)
      in if length (rm_Body req) < 4 then (p, vide)
         else
           case run_state in_U32 (NewStreamIn (rm_Body req)) of (count, st) \<Rightarrow>
             if in_Err st \<or> count = 0 \<or> count > commonDataMaxEntries then (p, vide)
             else
               case profile_entries f s (unat count) st p of
                 (p', None) \<Rightarrow> (p', vide)
               | (p', Some entries) \<Rightarrow>
                   (let body = out_U32 count @ entries
                    in (p', answer (out_U8 0 @ out_U32 (of_nat (length body)) @ body))))"

section \<open>Submitted results\<close>

type_synonym scores = "(string, byte list) gomap"

definition score_key :: "pid \<Rightarrow> u32 \<Rightarrow> string" where
  "score_key pid method = nat_str (unat pid) @ ''/'' @ nat_str (unat method)"

definition keepSubmittedScore :: "pid \<Rightarrow> u32 \<Rightarrow> byte list \<Rightarrow> scores \<Rightarrow> scores" where
  "keepSubmittedScore pid method body sc =
     (if body = [] \<or> length body > commonDataMaxLen then sc else gm_put (score_key pid method) body sc)"

definition SubmittedScore :: "pid \<Rightarrow> u32 \<Rightarrow> scores \<Rightarrow> byte list" where
  "SubmittedScore pid method sc = (case gm_get sc (score_key pid method) of Some b \<Rightarrow> b | None \<Rightarrow> [])"

section \<open>Encodings are read back\<close>

definition b64_plain :: "char \<Rightarrow> bool" where
  "b64_plain c \<longleftrightarrow> url_char (std_char c) = c \<and> std_char c \<notin> {CHR 0x0A, CHR 0x0D, CHR ''='', CHR ''-'', CHR ''_''}"

lemma b64_alphabet_plain: "list_all b64_plain b64_alphabet"
  by (simp add: b64_alphabet_def b64_plain_def std_char_def url_char_def)

lemma b64_encode_alphabet: "set (b64_encode bs) \<subseteq> set b64_alphabet"
proof -
  have "length b64_alphabet = 64"
    by (simp add: b64_alphabet_def)
  then have "b64_sym v \<in> set b64_alphabet" if "0 \<le> v \<and> v < 64" for v
    unfolding b64_sym_def using that by (intro nth_mem) auto
  then show ?thesis
    using b64_groups_small [of bs] by (auto simp: b64_encode_groups list_all_iff)
qed

lemma length_b64_encode: "length (b64_encode bs) mod 4 \<noteq> 1"
  by (induction bs rule: b64_encode.induct) (simp_all add: Let_def mod_Suc)

lemma std_roundtrip: "StdEncoding_DecodeString (StdEncoding_EncodeToString bs) = Some bs"
proof -
  define s n where "s = map std_char (b64_encode bs)" and "n = (4 - length s mod 4) mod 4"
  have p: "b64_plain c" if "c \<in> set (b64_encode bs)" for c
    using that b64_encode_alphabet b64_alphabet_plain by (auto simp: list_all_iff)
  have f: "filter (\<lambda>c. c \<noteq> CHR 0x0A \<and> c \<noteq> CHR 0x0D) (s @ replicate n (CHR ''='')) = s @ replicate n (CHR ''='')"
    using p by (auto simp: filter_id_conv s_def b64_plain_def)
  have "takeWhile (\<lambda>c. c \<noteq> CHR ''='') s = s"
    using p by (auto simp: takeWhile_eq_all_conv s_def b64_plain_def)
  then have t: "takeWhile (\<lambda>c. c \<noteq> CHR ''='') (s @ replicate n (CHR ''='')) = s"
    by (simp add: takeWhile_append)
  have u: "map url_char s = b64_encode bs"
    using p by (auto simp: s_def b64_plain_def intro!: map_idI)
  have m: "length s mod 4 = 0 \<or> length s mod 4 = 2 \<or> length s mod 4 = 3"
    using length_b64_encode [of bs] by (auto simp: s_def)
  then have "n \<le> 2" "(length s + n) mod 4 = 0"
    by (auto simp: n_def mod_simps) presburger+
  moreover have "list_all (\<lambda>c. c \<noteq> CHR ''-'' \<and> c \<noteq> CHR ''_'') s"
    using p by (auto simp: list_all_iff s_def b64_plain_def)
  moreover have e: "StdEncoding_EncodeToString bs = s @ replicate n (CHR ''='')"
    by (simp only: StdEncoding_EncodeToString_def Let_def s_def n_def)
  ultimately show ?thesis
    unfolding StdEncoding_DecodeString_def e Let_def f t by (simp add: u b64_roundtrip list_all_iff)
qed

lemma digit_no_space:
  assumes "is_digit c"
  shows "trim_left go_spaces (c # cs) = c # cs"
proof -
  have "list_all (\<lambda>x. x \<noteq> [] \<and> \<not> is_digit (hd x)) go_spaces"
    by code_simp
  then have "find (\<lambda>x. x \<noteq> [] \<and> starts_with x (c # cs)) go_spaces = None"
    using assms by (force simp: find_None_iff list_all_iff starts_with_def neq_Nil_conv)
  then show ?thesis
    by (subst trim_left.simps) simp
qed

lemma Sscanf_nat_str:
  assumes "n < 2 ^ 64"
  shows "Sscanf_d (nat_str n) = Some (of_nat n)"
proof -
  obtain c cs where s: "nat_str n = c # cs"
    using nat_str_digits [of n] by (cases "nat_str n") auto
  then have t: "trim_left go_spaces (nat_str n) = nat_str n"
    using hd_nat_str [of n] digit_no_space by simp
  have w: "takeWhile is_digit (nat_str n) = nat_str n"
    using nat_str_digits [of n] unfolding takeWhile_eq_all_conv by (simp add: list_all_iff)
  show ?thesis
    using nat_str_digits [of n] ParseUint_nat_str [OF assms] unfolding Sscanf_d_def Let_def t w by simp
qed

lemma nat_str_inj: "nat_str m = nat_str n \<Longrightarrow> m = n"
  by (metis digits_val_nat_str)

lemma pid_str_eq [simp]: "nat_str (unat (p :: pid)) = nat_str (unat q) \<longleftrightarrow> p = q"
  by (auto dest: nat_str_inj simp: word_unat_eq_iff)

section \<open>The table\<close>

text \<open>Every stored profile is nonempty and of bounded size.\<close>

definition profile_ok :: "byte list \<Rightarrow> bool" where
  "profile_ok b \<longleftrightarrow> b \<noteq> [] \<and> length b \<le> commonDataMaxLen"

definition store_wf :: "(pid, byte list) gomap \<Rightarrow> bool" where
  "store_wf store \<longleftrightarrow> gm_wf store \<and> (\<forall>pid b. gm_get store pid = Some b \<longrightarrow> profile_ok b)"

definition profiles_wf :: "profiles \<Rightarrow> bool" where
  "profiles_wf p \<longleftrightarrow> store_wf (commonDataStore p)"

lemma store_wf_put: "store_wf store \<Longrightarrow> profile_ok b \<Longrightarrow> store_wf (gm_put pid b store)"
  by (simp add: store_wf_def)

lemma load_entry_wf: "store_wf store \<Longrightarrow> store_wf (fst (load_entry m k (store, n)))"
  by (auto simp: load_entry_def profile_ok_def not_less intro: store_wf_put split: option.splits)

lemma load_entries_wf: "store_wf store \<Longrightarrow> store_wf (fst (fold (load_entry m) ks (store, n)))"
proof (induction ks arbitrary: store n)
  case (Cons k ks)
  then show ?case
    using load_entry_wf [OF Cons.prems, of m k n] by (cases "load_entry m k (store, n)") simp
qed simp

lemma commonDataInit_wf: "profiles_wf p \<Longrightarrow> profiles_wf (commonDataInit f p)"
  by (simp add: profiles_wf_def commonDataInit_def loadCommonData_def load_entries_wf Let_def split_beta split: option.split)

lemma PutCommonData_wf: "profiles_wf p \<Longrightarrow> profiles_wf (PutCommonData f pid b p)"
  using commonDataInit_wf [of p f]
  by (simp add: PutCommonData_def Let_def profiles_wf_def store_wf_put profile_ok_def not_less)

lemma CommonData_wf: "profiles_wf p \<Longrightarrow> profiles_wf (fst (CommonData f pid p))"
  by (simp add: CommonData_def Let_def commonDataInit_wf)

lemma ForgetCommonData_wf: "profiles_wf p \<Longrightarrow> profiles_wf (ForgetCommonData pid p)"
  by (auto simp: ForgetCommonData_def profiles_wf_def store_wf_def)

lemma uploadCommonData_wf: "profiles_wf p \<Longrightarrow> profiles_wf (fst (uploadCommonData f s caller req p))"
  by (simp add: uploadCommonData_def PutCommonData_wf split: prod.split)

lemma profile_entries_wf: "profiles_wf p \<Longrightarrow> profiles_wf (fst (profile_entries f s n st p))"
proof (induction n arbitrary: st p)
  case (Suc n)
  then show ?case
    using CommonData_wf [OF Suc.prems, of f] by (simp add: Let_def split_beta)
qed simp

lemma commonDataByPIDs_wf: "profiles_wf p \<Longrightarrow> profiles_wf (fst (commonDataByPIDs f s req p))"
  using profile_entries_wf [of p f s]
  by (auto simp: commonDataByPIDs_def Let_def split: prod.split option.split) (metis fst_conv)+

lemma no_profiles_wf [simp]: "profiles_wf no_profiles"
  by (simp add: profiles_wf_def store_wf_def no_profiles_def)

text \<open>A deposited profile is what the next request for it gives.\<close>

lemma CommonData_Put:
  assumes "profile_ok b"
  shows "snd (CommonData f pid' (PutCommonData f pid b p)) = (if pid' = pid then b else snd (CommonData f pid' p))"
  using assms by (auto simp: CommonData_def PutCommonData_def Let_def profile_ok_def commonDataInit_def)

lemma put_new: "\<not> gm_has m k \<Longrightarrow> gm_put k v m = m @ [(k, v)]"
  by (induction m) (auto simp: gm_has_def)

lemma range_entries:
  assumes "distinct pids" and "set pids \<subseteq> fst ` set store" and "length pids \<le> commonDataMaxStored"
  shows "fold (range_entry store) pids [] =
    map (\<lambda>pid. (nat_str (unat pid), StdEncoding_EncodeToString (the (gm_get store pid)))) pids"
  using assms
proof (induction pids rule: rev_induct)
  case (snoc pid pids)
  obtain blob where "gm_get store pid = Some blob"
    using snoc.prems(2) by (metis (no_types, lifting) gm_has_def gm_has_get in_set_conv_decomp not_Some_eq set_map subset_iff)
  moreover have "\<not> gm_has (map (\<lambda>pid. (nat_str (unat pid), StdEncoding_EncodeToString (the (gm_get store pid)))) pids) (nat_str (unat pid))"
    using snoc.prems(1) by (auto simp: gm_has_def pid_str_eq)
  ultimately show ?case
    using snoc by (simp add: range_entry_def put_new)
qed simp

lemma load_entries:
  assumes "distinct pids" and "\<forall>pid\<in>set pids. \<exists>b. gm_get store pid = Some b \<and> profile_ok b"
    and "\<forall>pid\<in>set pids. gm_get m (nat_str (unat pid)) = Some (StdEncoding_EncodeToString (the (gm_get store pid)))"
  shows "fold (load_entry m) (map (\<lambda>pid. nat_str (unat pid)) pids) ([], 0) = (map (\<lambda>pid. (pid, the (gm_get store pid))) pids, length pids)"
  using assms
proof (induction pids rule: rev_induct)
  case (snoc pid pids)
  obtain blob where "gm_get store pid = Some blob" "profile_ok blob"
    using snoc.prems(2) by auto
  moreover have "\<not> gm_has (map (\<lambda>pid. (pid, the (gm_get store pid))) pids) pid"
    using snoc.prems(1) by (auto simp: gm_has_def)
  moreover have "Sscanf_d (nat_str (unat pid)) = Some pid"
    using Sscanf_nat_str [of "unat pid"] unsigned_less [of pid] by simp
  ultimately show ?case
    using snoc by (simp add: load_entry_def profile_ok_def std_roundtrip put_new)
qed simp

lemma encoded_valid: "to_valid (nat_str n) = nat_str n" "to_valid (StdEncoding_EncodeToString bs) = StdEncoding_EncodeToString bs"
proof -
  have "list_all (\<lambda>c. code_of c < 0x80) (map std_char b64_alphabet)"
    by code_simp
  then show "to_valid (StdEncoding_EncodeToString bs) = StdEncoding_EncodeToString bs"
    using b64_encode_alphabet [of bs]
    by (intro to_valid_ascii) (auto simp: list_all_iff StdEncoding_EncodeToString_def Let_def code_of_def)
  show "to_valid (nat_str n) = nat_str n"
    using nat_str_digits [of n] by (intro to_valid_ascii) (auto simp: list_all_iff is_digit_def code_of_def)
qed

lemma image_list:
  assumes "distinct ys" and "set ys = f ` A" and "inj_on f A"
  shows "\<exists>xs. ys = map f xs \<and> distinct xs \<and> set xs = A"
proof (intro exI conjI)
  have "map (f \<circ> the_inv_into A f) ys = ys"
    using assms(2) f_the_inv_into_f [OF assms(3)] by (intro map_idI) auto
  then show m: "ys = map f (map (the_inv_into A f) ys)"
    by simp
  show "distinct (map (the_inv_into A f) ys)"
    using assms(1) m by (metis distinct_map)
  show "set (map (the_inv_into A f) ys) = A"
    using assms(2) the_inv_into_f_f [OF assms(3)] by (auto simp: image_image)
qed

lemma written_then_loaded:
  assumes wf: "store_wf store" and "visits ord store" and "length store \<le> commonDataMaxStored"
  defines "written \<equiv> marshal_string_map (fold (range_entry store) ord [])"
  shows "\<exists>m. unmarshal_string_map written = Some m \<and>
    (\<forall>ord'. visits ord' m \<longrightarrow> (case loadCommonData (Some written) ord' [] of (store', n) \<Rightarrow> gm_get store' = gm_get store \<and> n = Some (length store)))"
proof -
  have ord: "distinct ord" "set ord = fst ` set store"
    using assms(2) by (auto simp: visits_def)
  then have len: "length ord = length store"
    using wf distinct_card [of ord] distinct_card [of "map fst store"] by (simp add: store_wf_def gm_wf_def)
  define out where "out = map (\<lambda>pid. (nat_str (unat pid), StdEncoding_EncodeToString (the (gm_get store pid)))) ord"
  have f: "fold (range_entry store) ord [] = out"
    unfolding out_def using ord len assms(3) by (intro range_entries) auto
  have owf: "gm_wf out"
    using ord(1) by (simp add: out_def gm_wf_def distinct_map inj_on_def comp_def)
  moreover have "\<forall>(k, v) \<in> set out. to_valid k = k \<and> to_valid v = v"
    by (auto simp: out_def encoded_valid)
  ultimately obtain m where m: "unmarshal_string_map written = Some m" "gm_get m = gm_get out"
    unfolding written_def f unmarshal_string_map_def marshal_string_map_def by (rule string_json.map_file)
  have get: "gm_get out (nat_str (unat pid)) = Some (StdEncoding_EncodeToString (the (gm_get store pid)))" if "pid \<in> set ord" for pid
    using that owf by (intro gm_in_get) (auto simp: out_def)
  have "case loadCommonData (Some written) ord' [] of (store', n) \<Rightarrow> gm_get store' = gm_get store \<and> n = Some (length store)"
    if v: "visits ord' m" for ord'
  proof -
    have "fst ` set m = dom (gm_get out)"
      using m(2) by (simp add: dom_map_of_conv_image_fst flip: m(2))
    then have "set ord' = (\<lambda>pid. nat_str (unat pid)) ` set ord"
      using v by (auto simp: visits_def dom_map_of_conv_image_fst out_def image_image)
    then obtain pids where p: "ord' = map (\<lambda>pid. nat_str (unat pid)) pids" "distinct pids" "set pids = set ord"
      using image_list [of ord' "\<lambda>pid. nat_str (unat pid)" "set ord"] v by (auto simp: visits_def inj_on_def)
    have s: "\<exists>b. gm_get store pid = Some b \<and> profile_ok b" if "pid \<in> set ord" for pid
      using that ord(2) wf gm_has_get [of store pid] by (auto simp: store_wf_def gm_has_def)
    have "fold (load_entry m) ord' ([], 0) = (map (\<lambda>pid. (pid, the (gm_get store pid))) pids, length pids)"
      unfolding p(1) using p s get m(2) by (intro load_entries) auto
    moreover have "gm_get (map (\<lambda>pid. (pid, the (gm_get store pid))) pids) pid = gm_get store pid" for pid
      using s [of pid] p(3) ord(2) gm_has_get [of store pid] by (auto simp: map_of_map_restrict restrict_map_def gm_has_def)
    moreover have "length pids = length store"
      using p(2,3) ord len by (metis distinct_card)
    ultimately show ?thesis
      by (auto simp: loadCommonData_def m(1))
  qed
  with m(1) show ?thesis
    by blast
qed

text \<open>C39: the profiles survive a restart. When the flusher writes a table of at most 50000 profiles, whatever the
  order in which the table is visited, the file it leaves can be decoded, and a new process that reads it,
  in whatever order, answers every request for a profile as the old process does.\<close>

theorem profiles_survive_restart:
  assumes "profiles_wf p" and "commonDataOnce p" and "commonDataFlushing p" and "commonDataDirty p"
    and "length (commonDataStore p) \<le> commonDataMaxStored" and "visits ord (commonDataStore p)" and "path \<noteq> []"
  shows "case commonDataFlusher ord True (p, old) of (p', content) \<Rightarrow>
    \<exists>file m. content = Some file \<and> unmarshal_string_map file = Some m \<and>
      (\<forall>ord'. visits ord' m \<longrightarrow>
        (let f = \<lparr>commonDataFile = path, file_content = Some file, file_order = ord'\<rparr>
         in \<forall>pid. snd (CommonData f pid no_profiles) = snd (CommonData f pid p')))"
proof -
  define written where "written = marshal_string_map (fold (range_entry (commonDataStore p)) ord [])"
  have fl: "commonDataFlusher ord True (p, old) = (p\<lparr>commonDataDirty := False\<rparr>, Some written)"
    using assms(3,4) by (simp add: commonDataFlusher_def writeCommonData_def written_def Let_def)
  obtain m where m: "unmarshal_string_map written = Some m"
    and l: "\<And>ord'. visits ord' m \<Longrightarrow> gm_get (fst (loadCommonData (Some written) ord' [])) = gm_get (commonDataStore p)"
    using written_then_loaded [OF assms(1) [unfolded profiles_wf_def] assms(6,5)] unfolding written_def by fastforce
  have "snd (CommonData \<lparr>commonDataFile = path, file_content = Some written, file_order = ord'\<rparr> pid no_profiles) =
      snd (CommonData \<lparr>commonDataFile = path, file_content = Some written, file_order = ord'\<rparr> pid (p\<lparr>commonDataDirty := False\<rparr>))"
    if "visits ord' m" for ord' pid
    using l [OF that] assms(2,7) by (simp add: CommonData_def commonDataInit_def no_profiles_def Let_def)
  with m show ?thesis
    unfolding fl prod.case Let_def by blast
qed

text \<open>A table of two profiles, one upload after the other.\<close>

definition sample_file :: profile_file where
  "sample_file = \<lparr>commonDataFile = ''profiles.json'', file_content = None, file_order = []\<rparr>"

definition sample_profiles :: profiles where
  "sample_profiles = PutCommonData sample_file 1800000001 [82, 70, 0, 255] (PutCommonData sample_file 7 [1] no_profiles)"

theorem profiles_survive_restart_witness:
  "\<exists>file m. snd (commonDataFlusher [1800000001, 7] True (sample_profiles, None)) = Some file \<and> unmarshal_string_map file = Some m \<and>
    (\<forall>ord'. visits ord' m \<longrightarrow>
      (let f = \<lparr>commonDataFile = ''profiles.json'', file_content = Some file, file_order = ord'\<rparr>
       in \<forall>pid. snd (CommonData f pid no_profiles) = snd (CommonData f pid (sample_profiles\<lparr>commonDataDirty := False\<rparr>))))"
proof -
  have p: "sample_profiles = \<lparr>commonDataStore = [(7, [1]), (1800000001, [82, 70, 0, 255])],
      commonDataOnce = True, commonDataDirty = True, commonDataFlushing = True\<rparr>"
    by (simp add: sample_profiles_def PutCommonData_def Let_def commonDataInit_def sample_file_def no_profiles_def
        loadCommonData_def commonDataMaxLen_def)
  have "profiles_wf sample_profiles"
    unfolding sample_profiles_def by (intro PutCommonData_wf no_profiles_wf)
  moreover have "visits [1800000001, 7] (commonDataStore sample_profiles)"
    by (auto simp: p visits_def)
  ultimately show ?thesis
    using profiles_survive_restart [of sample_profiles "[1800000001, 7]" "''profiles.json''" None]
    by (simp add: p commonDataMaxStored_def commonDataFlusher_def Let_def)
qed

section \<open>Asking for profiles\<close>

lemma CommonData_state: "fst (CommonData f pid p) = commonDataInit f p"
  by (simp add: CommonData_def Let_def)

lemma commonDataInit_idem: "commonDataInit f (commonDataInit f p) = commonDataInit f p"
  by (simp add: commonDataInit_def)

lemma CommonData_init: "snd (CommonData f pid (commonDataInit f p)) = snd (CommonData f pid p)"
  by (simp add: CommonData_def Let_def commonDataInit_idem)

lemma profile_entries_run:
  assumes "list_all (pid_ok s) pids"
  shows "profile_entries f s (length pids) (stream_at pre (concat (map (out_PID s) pids) @ rest)) p =
    (if pids = [] then p else commonDataInit f p, Some (concat (map (\<lambda>pid. out_QBuffer (snd (CommonData f pid p))) pids)))"
  using assms
proof (induction pids arbitrary: pre p)
  case (Cons pid pids)
  have "run_state (in_PID s) (stream_at pre (out_PID s pid @ concat (map (out_PID s) pids) @ rest)) =
      (pid, stream_at (pre @ out_PID s pid) (concat (map (out_PID s) pids) @ rest))"
    using Cons.prems by (intro readsD reads_PID) simp
  then show ?case
    using Cons by (simp add: CommonData_state CommonData_init commonDataInit_idem split_beta Let_def in_Err_def)
qed simp

text \<open>The answer to a request for at most 256 players: one entry per player, in the order of the request.\<close>

lemma commonDataByPIDs_answer:
  fixes f :: profile_file and p :: profiles
  assumes "list_all (pid_ok s) pids" and "pids \<noteq> []" and "length pids \<le> 256"
    and "rm_Body req = out_U32 (of_nat (length pids)) @ concat (map (out_PID s) pids)"
  defines "body \<equiv> out_U32 (of_nat (length pids)) @ concat (map (\<lambda>pid. out_QBuffer (snd (CommonData f pid p))) pids)"
  shows "commonDataByPIDs f s req p =
    (commonDataInit f p, NewRMCSuccess s ProtocolRanking (rm_Method req) (rm_CallID req) (out_U8 0 @ out_Buffer body))"
proof -
  have n: "unat (of_nat (length pids) :: u32) = length pids"
    using assms(3) by (intro unat_of_nat_word) simp
  then have b: "(of_nat (length pids) :: u32) \<noteq> 0" "\<not> (of_nat (length pids) :: u32) > commonDataMaxEntries"
    using assms(2,3) by (auto simp: word_less_nat_alt commonDataMaxEntries_def dest: arg_cong [of _ _ unat])
  have "run_state in_U32 (NewStreamIn (rm_Body req)) =
      (of_nat (length pids), stream_at (out_U32 (of_nat (length pids))) (concat (map (out_PID s) pids)))"
    using readsD [OF reads_U32, of "[]"] by (simp add: assms(4) NewStreamIn_stream_at)
  moreover have "\<not> length (rm_Body req) < 4"
    by (simp add: assms(4) out_U32_def)
  ultimately show ?thesis
    using b profile_entries_run [OF assms(1), of f "out_U32 (of_nat (length pids))" "[]" p] assms(2)
    by (simp add: commonDataByPIDs_def Let_def n in_Err_def body_def out_Buffer_def)
qed

end
