(* ===== verification/Nex_Ranking.thy ===== *)
theory Nex_Ranking
  imports Nex_Profiles Nex_Tournament Nex_Time "HOL-Library.Product_Lexorder"
begin

text \<open>
  The tournament leaderboards (\<^verbatim>\<open>ranking_board.go\<close>) and the dispatch of the ranking protocol
  (\<open>RankingHandler\<close>, \<^verbatim>\<open>ranking.go\<close>).

  A board maps a player to the best result submitted so far. \<open>boardFor\<close> sorts it by falling score and
  rising time and shows the first hundred. \<open>sort.Slice\<close> may put entries that compare equal in any order; the
  stable sort used here, with the visiting order of the map as an argument, gives every such result. The
  file of the boards is modelled as the decoded list of its records.
\<close>

section \<open>Boards\<close>

definition scoreEntryLen :: nat where "scoreEntryLen = 164"
definition scoreEntryBody :: u32 where "scoreEntryBody = 159"
definition scoreProfileLen :: nat where "scoreProfileLen = 132"
definition scoreMaxPerBoard :: nat where "scoreMaxPerBoard = 100"

record boardEntry =
  be_PID :: pid
  be_Score :: u32
  be_Profile :: "byte list"
  be_At :: gotime

record boardKey =
  bk_Tournament :: u32
  bk_Category :: u32

record boardPersisted =
  bp_Tournament :: u32
  bp_Category :: u32
  bp_PID :: pid
  bp_Score :: u32
  bp_Profile :: "byte list"
  bp_At :: int

type_synonym board = "(pid, boardEntry) gomap"

record board_store =
  boards :: "(boardKey, board) gomap"
  boardOnce :: bool
  boardDirty :: bool
  boardFlushing :: bool

text \<open>The path of the file and its records; none when it cannot be read or decoded.\<close>

record board_file =
  boardFile :: string
  board_content :: "boardPersisted list option"

definition no_boards :: board_store where
  "no_boards = \<lparr>boards = [], boardOnce = False, boardDirty = False, boardFlushing = False\<rparr>"

definition board_of :: "board_store \<Rightarrow> boardKey \<Rightarrow> board" where
  "board_of st k = (case gm_get (boards st) k of Some b \<Rightarrow> b | None \<Rightarrow> [])"

definition le32 :: "byte list \<Rightarrow> nat \<Rightarrow> u32" where
  "le32 body i = of_nat (le_nat (take 4 (drop i body)))"

definition parseScoreSubmission :: "byte list \<Rightarrow> (u32 \<times> u32 \<times> u32 \<times> byte list) option" where
  "parseScoreSubmission body =
     (if length body < 0x1d + scoreProfileLen then None
      else
        let tournament = le32 body 0x05; category = le32 body 0x09; score = le32 body 0x11
        in if le_nat (take 2 (drop 0x1b body)) \<noteq> scoreProfileLen then None
           else let profile = take scoreProfileLen (drop 0x1d body)
                in if tournament = 0 then None else Some (tournament, category, score, profile))"

section \<open>Persistence\<close>

definition restore_entry :: "boardPersisted \<Rightarrow> (boardKey, board) gomap \<Rightarrow> (boardKey, board) gomap" where
  "restore_entry p bs =
     (if length (bp_Profile p) \<noteq> scoreProfileLen \<or> bp_Tournament p = 0 then bs
      else
        let k = \<lparr>bk_Tournament = bp_Tournament p, bk_Category = bp_Category p\<rparr>;
            e = \<lparr>be_PID = bp_PID p, be_Score = bp_Score p, be_Profile = bp_Profile p, be_At = bp_At p * 1000000000\<rparr>
        in gm_put k (gm_put (bp_PID p) e (case gm_get bs k of Some b \<Rightarrow> b | None \<Rightarrow> [])) bs)"

definition boardInit :: "board_file \<Rightarrow> board_store \<Rightarrow> board_store" where
  "boardInit f st =
     (if boardOnce st then st
      else if boardFile f = [] then st\<lparr>boardOnce := True\<rparr>
      else st\<lparr>boardOnce := True, boardFlushing := True,
              boards := (case board_content f of None \<Rightarrow> boards st | Some lst \<Rightarrow> fold restore_entry lst (boards st))\<rparr>)"

definition persisted :: "boardKey \<Rightarrow> pid \<Rightarrow> boardEntry \<Rightarrow> boardPersisted" where
  "persisted k pid e =
     \<lparr>bp_Tournament = bk_Tournament k, bp_Category = bk_Category k, bp_PID = pid, bp_Score = be_Score e,
      bp_Profile = be_Profile e, bp_At = unix_seconds (be_At e)\<rparr>"

text \<open>The records written, with the visiting orders of the outer map and of each board.\<close>

definition persisted_list :: "boardKey list \<Rightarrow> (boardKey \<Rightarrow> pid list) \<Rightarrow> board_store \<Rightarrow> boardPersisted list" where
  "persisted_list ks ord st =
     concat (map (\<lambda>k. List.map_filter (\<lambda>pid. map_option (persisted k pid) (gm_get (board_of st k) pid)) (ord k)) ks)"

text \<open>One tick of the flusher; a failed write leaves the old contents.\<close>

definition boardFlusher :: "boardKey list \<Rightarrow> (boardKey \<Rightarrow> pid list) \<Rightarrow> bool \<Rightarrow>
    board_store \<times> boardPersisted list option \<Rightarrow> board_store \<times> boardPersisted list option" where
  "boardFlusher ks ord written s =
     (case s of (st, content) \<Rightarrow>
        if \<not> boardFlushing st \<or> \<not> boardDirty st then (st, content)
        else (st\<lparr>boardDirty := False\<rparr>, if written then Some (persisted_list ks ord st) else content))"

section \<open>Recording and showing\<close>

definition recordScore :: "board_file \<Rightarrow> gotime \<Rightarrow> pid \<Rightarrow> byte list \<Rightarrow> board_store \<Rightarrow> board_store \<times> bool" where
  "recordScore f now pid body st0 =
     (let st = boardInit f st0
      in case parseScoreSubmission body of
           None \<Rightarrow> (st, False)
         | Some (tour, cat, score, profile) \<Rightarrow>
             (let k = \<lparr>bk_Tournament = tour, bk_Category = cat\<rparr>; b = board_of st k;
                  fresh = \<lparr>be_PID = pid, be_Score = score, be_Profile = profile, be_At = now\<rparr>;
                  e = (case gm_get b pid of
                         Some prev \<Rightarrow> if be_Score prev \<ge> score then prev\<lparr>be_Profile := profile\<rparr> else fresh
                       | None \<Rightarrow> fresh)
              in (st\<lparr>boards := gm_put k (gm_put pid e b) (boards st), boardDirty := True\<rparr>, True)))"

definition rank_key :: "boardEntry \<Rightarrow> int \<times> int" where
  "rank_key e = (- uint (be_Score e), be_At e)"

definition boardFor :: "board_file \<Rightarrow> pid list \<Rightarrow> u32 \<Rightarrow> u32 \<Rightarrow> board_store \<Rightarrow> board_store \<times> boardEntry list" where
  "boardFor f ord tour cat st0 =
     (let st = boardInit f st0; m = board_of st \<lparr>bk_Tournament = tour, bk_Category = cat\<rparr>
      in (st, take scoreMaxPerBoard (sort_key rank_key (List.map_filter (gm_get m) ord))))"

text \<open>A row of 164 bytes: the length, the rank, the player, the score, the date and the profile.\<close>

definition board_row :: "nat \<Rightarrow> boardEntry \<Rightarrow> byte list" where
  "board_row i e =
     (let prof = be_Profile e;
          fixed = (if length prof \<noteq> scoreProfileLen then take scoreProfileLen (prof @ replicate scoreProfileLen 0) else prof)
      in out_U8 0 @ out_U32 scoreEntryBody @ out_U32 (of_nat (i + 1)) @ out_U64 (be_PID e) @ out_U32 (be_Score e) @
         out_U64 (nexDateTime (be_At e)) @ out_U8 0xff @ out_U16 (of_nat scoreProfileLen) @ fixed)"

definition writeBoard :: "u32 \<Rightarrow> boardEntry list \<Rightarrow> byte list" where
  "writeBoard cat entries =
     (let page = out_U32 cat @ out_U32 (of_nat (length entries)) @
                 concat (map (\<lambda>(i, e). board_row i e) (List.enumerate 0 entries)) @
                 out_U32 (of_nat (length entries)) @ out_U32 4 @ replicate 16 0
      in out_U32 1 @ out_U8 0 @ out_U32 (of_nat (length page)) @ page)"

text \<open>The category of the first board of the tournament in the visiting order.\<close>

definition boardCategoryFor :: "boardKey list \<Rightarrow> u32 \<Rightarrow> board_store \<Rightarrow> u32" where
  "boardCategoryFor ks tour st =
     (case find (\<lambda>k. gm_has (boards st) k \<and> bk_Tournament k = tour) ks of Some k \<Rightarrow> bk_Category k | None \<Rightarrow> 0)"

text \<open>The category is looked up twice, each time with a visiting order of its own.\<close>

definition competitionRanking :: "board_file \<Rightarrow> boardKey list \<Rightarrow> boardKey list \<Rightarrow> pid list \<Rightarrow> settings \<Rightarrow> rmc_message \<Rightarrow>
    board_store \<Rightarrow> board_store \<times> rmc_message" where
  "competitionRanking f ks1 ks2 ord s req st =
     (let answer = NewRMCSuccess s ProtocolRanking (rm_Method req) (rm_CallID req); empty = answer (out_U32 0)
      in if length (rm_Body req) < 13 then (st, empty)
         else
           let tour = le32 (rm_Body req) 5;
               (st', entries) = boardFor f ord tour (boardCategoryFor ks1 tour st) st
           in if entries = [] then (st', empty)
              else (st', answer (writeBoard (boardCategoryFor ks2 tour st') entries)))"

section \<open>The protocol\<close>

record ranking =
  rk_profiles :: profiles
  rk_scores :: scores
  rk_boards :: board_store

record rank_env =
  rke_now :: gotime
  rke_profiles :: profile_file
  rke_boards :: board_file
  rke_keys1 :: "boardKey list"
  rke_keys2 :: "boardKey list"
  rke_ord :: "pid list"
  rke_tournaments :: "u32 list"

definition RankingHandler :: "rank_env \<Rightarrow> settings \<Rightarrow> pid \<Rightarrow> tournamentStore \<Rightarrow> rmc_message \<Rightarrow> ranking \<Rightarrow> ranking \<times> rmc_message" where
  "RankingHandler env s caller ts req rk =
     (let k = rm_Method req; answer = NewRMCSuccess s ProtocolRanking k (rm_CallID req)
      in if k = MethodUploadCommonData then
           (let (p, resp) = uploadCommonData (rke_profiles env) s caller req (rk_profiles rk) in (rk\<lparr>rk_profiles := p\<rparr>, resp))
         else if k = methodRankingCommonDataByPIDs then
           (let (p, resp) = commonDataByPIDs (rke_profiles env) s req (rk_profiles rk) in (rk\<lparr>rk_profiles := p\<rparr>, resp))
         else if k = methodRankingGetCompetitionInfo then (rk, answer (TournamentSummaries (rke_tournaments env) ts))
         else if k = methodRankingCompetitionRanking then
           (let (b, resp) = competitionRanking (rke_boards env) (rke_keys1 env) (rke_keys2 env) (rke_ord env) s req (rk_boards rk)
            in (rk\<lparr>rk_boards := b\<rparr>, resp))
         else if k = methodRankingSubmitScore \<or> k = methodRankingSubmitTime then
           (let sc = keepSubmittedScore caller k (rm_Body req) (rk_scores rk);
                b = (if k = methodRankingSubmitScore
                     then fst (recordScore (rke_boards env) (rke_now env) caller (rm_Body req) (rk_boards rk)) else rk_boards rk)
            in (rk\<lparr>rk_scores := sc, rk_boards := b\<rparr>, answer [0]))
         else (rk, notImplemented s ProtocolRanking req))"

section \<open>What the boards hold\<close>

text \<open>A submission: when, by whom, and the message. The accepted ones of one player on one board, in order.\<close>

type_synonym submission = "gotime \<times> pid \<times> byte list"

definition accepted :: "boardKey \<Rightarrow> pid \<Rightarrow> submission list \<Rightarrow> (gotime \<times> u32 \<times> byte list) list" where
  "accepted k pid subs =
     List.map_filter (\<lambda>(now, p, body).
       case parseScoreSubmission body of
         Some (tour, cat, score, profile) \<Rightarrow>
           if p = pid \<and> k = \<lparr>bk_Tournament = tour, bk_Category = cat\<rparr> then Some (now, score, profile) else None
       | None \<Rightarrow> None) subs"

text \<open>The specification: the best score, the time it was first reached, the latest profile.\<close>

definition best_entry :: "pid \<Rightarrow> (gotime \<times> u32 \<times> byte list) list \<Rightarrow> boardEntry option" where
  "best_entry pid subs =
     (if subs = [] then None
      else let best = Max (set (map (\<lambda>x. fst (snd x)) subs))
           in Some \<lparr>be_PID = pid, be_Score = best, be_Profile = snd (snd (last subs)),
                    be_At = fst (hd (filter (\<lambda>x. fst (snd x) = best) subs))\<rparr>)"

definition submit_all :: "board_file \<Rightarrow> submission list \<Rightarrow> board_store \<Rightarrow> board_store" where
  "submit_all f subs st = fold (\<lambda>(now, pid, body) st. fst (recordScore f now pid body st)) subs st"

lemma best_entry_snoc:
  "best_entry pid (subs @ [(now, score, profile)]) =
    (case best_entry pid subs of
       Some prev \<Rightarrow> Some (if be_Score prev \<ge> score then prev\<lparr>be_Profile := profile\<rparr>
                          else \<lparr>be_PID = pid, be_Score = score, be_Profile = profile, be_At = now\<rparr>)
     | None \<Rightarrow> Some \<lparr>be_PID = pid, be_Score = score, be_Profile = profile, be_At = now\<rparr>)"
proof (cases "subs = []")
  case True
  then show ?thesis by (simp add: best_entry_def)
next
  case False
  define best where "best = Max (set (map (\<lambda>x. fst (snd x)) subs))"
  define reached where "reached = fst (hd (filter (\<lambda>x. fst (snd x) = best) subs))"
  have old: "best_entry pid subs = Some \<lparr>be_PID = pid, be_Score = best, be_Profile = snd (snd (last subs)), be_At = reached\<rparr>"
    using False by (simp only: best_entry_def best_def reached_def Let_def if_False)
  have new: "Max (set (map (\<lambda>x. fst (snd x)) (subs @ [(now, score, profile)]))) = max score best"
    unfolding best_def using False Max_insert [of "set (map (\<lambda>x. fst (snd x)) subs)" score] by simp
  have "best \<in> set (map (\<lambda>x. fst (snd x)) subs)"
    unfolding best_def using False by (intro Max_in) auto
  then have ex: "filter (\<lambda>x. fst (snd x) = best) subs \<noteq> []"
    by (auto simp: filter_empty_conv)
  have le: "fst (snd x) \<le> best" if "x \<in> set subs" for x
    unfolding best_def using that by (intro Max_ge) auto
  have "filter (\<lambda>x. fst (snd x) = score) subs = []" if "\<not> score \<le> best"
    using le that by (auto simp: filter_empty_conv)
  then show ?thesis
    using ex unfolding old unfolding best_entry_def Let_def new by (cases "score \<le> best") (simp_all add: reached_def max_def)
qed

lemma accepted_snoc:
  "accepted k pid (subs @ [(now, p, body)]) =
    (case parseScoreSubmission body of
       Some (tour, cat, score, profile) \<Rightarrow>
         if p = pid \<and> k = \<lparr>bk_Tournament = tour, bk_Category = cat\<rparr> then accepted k pid subs @ [(now, score, profile)]
         else accepted k pid subs
     | None \<Rightarrow> accepted k pid subs)"
  by (auto simp: accepted_def List.map_filter_def split: option.split)

text \<open>No records are read from a file.\<close>

lemma boardInit_boards: "board_content f = None \<Longrightarrow> boards (boardInit f st) = boards st"
  by (simp add: boardInit_def)

lemma board_of_init: "board_content f = None \<Longrightarrow> board_of (boardInit f st) k = board_of st k"
  by (simp add: board_of_def boardInit_boards)

text \<open>What a recorded score does to each board.\<close>

lemma recordScore_board:
  assumes "board_content f = None"
  shows "gm_get (board_of (fst (recordScore f now p body st)) k) pid =
    (case parseScoreSubmission body of
       Some (tour, cat, score, profile) \<Rightarrow>
         if p = pid \<and> k = \<lparr>bk_Tournament = tour, bk_Category = cat\<rparr>
         then (case gm_get (board_of st k) pid of
                 Some prev \<Rightarrow> Some (if be_Score prev \<ge> score then prev\<lparr>be_Profile := profile\<rparr>
                                    else \<lparr>be_PID = pid, be_Score = score, be_Profile = profile, be_At = now\<rparr>)
               | None \<Rightarrow> Some \<lparr>be_PID = pid, be_Score = score, be_Profile = profile, be_At = now\<rparr>)
         else gm_get (board_of st k) pid
     | None \<Rightarrow> gm_get (board_of st k) pid)"
  using board_of_init [OF assms, of st] boardInit_boards [OF assms, of st]
  by (auto simp: recordScore_def Let_def board_of_def split: option.split prod.split)

lemma submit_all_board:
  assumes "board_content f = None"
  shows "gm_get (board_of (submit_all f subs no_boards) k) pid = best_entry pid (accepted k pid subs)"
proof (induction subs rule: rev_induct)
  case Nil
  then show ?case
    by (simp add: submit_all_def board_of_def no_boards_def accepted_def List.map_filter_def best_entry_def)
next
  case (snoc sub subs)
  obtain now p body where s: "sub = (now, p, body)"
    by (cases sub) auto
  have st: "submit_all f (subs @ [(now, p, body)]) no_boards = fst (recordScore f now p body (submit_all f subs no_boards))"
    by (simp add: submit_all_def)
  show ?case
    unfolding st recordScore_board [OF assms] snoc.IH s accepted_snoc
    by (auto simp: best_entry_snoc split: option.split prod.split)
qed

lemma recordScore_wf:
  assumes "board_content f = None" and "\<And>k. gm_wf (board_of st k)"
  shows "gm_wf (board_of (fst (recordScore f now p body st)) k)"
  using assms(2) [of k] board_of_init [OF assms(1), of st] boardInit_boards [OF assms(1), of st]
  by (auto simp: recordScore_def Let_def board_of_def gm_wf_def AList.distinct_update split: option.split prod.split)

lemma submit_all_wf: "board_content f = None \<Longrightarrow> gm_wf (board_of (submit_all f subs no_boards) k)"
proof (induction subs arbitrary: k rule: rev_induct)
  case (snoc sub subs)
  then show ?case
    using recordScore_wf [of f "submit_all f subs no_boards"] by (cases sub) (simp add: submit_all_def)
qed (simp add: submit_all_def board_of_def no_boards_def)

section \<open>The leaderboard\<close>

definition ahead :: "boardEntry \<Rightarrow> boardEntry \<Rightarrow> bool" where
  "ahead a b \<longleftrightarrow> be_Score a > be_Score b \<or> be_Score a = be_Score b \<and> be_At a \<le> be_At b"

lemma ahead_key: "ahead a b \<longleftrightarrow> rank_key a \<le> rank_key b"
  by (auto simp: ahead_def rank_key_def less_eq_prod_simp word_less_def word_le_def word_uint_eq_iff)

lemma best_entry_PID: "best_entry pid subs = Some e \<Longrightarrow> be_PID e = pid"
  by (auto simp: best_entry_def Let_def split: if_splits)

lemma best_entry_None: "best_entry pid subs = None \<longleftrightarrow> subs = []"
  by (simp add: best_entry_def Let_def)

lemma sorted_take_drop:
  assumes "sorted (map key xs)" and "x \<in> set (take n xs)" and "y \<in> set (drop n xs)"
  shows "key x \<le> key y"
proof -
  have "sorted (map key (take n xs) @ map key (drop n xs))"
    using assms(1) by (simp flip: map_append)
  then show ?thesis
    using assms(2,3) unfolding sorted_append by auto
qed

lemma map_filter_all: "(\<And>x. x \<in> set xs \<Longrightarrow> h x \<noteq> None) \<Longrightarrow> List.map_filter h xs = map (\<lambda>x. the (h x)) xs"
  by (induction xs) (auto simp: map_filter_simps split: option.split)

lemma visited_values:
  assumes "gm_wf m" and "visits ord m" and "\<And>k v. gm_get m k = Some v \<Longrightarrow> key v = k"
  shows "map key (List.map_filter (gm_get m) ord) = ord" "set (List.map_filter (gm_get m) ord) = ran (gm_get m)"
    "length (List.map_filter (gm_get m) ord) = length m"
proof -
  have g: "gm_get m k = Some (the (gm_get m k))" if "k \<in> set ord" for k
    using that assms(2) gm_has_get [of m k] by (simp add: visits_def gm_has_def)
  then have m: "List.map_filter (gm_get m) ord = map (\<lambda>k. the (gm_get m k)) ord"
    by (intro map_filter_all) force
  have "key (the (gm_get m k)) = k" if "k \<in> set ord" for k
    using g [OF that] assms(3) by blast
  then show "map key (List.map_filter (gm_get m) ord) = ord"
    unfolding m by (simp add: comp_def map_idI)
  have o: "k \<in> set ord" if "gm_get m k = Some v" for k v
    using that assms(2) gm_has_get [of m k] by (simp add: visits_def gm_has_def)
  show "set (List.map_filter (gm_get m) ord) = ran (gm_get m)"
  proof (intro set_eqI iffI)
    fix v
    assume "v \<in> set (List.map_filter (gm_get m) ord)"
    then obtain k where "k \<in> set ord" "v = the (gm_get m k)"
      unfolding m by auto
    then show "v \<in> ran (gm_get m)"
      using g [of k] by (metis ranI)
  next
    fix v
    assume "v \<in> ran (gm_get m)"
    then obtain k where "gm_get m k = Some v"
      by (auto simp: ran_def)
    then show "v \<in> set (List.map_filter (gm_get m) ord)"
      unfolding m using o [of k v] by force
  qed
  show "length (List.map_filter (gm_get m) ord) = length m"
    unfolding m using assms(1,2) distinct_card [of ord] distinct_card [of "map fst m"] by (simp add: visits_def gm_wf_def)
qed

text \<open>The first entries of a board in ranking order.\<close>

lemma top_entries:
  fixes n :: nat and ord :: "pid list"
  assumes wf: "gm_wf m" "visits ord m" "\<And>pid e. gm_get m pid = Some e \<Longrightarrow> be_PID e = pid"
  defines "shown \<equiv> take n (sort_key rank_key (List.map_filter (gm_get m) ord))"
  shows "sorted_wrt ahead shown" "distinct (map be_PID shown)" "length shown = min n (length ord)"
    "e \<in> set shown \<Longrightarrow> gm_get m (be_PID e) = Some e"
    "gm_get m pid = Some e \<Longrightarrow> e \<notin> set shown \<Longrightarrow> x \<in> set shown \<Longrightarrow> ahead x e"
proof -
  define es where "es = sort_key rank_key (List.map_filter (gm_get m) ord)"
  note v = visited_values [where key = be_PID, OF wf]
  have s: "set es = ran (gm_get m)" and srt: "sorted (map rank_key es)"
    by (simp_all add: es_def v)
  have d: "distinct (map be_PID es)"
  proof -
    have "distinct (map be_PID (List.map_filter (gm_get m) ord))"
      using wf(2) by (simp add: v(1) visits_def)
    then show ?thesis
      by (simp add: es_def distinct_map)
  qed
  show "sorted_wrt ahead shown"
    using srt unfolding sorted_map ahead_key shown_def es_def [symmetric] by (rule sorted_wrt_take)
  show "distinct (map be_PID shown)"
    using d unfolding shown_def es_def [symmetric] by (simp add: distinct_map distinct_take inj_on_subset [OF _ set_take_subset])
  show "length shown = min n (length ord)"
    using arg_cong [OF v(1), of length] by (simp add: shown_def)
  show "gm_get m (be_PID e) = Some e" if "e \<in> set shown"
  proof -
    have "e \<in> ran (gm_get m)"
      using that in_set_takeD s unfolding shown_def es_def [symmetric] by metis
    then show ?thesis
      using wf(3) by (auto simp: ran_def)
  qed
  show "ahead x e" if "gm_get m pid = Some e" and "e \<notin> set shown" and "x \<in> set shown"
  proof -
    have "e \<in> set es"
      unfolding s using that(1) by (rule ranI)
    then have "e \<in> set (drop n es)"
      using that(2) unfolding shown_def es_def [symmetric] by (metis Un_iff append_take_drop_id set_append)
    then show ?thesis
      using that(3) unfolding ahead_key shown_def es_def [symmetric] by (intro sorted_take_drop [OF srt])
  qed
qed

text \<open>C38: the leaderboard shows the best. After any submissions, in whatever order the players are visited, the
  leaderboard is sorted by falling score, then by rising time; it names each player at most once; it has all
  players with an accepted result, or one hundred of them; each shown entry holds the player's best score, the time
  it was first reached and the profile of the latest submission; and nobody left out is better than someone shown.\<close>

theorem leaderboard_best:
  fixes f :: board_file and subs :: "submission list" and tour cat :: u32
  defines "k \<equiv> \<lparr>bk_Tournament = tour, bk_Category = cat\<rparr>"
  assumes "board_content f = None" and "visits ord (board_of (submit_all f subs no_boards) k)"
  shows "case boardFor f ord tour cat (submit_all f subs no_boards) of (st, shown) \<Rightarrow>
    sorted_wrt ahead shown \<and> distinct (map be_PID shown) \<and> length shown = min 100 (length ord) \<and>
    set ord = {pid. accepted k pid subs \<noteq> []} \<and>
    (\<forall>e\<in>set shown. best_entry (be_PID e) (accepted k (be_PID e) subs) = Some e) \<and>
    (\<forall>pid e. best_entry pid (accepted k pid subs) = Some e \<and> e \<notin> set shown \<longrightarrow> (\<forall>x\<in>set shown. ahead x e))"
proof -
  define m where "m = board_of (submit_all f subs no_boards) k"
  have get: "gm_get m pid = best_entry pid (accepted k pid subs)" for pid
    unfolding m_def by (rule submit_all_board [OF assms(2)])
  have wf: "gm_wf m" "visits ord m" "\<And>pid e. gm_get m pid = Some e \<Longrightarrow> be_PID e = pid"
    using submit_all_wf [OF assms(2)] assms(3) get best_entry_PID by (simp_all add: m_def)
  have shown: "boardFor f ord tour cat (submit_all f subs no_boards) =
      (boardInit f (submit_all f subs no_boards), take 100 (sort_key rank_key (List.map_filter (gm_get m) ord)))"
    unfolding boardFor_def Let_def using board_of_init [OF assms(2)] by (simp add: m_def k_def scoreMaxPerBoard_def)
  have "pid \<in> set ord \<longleftrightarrow> accepted k pid subs \<noteq> []" for pid
    using wf(2) gm_has_get [of m pid] by (simp add: visits_def gm_has_def get best_entry_None)
  then have ord: "set ord = {pid. accepted k pid subs \<noteq> []}"
    by blast
  note top = top_entries [where n = 100, OF wf]
  show ?thesis
    unfolding shown prod.case get [symmetric] using top ord by blast
qed

text \<open>A submission message, laid out as the game sends it.\<close>

definition score_body :: "u32 \<Rightarrow> u32 \<Rightarrow> u32 \<Rightarrow> byte list \<Rightarrow> byte list" where
  "score_body tour cat score profile =
     replicate 5 0 @ out_U32 tour @ out_U32 cat @ replicate 4 0 @ out_U32 score @ replicate 6 0 @ out_U16 132 @ profile"

lemma le32_at:
  assumes "length pre = i"
  shows "le32 (pre @ out_U32 v @ rest) i = v"
proof -
  have "unat v < 2 ^ 32"
    using unsigned_less [of v] by simp
  then have "unat v mod 4294967296 = unat v"
    by simp
  then show ?thesis
    using assms by (simp add: le32_def out_U32_def le_nat_le_bytes)
qed

lemma parse_score_body:
  assumes "length profile = 132" and "tour \<noteq> 0"
  shows "parseScoreSubmission (score_body tour cat score profile) = Some (tour, cat, score, profile)"
proof -
  have l: "length (score_body tour cat score profile) = 161"
    by (simp add: score_body_def out_U32_def out_U16_def assms(1))
  have t: "le32 (score_body tour cat score profile) 5 = tour"
    unfolding score_body_def by (rule le32_at) simp
  have c: "le32 (score_body tour cat score profile) 9 = cat"
    using le32_at [of "replicate 5 0 @ out_U32 tour" 9 cat] by (simp add: score_body_def out_U32_def)
  have s: "le32 (score_body tour cat score profile) 17 = score"
    using le32_at [of "replicate 5 0 @ out_U32 tour @ out_U32 cat @ replicate 4 0" 17 score] by (simp add: score_body_def out_U32_def)
  have n: "le_nat (take 2 (drop 27 (score_body tour cat score profile))) = 132"
    by (simp add: score_body_def out_U32_def out_U16_def le_nat_le_bytes)
  have "take 132 (drop 29 (score_body tour cat score profile)) = profile"
    using assms(1) by (simp add: score_body_def out_U32_def out_U16_def)
  then show ?thesis
    using assms by (simp add: parseScoreSubmission_def l t c s n scoreProfileLen_def Let_def)
qed

definition sample_submissions :: "submission list" where
  "sample_submissions =
     [(1, 7, score_body 5 393 10 (replicate 132 1)), (2, 8, score_body 5 393 20 (replicate 132 2)),
      (3, 7, score_body 5 393 30 (replicate 132 3)), (4, 8, score_body 5 393 15 (replicate 132 4))]"

definition no_file :: board_file where
  "no_file = \<lparr>boardFile = [], board_content = None\<rparr>"

theorem leaderboard_best_witness:
  "\<exists>st shown. boardFor no_file [8, 7] 5 393 (submit_all no_file sample_submissions no_boards) = (st, shown) \<and>
    sorted_wrt ahead shown \<and> distinct (map be_PID shown) \<and> length shown = 2 \<and>
    (\<forall>e\<in>set shown. best_entry (be_PID e) (accepted \<lparr>bk_Tournament = 5, bk_Category = 393\<rparr> (be_PID e) sample_submissions) = Some e)"
proof -
  note eval = submit_all_def sample_submissions_def recordScore_def parse_score_body no_file_def boardInit_def no_boards_def board_of_def Let_def
  have "visits [8, 7] (board_of (submit_all no_file sample_submissions no_boards) \<lparr>bk_Tournament = 5, bk_Category = 393\<rparr>)"
    by (auto simp: eval visits_def)
  moreover have "board_content no_file = None"
    by (simp add: no_file_def)
  ultimately show ?thesis
    using leaderboard_best [of no_file "[8, 7]" sample_submissions 5 393]
    by (cases "boardFor no_file [8, 7] 5 393 (submit_all no_file sample_submissions no_boards)") simp
qed

section \<open>The page\<close>

lemma board_row_length: "length (board_row i e) = scoreEntryLen"
  by (simp add: board_row_def Let_def out_U8_def out_U32_def out_U64_def out_U16_def scoreEntryLen_def scoreProfileLen_def min_def)

lemma board_rows_length: "length (concat (map (\<lambda>(i, e). board_row i e) (List.enumerate n entries))) = scoreEntryLen * length entries"
  by (induction entries arbitrary: n) (simp_all add: board_row_length)

lemma writeBoard_length: "length (writeBoard cat entries) = 41 + scoreEntryLen * length entries"
  by (simp add: writeBoard_def Let_def board_rows_length out_U8_def out_U32_def)

text \<open>
  The category is chosen before the boards are read from the file: when every stored board has a category, the
  first request after a start finds none of them.
\<close>

lemma restore_category:
  assumes "\<And>k. gm_has bs k \<Longrightarrow> bk_Category k \<noteq> 0" and "\<forall>p\<in>set lst. bp_Category p \<noteq> 0"
  shows "gm_has (fold restore_entry lst bs) k \<Longrightarrow> bk_Category k \<noteq> 0"
  using assms
proof (induction lst arbitrary: bs)
  case (Cons p lst)
  have "bk_Category k \<noteq> 0" if "gm_has (restore_entry p bs) k" for k
    using Cons.prems(2,3) that by (auto simp: restore_entry_def Let_def split: if_splits)
  then show ?case
    using Cons.IH [of "restore_entry p bs"] Cons.prems by simp
qed auto

lemma first_request_after_start:
  assumes "boardFile f \<noteq> []" and "board_content f = Some lst" and "\<forall>p\<in>set lst. bp_Category p \<noteq> 0"
  shows "competitionRanking f ks1 ks2 ord s req no_boards =
    (if length (rm_Body req) < 13 then no_boards else boardInit f no_boards,
     NewRMCSuccess s ProtocolRanking (rm_Method req) (rm_CallID req) (out_U32 0))"
proof -
  have "gm_get (boards (boardInit f no_boards)) \<lparr>bk_Tournament = t, bk_Category = 0\<rparr> = None" for t
    using restore_category [of "[]" lst "\<lparr>bk_Tournament = t, bk_Category = 0\<rparr>"] assms
    by (cases "gm_get (boards (boardInit f no_boards)) \<lparr>bk_Tournament = t, bk_Category = 0\<rparr>")
      (auto simp: boardInit_def no_boards_def gm_has_get)
  then have "board_of (boardInit f no_boards) \<lparr>bk_Tournament = t, bk_Category = 0\<rparr> = []" for t
    by (simp add: board_of_def)
  moreover have "find (\<lambda>k :: boardKey. False) ks1 = None"
    by (simp add: find_None_iff)
  then have "boardCategoryFor ks1 t no_boards = 0" for t
    by (simp add: boardCategoryFor_def no_boards_def)
  ultimately show ?thesis
    by (simp add: competitionRanking_def boardFor_def Let_def List.map_filter_def)
qed

section \<open>Well-formed boards\<close>

text \<open>Entries lie under their player with a profile of the right length, and no board is that of tournament 0.\<close>

definition boards_wf :: "board_store \<Rightarrow> bool" where
  "boards_wf b \<longleftrightarrow> gm_wf (boards b) \<and>
     (\<forall>k pid e. gm_get (board_of b k) pid = Some e \<longrightarrow> be_PID e = pid \<and> length (be_Profile e) = scoreProfileLen \<and> bk_Tournament k \<noteq> 0)"

lemma boards_wf_put:
  assumes "boards_wf b" and "be_PID e = pid" and "length (be_Profile e) = scoreProfileLen" and "bk_Tournament k \<noteq> 0"
  shows "boards_wf (b\<lparr>boards := gm_put k (gm_put pid e (board_of b k)) (boards b), boardDirty := d\<rparr>)"
  using assms by (simp add: boards_wf_def board_of_def)

lemma restore_entry_wf:
  assumes "boards_wf b"
  shows "boards_wf (b\<lparr>boards := restore_entry p (boards b)\<rparr>)"
  using assms by (auto simp: boards_wf_def board_of_def restore_entry_def Let_def)

lemma restore_entries_wf: "boards_wf b \<Longrightarrow> boards_wf (b\<lparr>boards := fold restore_entry lst (boards b)\<rparr>)"
proof (induction lst arbitrary: b)
  case (Cons p lst)
  show ?case
    using Cons.IH [OF restore_entry_wf [OF Cons.prems, of p]] by simp
qed simp

lemma boards_wf_flags: "boards b' = boards b \<Longrightarrow> boards_wf b \<Longrightarrow> boards_wf b'"
  by (simp add: boards_wf_def board_of_def)

lemma boardInit_wf: "boards_wf b \<Longrightarrow> boards_wf (boardInit f b)"
proof -
  assume b: "boards_wf b"
  have "boards (boardInit f b) = boards b \<or> (\<exists>lst. boards (boardInit f b) = fold restore_entry lst (boards b))"
    by (auto simp: boardInit_def split: option.split)
  then show ?thesis
    using boards_wf_flags [OF _ b] boards_wf_flags [OF _ restore_entries_wf [OF b]] by auto
qed

lemma parsed_profile:
  "parseScoreSubmission body = Some (tour, cat, score, profile) \<Longrightarrow> length profile = scoreProfileLen \<and> tour \<noteq> 0"
  by (auto simp: parseScoreSubmission_def Let_def split: if_splits)

lemma recordScore_boards_wf:
  assumes "boards_wf b"
  shows "boards_wf (fst (recordScore f now pid body b))"
proof (cases "parseScoreSubmission body")
  case None
  then show ?thesis
    using boardInit_wf [OF assms] by (simp add: recordScore_def)
next
  case (Some x)
  then obtain tour cat score profile where s: "parseScoreSubmission body = Some (tour, cat, score, profile)"
    by (cases x) auto
  define b1 where "b1 = boardInit f b"
  have b1: "boards_wf b1"
    using boardInit_wf [OF assms] by (simp add: b1_def)
  define k where "k = \<lparr>bk_Tournament = tour, bk_Category = cat\<rparr>"
  define e where "e = (case gm_get (board_of b1 k) pid of
      Some prev \<Rightarrow> if be_Score prev \<ge> score then prev\<lparr>be_Profile := profile\<rparr> else \<lparr>be_PID = pid, be_Score = score, be_Profile = profile, be_At = now\<rparr>
    | None \<Rightarrow> \<lparr>be_PID = pid, be_Score = score, be_Profile = profile, be_At = now\<rparr>)"
  have "be_PID e = pid" "length (be_Profile e) = scoreProfileLen" "bk_Tournament k \<noteq> 0"
    using b1 parsed_profile [OF s] by (auto simp: e_def k_def boards_wf_def split: option.split)
  from boards_wf_put [OF b1 this, of True] show ?thesis
    by (simp add: recordScore_def s Let_def e_def k_def b1_def)
qed

end
