(* ===== verification/Nex_Utility.thy ===== *)
theory Nex_Utility
  imports Nex_Transport Nex_Sessions
begin

unbundle bit_operations_syntax

text \<open>
  Two small services: the utility protocol (\<^verbatim>\<open>utility.go\<close>), which answers settings queries with empty maps and
  hands out a unique id made from the account number, and the sending of notifications (\<open>SendNotification\<close> of
  \<^verbatim>\<open>notification.go\<close>), a request of the server's own with a call id from a counter.
\<close>

section \<open>Utility protocol\<close>

definition ProtocolUtility :: u16 where "ProtocolUtility = 0x6E"
definition MethodGetIntegerSettings :: u32 where "MethodGetIntegerSettings = 0x7"
definition MethodGetStringSettings :: u32 where "MethodGetStringSettings = 0x8"
definition MethodAcquireNexUniqueID :: u32 where "MethodAcquireNexUniqueID = 0x1"
definition MethodAcquireNexUniqueIDWithPassword :: u32 where "MethodAcquireNexUniqueIDWithPassword = 0x2"
definition nexUniqueIDPasswordSalt :: u64 where "nexUniqueIDPasswordSalt = 0x4e45585f50574421"

record UniqueIDInfo =
  NEXUniqueID :: u64
  NEXUniqueIDPassword :: u64

definition save_UniqueIDInfo :: "UniqueIDInfo \<Rightarrow> byte list" where
  "save_UniqueIDInfo u = out_U64 (NEXUniqueID u) @ out_U64 (NEXUniqueIDPassword u)"

definition load_UniqueIDInfo :: "UniqueIDInfo reader" where
  "load_UniqueIDInfo = in_U64 \<bind> (\<lambda>i. in_U64 \<bind> (\<lambda>p. ret \<lparr>NEXUniqueID = i, NEXUniqueIDPassword = p\<rparr>))"

definition unique_id :: "pid \<Rightarrow> UniqueIDInfo" where
  "unique_id p = \<lparr>NEXUniqueID = p, NEXUniqueIDPassword = p XOR nexUniqueIDPasswordSalt\<rparr>"

definition UtilityHandler :: "settings \<Rightarrow> pid \<Rightarrow> rmc_message \<Rightarrow> rmc_message" where
  "UtilityHandler s caller req =
     (let k = rm_Method req; answer = NewRMCSuccess s ProtocolUtility k (rm_CallID req)
      in if k = MethodGetIntegerSettings \<or> k = MethodGetStringSettings then answer (out_U32 0)
         else if k = MethodAcquireNexUniqueID then answer (out_U64 caller)
         else if k = MethodAcquireNexUniqueIDWithPassword then answer (write_level s 0 (save_UniqueIDInfo (unique_id caller)))
         else notImplemented s ProtocolUtility req)"

interpretation uidc: codec save_UniqueIDInfo load_UniqueIDInfo "\<lambda>_. True"
proof
  fix u :: UniqueIDInfo
  show "reads load_UniqueIDInfo (save_UniqueIDInfo u) u"
    unfolding load_UniqueIDInfo_def save_UniqueIDInfo_def by (intro reads_binds reads_lasts) auto
qed

text \<open>Accounts have different ids and different passwords, and the id is the account.\<close>

lemma unique_id_inj: "NEXUniqueIDPassword (unique_id p) = NEXUniqueIDPassword (unique_id q) \<longleftrightarrow> p = q"
proof
  assume "NEXUniqueIDPassword (unique_id p) = NEXUniqueIDPassword (unique_id q)"
  then have "(p XOR nexUniqueIDPasswordSalt) XOR nexUniqueIDPasswordSalt = (q XOR nexUniqueIDPasswordSalt) XOR nexUniqueIDPasswordSalt"
    by (simp add: unique_id_def)
  then show "p = q"
    by (simp add: xor.assoc)
qed simp

section \<open>Notifications\<close>

definition ProtocolNotifications :: u16 where "ProtocolNotifications = 0x0E"
definition MethodProcessNotificationEvent :: u32 where "MethodProcessNotificationEvent = 0x1"

definition notification_request :: "settings \<Rightarrow> u32 \<Rightarrow> NotificationEvent \<Rightarrow> rmc_message" where
  "notification_request s counter event =
     NewRMCRequest s ProtocolNotifications MethodProcessNotificationEvent (0xFFFE0000 + counter) (add_NotificationEvent s event)"

text \<open>The counter \<open>notifCallCounter\<close> is incremented first; the request carries its new value.\<close>

definition SendNotification :: "cref \<Rightarrow> NotificationEvent \<Rightarrow> u32 \<times> 'a transport_scheme \<Rightarrow> u32 \<times> 'a transport_scheme" where
  "SendNotification target event s =
     (case s of (counter, st) \<Rightarrow>
        (counter + 1, SendRMC target (notification_request (ep_Settings (t_ep st)) (counter + 1) event) st))"

lemma SendNotification_keeps: "keeps_identity (snd s) (snd (SendNotification r ev s))"
  by (simp add: SendNotification_def keeps_SendRMC split: prod.split)

end
