(* ===== verification/Nex_Server.thy ===== *)
theory Nex_Server
  imports Nex_Dedup Nex_Ranking Nex_Dashboard Nex_Utility
begin

text \<open>
  The server as \<open>main\<close> of \<^verbatim>\<open>server/main.go\<close> puts it together: the login endpoint with the ticket-granting
  protocol, and the secure endpoint with station registration, matchmaking behind the deduplicator, NAT
  traversal, ranking and utility, its hooks, the reaper and the dashboard.

  The state of a side extends \<open>transport\<close> with the stores its handlers use. A protocol handler is a function on
  that state; what it reads of the clock, of files and of Go's map orders is the record \<open>inputs\<close>. Both sides
  share the recall table \<open>t_auth\<close>.

  A call of the secure endpoint is handled as a whole; calls that run concurrently are modelled for the
  deduplicator itself in \<^verbatim>\<open>Nex_Dedup\<close>. A call that does not return (the attribute index that makes the padding
  loop run forever) leaves the stores as they are and gives no response; its deduplication entry stays in
  flight. In the program it also keeps the store's mutex, so that later matchmaking calls, which the model lets
  proceed, block.
\<close>

section \<open>The secure side\<close>

record server = transport +
  gs_mm :: matchmaking
  gs_ts :: tournamentStore
  gs_nat :: nat_cache
  gs_rank :: ranking
  gs_dash :: dashboard
  gs_dedup :: rmcDeduplicator
  gs_waits :: "url_wait list"
  gs_notif :: u32

type_synonym game = "unit server_ext"

record inputs =
  q_seen :: gotime
  q_event :: gotime
  q_ghost :: string
  q_enter :: gotime
  q_leave :: gotime
  q_ext :: ext_env
  q_urls :: gotime
  q_nat :: nat_env
  q_repoint :: string
  q_date :: u64
  q_nat_seen :: gotime
  q_rank :: rank_env

text \<open>The notifications of a call, in order, each with the next call id.\<close>

definition push_one :: "push \<Rightarrow> server \<Rightarrow> server" where
  "push_one push st =
     (case SendNotification (fst push) (snd push) (gs_notif st, st) of (n, st') \<Rightarrow> st'\<lparr>gs_notif := n\<rparr>)"

definition push_all :: "push list \<Rightarrow> server \<Rightarrow> server" where
  "push_all pushes st = fold push_one pushes st"

text \<open>What a handler does, and whether it returned; \<open>rmcDedup.wrap\<close> around it.\<close>

type_synonym wrapped = "cref \<Rightarrow> rmc_message \<Rightarrow> server \<Rightarrow> server \<times> rmc_message option \<times> bool"

definition wrap :: "inputs \<Rightarrow> wrapped \<Rightarrow> game rmc_handler" where
  "wrap q h r req st =
     (let run = (\<lambda>st. case h r req st of (st', resp, _) \<Rightarrow> (st', resp))
      in if \<not> deduplicateMatchmaking req then run st
         else
           let key = dedup_key (conn_of st r) req; (d, dec) = wrap_turn (q_enter q) key (gs_dedup st); st1 = st\<lparr>gs_dedup := d\<rparr>
           in case dec of
                Wait i \<Rightarrow> (st1, None)
              | Answer resp \<Rightarrow> (st1, resp)
              | Untracked \<Rightarrow> run st1
              | Run i \<Rightarrow>
                  (case h r req st1 of
                     (st2, resp, returned) \<Rightarrow>
                       (if returned then st2\<lparr>gs_dedup := execute_end (q_leave q) key i resp (gs_dedup st2)\<rparr> else st2, resp)))"

definition extension_call :: "inputs \<Rightarrow> wrapped" where
  "extension_call q r req st =
     (case ExtensionHandler (q_ext q) (t_ep st) r req (gs_mm st, gs_ts st) of
        None \<Rightarrow> (st, None, False)
      | Some ((m, ts), pushes, resp) \<Rightarrow> (push_all pushes (st\<lparr>gs_mm := m, gs_ts := ts\<rparr>), Some resp, True))"

definition matchmaking_call :: "inputs \<Rightarrow> wrapped" where
  "matchmaking_call q r req st =
     (case MatchMakingHandler (q_urls q) (q_nat q) (t_ep st) r req (gs_mm st) (gs_nat st) of
        ((m, cache), pushes, out) \<Rightarrow>
          (let st1 = push_all pushes (st\<lparr>gs_mm := m, gs_nat := cache\<rparr>)
           in case out of
                Inl resp \<Rightarrow> (st1, Some resp, True)
              | Inr w \<Rightarrow> (st1\<lparr>gs_waits := gs_waits st1 @ [w]\<rparr>, None, True)))"

definition matchmaking_ext_call :: wrapped where
  "matchmaking_ext_call r req st =
     (case MatchMakingExtHandler (t_ep st) r req (gs_mm st) of (m, resp) \<Rightarrow> (st\<lparr>gs_mm := m\<rparr>, Some resp, True))"

definition secure_connection_call :: "game rmc_handler" where
  "secure_connection_call r req st =
     (case SecureConnectionHandler (ep_Settings (t_ep st)) (conn_of st r) req of (c, resp) \<Rightarrow> (upd_of r (\<lambda>_. c) st, Some resp))"

definition nat_call :: "inputs \<Rightarrow> game rmc_handler" where
  "nat_call q r req st =
     (case NATTraversalHandler (q_repoint q) (q_nat q) (q_date q) (t_ep st) (conn_of st r) req (gs_nat st) of
        (cache, c, hook, pushes, resp) \<Rightarrow>
          (let d = (case hook of Some (p, natMap, natFilter, rtt) \<Rightarrow> noteNAT (q_nat_seen q) p natMap natFilter rtt (gs_dash st) | None \<Rightarrow> gs_dash st);
               st1 = (upd_of r (\<lambda>_. c) st)\<lparr>gs_nat := cache, gs_dash := d\<rparr>
           in (fold (\<lambda>(target, msg). SendRMC target msg) pushes st1, Some resp)))"

definition ranking_call :: "inputs \<Rightarrow> game rmc_handler" where
  "ranking_call q r req st =
     (case RankingHandler (q_rank q) (ep_Settings (t_ep st)) (c_PID (conn_of st r)) (gs_ts st) req (gs_rank st) of
        (rk, resp) \<Rightarrow> (st\<lparr>gs_rank := rk\<rparr>, Some resp))"

definition utility_call :: "game rmc_handler" where
  "utility_call r req st = (st, Some (UtilityHandler (ep_Settings (t_ep st)) (c_PID (conn_of st r)) req))"

definition note_call :: "inputs \<Rightarrow> cref \<Rightarrow> rmc_message \<Rightarrow> server \<Rightarrow> server" where
  "note_call q r req st = st\<lparr>gs_dash := noteRMC (q_ghost q) (q_seen q) (q_event q) (conn_of st r) req (gs_dash st)\<rparr>"

definition drop_player :: "game hook" where
  "drop_player r st = st\<lparr>gs_mm := RemovePlayer (c_PID (conn_of st r)) (gs_mm st)\<rparr>"

definition secure_service :: "inputs \<Rightarrow> game service" where
  "secure_service q =
     (Register ProtocolUtility utility_call
       (Register ProtocolRanking (ranking_call q)
         (Register ProtocolNATTraversal (nat_call q)
           (Register ProtocolMatchMakingExt (wrap q matchmaking_ext_call)
             (Register ProtocolMatchMaking (wrap q (matchmaking_call q))
               (Register ProtocolMatchmakeExtension (wrap q (extension_call q))
                 (Register ProtocolSecureConnection secure_connection_call new_service)))))))
     \<lparr>sv_OnRMC := Some (note_call q), sv_OnConnect := Some (\<lambda>r st. st), sv_OnDisconnect := Some drop_player\<rparr>"

section \<open>The login side\<close>

record login_server = transport +
  ls_resolver :: resolver_state

type_synonym login = "unit login_server_ext"

record login_inputs =
  li_gate :: gate_env
  li_account :: account_service
  li_env :: login_env
  li_host :: string
  li_port :: int

text \<open>A panic of the handler gives no response.\<close>

definition login_call :: "login_inputs \<Rightarrow> login rmc_handler" where
  "login_call q r req st =
     (case AuthHandler (resolveUser (li_gate q) (li_account q)) (authCfg (li_host q) (li_port q)) (li_env q)
             (c_RemoteAddr (conn_of st r)) req (ls_resolver st) (t_auth st) of
        (rs, auth, out) \<Rightarrow>
          (st\<lparr>ls_resolver := rs, t_auth := auth\<rparr>, case out of Ok resp \<Rightarrow> Some resp | _ \<Rightarrow> None))"

definition login_service :: "login_inputs \<Rightarrow> login service" where
  "login_service q = (Register ProtocolTicketGranting (login_call q) new_service)\<lparr>sv_OnRMC := Some (\<lambda>r req st. st)\<rparr>"

section \<open>No handler changes an account\<close>

lemma secure_handlers:
  assumes "handler (secure_service q) k = Some h"
  shows "h \<in> {utility_call, ranking_call q, nat_call q, wrap q matchmaking_ext_call, wrap q (matchmaking_call q),
    wrap q (extension_call q), secure_connection_call}"
  using assms by (auto simp: handler_def secure_service_def Register_def new_service_def split: if_splits)

lemma login_handlers: "handler (login_service q) k = Some h \<Longrightarrow> h = login_call q"
  by (auto simp: handler_def login_service_def Register_def new_service_def split: if_splits)

lemma SecureConnectionHandler_PID: "c_PID (fst (SecureConnectionHandler s c req)) = c_PID c"
  by (simp add: SecureConnectionHandler_def SecureConnectionHandlerWithConfig_def handleRegister_def handleReplaceURL_def
      SetStations_def Let_def split: prod.split)

lemma NATTraversalHandler_PID: "c_PID (fst (snd (NATTraversalHandler repoint env nowDate ep c req cache))) = c_PID c"
  by (simp add: NATTraversalHandler_def noteNATProperties_def SetNATProps_def Let_def split: prod.split)

lemma keeps_push_one: "keeps_identity st (push_one push st)"
proof -
  obtain n st' where s: "SendNotification (fst push) (snd push) (gs_notif st, st) = (n, st')"
    by fastforce
  then have "keeps_identity st st'"
    using SendNotification_keeps [of "(gs_notif st, st)" "fst push" "snd push"] by simp
  then show ?thesis
    unfolding push_one_def s prod.case by (rule keeps_trans) (simp add: keeps_ep)
qed

lemma keeps_push_all: "keeps_identity st (push_all pushes st)"
  unfolding push_all_def
proof (induction pushes arbitrary: st)
  case (Cons push pushes)
  show ?case
    unfolding fold_simps by (rule keeps_trans [OF keeps_push_one Cons.IH])
qed simp

lemma keeps_sends: "keeps_identity st (fold (\<lambda>(target, msg). SendRMC target msg) pushes st)"
proof (induction pushes arbitrary: st)
  case (Cons push pushes)
  show ?case
    unfolding fold_simps by (rule keeps_trans [OF _ Cons.IH]) (simp add: keeps_SendRMC split: prod.split)
qed simp

lemma keeps_fields:
  "keeps_identity st0 st \<Longrightarrow> keeps_identity st0 (st\<lparr>gs_mm := m\<rparr>)" "keeps_identity st0 st \<Longrightarrow> keeps_identity st0 (st\<lparr>gs_ts := ts\<rparr>)"
  "keeps_identity st0 st \<Longrightarrow> keeps_identity st0 (st\<lparr>gs_nat := c\<rparr>)" "keeps_identity st0 st \<Longrightarrow> keeps_identity st0 (st\<lparr>gs_rank := rk\<rparr>)"
  "keeps_identity st0 st \<Longrightarrow> keeps_identity st0 (st\<lparr>gs_dash := d\<rparr>)" "keeps_identity st0 st \<Longrightarrow> keeps_identity st0 (st\<lparr>gs_dedup := dd\<rparr>)"
  "keeps_identity st0 st \<Longrightarrow> keeps_identity st0 (st\<lparr>gs_waits := w\<rparr>)"
  by (simp_all add: keeps_identity_def)

lemma keeps_wrap:
  assumes "\<And>st. keeps_identity st (fst (h r req st))"
  shows "keeps_identity st (fst (wrap q h r req st))"
proof -
  have "keeps_identity st (fst (h r req (st\<lparr>gs_dedup := d\<rparr>)))" for d
    by (rule keeps_trans [OF _ assms]) (simp add: keeps_ep)
  then show ?thesis
    using assms [of st] by (auto simp: wrap_def Let_def keeps_ep keeps_fields split: prod.split dd_decision.split) (metis fst_conv keeps_fields(6))+
qed

lemma keeps_extension: "keeps_identity st (fst (extension_call q r req st))"
  using keeps_trans [OF keeps_fields(2) [OF keeps_fields(1) [OF keeps_refl]] keeps_push_all]
  by (auto simp: extension_call_def split: option.split prod.split)

lemma keeps_matchmaking: "keeps_identity st (fst (matchmaking_call q r req st))"
  using keeps_trans [OF keeps_fields(3) [OF keeps_fields(1) [OF keeps_refl]] keeps_push_all]
  by (auto simp: matchmaking_call_def Let_def intro: keeps_fields(7) split: prod.split sum.split)

lemma keeps_matchmaking_ext: "keeps_identity st (fst (matchmaking_ext_call r req st))"
  by (simp add: matchmaking_ext_call_def keeps_fields split: prod.split)

lemma keeps_secure_connection: "keeps_identity st (fst (secure_connection_call r req st))"
proof -
  obtain c resp where s: "SecureConnectionHandler (ep_Settings (t_ep st)) (conn_of st r) req = (c, resp)"
    by fastforce
  then have "c_PID c = c_PID (conn_of st r)"
    using SecureConnectionHandler_PID [of "ep_Settings (t_ep st)" "conn_of st r" req] by simp
  then show ?thesis
    by (simp add: secure_connection_call_def s keeps_upd_of)
qed

lemma keeps_nat: "keeps_identity st (fst (nat_call q r req st))"
proof -
  obtain cache c hook pushes resp where n:
    "NATTraversalHandler (q_repoint q) (q_nat q) (q_date q) (t_ep st) (conn_of st r) req (gs_nat st) = (cache, c, hook, pushes, resp)"
    by (metis prod_cases5)
  then have "c_PID c = c_PID (conn_of st r)"
    using NATTraversalHandler_PID [of "q_repoint q" "q_nat q" "q_date q" "t_ep st" "conn_of st r" req "gs_nat st"] by simp
  then have "keeps_identity st ((upd_of r (\<lambda>_. c) st)\<lparr>gs_nat := cache, gs_dash := d\<rparr>)" for d
    by (intro keeps_fields keeps_upd_of) simp
  then show ?thesis
    unfolding nat_call_def n prod.case Let_def fst_conv by (rule keeps_trans [OF _ keeps_sends])
qed

lemma keeps_login: "keeps_identity st (fst (login_call q r req st))"
  by (simp add: login_call_def keeps_ep split: prod.split)

interpretation secure_id: identity_service "secure_service q" for q
proof
  fix k h st r req
  assume "handler (secure_service q) k = Some h"
  then show "keeps_identity st (fst (h r req st))"
    using secure_handlers [of q k h] keeps_wrap [OF keeps_matchmaking_ext] keeps_wrap [OF keeps_matchmaking] keeps_wrap [OF keeps_extension]
      keeps_secure_connection keeps_nat
    by (auto simp: utility_call_def ranking_call_def keeps_fields split: prod.split)
qed (auto simp: secure_service_def Register_def new_service_def run_hook_def drop_player_def note_call_def keeps_fields)

interpretation login_id: identity_service "login_service q" for q
proof
  fix k h st r req
  assume "handler (login_service q) k = Some h"
  then show "keeps_identity st (fst (h r req st))"
    using login_handlers [of q k h] keeps_login by simp
qed (auto simp: login_service_def Register_def new_service_def run_hook_def)

section \<open>What every call keeps of the stores\<close>

definition ts_ok :: "tournamentStore \<Rightarrow> bool" where
  "ts_ok ts \<longleftrightarrow> gm_wf (ts_byID ts) \<and> (\<forall>k t. gm_get (ts_byID ts) k = Some t \<longrightarrow> t_ID t = k \<and> validStoredTournament t)"

definition ranking_wf :: "ranking \<Rightarrow> bool" where
  "ranking_wf rk \<longleftrightarrow> profiles_wf (rk_profiles rk) \<and> boards_wf (rk_boards rk) \<and>
     (\<forall>k b. gm_get (rk_scores rk) k = Some b \<longrightarrow> profile_ok b)"

definition dedup_wf :: "rmcDeduplicator \<Rightarrow> bool" where
  "dedup_wf d \<longleftrightarrow> gm_wf (dd_entries d) \<and> 0 < dd_max d \<and> int (length (dd_entries d)) \<le> dd_max d \<and>
     (\<forall>k i. gm_get (dd_entries d) k = Some i \<longrightarrow> i < length (dd_heap d))"

text \<open>The typing of the server's stores.\<close>

definition stores_wf :: "game \<Rightarrow> bool" where
  "stores_wf g \<longleftrightarrow>
     (\<forall>st :: server. transport.more st = g \<longrightarrow>
        mm_inv (gs_mm st) \<and> ts_ok (gs_ts st) \<and> ranking_wf (gs_rank st) \<and> dashboard_wf (gs_dash st) \<and> dedup_wf (gs_dedup st))"

lemma stores_wf_iff:
  "stores_wf (transport.more st) \<longleftrightarrow>
     mm_inv (gs_mm st) \<and> ts_ok (gs_ts st) \<and> ranking_wf (gs_rank st) \<and> dashboard_wf (gs_dash st) \<and> dedup_wf (gs_dedup st)"
proof -
  have "gs_mm st' = gs_mm st \<and> gs_ts st' = gs_ts st \<and> gs_rank st' = gs_rank st \<and> gs_dash st' = gs_dash st \<and> gs_dedup st' = gs_dedup st"
    if "transport.more st' = transport.more st" for st' :: server
    using that by (cases st; cases st') simp
  then show ?thesis
    unfolding stores_wf_def by metis
qed

subsection \<open>Tournaments\<close>

lemma ts_ok_put: "ts_ok ts \<Longrightarrow> t_ID t = k \<Longrightarrow> validStoredTournament t \<Longrightarrow> ts_ok (ts\<lparr>ts_nextID := n, ts_byID := gm_put k t (ts_byID ts), ts_dirty := d\<rparr>)"
  by (simp add: ts_ok_def)

lemma CreateTournament_ok: "ts_ok ts \<Longrightarrow> ts_ok (fst (CreateTournament env owner payload ts))"
  by (cases rule: CreateTournament_cases [of env owner payload ts]) (auto simp: ts_ok_def)

lemma joinTournament_ok: "ts_ok ts \<Longrightarrow> ts_ok (fst (joinTournament ident p ts))"
  by (auto simp: joinTournament_def ts_ok_def split: option.split)

lemma deleteTournament_ok: "ts_ok ts \<Longrightarrow> ts_ok (fst (deleteTournament ident p ts))"
  by (auto simp: deleteTournament_def ts_ok_def split: option.split)

lemma tournament_calls_ok:
  assumes "ts_ok ts"
  shows "ts_ok (fst (createTournament env ep r req ts))" "ts_ok (fst (removeTournament ep r req ts))" "ts_ok (fst (registerTournament ep r req ts))"
  using assms CreateTournament_ok [OF assms]
  by (auto simp: createTournament_def removeTournament_def registerTournament_def Let_def joinTournament_ok deleteTournament_ok
      split: option.split prod.split) (metis fst_conv)+

lemma restore_one_ok: "ts_ok ts \<Longrightarrow> ts_ok (restore_one t ts)"
  by (auto simp: restore_one_def ts_ok_def Let_def)

lemma tournamentInit_ok: "ts_ok ts \<Longrightarrow> ts_ok (tournamentInit lst ts)"
  unfolding tournamentInit_def by (induction lst arbitrary: ts) (simp_all add: restore_one_ok)

subsection \<open>Leaderboards and profiles\<close>

lemma RankingHandler_wf: "ranking_wf rk \<Longrightarrow> ranking_wf (fst (RankingHandler env s caller ts req rk))"
  using uploadCommonData_wf commonDataByPIDs_wf recordScore_boards_wf boardInit_wf
  by (auto simp: RankingHandler_def ranking_wf_def Let_def split_beta competitionRanking_def boardFor_def keepSubmittedScore_def profile_ok_def)

subsection \<open>Matchmaking\<close>

lemma of_mm_stores: "fst (of_mm out ts) = (fst out, ts)" "fst (of_ts m tout) = (m, fst tout)"
  by (simp_all add: of_mm_def of_ts_def split_beta)

text \<open>A call of the extension protocol leaves the store alone or makes one of its steps.\<close>

lemma reading_calls:
  "fst (findBySingleID ep req m) = m" "fst (resolveCode ep req m) = m" "fst (playingSession env ep r req m) = m"
  "fst (findByParticipant env ep req m) = m" "fst (getFriendNotificationData ep r req b m) = m" "fst (findByGidList ep req m) = m"
  "fst (browseNoHolder env ep req m) = m"
  by (simp_all add: findBySingleID_def resolveCode_def playingSession_def findByParticipant_def getFriendNotificationData_def
      findByGidList_def browseNoHolder_def Let_def split: option.split prod.split)

definition stores_ok :: "ext_outcome option \<Rightarrow> bool" where
  "stores_ok out \<longleftrightarrow> (case out of None \<Rightarrow> True | Some ((m, ts), _) \<Rightarrow> mm_inv m \<and> ts_ok ts)"

lemma stores_ok_simps [simp]:
  "stores_ok (Some (of_mm out ts)) \<longleftrightarrow> mm_inv (fst out) \<and> ts_ok ts" "stores_ok (Some (of_ts m tout)) \<longleftrightarrow> mm_inv m \<and> ts_ok (fst tout)"
  "stores_ok (Some ((m, ts), rest)) \<longleftrightarrow> mm_inv m \<and> ts_ok ts" "stores_ok None"
  by (simp_all add: stores_ok_def of_mm_def of_ts_def split_beta)

lemma ExtensionHandler_stores:
  assumes "mm_inv m" and "ts_ok ts"
  shows "stores_ok (ExtensionHandler env ep r req (m, ts))"
proof -
  note mm = mm_step_inv [OF _ assms(1)]
  have modify: "stores_ok (map_option (\<lambda>out. of_mm out ts) (modifyCurrentGameAttribute ep r req m))"
    using assms mm_step.intros(7) [of ep r req m] mm by (cases "modifyCurrentGameAttribute ep r req m") auto
  show ?thesis
    unfolding ExtensionHandler_def prod.case Let_def
    by (simp add: assms modify reading_calls tournament_calls_ok mm [OF mm_step.intros(1)] mm [OF mm_step.intros(2)] mm [OF mm_step.intros(3)]
        mm [OF mm_step.intros(4)] mm [OF mm_step.intros(5)] mm [OF mm_step.intros(6)] mm [OF mm_step.intros(12)] mm [OF mm_step.intros(13)])
qed

lemma updateGatheringOwnership_inv: "mm_inv m \<Longrightarrow> mm_inv (fst (updateGatheringOwnership ep req m))"
  by (simp add: updateGatheringOwnership_def Let_def split: option.split prod.split)

lemma MatchMakingHandler_inv:
  assumes "mm_inv m"
  shows "mm_inv (fst (fst (MatchMakingHandler now nenv ep r req m cache)))"
  using assms unregister_inv [OF assms] migrateGatheringOwnership_inv [OF assms] updateGatheringOwnership_inv [OF assms]
  by (auto simp: MatchMakingHandler_def Let_def findBySingleID15_def split_beta split: option.split)

lemma MatchMakingExtHandler_inv: "mm_inv m \<Longrightarrow> mm_inv (fst (MatchMakingExtHandler ep r req m))"
  by (simp add: MatchMakingExtHandler_def Let_def endParticipation_inv)

subsection \<open>The deduplicator\<close>

lemma gm_get_filter: "gm_wf m \<Longrightarrow> gm_get (filter P m) k = Some v \<Longrightarrow> gm_get m k = Some v"
  using gm_get_Some_in [of "filter P m" k v] by (simp add: gm_in_get)

lemma pruneLocked_wf:
  assumes "dedup_wf d"
  shows "dedup_wf (pruneLocked now d)"
proof -
  have "int (length (filter P (dd_entries d))) \<le> dd_max d" for P
    by (rule order_trans [of _ "int (length (dd_entries d))"]) (use assms in \<open>simp_all add: dedup_wf_def\<close>)
  then show ?thesis
    using assms by (auto simp: pruneLocked_def dedup_wf_def dest: gm_get_filter)
qed

lemma count_call_wf: "dedup_wf d \<Longrightarrow> dedup_wf (count_call now d)"
  using pruneLocked_wf [of "d\<lparr>dd_calls := dd_calls d + 1\<rparr>"] by (simp add: count_call_def dedup_wf_def Let_def)

lemma acquire_wf: "dedup_wf d \<Longrightarrow> dedup_wf (fst (acquire k d))"
  by (auto simp: acquire_def dedup_wf_def Let_def length_gm_put less_Suc_eq)

lemma del_wf: "dedup_wf d \<Longrightarrow> dedup_wf (d\<lparr>dd_entries := gm_del k (dd_entries d)\<rparr>)"
  by (auto simp: dedup_wf_def intro: order_trans [OF of_nat_mono [OF length_gm_del_le]])

lemma wrap_turn_wf: "dedup_wf d \<Longrightarrow> dedup_wf (fst (wrap_turn now k d))"
  by (auto simp: wrap_turn_def Let_def count_call_wf acquire_wf del_wf split: option.split)

lemma execute_end_wf: "dedup_wf d \<Longrightarrow> dedup_wf (execute_end now k i resp d)"
  using del_wf [of d k] by (auto simp: execute_end_def dedup_wf_def split: option.split)

subsection \<open>The calls\<close>

lemma push_all_fields [simp]:
  "gs_mm (push_all pushes st) = gs_mm st" "gs_ts (push_all pushes st) = gs_ts st" "gs_rank (push_all pushes st) = gs_rank st"
  "gs_dash (push_all pushes st) = gs_dash st" "gs_dedup (push_all pushes st) = gs_dedup st"
proof -
  have more: "transport.more st' = transport.more st \<Longrightarrow>
      gs_mm st' = gs_mm st \<and> gs_ts st' = gs_ts st \<and> gs_rank st' = gs_rank st \<and> gs_dash st' = gs_dash st \<and> gs_dedup st' = gs_dedup st"
    for st st' :: server
    by (cases st; cases st') simp
  have one: "gs_mm (push_one p st) = gs_mm st \<and> gs_ts (push_one p st) = gs_ts st \<and> gs_rank (push_one p st) = gs_rank st \<and>
      gs_dash (push_one p st) = gs_dash st \<and> gs_dedup (push_one p st) = gs_dedup st" for p st
    using more [OF more_transport(3)] by (simp add: push_one_def SendNotification_def)
  have "gs_mm (push_all pushes st) = gs_mm st \<and> gs_ts (push_all pushes st) = gs_ts st \<and> gs_rank (push_all pushes st) = gs_rank st \<and>
      gs_dash (push_all pushes st) = gs_dash st \<and> gs_dedup (push_all pushes st) = gs_dedup st" for st
    unfolding push_all_def by (induction pushes arbitrary: st) (simp_all add: one)
  then show "gs_mm (push_all pushes st) = gs_mm st" "gs_ts (push_all pushes st) = gs_ts st" "gs_rank (push_all pushes st) = gs_rank st"
    "gs_dash (push_all pushes st) = gs_dash st" "gs_dedup (push_all pushes st) = gs_dedup st"
    by simp_all
qed

lemma more_sends [simp]: "transport.more (fold (\<lambda>(target, msg). SendRMC target msg) pushes st) = transport.more st"
  by (induction pushes arbitrary: st) (simp_all add: split_beta)

lemma extension_call_stable:
  assumes "stores_wf (transport.more st)"
  shows "stores_wf (transport.more (fst (extension_call q r req st)))"
  using assms ExtensionHandler_stores [of "gs_mm st" "gs_ts st" "q_ext q" "t_ep st" r req]
  by (auto simp: extension_call_def stores_wf_iff split: option.split)

lemma matchmaking_call_stable:
  assumes "stores_wf (transport.more st)"
  shows "stores_wf (transport.more (fst (matchmaking_call q r req st)))"
  using assms MatchMakingHandler_inv [of "gs_mm st" "q_urls q" "q_nat q" "t_ep st" r req "gs_nat st"]
  by (auto simp: matchmaking_call_def stores_wf_iff Let_def split: prod.split sum.split)

lemma matchmaking_ext_call_stable:
  assumes "stores_wf (transport.more st)"
  shows "stores_wf (transport.more (fst (matchmaking_ext_call r req st)))"
  using assms MatchMakingExtHandler_inv [of "gs_mm st" "t_ep st" r req]
  by (auto simp: matchmaking_ext_call_def stores_wf_iff split: prod.split)

lemma wrap_stable:
  assumes h: "\<And>st. stores_wf (transport.more st) \<Longrightarrow> stores_wf (transport.more (fst (h r req st)))"
    and st: "stores_wf (transport.more st)"
  shows "stores_wf (transport.more (fst (wrap q h r req st)))"
proof -
  obtain d dec where w: "wrap_turn (q_enter q) (dedup_key (conn_of st r) req) (gs_dedup st) = (d, dec)"
    by fastforce
  define st1 where "st1 = st\<lparr>gs_dedup := d\<rparr>"
  have st1: "stores_wf (transport.more st1)"
    using st wrap_turn_wf [of "gs_dedup st" "q_enter q" "dedup_key (conn_of st r) req"] by (simp add: st1_def stores_wf_iff w)
  obtain st2 resp returned where e: "h r req st1 = (st2, resp, returned)"
    by (metis prod_cases3)
  have st2: "stores_wf (transport.more st2)"
    using h [OF st1] e by simp
  have "stores_wf (transport.more (st2\<lparr>gs_dedup := execute_end (q_leave q) key i resp (gs_dedup st2)\<rparr>))" for key i
    using st2 execute_end_wf by (simp add: stores_wf_iff)
  then show ?thesis
    using h [OF st] st1 st2 unfolding wrap_def Let_def w prod.case by (auto simp: e simp flip: st1_def split: prod.split dd_decision.split)
qed

lemma nat_call_stable:
  assumes "stores_wf (transport.more st)"
  shows "stores_wf (transport.more (fst (nat_call q r req st)))"
proof -
  have "stores_wf (transport.more ((upd_of r (\<lambda>_. c) st)\<lparr>gs_nat := cache, gs_dash := d\<rparr>))" if "dashboard_wf d" for c cache d
    using assms that unfolding stores_wf_iff by (simp add: upd_of_def)
  moreover have "dashboard_wf (gs_dash st)"
    using assms by (simp add: stores_wf_iff)
  ultimately show ?thesis
    using noteNAT_wf [of "gs_dash st"] by (auto simp: nat_call_def Let_def split: prod.split option.split)
qed

interpretation secure_stores: stable_service "secure_service q" stores_wf for q
proof
  fix k h st r req
  assume h: "handler (secure_service q) k = Some h" and st: "stores_wf (transport.more st)"
  have "stores_wf (transport.more (fst (ranking_call q r req st)))"
    using st RankingHandler_wf by (simp add: ranking_call_def stores_wf_iff split_beta)
  moreover have "stores_wf (transport.more (fst (secure_connection_call r req st)))"
    using st by (simp add: secure_connection_call_def split_beta)
  moreover have "stores_wf (transport.more (fst (utility_call r req st)))"
    using st by (simp add: utility_call_def)
  ultimately show "stores_wf (transport.more (fst (h r req st)))"
    using secure_handlers [OF h] st nat_call_stable [OF st] wrap_stable [OF matchmaking_ext_call_stable st]
      wrap_stable [OF matchmaking_call_stable st] wrap_stable [OF extension_call_stable st] by auto
next
  fix st r
  assume "stores_wf (transport.more st)"
  then show "stores_wf (transport.more (run_hook (sv_OnDisconnect (secure_service q)) r st))"
    using RemovePlayer_inv by (simp add: secure_service_def run_hook_def drop_player_def stores_wf_iff)
next
  fix hr st r req
  assume "sv_OnRMC (secure_service q) = Some hr" and "stores_wf (transport.more st)"
  then show "stores_wf (transport.more (hr r req st))"
    using noteRMC_wf by (auto simp: secure_service_def note_call_def stores_wf_iff)
qed (auto simp: secure_service_def Register_def new_service_def run_hook_def)

section \<open>The server as a whole\<close>

text \<open>The environment variables \<open>main\<close> reads, and the clock at its start.\<close>

record main_env =
  me_reservation :: string
  me_dedup :: string
  me_dedup_max :: string
  me_start :: gotime
  me_tournaments :: "Tournament list"

definition secure_start :: "main_env \<Rightarrow> server" where
  "secure_start e =
     \<lparr>t_ep = SetSecureAccount securePassword securePID (NewEndpoint (NewSwitchSettings accessKey nexVersion)), t_auth = empty_auth,
      t_sent = [], t_senders = [], t_loops = [],
      gs_mm = SetJoinReservationTTL (wrap64 (envOrInt (me_reservation e) 8 * 1000000000)) NewMatchmaking,
      gs_ts = tournamentInit (me_tournaments e) empty_tournaments, gs_nat = no_nat_cache,
      gs_rank = \<lparr>rk_profiles = no_profiles, rk_scores = [], rk_boards = no_boards\<rparr>, gs_dash = new_dashboard (me_start e),
      gs_dedup = newRMCDeduplicator (wrap64 (envOrInt (me_dedup e) 20 * 1000000000)) (envOrInt (me_dedup_max e) defaultRMCDedupEntries),
      gs_waits = [], gs_notif = 0\<rparr>"

definition login_start :: login_server where
  "login_start =
     \<lparr>t_ep = NewEndpoint (NewSwitchSettings accessKey nexVersion), t_auth = empty_auth, t_sent = [], t_senders = [], t_loops = [],
      ls_resolver = \<lparr>rv_nsaCache = [], rv_nsaNegCache = []\<rparr>\<rparr>"

text \<open>Evicted connections run the disconnect hook.\<close>

definition run_dropped :: "inputs \<Rightarrow> cref list \<Rightarrow> server \<Rightarrow> server" where
  "run_dropped q rs st = fold (run_hook (sv_OnDisconnect (secure_service q))) rs st"

definition StartReaper :: "string \<Rightarrow> (cref \<Rightarrow> gotime) \<Rightarrow> inputs \<Rightarrow> server \<Rightarrow> server" where
  "StartReaper v now q st =
     (if ReapIdleTimeout v \<le> 0 then st
      else case ReapIdle now (ReapIdleTimeout v) (t_ep st) of (ep, dropped, n) \<Rightarrow> run_dropped q dropped (st\<lparr>t_ep := ep\<rparr>))"

definition dashboard_call :: "string \<Rightarrow> stats_env \<Rightarrow> (cref \<Rightarrow> gotime) \<Rightarrow> string \<Rightarrow> string \<Rightarrow> (string \<Rightarrow> string) \<Rightarrow> inputs \<Rightarrow> server \<Rightarrow> server \<times> answer" where
  "dashboard_call token env idle reap path query q st =
     (case serve token env idle reap path query (gs_mm st) (t_ep st, gs_dash st) of
        ((ep, d), dropped, out) \<Rightarrow> (run_dropped q dropped (st\<lparr>t_ep := ep, gs_dash := d\<rparr>), out))"

text \<open>One turn of a goroutine that waits for a host's station.\<close>

definition url_turn :: "nat \<Rightarrow> gotime \<Rightarrow> nat_env \<Rightarrow> server \<Rightarrow> server" where
  "url_turn i now env st =
     (if i \<ge> length (gs_waits st) then st
      else
        let w = gs_waits st ! i;
            ob = \<lparr>po_now = now, po_stations = c_stationURLs (conn_of st (uw_host w)), po_env = env\<rparr>
        in case url_poll ob (m_PublicStationFirst (gs_mm st)) w (gs_nat st) of
             (cache, None) \<Rightarrow> st\<lparr>gs_nat := cache\<rparr>
           | (cache, Some urls) \<Rightarrow>
               SendRMC (uw_conn w) (sessionURLsResponse (ep_Settings (t_ep st)) (uw_req w) urls)
                 (st\<lparr>gs_nat := cache, gs_waits := take i (gs_waits st) @ drop (Suc i) (gs_waits st)\<rparr>))"

text \<open>The ticks of the flushers; what they write is in the theories of the stores.\<close>

definition flush_all :: "pid list \<Rightarrow> boardKey list \<Rightarrow> (boardKey \<Rightarrow> pid list) \<Rightarrow> u32 list \<Rightarrow> bool \<Rightarrow> server \<Rightarrow> server" where
  "flush_all pids ks ord tords written st =
     (let rk = gs_rank st;
          p = fst (commonDataFlusher pids written (rk_profiles rk, None)); b = fst (boardFlusher ks ord written (rk_boards rk, None))
      in st\<lparr>gs_rank := rk\<lparr>rk_profiles := p, rk_boards := b\<rparr>, gs_ts := fst (tournamentFlusher tords (gs_ts st))\<rparr>)"

text \<open>What happens on the secure side beside packets: goroutines, evictions, HTTP requests, closing sockets.\<close>

inductive background_step :: "server \<Rightarrow> server \<Rightarrow> bool" where
  bg_buffer: "background_step st (upd_of r (c_recvBuf_update (\<lambda>_. rest)) st)"
| bg_close: "background_step st (close (secure_service q) r st)"
| bg_send: "background_step st (sender_turn i st)"
| bg_retransmit: "background_step st (retransmit_turn i ids st)"
| bg_reap: "background_step st (StartReaper v now q st)"
| bg_http: "background_step st (fst (dashboard_call token senv idle reap path query q st))"
| bg_geo: "background_step st (st\<lparr>gs_dash := geo_fetched i gi (gs_dash st)\<rparr>)"
| bg_urls: "background_step st (url_turn i now nenv st)"
| bg_flush: "background_step st (flush_all pids ks bord tords written st)"

text \<open>Everything: also new sockets, packets, and logins on the other endpoint, which change the shared recall table.\<close>

inductive secure_step :: "server \<Rightarrow> server \<Rightarrow> bool" where
  secure_open: "secure_step st (st\<lparr>t_ep := open_socket addr (t_ep st)\<rparr>)"
| secure_packet: "r < length (ep_sockets (t_ep st)) \<Longrightarrow> secure_step st (fst (handlePacket (secure_service q) env r p st))"
| secure_background: "background_step st st' \<Longrightarrow> secure_step st st'"
| secure_login: "secure_step st (st\<lparr>t_auth := auth\<rparr>)"

definition secure_init :: "server \<Rightarrow> bool" where
  "secure_init st \<longleftrightarrow> (\<exists>e. st = secure_start e)"

subsection \<open>The stores stay well-formed\<close>

lemma run_dropped_wf: "stores_wf (transport.more st) \<Longrightarrow> stores_wf (transport.more (run_dropped q rs st))"
  unfolding run_dropped_def by (induction rs arbitrary: st) (simp_all add: secure_stores.OnDisconnect_stable)

lemma serve_dashboard_wf:
  assumes "dashboard_wf d" and "serve token env idle reap path query m (ep, d) = ((ep', d'), dropped, out)"
  shows "dashboard_wf d'"
  using assms buildStats_wf [of d env ep m]
  by (auto simp: serve_def kick_connection_def Let_def split: if_splits prod.splits option.splits)

lemma flush_all_wf:
  assumes "stores_wf (transport.more st)"
  shows "stores_wf (transport.more (flush_all pids ks bord tords written st))"
proof -
  have "commonDataStore (fst (commonDataFlusher pids written (p, c))) = commonDataStore p" for p c
    by (simp add: commonDataFlusher_def Let_def)
  moreover have "boards (fst (boardFlusher ks bord written (b, c))) = boards b" for b c
    by (simp add: boardFlusher_def)
  moreover have "ts_byID (fst (tournamentFlusher tords ts)) = ts_byID ts" for ts
    by (simp add: tournamentFlusher_def)
  ultimately show ?thesis
    using assms by (simp add: flush_all_def stores_wf_iff ranking_wf_def profiles_wf_def boards_wf_def board_of_def ts_ok_def Let_def)
qed

lemma background_stores: "background_step st st' \<Longrightarrow> stores_wf (transport.more st) \<Longrightarrow> stores_wf (transport.more st')"
proof (induction rule: background_step.induct)
  case (bg_reap st v now q)
  then show ?case
    by (auto simp: StartReaper_def intro: run_dropped_wf split: prod.split)
next
  case (bg_http st token senv idle reap path query q)
  obtain ep d dropped out where s: "serve token senv idle reap path query (gs_mm st) (t_ep st, gs_dash st) = ((ep, d), dropped, out)"
    by (metis prod.collapse)
  have "dashboard_wf d"
    using bg_http serve_dashboard_wf [OF _ s] by (simp add: stores_wf_iff)
  then have "stores_wf (transport.more (st\<lparr>t_ep := ep, gs_dash := d\<rparr>))"
    using bg_http unfolding stores_wf_iff by simp
  then show ?case
    unfolding dashboard_call_def s prod.case fst_conv by (rule run_dropped_wf)
next
  case (bg_urls st i now nenv)
  then have "stores_wf (transport.more (st\<lparr>gs_nat := c, gs_waits := w\<rparr>))" "stores_wf (transport.more (st\<lparr>gs_nat := c\<rparr>))" for c w
    unfolding stores_wf_iff by simp_all
  then show ?case
    using bg_urls by (simp add: url_turn_def Let_def split: prod.split option.split)
qed (simp_all add: secure_stores.close_stable flush_all_wf, simp add: stores_wf_iff geo_fetched_wf)

lemma secure_step_stores: "secure_step st st' \<Longrightarrow> stores_wf (transport.more st) \<Longrightarrow> stores_wf (transport.more st')"
  by (induction rule: secure_step.induct) (simp_all add: secure_stores.handlePacket_stable background_stores)

lemma secure_start_stores: "stores_wf (transport.more (secure_start e))"
proof -
  have "ts_ok empty_tournaments"
    by (simp add: ts_ok_def empty_tournaments_def)
  then show ?thesis
    unfolding stores_wf_iff
    by (simp add: secure_start_def SetJoinReservationTTL_def mm_inv_New mm_inv_other_fields tournamentInit_ok
        ranking_wf_def boards_wf_def board_of_def no_boards_def new_dashboard_wf dedup_wf_def newRMCDeduplicator_def defaultRMCDedupEntries_def)
qed

interpretation secure_run: inductive_invariant secure_init secure_step "\<lambda>st. stores_wf (transport.more st)"
  by unfold_locales (auto simp: secure_init_def secure_start_stores dest: secure_step_stores)

text \<open>C9: whatever happens on the secure endpoint, its stores stay well-formed. In every state it can reach by sockets opening
  and closing, packets, evictions, HTTP requests, background goroutines and flushers, in any order: a gathering lies
  under its own id, has participants, none of them twice, and no more participants and reserved seats than its capacity; a
  stored tournament lies under its own id and passes the validity check; profiles are nonempty and of bounded size; a
  leaderboard entry lies under its player and holds a profile of 132 bytes; the event list and the table of
  repeated calls are bounded.\<close>

theorem reachable_server_wf:
  assumes "reach secure_init secure_step st"
  shows "(\<forall>gid g. gm_get (m_gatherings (gs_mm st)) gid = Some g \<longrightarrow>
      ms_ID (g_session g) = gid \<and> g_participants g \<noteq> [] \<and> distinct (g_participants g) \<and>
      length (g_participants g) + length (g_reservations g) \<le> unat (ms_MaxParticipants (g_session g))) \<and>
    (\<forall>k t. gm_get (ts_byID (gs_ts st)) k = Some t \<longrightarrow> t_ID t = k \<and> validStoredTournament t) \<and>
    (\<forall>p b. gm_get (commonDataStore (rk_profiles (gs_rank st))) p = Some b \<longrightarrow> b \<noteq> [] \<and> length b \<le> commonDataMaxLen) \<and>
    (\<forall>k p e. gm_get (board_of (rk_boards (gs_rank st)) k) p = Some e \<longrightarrow> be_PID e = p \<and> length (be_Profile e) = scoreProfileLen) \<and>
    length (db_events (gs_dash st)) \<le> 100 \<and> int (length (dd_entries (gs_dedup st))) \<le> dd_max (gs_dedup st)"
proof -
  have wf: "mm_inv (gs_mm st)" "ts_ok (gs_ts st)" "ranking_wf (gs_rank st)" "dashboard_wf (gs_dash st)" "dedup_wf (gs_dedup st)"
    using secure_run.reachable_inv [OF assms] by (simp_all add: stores_wf_iff)
  have "ms_ID (g_session g) = gid \<and> g_participants g \<noteq> [] \<and> distinct (g_participants g) \<and>
      length (g_participants g) + length (g_reservations g) \<le> unat (ms_MaxParticipants (g_session g))"
    if "gm_get (m_gatherings (gs_mm st)) gid = Some g" for gid g
    using mm_inv_get [OF wf(1) that] by (simp add: entry_inv_def seats_inv_def seats_def capacity_def)
  then show ?thesis
    using wf(2-5) by (simp add: ts_ok_def ranking_wf_def profiles_wf_def store_wf_def profile_ok_def boards_wf_def dashboard_wf_def dedup_wf_def)
qed

text \<open>A server that has just started, with one socket open.\<close>

definition plain_main :: main_env where
  "plain_main = \<lparr>me_reservation = [], me_dedup = ''30'', me_dedup_max = [], me_start = 0, me_tournaments = []\<rparr>"

definition opened :: server where
  "opened = (secure_start plain_main)\<lparr>t_ep := open_socket ''82.6.1.9:50000'' (t_ep (secure_start plain_main))\<rparr>"

lemma opened_reach: "reach secure_init secure_step opened"
proof -
  have "reach secure_init secure_step (secure_start plain_main)"
    by (rule reach.intros(1)) (auto simp: secure_init_def)
  then show ?thesis
    unfolding opened_def by (rule reach.intros(2)) (rule secure_open)
qed

theorem reachable_server_wf_witness:
  "reach secure_init secure_step opened \<and> length (ep_sockets (t_ep opened)) = 1 \<and>
   length (db_events (gs_dash opened)) \<le> 100 \<and> int (length (dd_entries (gs_dedup opened))) \<le> 4096"
proof -
  have "dd_max (gs_dedup opened) = 4096" "length (ep_sockets (t_ep opened)) = 1"
    by (simp_all add: opened_def secure_start_def plain_main_def newRMCDeduplicator_def envOrInt_def defaultRMCDedupEntries_def open_socket_def
        SetSecureAccount_def NewEndpoint_def)
  then show ?thesis
    using reachable_server_wf [OF opened_reach] opened_reach by simp
qed

section \<open>Who speaks for an account\<close>

lemma keeps_run_dropped: "keeps_identity st (run_dropped q rs st)"
  unfolding run_dropped_def
proof (induction rs arbitrary: st)
  case (Cons r rs)
  show ?case
    unfolding fold_simps by (rule keeps_trans [OF secure_id.OnDisconnect_keeps Cons.IH])
qed simp

lemma keeps_close_all: "keeps_identity st (st\<lparr>t_ep := fst (close_all rs (t_ep st))\<rparr>)"
proof (induction rs arbitrary: st)
  case (Cons r rs)
  define st1 where "st1 = st\<lparr>t_ep := fst (close_conn r (t_ep st))\<rparr>"
  have "keeps_identity st st1"
    by (rule keeps_close_conn [of _ r]) (simp add: st1_def)
  moreover have "keeps_identity st1 (st\<lparr>t_ep := fst (close_all (r # rs) (t_ep st))\<rparr>)"
    using Cons.IH [of st1] by (simp add: st1_def split_beta Let_def)
  ultimately show ?case
    by (rule keeps_trans)
qed (simp add: keeps_ep)

lemma keeps_evict:
  "keeps_identity st (st\<lparr>t_ep := fst (ReapIdle now limit (t_ep st))\<rparr>)" "keeps_identity st (st\<lparr>t_ep := fst (KickPID p (t_ep st))\<rparr>)"
  "keeps_identity st (st\<lparr>t_ep := fst (KickConnection i (t_ep st))\<rparr>)"
  using keeps_close_all [of st] keeps_close_conn [of _ _ st]
  by (auto simp: ReapIdle_def KickPID_def KickConnection_def Let_def split_beta keeps_ep split: option.split)

lemma serve_endpoint:
  assumes "serve token env idle reap path query m (ep0, d) = ((ep, d'), dropped, out)"
  shows "ep = ep0 \<or> (\<exists>p. ep = fst (KickPID p ep0)) \<or> (\<exists>i. ep = fst (KickConnection i ep0)) \<or> (\<exists>limit. ep = fst (ReapIdle idle limit ep0))"
  using assms by (auto simp: serve_def kick_connection_def Let_def split_beta split: if_splits option.splits)

lemma keeps_serve:
  assumes "serve token env idle reap path query m (t_ep st, d) = ((ep, d'), dropped, out)"
  shows "keeps_identity st (st\<lparr>t_ep := ep\<rparr>)"
  using serve_endpoint [OF assms] keeps_evict [of st] by (auto simp: keeps_ep)

lemma keeps_sender_turn: "keeps_identity st (sender_turn i st)"
proof (cases "i < length (t_senders st)")
  case True
  obtain st1 next_sender where s: "sender_step (t_senders st ! i) st = (st1, next_sender)"
    by fastforce
  then have "keeps_identity st st1"
    by (auto simp: sender_step_def Let_def keeps_sendOneFragment split: if_splits)
  then show ?thesis
    using True by (simp add: sender_turn_def s keeps_identity_def)
qed (simp add: sender_turn_def)

lemma keeps_retransmit_turn: "keeps_identity st (retransmit_turn i ids st)"
proof -
  have "t_ep (fold (emit r) frames st) = t_ep st" for r frames
    by (induction frames arbitrary: st) simp_all
  then show ?thesis
    by (simp add: retransmit_turn_def Let_def keeps_ep)
qed

lemma keeps_url_turn: "keeps_identity st (url_turn i now env st)"
  using keeps_trans [OF keeps_fields(7) [OF keeps_fields(3) [OF keeps_refl]] keeps_SendRMC]
  by (auto simp: url_turn_def Let_def intro: keeps_fields split: prod.split option.split)

lemma background_identity: "background_step st st' \<Longrightarrow> keeps_identity st st'"
proof (induction rule: background_step.induct)
  case (bg_reap st v now q)
  show ?case
    using keeps_trans [OF keeps_evict(1) [of st now "ReapIdleTimeout v"] keeps_run_dropped] by (simp add: StartReaper_def split_beta)
next
  case (bg_http st token senv idle reap path query q)
  obtain ep d dropped out where s: "serve token senv idle reap path query (gs_mm st) (t_ep st, gs_dash st) = ((ep, d), dropped, out)"
    by (metis prod.collapse)
  have "keeps_identity st (st\<lparr>t_ep := ep, gs_dash := d\<rparr>)"
    by (intro keeps_fields keeps_serve [OF s])
  then show ?case
    unfolding dashboard_call_def s prod.case fst_conv by (rule keeps_trans [OF _ keeps_run_dropped])
qed (simp_all add: secure_id.close_keeps keeps_sender_turn keeps_retransmit_turn keeps_url_turn keeps_fields keeps_upd_of flush_all_def Let_def)

lemma ticket_login_empty: "ticket_login s key [] \<noteq> Ok v"
proof -
  have "read_all_of read_two_buffers [] = Fail"
    by code_simp
  then show ?thesis
    by (simp add: ticket_login_def)
qed

text \<open>A connection speaks only for an account that was proven on it. Whatever packet the secure endpoint handles, with all its
  protocol handlers and hooks, the account of a connection changes only on the connection the packet came from, only when
  the packet is a CONNECT whose signature is the one expected on that connection, and only to the account a login from the
  same host is remembered for (a CONNECT without a ticket) or to the account in a ticket that opens under the server's key; and
  nothing else that happens on the endpoint changes an account.\<close>

lemma accounts_only_by_login:
  assumes "r < length (ep_sockets (t_ep st))"
  shows "(\<forall>k < length (ep_sockets (t_ep st)).
      let st' = fst (handlePacket (secure_service q) env r p st)
      in c_PID (conn_of st' k) = c_PID (conn_of st k) \<or>
        k = r \<and> p_Type p = PacketCONNECT \<and>
        p_Signature p = LitePacketSignature (AccessKey (ep_Settings (t_ep st))) p (c_connectionSig (conn_of st r)) \<and>
        (if p_Payload p = [] then snd (RecallAuthPID (pe_recall env) (c_RemoteAddr (conn_of st r)) (t_auth st)) = Some (c_PID (conn_of st' r))
         else \<exists>ticket cid check. ticket_login (ep_Settings (t_ep st)) (ep_SecureKey (t_ep st)) (p_Payload p) = Ok (ticket, cid, check) \<and>
                st_Source ticket = c_PID (conn_of st' r))) \<and>
    (\<forall>st2 k. background_step st st2 \<longrightarrow> k < length (ep_sockets (t_ep st)) \<longrightarrow> c_PID (conn_of st2 k) = c_PID (conn_of st k))"
proof (intro conjI allI impI)
  fix k
  assume k: "k < length (ep_sockets (t_ep st))"
  show "let st' = fst (handlePacket (secure_service q) env r p st)
      in c_PID (conn_of st' k) = c_PID (conn_of st k) \<or>
        k = r \<and> p_Type p = PacketCONNECT \<and>
        p_Signature p = LitePacketSignature (AccessKey (ep_Settings (t_ep st))) p (c_connectionSig (conn_of st r)) \<and>
        (if p_Payload p = [] then snd (RecallAuthPID (pe_recall env) (c_RemoteAddr (conn_of st r)) (t_auth st)) = Some (c_PID (conn_of st' r))
         else \<exists>ticket cid check. ticket_login (ep_Settings (t_ep st)) (ep_SecureKey (t_ep st)) (p_Payload p) = Ok (ticket, cid, check) \<and>
                st_Source ticket = c_PID (conn_of st' r))"
    using secure_id.handlePacket_identity [OF assms k, of q env p] ticket_login_empty
    by (auto simp: Let_def proven_account_def)
next
  fix st2 k
  assume "background_step st st2" and "k < length (ep_sockets (t_ep st))"
  then show "c_PID (conn_of st2 k) = c_PID (conn_of st k)"
    using background_identity [of st st2] by (simp add: keeps_identity_def)
qed

definition returning :: server where
  "returning = opened\<lparr>t_auth := \<lparr>as_table = [(''82.6.1.9'', \<lparr>ar_pid = 1800000001, ar_at = 0\<rparr>)], as_dirty = False, as_once = True\<rparr>\<rparr>"

lemma accounts_only_by_login_example:
  "\<forall>q. c_PID (conn_of (fst (handlePacket (secure_service q) sample_penv 0 (zero_packet\<lparr>p_Type := PacketCONNECT\<rparr>) returning)) 0) \<in> {0, 1800000001}"
proof
  fix q
  have sockets: "length (ep_sockets (t_ep returning)) = 1" and pid: "c_PID (conn_of returning 0) = 0"
    and addr: "c_RemoteAddr (conn_of returning 0) = ''82.6.1.9:50000''"
    by (simp_all add: returning_def opened_def secure_start_def open_socket_def SetSecureAccount_def NewEndpoint_def conn_at_def
        NewConnection_def)
  have "ipHost ''82.6.1.9:50000'' = ''82.6.1.9''"
    by code_simp
  then have "snd (RecallAuthPID (pe_recall sample_penv) ''82.6.1.9:50000'' (t_auth returning)) = Some 1800000001"
    by (simp add: RecallAuthPID_def returning_def sample_penv_def sample_recall_def authRecallInit_def authRecallTTL_def Let_def)
  then show "c_PID (conn_of (fst (handlePacket (secure_service q) sample_penv 0 (zero_packet\<lparr>p_Type := PacketCONNECT\<rparr>) returning)) 0) \<in> {0, 1800000001}"
    using accounts_only_by_login [of 0 returning q sample_penv "zero_packet\<lparr>p_Type := PacketCONNECT\<rparr>"] sockets pid addr
    by (auto simp: Let_def zero_packet_def)
qed

section \<open>Eviction\<close>

lemma secure_step_refs: "secure_step st st' \<Longrightarrow> refs_ok (t_ep st) \<Longrightarrow> refs_ok (t_ep st')"
proof (induction rule: secure_step.induct)
  case (secure_background st st')
  then show ?case
    using background_identity [of st st'] by (simp add: keeps_identity_def)
qed (simp_all add: secure_id.handlePacket_refs)

interpretation secure_refs: inductive_invariant secure_init secure_step "\<lambda>st. refs_ok (t_ep st)"
proof
  show "refs_ok (t_ep st)" if "secure_init st" for st
    using that by (auto simp: secure_init_def secure_start_def SetSecureAccount_def refs_ok_def NewEndpoint_def)
qed (rule secure_step_refs)

text \<open>C14: eviction is exact. In every state the secure endpoint can reach, a pass of the reaper closes precisely the connections of the table without
  traffic for the configured time, and kicking an account closes precisely the connections of the table that speak for it. All
  other connections stay as they are; \<open>OnDisconnect\<close> runs once for each connection that was not closed already; the table loses the entries under the ids the closed
  connections have, and no other. Where each connection is in the table once, under its own id, the kicked account is not found any
  more, and every other account is found where it was.\<close>

theorem eviction_exact:
  assumes "reach secure_init secure_step st" and "0 < maxIdle" and "p \<noteq> 0"
  defines "ep \<equiv> t_ep st"
  shows "evicts (idle_conn now maxIdle ep) ep (ReapIdle now maxIdle ep) \<and> evicts (\<lambda>r. c_PID (conn_at ep r) = p) ep (KickPID p ep) \<and>
    (ep_wf ep \<longrightarrow> FindConnectionByPID (fst (KickPID p ep)) p = None \<and>
       (\<forall>q. q \<noteq> p \<longrightarrow> FindConnectionByPID (fst (KickPID p ep)) q = FindConnectionByPID ep q))"
proof -
  have refs: "refs_ok ep"
    unfolding ep_def by (rule secure_refs.reachable_inv [OF assms(1)])
  have "FindConnectionByPID (fst (KickPID p ep)) p = None" if "ep_wf ep"
    using kicked_not_found [OF that assms(3), of 0] assms(3) by simp
  then show ?thesis
    using evictions(1) [OF refs assms(2)] evictions(2) [OF refs assms(3)] kicked_not_found [OF _ assms(3)] by simp
qed

text \<open>A CONNECT without a ticket from a host that is remembered.\<close>

lemma connect_recalled_state:
  assumes "r < length (ep_sockets (t_ep st))" and "ep_Secure (t_ep st)" and "p_Type p = PacketCONNECT" and "\<not> HasFlag p FlagACK" and "p_Payload p = []"
    and "p_Signature p = LitePacketSignature (AccessKey (ep_Settings (t_ep st))) p (c_connectionSig (conn_of st r))"
    and "RecallAuthPID (pe_recall env) (c_RemoteAddr (conn_of st r)) (t_auth st) = (auth, Some pid)"
  shows "fst (handlePacket (secure_service q) env r p st) =
    connected (secure_service q) r [] (upd_of r (c_PID_update (\<lambda>_. pid)) ((upd_of r (c_lastSeen_update (\<lambda>_. pe_now env)) st)\<lparr>t_auth := auth\<rparr>))"
proof -
  define st1 where "st1 = upd_of r (c_lastSeen_update (\<lambda>_. pe_now env)) st"
  have same: "c_RemoteAddr (conn_of st1 r) = c_RemoteAddr (conn_of st r)" "c_connectionSig (conn_of st1 r) = c_connectionSig (conn_of st r)"
    "t_auth st1 = t_auth st" "ep_Settings (t_ep st1) = ep_Settings (t_ep st)" "ep_Secure (t_ep st1)"
    using assms(1,2) by (simp_all add: st1_def)
  have "processLoginRequest env r [] st1 = (upd_of r (c_PID_update (\<lambda>_. pid)) (st1\<lparr>t_auth := auth\<rparr>), Ok [])"
    using assms(7) same by (simp add: processLoginRequest_def Let_def)
  then show ?thesis
    using assms(3-6) same by (simp add: handlePacket_def processCONNECT_def packet_consts Let_def flip: st1_def)
qed

definition returning_connect :: Packet where
  "returning_connect = zero_packet\<lparr>p_Type := PacketCONNECT, p_Signature := LitePacketSignature accessKey (zero_packet\<lparr>p_Type := PacketCONNECT\<rparr>) []\<rparr>"

definition returned :: "inputs \<Rightarrow> server" where
  "returned q = fst (handlePacket (secure_service q) sample_penv 0 returning_connect returning)"

lemma returned_reach: "reach secure_init secure_step (returned q)"
proof -
  have r: "reach secure_init secure_step returning"
    unfolding returning_def by (rule reach_step [OF opened_reach]) (rule secure_login)
  have "0 < length (ep_sockets (t_ep returning))"
    by (simp add: returning_def opened_def open_socket_def)
  from secure_packet [OF this, of q sample_penv returning_connect] show ?thesis
    unfolding returned_def by (rule reach_step [OF r])
qed

lemma returned_endpoint:
  "ep_sockets (t_ep (returned q)) = [(NewConnection ''82.6.1.9:50000'')\<lparr>c_lastSeen := pe_now sample_penv, c_PID := 1800000001, c_state := stateConnected, c_ID := 1\<rparr>]"
  "ep_connections (t_ep (returned q)) = [(1, 0)]"
proof -
  have ep: "ep_sockets (t_ep returning) = [NewConnection ''82.6.1.9:50000'']" "ep_connections (t_ep returning) = []" "ep_connCounter (t_ep returning) = 0"
    "ep_Secure (t_ep returning)" "AccessKey (ep_Settings (t_ep returning)) = accessKey"
    by (simp_all add: returning_def opened_def secure_start_def open_socket_def SetSecureAccount_def NewEndpoint_def NewSwitchSettings_def)
  have conn: "conn_of returning 0 = NewConnection ''82.6.1.9:50000''"
    by (simp add: conn_at_def ep(1))
  have "ipHost ''82.6.1.9:50000'' = ''82.6.1.9''"
    by code_simp
  then have "snd (RecallAuthPID (pe_recall sample_penv) ''82.6.1.9:50000'' (t_auth returning)) = Some 1800000001"
    by (simp add: RecallAuthPID_def returning_def sample_penv_def sample_recall_def authRecallInit_def authRecallTTL_def Let_def)
  then obtain auth where re: "RecallAuthPID (pe_recall sample_penv) ''82.6.1.9:50000'' (t_auth returning) = (auth, Some 1800000001)"
    by (metis prod.collapse)
  have pkt: "p_Type returning_connect = PacketCONNECT" "\<not> HasFlag returning_connect FlagACK" "p_Payload returning_connect = []"
    "p_Signature returning_connect = LitePacketSignature accessKey returning_connect []"
    by (simp_all add: returning_connect_def zero_packet_def HasFlag_def LitePacketSignature_def)
  have "returned q = connected (secure_service q) 0 []
      (upd_of 0 (c_PID_update (\<lambda>_. 1800000001)) ((upd_of 0 (c_lastSeen_update (\<lambda>_. pe_now sample_penv)) returning)\<lparr>t_auth := auth\<rparr>))"
    unfolding returned_def using ep re pkt by (intro connect_recalled_state) (simp_all add: conn NewConnection_def)
  then show "ep_sockets (t_ep (returned q)) = [(NewConnection ''82.6.1.9:50000'')\<lparr>c_lastSeen := pe_now sample_penv, c_PID := 1800000001, c_state := stateConnected, c_ID := 1\<rparr>]"
    "ep_connections (t_ep (returned q)) = [(1, 0)]"
    by (simp_all add: connected_def secure_service_def run_hook_def Let_def registerConnection_def upd_of_def upd_conn_def conn_at_def emit_def ep)
qed

theorem eviction_exact_witness:
  "\<forall>q. let ep = t_ep (returned q); ep' = fst (KickPID 1800000001 ep)
     in reach secure_init secure_step (returned q) \<and> FindConnectionByPID ep 1800000001 = Some 0 \<and> c_state (conn_at ep 0) = stateConnected \<and>
        FindConnectionByPID ep' 1800000001 = None \<and> c_state (conn_at ep' 0) = stateClosed"
proof
  fix q
  have wf: "ep_wf (t_ep (returned q))"
    by (simp add: ep_wf_def gm_wf_def conn_entry_ok_def conn_at_def returned_endpoint)
  have ep: "FindConnectionByPID (t_ep (returned q)) 1800000001 = Some 0" "c_state (conn_at (t_ep (returned q)) 0) = stateConnected"
    by (simp_all add: FindConnectionByPID_def newest_of_def conn_at_def returned_endpoint)
  have "{r. r \<in> snd ` set (ep_connections (t_ep (returned q))) \<and> c_PID (conn_at (t_ep (returned q)) r) = 1800000001} = {0}"
    by (auto simp: conn_at_def returned_endpoint)
  then show "let ep = t_ep (returned q); ep' = fst (KickPID 1800000001 ep)
     in reach secure_init secure_step (returned q) \<and> FindConnectionByPID ep 1800000001 = Some 0 \<and> c_state (conn_at ep 0) = stateConnected \<and>
        FindConnectionByPID ep' 1800000001 = None \<and> c_state (conn_at ep' 0) = stateClosed"
    using eviction_exact [OF returned_reach [of q], where maxIdle = 1 and p = 1800000001 and now = "\<lambda>_. 0"] wf ep returned_reach [of q]
    by (simp add: evicts_def Let_def split_beta)
qed

text \<open>What arrives on a socket is a sequence of these steps: opening, feeding a frame and closing stay within the reachable states.\<close>

lemma handle_packets_steps:
  "r < length (ep_sockets (t_ep st)) \<Longrightarrow> secure_step\<^sup>*\<^sup>* st (handle_packets (secure_service q) env k r ps st)"
proof (induction ps arbitrary: k st)
  case (Cons p ps)
  obtain st1 stop where h: "handlePacket (secure_service q) (env k) r p st = (st1, stop)"
    by fastforce
  then have one: "secure_step st st1"
    using secure_packet [OF Cons.prems, of q "env k" p] by simp
  have "r < length (ep_sockets (t_ep st1))"
    using Cons.prems secure_id.handlePacket_sockets [of q "env k" r p st] h by simp
  then show ?case
    using one Cons.IH [of st1 "Suc k"] h by (cases stop) (auto intro: converse_rtranclp_into_rtranclp)
qed simp

lemma Feed_steps:
  assumes "r < length (ep_sockets (t_ep st))"
  shows "secure_step\<^sup>*\<^sup>* st (Feed (secure_service q) env r dat st)"
proof -
  obtain rest packets where f: "feed (c_recvBuf (conn_of st r)) dat = (rest, packets)"
    by fastforce
  have "secure_step st (upd_of r (c_recvBuf_update (\<lambda>_. rest)) st)"
    by (intro secure_background bg_buffer)
  then show ?thesis
    using handle_packets_steps [of r "upd_of r (c_recvBuf_update (\<lambda>_. rest)) st" q env 0 packets] assms
    by (auto simp: Feed_def f Let_def intro: converse_rtranclp_into_rtranclp)
qed

text \<open>A server whose sockets belong to its connections; every event of the WebSocket library keeps it that way.\<close>

definition sockets_ok :: "game sockets \<Rightarrow> bool" where
  "sockets_ok s \<longleftrightarrow> (\<forall>k r. gm_get (fst s) k = Some r \<longrightarrow> r < length (ep_sockets (t_ep (snd s)))) \<and> gm_wf (fst s)"

lemma OnOpen_step: "secure_step (snd s) (snd (OnOpen socket addr s))"
  using secure_open by (cases s) (simp add: OnOpen_def)

lemma OnClose_step: "secure_step\<^sup>=\<^sup>= (snd s) (snd (OnClose (secure_service q) socket s))"
  using secure_background [OF bg_close] by (cases s) (auto simp: OnClose_def split: option.split)

lemma OnMessage_steps:
  assumes "sockets_ok s"
  shows "secure_step\<^sup>*\<^sup>* (snd s) (snd (OnMessage (secure_service q) env socket binary dat s))"
  using assms Feed_steps by (cases s) (auto simp: OnMessage_def sockets_ok_def split: option.split)

lemma handle_packets_sockets:
  "length (ep_sockets (t_ep (handle_packets (secure_service q) env k r ps st))) = length (ep_sockets (t_ep st))"
proof (induction ps arbitrary: k st)
  case (Cons p ps)
  show ?case
    using secure_id.handlePacket_sockets [of q "env k" r p st] Cons.IH by (auto split: prod.split bool.split)
qed simp

lemma sockets_ok_events:
  assumes "sockets_ok s"
  shows "sockets_ok (OnOpen socket addr s)" "sockets_ok (OnClose (secure_service q) socket s)"
    "sockets_ok (OnMessage (secure_service q) env socket binary dat s)"
proof -
  obtain conns st where s: "s = (conns, st)"
    by fastforce
  show "sockets_ok (OnOpen socket addr s)"
    using assms by (fastforce simp: s OnOpen_def sockets_ok_def open_socket_def)
  have "length (ep_sockets (t_ep (close (secure_service q) r st))) = length (ep_sockets (t_ep st))" for r
    using secure_id.close_keeps [of st q r] by (simp add: keeps_identity_def)
  then show "sockets_ok (OnClose (secure_service q) socket s)"
    using assms by (simp add: s OnClose_def sockets_ok_def split: option.split)
  have "length (ep_sockets (t_ep (Feed (secure_service q) env r dat st))) = length (ep_sockets (t_ep st))" for r
    by (simp add: Feed_def Let_def split_beta handle_packets_sockets)
  then show "sockets_ok (OnMessage (secure_service q) env socket binary dat s)"
    using assms by (simp add: s OnMessage_def sockets_ok_def split: option.split)
qed

end
