(* ===== verification/Nex_Listener.thy ===== *)
theory Nex_Listener
  imports Nex_Login Nex_Transport
begin

text \<open>
  The listener of \<^verbatim>\<open>nextendo-nex/proxyproto.go\<close>: behind a TLS-passthrough proxy the login server reads the
  console's address from a PROXY protocol header, so that the login is remembered under the address the
  console later uses on the secure endpoint.

  A connection is what arrived on it so far and whether the other side closed it; \<open>Accept\<close> that
  cannot go on without more bytes is none. \<open>net.IP.String\<close>, \<open>net.JoinHostPort\<close> and the two functions of
  \<open>bufio.Reader\<close> are translated from their documentation.
\<close>

section \<open>Printing addresses\<close>

definition JoinHostPort :: "string \<Rightarrow> string \<Rightarrow> string" where
  "JoinHostPort host port = (if has_char CHR '':'' host then ''['' @ host @ '']:'' @ port else host @ '':'' @ port)"

definition v6_group :: "ip_addr \<Rightarrow> nat \<Rightarrow> nat" where
  "v6_group ip i = 256 * unat (ip ! (2 * i)) + unat (ip ! (2 * i + 1))"

fun hex_lower :: "nat \<Rightarrow> string" where
  "hex_lower n = (if n < 16 then [hex_char n] else hex_lower (n div 16) @ [hex_char (n mod 16)])"

declare hex_lower.simps [simp del]

text \<open>The first of the longest runs of at least two zero groups, as its start and end.\<close>

definition zero_run :: "ip_addr \<Rightarrow> nat \<Rightarrow> nat" where
  "zero_run ip i = length (takeWhile (\<lambda>j. v6_group ip j = 0) [i..<8])"

definition longest_zeros :: "ip_addr \<Rightarrow> (nat \<times> nat) option" where
  "longest_zeros ip =
     fold (\<lambda>i best. let l = zero_run ip i
       in if l \<ge> 2 \<and> (case best of None \<Rightarrow> True | Some (s, e) \<Rightarrow> l > e - s) then Some (i, i + l) else best) [0..<8] None"

definition v6_String :: "ip_addr \<Rightarrow> string" where
  "v6_String ip =
     (let hexes = (\<lambda>is. str_join '':'' (map (\<lambda>i. hex_lower (v6_group ip i)) is))
      in case longest_zeros ip of
           None \<Rightarrow> hexes [0..<8]
         | Some (s, e) \<Rightarrow> hexes [0..<s] @ ''::'' @ hexes [e..<8])"

definition v4_String :: "byte list \<Rightarrow> string" where
  "v4_String v = str_join ''.'' (map (\<lambda>b. nat_str (unat b)) v)"

definition IP_String :: "ip_addr \<Rightarrow> string" where
  "IP_String ip = (case To4 ip of Some v \<Rightarrow> v4_String v | None \<Rightarrow> v6_String ip)"

definition TCPAddr_String :: "ip_addr \<Rightarrow> int \<Rightarrow> string" where
  "TCPAddr_String ip port = JoinHostPort (IP_String ip) (Itoa port)"

section \<open>The buffered reader\<close>

text \<open>None: the call waits for more bytes. A stream that ends before the delimiter is an error, and its bytes are consumed.\<close>

definition Peek :: "nat \<Rightarrow> bool \<Rightarrow> byte list \<Rightarrow> byte list option" where
  "Peek n eof bs = (if length bs \<ge> n \<or> eof then Some (take n bs) else None)"

definition ReadString :: "byte \<Rightarrow> bool \<Rightarrow> byte list \<Rightarrow> (byte list go_result \<times> byte list) option" where
  "ReadString delim eof bs =
     (let line = takeWhile (\<lambda>b. b \<noteq> delim) bs
      in if length line < length bs then Some (Ok (line @ [delim]), drop (length line + 1) bs)
         else if eof then Some (Fail, []) else None)"

section \<open>Accepting a connection\<close>

record proxyConn =
  pc_Conn :: string
  pc_reader :: "byte list"
  pc_remoteAddr :: "string option"

definition RemoteAddr :: "proxyConn \<Rightarrow> string" where
  "RemoteAddr pc = (case pc_remoteAddr pc of Some a \<Rightarrow> a | None \<Rightarrow> pc_Conn pc)"

definition header_addr :: "string \<Rightarrow> string option" where
  "header_addr line =
     (let f = Fields (TrimSpace line)
      in if length f \<ge> 6 \<and> (f ! 1 = ''TCP4'' \<or> f ! 1 = ''TCP6'')
         then map_option (\<lambda>ip. TCPAddr_String ip (fst (Atoi (f ! 4)))) (ParseIP (f ! 2)) else None)"

definition Accept :: "bool \<Rightarrow> string \<Rightarrow> byte list \<Rightarrow> proxyConn option" where
  "Accept eof peer bs =
     (case Peek 6 eof bs of
        None \<Rightarrow> None
      | Some head \<Rightarrow>
          if string_of head = ''PROXY '' then
            (case ReadString 10 eof bs of
               None \<Rightarrow> None
             | Some (line, rest) \<Rightarrow>
                 Some \<lparr>pc_Conn = peer, pc_reader = rest, pc_remoteAddr = (case line of Ok l \<Rightarrow> header_addr (string_of l) | _ \<Rightarrow> None)\<rparr>)
          else Some \<lparr>pc_Conn = peer, pc_reader = bs, pc_remoteAddr = None\<rparr>)"

section \<open>Fields of a header\<close>

text \<open>Characters that begin no white space.\<close>

definition plain :: "char \<Rightarrow> bool" where
  "plain c \<longleftrightarrow> c \<notin> hd ` set go_spaces"

lemma find_plain: "plain c \<Longrightarrow> find (\<lambda>x. starts_with x (c # cs)) go_spaces = None"
  by (auto simp: plain_def find_None_iff go_spaces_def starts_with_def)

lemma go_fields_word: "list_all plain w \<Longrightarrow> go_fields cur (w @ rest) = go_fields (cur @ w) rest"
  by (induction w arbitrary: cur) (simp_all add: find_plain)

lemma go_fields_space: "cur \<noteq> [] \<Longrightarrow> go_fields cur (CHR '' '' # rest) = cur # go_fields [] rest"
  by (simp add: go_spaces_def starts_with_def)

lemma Fields_words:
  assumes "ws \<noteq> []" and "list_all (\<lambda>w. w \<noteq> [] \<and> list_all plain w) ws"
  shows "Fields (str_join '' '' ws) = ws"
  using assms
proof (induction "'' ''" ws rule: str_join.induct)
  case (2 w)
  then show ?case
    using go_fields_word [of w "[]" "[]"] by (simp add: Fields_def)
next
  case (3 w v vs)
  then have "go_fields [] (w @ CHR '' '' # str_join '' '' (v # vs)) = w # go_fields [] (str_join '' '' (v # vs))"
    using go_fields_word [of w "[]"] go_fields_space [of w] by (simp del: go_fields.simps)
  then show ?case
    using 3 by (simp add: Fields_def)
qed simp

lemma trim_left_plain: "plain c \<Longrightarrow> trim_left go_spaces (c # s) = c # s"
  by (subst trim_left.simps) (auto simp: plain_def find_None_iff go_spaces_def starts_with_def split: option.split)

text \<open>From the right, a digit is never the last byte of a white space.\<close>

lemma trim_right_digit: "is_digit c \<Longrightarrow> trim_left (map rev go_spaces) (c # s) = c # s"
proof -
  assume c: "is_digit c"
  have "list_all (\<lambda>x. x \<noteq> [] \<and> \<not> is_digit (hd x)) (map rev go_spaces)"
    by code_simp
  then have "find (\<lambda>x. x \<noteq> [] \<and> starts_with x (c # s)) (map rev go_spaces) = None"
    using c by (auto simp: find_None_iff list_all_iff starts_with_def neq_Nil_conv)
  then show ?thesis
    by (subst trim_left.simps) simp
qed

lemma trim_right_crlf: "trim_left (map rev go_spaces) (CHR 0x0A # CHR 0x0D # s) = trim_left (map rev go_spaces) s"
  by (subst trim_left.simps, simp add: go_spaces_def starts_with_def) (subst trim_left.simps, simp add: starts_with_def)

lemma TrimSpace_line:
  assumes "plain (hd s)" and "s \<noteq> []" and "is_digit (last s)"
  shows "TrimSpace (s @ [CHR 0x0D, CHR 0x0A]) = s"
proof -
  obtain c t where s: "s = c # t"
    using assms(2) by (cases s) auto
  obtain d u where r: "rev s = d # u" and "is_digit d"
    using assms(2,3) by (cases "rev s") (auto simp: last_rev [symmetric] hd_rev)
  have "trim_left go_spaces (s @ [CHR 0x0D, CHR 0x0A]) = s @ [CHR 0x0D, CHR 0x0A]"
    using assms(1) by (simp add: s trim_left_plain)
  then show ?thesis
    using \<open>is_digit d\<close> r by (simp add: TrimSpace_def trim_right_crlf trim_right_digit)
qed

section \<open>Printed IPv4 addresses\<close>

lemma digit_plain: "is_digit c \<Longrightarrow> plain c"
proof -
  have "list_all (\<lambda>x. \<not> is_digit (hd x)) go_spaces"
    by code_simp
  then show "is_digit c \<Longrightarrow> plain c"
    by (auto simp: plain_def list_all_iff)
qed

lemma v4_String4: "v4_String [a, b, c, d] = dotted (unat a) (unat b) (unat c) (unat d)"
  by (simp add: v4_String_def dotted_def)

lemma dotted_no: "\<not> is_digit x \<Longrightarrow> x \<noteq> CHR ''.'' \<Longrightarrow> x \<notin> set (dotted a b c d)"
  by (simp add: dotted_def nat_str_not)

lemma ParseIP_v4_String: "ParseIP (v4_String [a, b, c, d]) = Some (v4_prefix @ [a, b, c, d])"
  by (simp add: v4_String4 ParseIP_dotted unat_byte_less)

lemma IP_String_v4: "IP_String (v4_prefix @ [a, b, c, d]) = v4_String [a, b, c, d]"
  by (simp add: IP_String_def To4_embedded)

text \<open>The header a proxy prepends for an IPv4 client: its address and port, and those of the destination.\<close>

definition proxy_header :: "byte list \<Rightarrow> string \<Rightarrow> nat \<Rightarrow> nat \<Rightarrow> string" where
  "proxy_header ip dst port dport =
     str_join '' '' [''PROXY'', ''TCP4'', v4_String ip, dst, nat_str port, nat_str dport] @ [CHR 0x0D, CHR 0x0A]"

lemma v4_String_plain: "list_all plain (v4_String [a, b, c, d])" "v4_String [a, b, c, d] \<noteq> []"
proof -
  have "list_all plain (nat_str n)" for n
    using nat_str_digits [of n] by (auto simp: list_all_iff digit_plain)
  moreover have "plain CHR ''.''"
    by code_simp
  ultimately show "list_all plain (v4_String [a, b, c, d])"
    by (simp add: v4_String4 dotted_def)
qed (simp add: v4_String4 dotted_def)

lemma header_addr_v4:
  assumes "list_all plain dst" and "dst \<noteq> []" and "port < 2 ^ 16"
  shows "header_addr (proxy_header [a, b, c, d] dst port dport) = Some (v4_String [a, b, c, d] @ '':'' @ nat_str port)"
proof -
  define ws where "ws = [''PROXY'', ''TCP4'', v4_String [a, b, c, d], dst, nat_str port, nat_str dport]"
  have words: "plain CHR ''P''" "list_all plain ''PROXY''" "list_all plain ''TCP4''"
    by code_simp+
  have digits: "list_all plain (nat_str n)" "nat_str n \<noteq> []" "is_digit (last (nat_str n))" for n
    using nat_str_digits [of n] last_in_set [of "nat_str n"] by (auto simp: list_all_iff digit_plain)
  have "TrimSpace (str_join '' '' ws @ [CHR 0x0D, CHR 0x0A]) = str_join '' '' ws"
    by (rule TrimSpace_line) (simp_all add: ws_def words digits)
  moreover have "Fields (str_join '' '' ws) = ws"
    by (rule Fields_words) (use words in \<open>simp_all add: ws_def digits assms v4_String_plain\<close>)
  moreover have "Atoi (nat_str port) = (int port, True)"
    using Atoi_Itoa [of "int port"] assms(3) by (simp add: Itoa_def)
  moreover have "\<not> has_char CHR '':'' (v4_String [a, b, c, d])"
    by (simp add: has_char_def v4_String4 dotted_no is_digit_def)
  ultimately show ?thesis
    by (simp add: header_addr_def proxy_header_def ws_def [symmetric])
      (simp add: ws_def ParseIP_v4_String TCPAddr_String_def IP_String_v4 JoinHostPort_def Itoa_def)
qed

lemma ipHost_v4: "ipHost (v4_String [a, b, c, d] @ '':'' @ nat_str port) = v4_String [a, b, c, d]"
proof -
  have no: "x \<notin> set (v4_String [a, b, c, d])" if "x \<in> {CHR '':'', CHR ''['', CHR '']''}" for x
    using that by (auto simp: v4_String4 dotted_no is_digit_def)
  have idx: "last_index CHR '':'' (s @ CHR '':'' # t) = Some (length s)" if "CHR '':'' \<notin> set t" for s t
  proof -
    have "last_index CHR '':'' t = None"
      using that by (induction t) auto
    then show ?thesis
      by (induction s) simp_all
  qed
  have "hd (v4_String [a, b, c, d] @ u) \<noteq> CHR ''[''" for u
    using no [of "CHR ''[''"] v4_String_plain(2) [of a b c d] by (cases "v4_String [a, b, c, d]") auto
  then show ?thesis
    by (simp add: ipHost_def SplitHostPort_def idx nat_str_not is_digit_def has_char_def no)
qed

lemma recall_remembered:
  assumes "ipHost addr' = ipHost addr" and "p \<noteq> 0" and "re_now env' - re_now env \<le> authRecallTTL"
  shows "snd (RecallAuthPID env' addr' (RememberAuthPID env addr p st)) = Some p"
proof -
  have "as_once (RememberAuthPID env addr p st)"
    by (simp add: RememberAuthPID_def authRecallInit_def Let_def split: option.split)
  then have "authRecallInit env' (RememberAuthPID env addr p st) = RememberAuthPID env addr p st"
    by (simp add: authRecallInit_def)
  then show ?thesis
    using assms by (simp add: RecallAuthPID_def) (simp add: RememberAuthPID_def Let_def)
qed

lemma Accept_header:
  assumes "list_all plain dst" and "dst \<noteq> []" and "port < 2 ^ 16"
  shows "Accept eof peer (bytes_of (proxy_header [a, b, c, d] dst port dport) @ stream) =
    Some \<lparr>pc_Conn = peer, pc_reader = stream, pc_remoteAddr = Some (v4_String [a, b, c, d] @ '':'' @ nat_str port)\<rparr>"
proof -
  define line where "line = butlast (proxy_header [a, b, c, d] dst port dport)"
  have "CHR 0x0A \<notin> set dst"
    using assms(1) by (auto simp: list_all_iff plain_def go_spaces_def)
  then have line: "proxy_header [a, b, c, d] dst port dport = line @ [CHR 0x0A]" "CHR 0x0A \<notin> set line" "length line \<ge> 6" "take 6 line = ''PROXY ''"
    by (auto simp: line_def proxy_header_def butlast_append v4_String4 dotted_no nat_str_not is_digit_def)
  have "char_of (10 :: nat) = CHR 0x0A"
    by code_simp
  then have "byte_of_char x \<noteq> 10" if "x \<in> set line" for x
    using that line(2) char_of_byte_of_char [of x] by (auto simp: char_of_byte_def)
  then have nl: "10 \<notin> set (bytes_of line)"
    by (auto simp: bytes_of_def)
  have bytes: "bytes_of (line @ [CHR 0x0A]) = bytes_of line @ [10]"
    by (simp add: bytes_of_def byte_of_char_def)
  have len: "length (bytes_of line) = length line" "string_of (take 6 (bytes_of line)) = take 6 line"
    by (simp_all add: bytes_of_def string_of_def take_map)
  have read: "ReadString 10 eof (bytes_of line @ 10 # stream) = Some (Ok (bytes_of (line @ [CHR 0x0A])), stream)"
  proof -
    have "takeWhile (\<lambda>b. b \<noteq> 10) (bytes_of line) = bytes_of line"
      unfolding takeWhile_eq_all_conv using nl by blast
    then have "takeWhile (\<lambda>b. b \<noteq> 10) (bytes_of line @ 10 # stream) = bytes_of line"
      by (simp only: takeWhile_tail simp_thms not_True_eq_False)
    then show ?thesis
      by (simp add: ReadString_def bytes Let_def)
  qed
  show ?thesis
    using line(3,4) len string_of_bytes_of [of "line @ [CHR 0x0A]", unfolded bytes] header_addr_v4 [OF assms, of a b c d dport] unfolding line(1)
    by (simp add: Accept_def Peek_def bytes read)
qed

text \<open>C29: a login through the proxy is recalled for the console's own connection. When a proxy announces an IPv4 client, the
  listener hands on exactly the bytes behind the header and reports the announced address, whatever the
  proxy's own address is; an account remembered under it is the one a ticketless connection from that client address
  gets within the lifetime of the entry, from any port.\<close>

theorem proxied_login_recalled:
  assumes "list_all plain dst" and "dst \<noteq> []" and "port < 2 ^ 16"
    and "p \<noteq> 0" and "re_now env' - re_now env \<le> authRecallTTL"
  shows "\<exists>pc. Accept eof peer (bytes_of (proxy_header [a, b, c, d] dst port dport) @ stream) = Some pc \<and>
    pc_reader pc = stream \<and> RemoteAddr pc = v4_String [a, b, c, d] @ '':'' @ nat_str port \<and>
    snd (RecallAuthPID env' (v4_String [a, b, c, d] @ '':'' @ nat_str port') (RememberAuthPID env (RemoteAddr pc) p st)) = Some p"
  unfolding Accept_header [OF assms(1-3)]
  using assms(4,5) recall_remembered [of "v4_String [a, b, c, d] @ '':'' @ nat_str port'" "v4_String [a, b, c, d] @ '':'' @ nat_str port" p env' env st]
  by (simp add: RemoteAddr_def ipHost_v4 [simplified])

text \<open>Traefik in front of the login server, and the same console connecting to the secure port directly.\<close>

theorem proxied_login_recalled_witness:
  "\<exists>pc. Accept False ''10.0.1.5:41000'' (bytes_of (proxy_header [82, 6, 1, 9] ''10.0.1.7'' 50000 443) @ [22, 3, 1]) = Some pc \<and>
    pc_reader pc = [22, 3, 1] \<and> RemoteAddr pc = v4_String [82, 6, 1, 9] @ '':'' @ nat_str 50000 \<and>
    snd (RecallAuthPID sample_recall (v4_String [82, 6, 1, 9] @ '':'' @ nat_str 50321)
      (RememberAuthPID sample_recall (RemoteAddr pc) 1800000001 empty_auth)) = Some 1800000001"
proof -
  have "list_all plain ''10.0.1.7''"
    by code_simp
  then show ?thesis
    by (intro proxied_login_recalled) (simp_all add: authRecallTTL_def)
qed

text \<open>Without a header the connection passes through unchanged.\<close>

lemma Accept_direct:
  assumes "length bs \<ge> 6" and "string_of (take 6 bs) \<noteq> ''PROXY ''"
  shows "Accept eof peer bs = Some \<lparr>pc_Conn = peer, pc_reader = bs, pc_remoteAddr = None\<rparr>"
  using assms by (simp add: Accept_def Peek_def)

text \<open>A client that opens a connection and sends less than six bytes keeps \<open>Accept\<close>, and with it the listener, waiting.\<close>

lemma Accept_waits: "length bs < 6 \<Longrightarrow> Accept False peer bs = None"
  by (simp add: Accept_def Peek_def)

section \<open>HTTP requests\<close>

text \<open>
  Whether \<open>strings.ToLower(s)\<close> is the lower-case ASCII text \<open>t\<close>. Of the characters outside ASCII only two have a
  lower-case form inside it: the Kelvin sign and the capital I with a dot.
\<close>

function ToLower_is :: "string \<Rightarrow> string \<Rightarrow> bool" where
  "ToLower_is [] t \<longleftrightarrow> t = []"
| "ToLower_is (c # cs) t \<longleftrightarrow>
     (if starts_with [CHR 0xE2, CHR 0x84, CHR 0xAA] (c # cs) then t \<noteq> [] \<and> hd t = CHR ''k'' \<and> ToLower_is (drop 2 cs) (tl t)
      else if starts_with [CHR 0xC4, CHR 0xB0] (c # cs) then t \<noteq> [] \<and> hd t = CHR ''i'' \<and> ToLower_is (drop 1 cs) (tl t)
      else t \<noteq> [] \<and> lower c = hd t \<and> ToLower_is cs (tl t))"
  by pat_completeness auto
termination by (relation "measure (\<lambda>(s, _). length s)") auto

text \<open>
  The handler of every request: the headers as \<open>Header.Get\<close> gives them, whether the upgrade to a WebSocket succeeds, which is
  up to the WebSocket library, and whether another handler was set.
\<close>

datatype route = Upgraded | UpgradeFailed | CustomHTTPHandler | PageNotFound

definition mux :: "((string \<Rightarrow> string) \<Rightarrow> bool) \<Rightarrow> bool \<Rightarrow> (string \<Rightarrow> string) \<Rightarrow> route" where
  "mux upgrade custom header =
     (if ToLower_is (header ''Upgrade'') ''websocket'' \<or> header ''Sec-WebSocket-Key'' \<noteq> []
      then (if upgrade header then Upgraded else UpgradeFailed)
      else if custom then CustomHTTPHandler
      else PageNotFound)"

definition NewServer :: "'a transport_scheme \<Rightarrow> 'a sockets" where
  "NewServer st = ([], st)"

definition OnPing :: "byte list \<Rightarrow> 'a sockets \<Rightarrow> 'a sockets \<times> byte list" where
  "OnPing payload s = (s, [])"

definition OnPong :: "byte list \<Rightarrow> 'a sockets \<Rightarrow> 'a sockets" where
  "OnPong payload s = s"

text \<open>A request opens a socket, and with it a connection, only by an upgrade.\<close>

definition request :: "((string \<Rightarrow> string) \<Rightarrow> bool) \<Rightarrow> bool \<Rightarrow> (string \<Rightarrow> string) \<Rightarrow> nat \<Rightarrow> string \<Rightarrow> 'a sockets \<Rightarrow> 'a sockets" where
  "request upgrade custom header socket addr s = (if mux upgrade custom header = Upgraded then OnOpen socket addr s else s)"

lemma ToLower_is_ascii: "list_all (\<lambda>c. code_of c < 0x80) s \<Longrightarrow> ToLower_is s t \<longleftrightarrow> map lower s = t"
proof (induction s arbitrary: t)
  case (Cons c s)
  then have "c \<noteq> CHR 0xE2" "c \<noteq> CHR 0xC4"
    by (auto simp: code_of_def)
  then show ?case
    using Cons by (cases t) (simp_all add: starts_with_def)
qed auto

text \<open>The header is compared as the browsers and the console write it, and also with a Kelvin sign in it.\<close>

lemma ToLower_is_examples: "ToLower_is ''WebSocket'' ''websocket''" "ToLower_is (''websoc'' @ [CHR 0xE2, CHR 0x84, CHR 0xAA] @ ''et'') ''websocket''"
    "\<not> ToLower_is ''h2c'' ''websocket''"
  by code_simp+

lemma plain_request_opens_nothing:
  "header ''Sec-WebSocket-Key'' = [] \<Longrightarrow> \<not> ToLower_is (header ''Upgrade'') ''websocket'' \<Longrightarrow> request upgrade custom header socket addr s = s"
  by (simp add: request_def mux_def)

section \<open>Addresses are ASCII\<close>

definition ascii :: "string \<Rightarrow> bool" where
  "ascii s \<longleftrightarrow> list_all (\<lambda>c. code_of c < 0x80) s"

lemma ascii_simps [simp]: "ascii []" "ascii (c # s) \<longleftrightarrow> code_of c < 0x80 \<and> ascii s" "ascii (s @ t) \<longleftrightarrow> ascii s \<and> ascii t"
  by (simp_all add: ascii_def)

lemma ascii_subset: "set s \<subseteq> set t \<Longrightarrow> ascii t \<Longrightarrow> ascii s"
  by (auto simp: ascii_def list_all_iff)

lemma ascii_valid: "ascii s \<Longrightarrow> to_valid s = s"
  by (simp add: ascii_def to_valid_ascii)

lemma ascii_join: "ascii sep \<Longrightarrow> \<forall>x \<in> set xs. ascii x \<Longrightarrow> ascii (str_join sep xs)"
  by (induction sep xs rule: str_join.induct) simp_all

lemma ascii_hex_char: "n < 16 \<Longrightarrow> code_of (hex_char n) < 0x80"
proof -
  have "list_all (\<lambda>n. code_of (hex_char n) < 0x80) [0..<16]"
    by code_simp
  then show "n < 16 \<Longrightarrow> ?thesis"
    by (simp add: list_all_iff)
qed

lemma ascii_hex_lower: "ascii (hex_lower n)"
  by (induction n rule: hex_lower.induct) (subst hex_lower.simps, simp add: ascii_hex_char)

lemma ascii_nat_str: "ascii (nat_str n)"
  using nat_str_digits [of n] by (auto simp: ascii_def list_all_iff is_digit_def code_of_def)

lemma ascii_TCPAddr: "ascii (TCPAddr_String ip port)"
proof -
  have "ascii (IP_String ip)"
    by (auto simp: IP_String_def v4_String_def v6_String_def Let_def code_of_def ascii_nat_str ascii_hex_lower intro!: ascii_join split: option.split)
  then show ?thesis
    by (simp add: TCPAddr_String_def JoinHostPort_def Itoa_def code_of_def ascii_nat_str)
qed

text \<open>What the listener reports as the address of a connection, and the host in it, is ASCII when the address of the peer is.\<close>

lemma ascii_RemoteAddr:
  assumes "Accept eof peer bs = Some pc" and "ascii peer"
  shows "ascii (RemoteAddr pc)"
proof -
  have "header_addr line = Some a \<Longrightarrow> ascii a" for line a
    by (auto simp: header_addr_def Let_def ascii_TCPAddr split: if_splits)
  then show ?thesis
    using assms by (auto simp: Accept_def RemoteAddr_def split: option.splits if_splits prod.splits go_result.splits)
qed

lemma ascii_ipHost: "ascii addr \<Longrightarrow> ascii (ipHost addr)"
proof (rule ascii_subset)
  have "set h \<subseteq> set addr" if "SplitHostPort addr = Some (h, p)" for h p
    using that by (auto simp: SplitHostPort_def Let_def dest: in_set_takeD in_set_dropD split: option.splits if_splits)
  then show "set (ipHost addr) \<subseteq> set addr"
    by (auto simp: ipHost_def split: option.splits)
qed

end
