(* ===== verification/Nex_Files.thy ===== *)
theory Nex_Files
  imports Nex_Ranking Nex_Auth
begin

text \<open>
  The files of the server, byte by byte: remembered logins (\<^verbatim>\<open>ticketgranting.go\<close>), leaderboards
  (\<^verbatim>\<open>ranking_board.go\<close>) and tournaments (\<^verbatim>\<open>tournament.go\<close>), as \<open>encoding/json\<close> writes and reads
  their structures. Each structure interprets the locale \<open>json_codec\<close>, and from it a restart is shown to lose nothing: what the flusher
  writes is what the next process reads. The profile file is in \<^verbatim>\<open>Nex_Profiles\<close>.
\<close>

section \<open>Byte slices\<close>

text \<open>
  A byte slice is written in base64, a nil one as null; whether an empty slice is nil is an argument. It is read from a
  string or from an array of numbers.
\<close>

definition enc_bytes :: "bool \<Rightarrow> byte list \<Rightarrow> json" where
  "enc_bytes isnil b = (if b = [] \<and> isnil then JNull else JString (StdEncoding_EncodeToString b))"

definition dec_bytes :: "byte list \<times> nat \<Rightarrow> json \<Rightarrow> (byte list \<times> nat) option" where
  "dec_bytes sl j =
     (case j of
        JString s \<Rightarrow> map_option (\<lambda>b. (b, length b)) (StdEncoding_DecodeString s)
      | _ \<Rightarrow> dec_slice dec_u8 0 sl j)"

lemma dec_enc_bytes [simp]: "dec_bytes sl (enc_bytes isnil b) = Some (b, length b)"
  by (simp add: dec_bytes_def enc_bytes_def std_roundtrip dec_slice_def)

lemma enc_bytes_ok [simp]: "json_ok d (enc_bytes isnil b)"
  by (simp add: enc_bytes_def encoded_valid)

lemma dec_cells_fresh: "\<forall>x \<in> set xs. \<forall>y. dec y (enc x) = Some x \<Longrightarrow> dec_cells dec zero (map enc xs) [] = Some xs"
  by (induction xs) auto

lemma dec_enc_slice:
  "\<forall>x y. dec y (enc x) = Some x \<Longrightarrow> xs \<noteq> [] \<Longrightarrow> dec_slice dec zero ([], 0) (JArray (map enc xs)) = Some (xs, length xs)"
  by (cases xs) (simp_all add: dec_slice_def dec_cells_fresh)

definition in_int64 :: "int \<Rightarrow> bool" where
  "in_int64 i \<longleftrightarrow> - (2 ^ 63) \<le> i \<and> i < 2 ^ 63"

lemma json_names:
  "fold_name ''pid'' = ''pid'' \<and> to_valid ''pid'' = ''pid''"
  "fold_name ''at'' = ''at'' \<and> to_valid ''at'' = ''at''"
  "fold_name ''tournament'' = ''tournament'' \<and> to_valid ''tournament'' = ''tournament''"
  "fold_name ''category'' = ''category'' \<and> to_valid ''category'' = ''category''"
  "fold_name ''score'' = ''score'' \<and> to_valid ''score'' = ''score''"
  "fold_name ''profile'' = ''profile'' \<and> to_valid ''profile'' = ''profile''"
  "fold_name ''id'' = ''id'' \<and> to_valid ''id'' = ''id''"
  "fold_name ''owner'' = ''owner'' \<and> to_valid ''owner'' = ''owner''"
  "fold_name ''code'' = ''code'' \<and> to_valid ''code'' = ''code''"
  "fold_name ''mark'' = ''mark'' \<and> to_valid ''mark'' = ''mark''"
  "fold_name ''blob'' = ''blob'' \<and> to_valid ''blob'' = ''blob''"
  "fold_name ''participants'' = ''participants'' \<and> to_valid ''participants'' = ''participants''"
  "fold_name ''created_at'' = ''created_at'' \<and> to_valid ''created_at'' = ''created_at''"
  by (rule fold_name_plain, code_simp)+

declare json_names [THEN conjunct1, simp] json_names [THEN conjunct2, simp]

section \<open>Remembered logins\<close>

definition enc_recall :: "authRecallPersisted \<Rightarrow> json" where
  "enc_recall r = JObject [(''pid'', enc_uint (ap_PID r)), (''at'', enc_int (ap_At r))]"

definition dec_recall :: "json \<Rightarrow> authRecallPersisted option" where
  "dec_recall =
     dec_struct
       (\<lambda>ms. Option.bind (field ''pid'' dec_u64 ms 0) (\<lambda>p.
              Option.bind (field ''at'' dec_i64 ms 0) (\<lambda>a. Some \<lparr>ap_PID = p, ap_At = a\<rparr>)))
       \<lparr>ap_PID = 0, ap_At = 0\<rparr>"

definition marshal_recall :: "(string, authRecallPersisted) gomap \<Rightarrow> string" where
  "marshal_recall m = json_print (enc_map enc_recall m)"

definition unmarshal_recall :: "string \<Rightarrow> (string, authRecallPersisted) gomap option" where
  "unmarshal_recall s = Option.bind (json_parse s) (dec_map dec_recall)"

interpretation recall_json: json_codec enc_recall dec_recall "\<lambda>r. in_int64 (ap_At r)"
  by unfold_locales (auto simp: enc_recall_def dec_recall_def dec_struct_def max_nesting_def in_int64_def to_valid_ascii)

section \<open>Leaderboards\<close>

definition enc_board :: "boardPersisted \<Rightarrow> json" where
  "enc_board p =
     JObject [(''tournament'', enc_uint (bp_Tournament p)), (''category'', enc_uint (bp_Category p)), (''pid'', enc_uint (bp_PID p)),
              (''score'', enc_uint (bp_Score p)), (''profile'', enc_bytes False (bp_Profile p)), (''at'', enc_int (bp_At p))]"

definition dec_board :: "json \<Rightarrow> boardPersisted option" where
  "dec_board =
     dec_struct
       (\<lambda>ms. Option.bind (field ''tournament'' dec_u32 ms 0) (\<lambda>t.
              Option.bind (field ''category'' dec_u32 ms 0) (\<lambda>c.
              Option.bind (field ''pid'' dec_u64 ms 0) (\<lambda>p.
              Option.bind (field ''score'' dec_u32 ms 0) (\<lambda>s.
              Option.bind (slice_field ''profile'' dec_bytes ms) (\<lambda>b.
              Option.bind (field ''at'' dec_i64 ms 0) (\<lambda>a.
                Some \<lparr>bp_Tournament = t, bp_Category = c, bp_PID = p, bp_Score = s, bp_Profile = b, bp_At = a\<rparr>)))))))
       \<lparr>bp_Tournament = 0, bp_Category = 0, bp_PID = 0, bp_Score = 0, bp_Profile = [], bp_At = 0\<rparr>"

text \<open>The list that is written is nil while nothing was appended to it.\<close>

definition marshal_boards :: "boardPersisted list \<Rightarrow> string" where
  "marshal_boards lst = json_print (if lst = [] then JNull else JArray (map enc_board lst))"

definition unmarshal_boards :: "string \<Rightarrow> boardPersisted list option" where
  "unmarshal_boards s = Option.bind (json_parse s) (dec_list dec_board)"

interpretation board_json: json_codec enc_board dec_board "\<lambda>p. in_int64 (bp_At p)"
  by unfold_locales (auto simp: enc_board_def dec_board_def dec_struct_def slice_field_def max_nesting_def in_int64_def)

lemma boards_read_back: "list_all (\<lambda>p. in_int64 (bp_At p)) lst \<Longrightarrow> unmarshal_boards (marshal_boards lst) = Some lst"
  using board_json.list_file [of lst] json_parse_print [of JNull]
  by (simp add: unmarshal_boards_def marshal_boards_def dec_list_def del: json_print.simps)

section \<open>Tournaments\<close>

text \<open>The list holds pointers: null is nil. Fields with \<open>omitempty\<close> are left out when they are empty.\<close>

definition enc_tournament :: "(Tournament \<Rightarrow> bool) \<Rightarrow> Tournament \<Rightarrow> json" where
  "enc_tournament nil_blob t =
     JObject ([(''id'', enc_uint (t_ID t)), (''owner'', enc_uint (t_Owner t)), (''code'', JString (t_Code t))] @
              (if t_Mark t = [] then [] else [(''mark'', enc_bytes False (t_Mark t))]) @
              [(''blob'', enc_bytes (nil_blob t) (t_Blob t))] @
              (if t_Participants t = [] then [] else [(''participants'', JArray (map enc_uint (t_Participants t)))]) @
              [(''created_at'', enc_int (t_CreatedAt t))])"

definition zero_tournament :: Tournament where
  "zero_tournament = \<lparr>t_ID = 0, t_Owner = 0, t_Code = [], t_Mark = [], t_Blob = [], t_Participants = [], t_CreatedAt = 0\<rparr>"

definition dec_tournament :: "json \<Rightarrow> Tournament option" where
  "dec_tournament =
     dec_struct
       (\<lambda>ms. Option.bind (field ''id'' dec_u32 ms 0) (\<lambda>i.
              Option.bind (field ''owner'' dec_u64 ms 0) (\<lambda>p.
              Option.bind (field ''code'' dec_string ms []) (\<lambda>c.
              Option.bind (slice_field ''mark'' dec_bytes ms) (\<lambda>m.
              Option.bind (slice_field ''blob'' dec_bytes ms) (\<lambda>b.
              Option.bind (slice_field ''participants'' (dec_slice dec_u64 0) ms) (\<lambda>ps.
              Option.bind (field ''created_at'' dec_i64 ms 0) (\<lambda>a.
                Some \<lparr>t_ID = i, t_Owner = p, t_Code = c, t_Mark = m, t_Blob = b, t_Participants = ps, t_CreatedAt = a\<rparr>))))))))
       zero_tournament"

definition dec_pointer :: "(json \<Rightarrow> 'a option) \<Rightarrow> json \<Rightarrow> 'a option option" where
  "dec_pointer dec j = (if j = JNull then Some None else map_option Some (dec j))"

definition marshal_tournaments :: "(Tournament \<Rightarrow> bool) \<Rightarrow> Tournament list \<Rightarrow> string" where
  "marshal_tournaments nil_blob lst = json_print (JArray (map (enc_tournament nil_blob) lst))"

text \<open>What \<open>tournamentInit\<close> goes over: nil pointers are skipped.\<close>

definition unmarshal_tournaments :: "string \<Rightarrow> Tournament list option" where
  "unmarshal_tournaments s =
     map_option (\<lambda>lst. concat (map (\<lambda>t. case t of None \<Rightarrow> [] | Some t \<Rightarrow> [t]) lst)) (Option.bind (json_parse s) (dec_list (dec_pointer dec_tournament)))"

definition tournament_printable :: "Tournament \<Rightarrow> bool" where
  "tournament_printable t \<longleftrightarrow> to_valid (t_Code t) = t_Code t \<and> in_int64 (t_CreatedAt t)"

lemma participants_read_back:
  "xs \<noteq> [] \<Longrightarrow> dec_slice dec_u64 0 ([], 0) (JArray (map enc_uint xs)) = Some (xs, length xs)"
  by (rule dec_enc_slice) simp_all

interpretation tournament_json: json_codec "\<lambda>t. case t of None \<Rightarrow> JNull | Some t \<Rightarrow> enc_tournament nil_blob t"
  "dec_pointer dec_tournament" "\<lambda>t. case t of None \<Rightarrow> True | Some t \<Rightarrow> tournament_printable t" for nil_blob
proof
  fix t
  assume "case t of None \<Rightarrow> True | Some t \<Rightarrow> tournament_printable t"
  then show "json_ok 1 (case t of None \<Rightarrow> JNull | Some t \<Rightarrow> enc_tournament nil_blob t)"
    by (auto simp: enc_tournament_def tournament_printable_def max_nesting_def split: option.splits)
  have "dec_tournament (enc_tournament nil_blob t) = Some t" if "tournament_printable t" for t
    using that by (simp add: dec_tournament_def enc_tournament_def dec_struct_def slice_field_def tournament_printable_def in_int64_def dec_string_def participants_read_back)
  moreover have "enc_tournament nil_blob t \<noteq> JNull" for t
    by (simp add: enc_tournament_def)
  ultimately show "dec_pointer dec_tournament (case t of None \<Rightarrow> JNull | Some t \<Rightarrow> enc_tournament nil_blob t) = Some t"
    using \<open>case t of None \<Rightarrow> True | Some t \<Rightarrow> tournament_printable t\<close>
    by (auto simp: dec_pointer_def split: option.splits)
qed

lemma tournaments_read_back:
  assumes "list_all tournament_printable lst"
  shows "unmarshal_tournaments (marshal_tournaments nil_blob lst) = Some lst"
proof -
  have "Option.bind (json_parse (marshal_tournaments nil_blob lst)) (dec_list (dec_pointer dec_tournament)) = Some (map Some lst)"
    using tournament_json.list_file [of "map Some lst" nil_blob] assms by (simp add: marshal_tournaments_def list_all_iff comp_def del: json_print.simps)
  then show ?thesis
    by (simp add: unmarshal_tournaments_def comp_def)
qed

section \<open>Logins are remembered across a restart\<close>

lemma restore_recall_get:
  "gm_wf m \<Longrightarrow>
   gm_get (fold (restore_recall now) m t) ip =
     (case gm_get m ip of
        Some r \<Rightarrow> if ap_PID r = 0 \<or> now ip - ap_At r * 1000000000 > authRecallTTL then gm_get t ip
                  else Some \<lparr>ar_pid = ap_PID r, ar_at = ap_At r * 1000000000\<rparr>
      | None \<Rightarrow> gm_get t ip)"
proof (induction m arbitrary: t)
  case (Cons e m)
  obtain k r where e: "e = (k, r)"
    by (cases e)
  have "gm_get m k = None" "gm_wf m"
    using Cons.prems by (auto simp: e gm_wf_def map_of_eq_None_iff)
  then show ?case
    using Cons.IH [of "restore_recall now e t"] by (auto simp: e restore_recall_def Let_def split: option.split)
qed simp

text \<open>What a turn of the flusher writes: the entries that have not expired.\<close>

lemma flush_entry_other: "ip \<noteq> k \<Longrightarrow> gm_get (fst (flush_entry now k (table, out))) ip = gm_get table ip"
  by (simp add: flush_entry_def Let_def split: option.split)

lemma flush_entry_length: "length (snd (flush_entry now k (table, out))) \<le> Suc (length out)"
  by (auto simp: flush_entry_def Let_def length_gm_put split: option.split)

lemma flush_entries_get:
  assumes "distinct ord" and "length out + length ord \<le> authRecallMax"
  shows "gm_get (snd (fold (flush_entry now) ord (table, out))) ip =
    (case gm_get table ip of
       Some r \<Rightarrow> if ip \<in> set ord \<and> ip \<noteq> [] \<and> now ip - ar_at r \<le> authRecallTTL
                 then Some \<lparr>ap_PID = ar_pid r, ap_At = ar_at r div 1000000000\<rparr> else gm_get out ip
     | None \<Rightarrow> gm_get out ip)"
  using assms
proof (induction ord arbitrary: table out)
  case (Cons k ord)
  obtain table1 out1 where 1: "flush_entry now k (table, out) = (table1, out1)"
    by fastforce
  have "length out1 + length ord \<le> authRecallMax"
    using flush_entry_length [of now k table out] Cons.prems(2) by (simp add: 1)
  then show ?case
    using Cons.IH [of out1 table1] Cons.prems flush_entry_other [of ip k now table out] 1
    by (cases "ip = k") (auto simp: flush_entry_def Let_def split: option.splits if_splits)
qed (simp split: option.split)

lemma flush_entry_keeps:
  assumes "gm_wf out" and "\<forall>(h, p) \<in> set out. P h p" and "\<forall>h r. gm_get table h = Some r \<longrightarrow> P h \<lparr>ap_PID = ar_pid r, ap_At = ar_at r div 1000000000\<rparr>"
    and "flush_entry now k (table, out) = (table1, out1)"
  shows "gm_wf out1 \<and> (\<forall>(h, p) \<in> set out1. P h p) \<and> (\<forall>h r. gm_get table1 h = Some r \<longrightarrow> gm_get table h = Some r)"
  using assms
  by (auto simp: flush_entry_def Let_def dest!: gm_put_subset split: option.splits if_splits)

lemma flush_entries_keep:
  assumes "gm_wf out" and "\<forall>(h, p) \<in> set out. P h p" and "\<forall>h r. gm_get table h = Some r \<longrightarrow> P h \<lparr>ap_PID = ar_pid r, ap_At = ar_at r div 1000000000\<rparr>"
  shows "gm_wf (snd (fold (flush_entry now) ord (table, out))) \<and> (\<forall>(h, p) \<in> set (snd (fold (flush_entry now) ord (table, out))). P h p)"
  using assms
proof (induction ord arbitrary: table out)
  case (Cons k ord)
  obtain table1 out1 where 1: "flush_entry now k (table, out) = (table1, out1)"
    by fastforce
  note flush_entry_keeps [where P = P, OF Cons.prems 1]
  then show ?case
    using Cons.IH [of out1 table1] Cons.prems(3) by (auto simp: 1)
qed simp

text \<open>A login is remembered across a restart. When the flusher writes a table of at most 50000 remembered logins, whatever the order in
  which it visits them, the next process, which reads the bytes of that file, admits a connection from a host as the account that
  logged in from it, until 24 hours after the whole second of the login.\<close>

lemma recall_survives_restart:
  assumes "\<forall>h r. gm_get (as_table st) h = Some r \<longrightarrow> to_valid h = h \<and> in_int64 (ar_at r)"
    and "visits ord (as_table st)" and "length ord \<le> authRecallMax" and "authRecallFlusher now ord st = (st', Some out)"
    and "gm_get (as_table st) (ipHost addr) = Some r" and "ar_pid r \<noteq> 0" and "ipHost addr \<noteq> []" and "now (ipHost addr) - ar_at r \<le> authRecallTTL"
    and "re_file env \<noteq> []" and "re_saved env = unmarshal_recall (marshal_recall out)"
    and "re_load_now env (ipHost addr) - ar_at r div 1000000000 * 1000000000 \<le> authRecallTTL"
    and "re_now env - ar_at r div 1000000000 * 1000000000 \<le> authRecallTTL"
  shows "snd (RecallAuthPID env addr empty_auth) = Some (ar_pid r)"
proof -
  have out: "out = snd (fold (flush_entry now) ord (as_table st, []))"
    using assms(4) by (auto simp: authRecallFlusher_def split: if_splits prod.splits)
  have div: "in_int64 (i div 1000000000)" if "in_int64 i" for i
    using that div_le_dividend [of "nat i" 1000000000] by (auto simp: in_int64_def)
  have "gm_wf out \<and> (\<forall>(h, p) \<in> set out. to_valid h = h \<and> in_int64 (ap_At p))"
    unfolding out using assms(1) div by (intro flush_entries_keep) (auto simp: gm_wf_def)
  then obtain m where m: "unmarshal_recall (marshal_recall out) = Some m" "gm_get m = gm_get out" "gm_wf m"
    unfolding unmarshal_recall_def marshal_recall_def using recall_json.map_file [of out] by blast
  have "ipHost addr \<in> set ord" "distinct ord"
    using assms(2,5) by (auto simp: visits_def dest: map_of_SomeD intro: rev_image_eqI)
  then have "gm_get m (ipHost addr) = Some \<lparr>ap_PID = ar_pid r, ap_At = ar_at r div 1000000000\<rparr>"
    using flush_entries_get [of ord "[]" now "as_table st" "ipHost addr"] assms(3,5,7,8) by (simp add: m(2) out)
  then show ?thesis
    using assms(6,9-12) by (simp add: RecallAuthPID_def authRecallInit_def empty_auth_def m restore_recall_get [OF m(3)] Let_def)
qed

section \<open>Leaderboards survive a restart\<close>

text \<open>The entry of a player on a board, and the part of it that the file keeps: times are cut to whole seconds.\<close>

definition board_entry :: "(boardKey, board) gomap \<Rightarrow> boardKey \<Rightarrow> pid \<Rightarrow> boardEntry option" where
  "board_entry bs k p = (case gm_get bs k of None \<Rightarrow> None | Some b \<Rightarrow> gm_get b p)"

definition whole_second :: "boardEntry \<Rightarrow> boardEntry" where
  "whole_second e = e\<lparr>be_At := be_At e div 1000000000 * 1000000000\<rparr>"

lemma board_entry_of: "board_entry (boards st) k p = gm_get (board_of st k) p"
  by (simp add: board_entry_def board_of_def split: option.split)

lemma restore_entry_get:
  "length (bp_Profile p) = scoreProfileLen \<Longrightarrow> bp_Tournament p \<noteq> 0 \<Longrightarrow>
   board_entry (restore_entry p bs) k q =
     (if k = \<lparr>bk_Tournament = bp_Tournament p, bk_Category = bp_Category p\<rparr> \<and> q = bp_PID p
      then Some \<lparr>be_PID = bp_PID p, be_Score = bp_Score p, be_Profile = bp_Profile p, be_At = bp_At p * 1000000000\<rparr>
      else board_entry bs k q)"
  by (auto simp: board_entry_def restore_entry_def Let_def split: option.split)

lemma restore_entries_get:
  assumes "\<forall>p \<in> set lst. length (bp_Profile p) = scoreProfileLen \<and> bp_Tournament p \<noteq> 0 \<and>
      F \<lparr>bk_Tournament = bp_Tournament p, bk_Category = bp_Category p\<rparr> (bp_PID p) =
        Some \<lparr>be_PID = bp_PID p, be_Score = bp_Score p, be_Profile = bp_Profile p, be_At = bp_At p * 1000000000\<rparr>"
  shows "board_entry (fold restore_entry lst bs) k q =
    (if \<exists>p \<in> set lst. \<lparr>bk_Tournament = bp_Tournament p, bk_Category = bp_Category p\<rparr> = k \<and> bp_PID p = q then F k q else board_entry bs k q)"
  using assms
proof (induction lst arbitrary: bs)
  case (Cons p lst)
  then show ?case
    using Cons.IH [of "restore_entry p bs"] by (auto simp: restore_entry_get)
qed simp

lemma persisted_list_set:
  "p \<in> set (persisted_list ks ord st) \<longleftrightarrow>
   (\<exists>k \<in> set ks. \<exists>q \<in> set (ord k). \<exists>e. gm_get (board_of st k) q = Some e \<and> p = persisted k q e)"
  unfolding persisted_list_def by (fastforce simp: List.map_filter_def image_iff)

lemma board_key_eta [simp]: "\<lparr>bk_Tournament = bk_Tournament k, bk_Category = bk_Category k\<rparr> = (k :: boardKey)"
  by (cases k) simp

text \<open>C24: a restart loses no result. What the flusher writes of the leaderboards, in whatever order it visits them, is read by the next process, from the
  bytes of the file, as the same boards with the same players, scores and profiles; only the times are cut to whole seconds.\<close>

theorem boards_survive_restart:
  assumes "boards_wf st" and "boardFlushing st" and "boardDirty st" and "visits ks (boards st)" and "\<forall>k \<in> set ks. visits (ord k) (board_of st k)"
    and "\<forall>k p e. gm_get (board_of st k) p = Some e \<longrightarrow> in_int64 (unix_seconds (be_At e))"
    and "boardFlusher ks ord True (st, old) = (st', Some lst)"
    and "boardFile f \<noteq> []" and "board_content f = unmarshal_boards (marshal_boards lst)"
  shows "gm_get (board_of (boardInit f no_boards) k) p = map_option whole_second (gm_get (board_of st k) p)"
proof -
  have lst: "lst = persisted_list ks ord st"
    using assms(2,3,7) by (simp add: boardFlusher_def)
  have ok: "length (bp_Profile r) = scoreProfileLen \<and> bp_Tournament r \<noteq> 0 \<and> in_int64 (bp_At r) \<and>
      map_option whole_second (gm_get (board_of st \<lparr>bk_Tournament = bp_Tournament r, bk_Category = bp_Category r\<rparr>) (bp_PID r)) =
        Some \<lparr>be_PID = bp_PID r, be_Score = bp_Score r, be_Profile = bp_Profile r, be_At = bp_At r * 1000000000\<rparr>" if r: "r \<in> set lst" for r
  proof -
    obtain k q e where "gm_get (board_of st k) q = Some e" "r = persisted k q e"
      using r unfolding lst persisted_list_set by blast
    then show ?thesis
      using assms(1,6) by (auto simp: persisted_def boards_wf_def whole_second_def unix_seconds_def)
  qed
  then have read: "unmarshal_boards (marshal_boards lst) = Some lst"
    by (intro boards_read_back) (simp add: list_all_iff)
  have "board_entry (fold restore_entry lst []) k p = map_option whole_second (gm_get (board_of st k) p)"
  proof (cases "gm_get (board_of st k) p")
    case (Some e)
    then have k: "k \<in> set ks"
      using assms(4) by (auto simp: visits_def board_of_def dest: map_of_SomeD intro: rev_image_eqI split: option.splits)
    moreover have "p \<in> set (ord k)"
      using bspec [OF assms(5) k] map_of_SomeD [OF Some] by (auto simp: visits_def intro: rev_image_eqI)
    ultimately have "\<exists>r \<in> set lst. \<lparr>bk_Tournament = bp_Tournament r, bk_Category = bp_Category r\<rparr> = k \<and> bp_PID r = p"
      using Some unfolding lst by (intro bexI [of _ "persisted k p e"]) (auto simp: persisted_list_set persisted_def)
    then show ?thesis
      using ok by (subst restore_entries_get) auto
  next
    case None
    then show ?thesis
      using ok by (subst restore_entries_get [where F = "\<lambda>k q. map_option whole_second (gm_get (board_of st k) q)"]) (auto simp: board_entry_def)
  qed
  then show ?thesis
    using assms(8,9) by (simp add: boardInit_def no_boards_def read flip: board_entry_of)
qed

definition sample_boards :: board_store where
  "sample_boards =
     \<lparr>boards = [(\<lparr>bk_Tournament = 5, bk_Category = 393\<rparr>, [(7, \<lparr>be_PID = 7, be_Score = 900, be_Profile = replicate 132 1, be_At = 5000000001\<rparr>)])],
      boardOnce = True, boardDirty = True, boardFlushing = True\<rparr>"

definition sample_results :: "boardPersisted list" where
  "sample_results = [\<lparr>bp_Tournament = 5, bp_Category = 393, bp_PID = 7, bp_Score = 900, bp_Profile = replicate 132 1, bp_At = 5\<rparr>]"

theorem boards_survive_restart_witness:
  "gm_get (board_of (boardInit \<lparr>boardFile = ''boards.json'', board_content = unmarshal_boards (marshal_boards sample_results)\<rparr> no_boards)
      \<lparr>bk_Tournament = 5, bk_Category = 393\<rparr>) 7 =
   Some \<lparr>be_PID = 7, be_Score = 900, be_Profile = replicate 132 1, be_At = 5000000000\<rparr>"
proof -
  let ?k = "\<lparr>bk_Tournament = 5, bk_Category = 393\<rparr> :: boardKey"
  have fl: "boardFlusher [?k] (\<lambda>_. [7]) True (sample_boards, None) = (sample_boards\<lparr>boardDirty := False\<rparr>, Some sample_results)"
    by (simp add: boardFlusher_def sample_boards_def sample_results_def persisted_list_def persisted_def board_of_def unix_seconds_def List.map_filter_def)
  have wf: "boards_wf sample_boards" "boardFlushing sample_boards" "boardDirty sample_boards" "visits [?k] (boards sample_boards)"
    "\<forall>k \<in> set [?k]. visits [7] (board_of sample_boards k)"
    "\<forall>k p e. gm_get (board_of sample_boards k) p = Some e \<longrightarrow> in_int64 (unix_seconds (be_At e))"
    by (auto simp: boards_wf_def sample_boards_def board_of_def gm_wf_def scoreProfileLen_def visits_def in_int64_def unix_seconds_def split: if_splits)
  show ?thesis
    using boards_survive_restart [OF wf fl, of "\<lparr>boardFile = ''boards.json'', board_content = unmarshal_boards (marshal_boards sample_results)\<rparr>" ?k 7]
    by (simp add: sample_boards_def board_of_def whole_second_def)
qed

section \<open>Tournaments survive a restart\<close>

text \<open>C23: a restart loses no tournament. What the flusher writes of a changed store, in whatever order it visits it, is read by the next process, from the bytes of the
  file, as a store with the same tournaments under the same ids and the same quarantined records; the next id lies
  above every restored one.\<close>

theorem tournaments_survive_restart:
  assumes "reach ts_start ts_step ts" and "visits ord (ts_byID ts)" and "ts_dirty ts"
    and "tournamentFlusher ord ts = (ts1, Some lst)" and "list_all (\<lambda>t. t_ID t \<noteq> 0xFFFFFFFF \<and> tournament_printable t) lst"
  shows "case unmarshal_tournaments (marshal_tournaments nil_blob lst) of
      None \<Rightarrow> False
    | Some lst' \<Rightarrow>
        let ts' = tournamentInit lst' empty_tournaments
        in (\<forall>k. gm_get (ts_byID ts') k = gm_get (ts_byID ts) k) \<and> ts_quarantined ts' = ts_quarantined ts \<and>
           (\<forall>k. gm_has (ts_byID ts) k \<longrightarrow> k < ts_nextID ts')"
proof -
  have "list_all tournament_printable lst" "list_all (\<lambda>t. t_ID t \<noteq> 0xFFFFFFFF) lst"
    using assms(5) by (simp_all add: list_all_iff)
  then show ?thesis
    using tournaments_restored [OF assms(1-4)] by (simp add: tournaments_read_back Let_def)
qed

lemma CreateTournament_fields:
  "CreateTournament env p payload ts = (ts', Some t) \<Longrightarrow> t_CreatedAt t = te_now env \<and> t_Code t = newTournamentCode (te_code env)"
  by (auto simp: CreateTournament_def Let_def split: option.splits if_splits)

theorem tournaments_survive_restart_witness:
  "\<exists>ts t lst lst'. CreateTournament small_env 77 small_tournament empty_tournaments = (ts, Some t) \<and> snd (tournamentFlusher [1000] ts) = Some lst \<and>
     unmarshal_tournaments (marshal_tournaments (\<lambda>_. False) lst) = Some lst' \<and> gm_get (ts_byID (tournamentInit lst' empty_tournaments)) 1000 = Some t"
proof -
  obtain ts t where cr: "CreateTournament small_env 77 small_tournament empty_tournaments = (ts, Some t)"
    "gm_get (ts_byID ts) 1000 = Some t" and r: "reach ts_start ts_step ts"
    using small_created by blast
  have ts: "ts = empty_tournaments\<lparr>ts_nextID := 1001, ts_byID := [(1000, t)], ts_dirty := True\<rparr>" "t_ID t = 1000"
    by (cases rule: CreateTournament_cases [of small_env 77 small_tournament empty_tournaments];
        use cr(1) in \<open>simp add: empty_tournaments_def\<close>)+
  note t = CreateTournament_fields [OF cr(1)]
  have fl: "tournamentFlusher [1000] ts = (ts\<lparr>ts_dirty := False\<rparr>, Some [t])"
    by (simp add: tournamentFlusher_def ts(1,2) empty_tournaments_def)
  have "to_valid (newTournamentCode (te_code small_env)) = newTournamentCode (te_code small_env)"
    by (rule to_valid_ascii) code_simp
  then have "list_all (\<lambda>t. t_ID t \<noteq> 0xFFFFFFFF \<and> tournament_printable t) [t]"
    by (simp add: ts(2) t tournament_printable_def) (simp add: in_int64_def small_env_def)
  moreover have "visits [1000] (ts_byID ts)" "ts_dirty ts"
    by (simp_all add: visits_def ts(1))
  ultimately have "case unmarshal_tournaments (marshal_tournaments (\<lambda>_. False) [t]) of
      None \<Rightarrow> False | Some lst' \<Rightarrow> gm_get (ts_byID (tournamentInit lst' empty_tournaments)) 1000 = Some t"
    using tournaments_survive_restart [OF r _ _ fl, of "\<lambda>_. False"] cr(2) by (simp add: Let_def split: option.splits)
  then show ?thesis
    using cr(1) fl by (auto split: option.splits)
qed

section \<open>Nothing is read that was not written\<close>

text \<open>A time that does not fit its type spoils the file: nothing is read from it.\<close>

lemma dec_recall_range: "dec_recall (enc_recall r) = Some p \<Longrightarrow> in_int64 (ap_At r)"
proof (rule ccontr)
  assume "\<not> in_int64 (ap_At r)"
  moreover have "list_all is_digit (nat_str n)" "nat_str n \<noteq> []" "digits_val 0 (nat_str n) = n" for n
    by (simp_all add: nat_str_digits digits_val_nat_str)
  moreover have "hd (nat_str n) \<noteq> CHR ''-''" "hd (nat_str n) \<noteq> CHR ''+''" for n
    using hd_nat_str [of n] by (auto simp: is_digit_def)
  ultimately have "\<not> snd (Atoi (Itoa (ap_At r)))"
    by (auto simp: Atoi_def Itoa_def in_int64_def Let_def)
  then have "dec_i64 0 (enc_int (ap_At r)) = None"
    by (simp add: dec_i64_def enc_int_def split_beta)
  moreover assume "dec_recall (enc_recall r) = Some p"
  ultimately show False
    by (simp add: dec_recall_def enc_recall_def dec_struct_def)
qed

lemma dec_members_all: "dec_members dec ms m = Some m' \<Longrightarrow> (k, j) \<in> set ms \<Longrightarrow> dec j \<noteq> None"
  by (induction ms arbitrary: m) (auto simp: bind_eq_Some_conv)

lemma recall_file_sound:
  assumes "gm_wf out" and "\<forall>(h, p) \<in> set out. to_valid h = h" and "unmarshal_recall (marshal_recall out) = Some m"
  shows "set m \<subseteq> set out"
proof -
  let ?ms = "map (\<lambda>(k, x). (k, enc_recall x)) (sort_key fst out)"
  have "json_ok 1 (enc_recall r)" for r
    by (simp add: enc_recall_def max_nesting_def)
  then have "json_parse (marshal_recall out) = Some (enc_map enc_recall out)"
    unfolding marshal_recall_def using assms(2) by (intro json_parse_print) (auto simp: enc_map_def max_nesting_def)
  then have dec: "dec_members dec_recall ?ms [] = Some m"
    using assms(3) by (simp add: unmarshal_recall_def dec_map_def enc_map_def)
  have "in_int64 (ap_At p)" if "(h, p) \<in> set out" for h p
    using dec_members_all [OF dec, of h "enc_recall p"] that dec_recall_range by force
  then have "\<forall>(h, p) \<in> set out. to_valid h = h \<and> in_int64 (ap_At p)"
    using assms(2) by auto
  from recall_json.map_file [OF assms(1) this] obtain m' where "unmarshal_recall (marshal_recall out) = Some m'" "gm_get m' = gm_get out" "gm_wf m'"
    unfolding unmarshal_recall_def marshal_recall_def by blast
  then have "gm_get m = gm_get out" "distinct (map fst m)"
    using assms(3) by (simp_all add: gm_wf_def)
  then show ?thesis
    by (metis map_of_SomeD map_of_is_SomeI subrelI)
qed

end
