(* ===== verification/Nex_App.thy ===== *)
theory Nex_App
  imports Nex_Server Nex_Listener Nex_Files
begin

text \<open>
  The whole program: the login endpoint and the secure endpoint of \<open>main\<close> in one state, with the recall table
  they share, the file it is saved in, and restarts. Beside the state the model keeps the history of the logins that were
  accepted and of the tickets that were presented, from which the account of every connection is explained.
\<close>

section \<open>What the handlers of the secure endpoint leave alone\<close>

definition keeps_frame :: "'a transport_scheme \<Rightarrow> 'a transport_scheme \<Rightarrow> bool" where
  "keeps_frame st st' \<longleftrightarrow> view st' = (view st)\<lparr>vw_more := transport.more st'\<rparr>"

lemma frame_refl [simp]: "keeps_frame st st"
  by (simp add: keeps_frame_def view_def)

lemma frame_trans: "keeps_frame a b \<Longrightarrow> keeps_frame b c \<Longrightarrow> keeps_frame a c"
  by (simp add: keeps_frame_def)

lemma frame_view: "view st' = view st \<Longrightarrow> keeps_frame st st'"
  by (simp add: keeps_frame_def view_def)

lemma frame_fields [simp]:
  "keeps_frame st0 (st\<lparr>gs_mm := m\<rparr>) = keeps_frame st0 st" "keeps_frame st0 (st\<lparr>gs_ts := ts\<rparr>) = keeps_frame st0 st"
  "keeps_frame st0 (st\<lparr>gs_nat := c\<rparr>) = keeps_frame st0 st" "keeps_frame st0 (st\<lparr>gs_rank := rk\<rparr>) = keeps_frame st0 st"
  "keeps_frame st0 (st\<lparr>gs_dash := d\<rparr>) = keeps_frame st0 st" "keeps_frame st0 (st\<lparr>gs_dedup := dd\<rparr>) = keeps_frame st0 st"
  "keeps_frame st0 (st\<lparr>gs_waits := w\<rparr>) = keeps_frame st0 st" "keeps_frame st0 (st\<lparr>gs_notif := n\<rparr>) = keeps_frame st0 st"
  by (simp_all add: keeps_frame_def view_def)

lemma frame_SendRMC: "keeps_frame st0 st \<Longrightarrow> keeps_frame st0 (SendRMC r msg st)"
  by (erule frame_trans) (simp add: frame_view)

lemma frame_push_one: "keeps_frame st0 st \<Longrightarrow> keeps_frame st0 (push_one push st)"
  by (simp add: push_one_def SendNotification_def Let_def frame_SendRMC split: prod.split)

lemma frame_push_all: "keeps_frame st0 st \<Longrightarrow> keeps_frame st0 (push_all pushes st)"
  unfolding push_all_def by (induction pushes arbitrary: st) (simp_all add: frame_push_one)

lemma frame_sends: "keeps_frame st0 st \<Longrightarrow> keeps_frame st0 (fold (\<lambda>(target, msg). SendRMC target msg) pushes st)"
  by (induction pushes arbitrary: st) (auto simp: frame_SendRMC split: prod.split)

lemma frame_conn:
  assumes "c_RemoteAddr c = c_RemoteAddr (conn_of st r)"
  shows "keeps_frame st (upd_of r (\<lambda>_. c) st)"
proof (rule frame_view)
  show "view (upd_of r (\<lambda>_. c) st) = view st"
    using assms by (rule view_upd_const)
qed

lemma frame_wrap:
  assumes "\<And>st. keeps_frame st (fst (h r req st))"
  shows "keeps_frame st (fst (wrap q h r req st))"
proof -
  have "keeps_frame st (fst (h r req (st\<lparr>gs_dedup := d\<rparr>)))" for d
    by (rule frame_trans [OF _ assms]) simp
  then show ?thesis
    using assms [of st] by (auto simp: wrap_def Let_def split: prod.split dd_decision.split) (metis fst_conv)+
qed

lemma frame_extension: "keeps_frame st (fst (extension_call q r req st))"
  by (auto simp: extension_call_def intro: frame_push_all split: option.split prod.split)

lemma frame_matchmaking: "keeps_frame st (fst (matchmaking_call q r req st))"
  by (auto simp: matchmaking_call_def Let_def intro: frame_push_all split: prod.split sum.split)

lemma frame_matchmaking_ext: "keeps_frame st (fst (matchmaking_ext_call r req st))"
  by (simp add: matchmaking_ext_call_def split: prod.split)

lemma SecureConnectionHandler_addr: "c_RemoteAddr (fst (SecureConnectionHandler s c req)) = c_RemoteAddr c"
  by (simp add: SecureConnectionHandler_def SecureConnectionHandlerWithConfig_def handleRegister_def handleReplaceURL_def
      SetStations_def Let_def split: prod.split)

lemma NATTraversalHandler_addr: "c_RemoteAddr (fst (snd (NATTraversalHandler repoint env nowDate ep c req cache))) = c_RemoteAddr c"
  by (simp add: NATTraversalHandler_def noteNATProperties_def SetNATProps_def Let_def split: prod.split)

lemma frame_secure_connection: "keeps_frame st (fst (secure_connection_call r req st))"
  using SecureConnectionHandler_addr [of "ep_Settings (t_ep st)" "conn_of st r" req]
  by (auto simp: secure_connection_call_def intro: frame_conn split: prod.split)

lemma frame_nat: "keeps_frame st (fst (nat_call q r req st))"
proof -
  obtain cache c hook pushes resp where n:
    "NATTraversalHandler (q_repoint q) (q_nat q) (q_date q) (t_ep st) (conn_of st r) req (gs_nat st) = (cache, c, hook, pushes, resp)"
    by (metis prod_cases5)
  then have "keeps_frame st (upd_of r (\<lambda>_. c) st)"
    using NATTraversalHandler_addr [of "q_repoint q" "q_nat q" "q_date q" "t_ep st" "conn_of st r" req "gs_nat st"] by (intro frame_conn) simp
  then show ?thesis
    by (simp add: nat_call_def n Let_def frame_sends)
qed

lemma secure_handler_frame: "handler (secure_service q) k = Some h \<Longrightarrow> keeps_frame st (fst (h r req st))"
  using secure_handlers [of q k h] frame_wrap [OF frame_matchmaking_ext] frame_wrap [OF frame_matchmaking] frame_wrap [OF frame_extension]
    frame_secure_connection frame_nat
  by (auto simp: utility_call_def ranking_call_def split: prod.split)

lemma frame_run_dropped: "keeps_frame st0 st \<Longrightarrow> keeps_frame st0 (run_dropped q rs st)"
  unfolding run_dropped_def
  by (induction rs arbitrary: st) (simp_all add: secure_service_def run_hook_def drop_player_def)

lemma frame_endpoint:
  assumes "map c_RemoteAddr (ep_sockets ep) = map c_RemoteAddr (ep_sockets (t_ep st))" "ep_Settings ep = ep_Settings (t_ep st)"
    "ep_Secure ep = ep_Secure (t_ep st)" "ep_SecureKey ep = ep_SecureKey (t_ep st)"
  shows "keeps_frame st (st\<lparr>t_ep := ep\<rparr>)"
  using assms by (simp add: keeps_frame_def view_def)

definition same_hosts :: "endpoint \<Rightarrow> endpoint \<Rightarrow> bool" where
  "same_hosts ep ep' \<longleftrightarrow> map c_RemoteAddr (ep_sockets ep') = map c_RemoteAddr (ep_sockets ep) \<and> ep_Settings ep' = ep_Settings ep \<and>
     ep_Secure ep' = ep_Secure ep \<and> ep_SecureKey ep' = ep_SecureKey ep"

lemma same_hosts_trans: "same_hosts a b \<Longrightarrow> same_hosts b c \<Longrightarrow> same_hosts a c"
  by (simp add: same_hosts_def)

lemma same_hosts_close: "same_hosts ep (fst (close_conn r ep))"
  using hosts_upd_conn [of _ r] by (simp add: same_hosts_def close_conn_def unregisterConnection_def upd_conn_def)

lemma same_hosts_close_all: "same_hosts ep (fst (close_all rs ep))"
proof (induction rs arbitrary: ep)
  case (Cons r rs)
  show ?case
    using same_hosts_trans [OF same_hosts_close Cons.IH, of ep r] by (simp add: split_beta)
qed (simp add: same_hosts_def)

lemma same_hosts_evict:
  "same_hosts ep (fst (ReapIdle now m ep))" "same_hosts ep (fst (KickPID p ep))" "same_hosts ep (fst (KickConnection i ep))"
  using same_hosts_close_all [of ep] same_hosts_close [of ep]
  by (auto simp: ReapIdle_def KickPID_def KickConnection_def Let_def split_beta same_hosts_def split: option.split)

lemma same_hosts_frame: "same_hosts (t_ep st) ep \<Longrightarrow> keeps_frame st (st\<lparr>t_ep := ep\<rparr>)"
  by (simp add: same_hosts_def frame_endpoint)

lemma background_frame: "background_step st st' \<Longrightarrow> keeps_frame st st'"
proof (induction rule: background_step.induct)
  case (bg_close st q r)
  have "keeps_frame st (run_hook (sv_OnDisconnect (secure_service q)) r (st\<lparr>t_ep := fst (close_conn r (t_ep st))\<rparr>))"
    using same_hosts_frame [OF same_hosts_close, of st r] by (simp add: secure_service_def run_hook_def drop_player_def)
  then show ?case
    by (simp add: close_def split_beta)
next
  case (bg_reap st v now q)
  show ?case
    using same_hosts_frame [OF same_hosts_evict(1), of st now "ReapIdleTimeout v"]
    by (simp add: StartReaper_def split_beta frame_run_dropped)
next
  case (bg_http st token senv idle reap path query q)
  obtain ep d dropped out where s: "serve token senv idle reap path query (gs_mm st) (t_ep st, gs_dash st) = ((ep, d), dropped, out)"
    by (metis prod.collapse)
  have "same_hosts (t_ep st) ep"
    using serve_endpoint [OF s] same_hosts_evict [of "t_ep st"] by (auto simp: same_hosts_def)
  then show ?case
    using same_hosts_frame [of st ep] by (simp add: dashboard_call_def s frame_run_dropped)
next
  case (bg_urls st i now nenv)
  then show ?case
    by (auto simp: url_turn_def Let_def intro: frame_SendRMC split: prod.split option.split)
qed (simp_all add: frame_view flush_all_def Let_def)

section \<open>The account of a login\<close>

definition accepted_login :: "login_inputs \<Rightarrow> rmc_message \<Rightarrow> resolver_state \<Rightarrow> pid option" where
  "accepted_login q req rs =
     (let accept = (\<lambda>(user, extra). map_option fst (snd (resolveUser (li_gate q) (li_account q) user extra rs)))
      in if rm_Method req = MethodLogin \<or> rm_Method req = MethodLoginEx then accept (login_fields req)
         else if rm_Method req = MethodLoginWithContext then accept (context_fields req)
         else None)"

text \<open>What a login adds to the history: the host it came from, the account, the time.\<close>

definition login_log :: "login_inputs \<Rightarrow> login_server \<Rightarrow> cref \<Rightarrow> Packet \<Rightarrow> (string \<times> pid \<times> gotime) list" where
  "login_log q st r p =
     (case message_of st r p of
        None \<Rightarrow> []
      | Some req \<Rightarrow>
          if rm_Protocol req \<noteq> ProtocolTicketGranting then []
          else case accepted_login q req (ls_resolver st) of
                 None \<Rightarrow> []
               | Some pid \<Rightarrow> [(ipHost (c_RemoteAddr (conn_of st r)), pid, re_now (le_recall (li_env q)))])"

lemma AuthHandler_auth:
  "fst (snd (AuthHandler (resolveUser (li_gate q) (li_account q)) cfg env addr req rs auth)) =
     (case accepted_login q req rs of None \<Rightarrow> auth | Some pid \<Rightarrow> RememberAuthPID (le_recall env) addr pid auth)"
  by (auto simp: AuthHandler_def handleLogin_def handleLoginWithContext_def accepted_login_def Let_def split: prod.split option.split)

lemma handler_login: "handler (login_service q) k = (if k = ProtocolTicketGranting then Some (login_call q) else None)"
  by (simp add: handler_def login_service_def Register_def new_service_def)

text \<open>What the login endpoint does to the view: only a request of the ticket-granting protocol changes it.\<close>

lemma remote_view: "r < length (ep_sockets (t_ep st)) \<Longrightarrow> c_RemoteAddr (conn_of st r) = vw_hosts (view st) ! r"
  by (simp add: conn_at_def)

lemma login_call_view:
  assumes "view st2 = view st" and "r < length (ep_sockets (t_ep st))"
  shows "view (fst (login_call q r req st2)) = view (fst (login_call q r req st))"
proof -
  have len: "length (ep_sockets (t_ep st2)) = length (ep_sockets (t_ep st))"
    using arg_cong [OF assms(1), of "\<lambda>v. length (vw_hosts v)"] by simp
  have addr: "c_RemoteAddr (conn_of st2 r) = c_RemoteAddr (conn_of st r)"
    using assms len by (simp add: remote_view del: view_sel)
  have auth: "t_auth st2 = t_auth st" and more: "transport.more st2 = transport.more st"
    using arg_cong [OF assms(1), of vw_auth] arg_cong [OF assms(1), of vw_more] by simp_all
  have rs: "ls_resolver st2 = ls_resolver st"
    using more by (cases st2; cases st) simp
  have "view (st2\<lparr>ls_resolver := x, t_auth := y\<rparr>) = view (st\<lparr>ls_resolver := x, t_auth := y\<rparr>)" for x y
    using assms(1) more by (cases st2; cases st) (simp add: view_def)
  then show ?thesis
    by (simp add: login_call_def addr auth rs split_beta)
qed

lemma login_dispatch_view:
  assumes "view st2 = view st" and "r < length (ep_sockets (t_ep st))"
  shows "view (dispatchRMC (login_service q) r msg st2) =
    (case ParseRMC (ep_Settings (t_ep st)) msg of
       None \<Rightarrow> view st
     | Some req \<Rightarrow> if rm_Mode req = RMCRequest \<and> rm_Protocol req = ProtocolTicketGranting then view (fst (login_call q r req st)) else view st)"
proof -
  have s: "ep_Settings (t_ep st2) = ep_Settings (t_ep st)"
    using arg_cong [OF assms(1), of vw_Settings] by simp
  have hook: "sv_OnRMC (login_service q) = Some (\<lambda>r req st. st)"
    by (simp add: login_service_def)
  show ?thesis
    using login_call_view [OF assms] assms(1)
    by (simp add: dispatchRMC_def s hook handler_login Let_def split_beta split: option.split)
qed

lemma login_packet_view:
  assumes "r < length (ep_sockets (t_ep st))" and "\<not> ep_Secure (t_ep st)"
  shows "view (fst (handlePacket (login_service q) env r p st)) =
    (case message_of st r p of
       None \<Rightarrow> view st
     | Some req \<Rightarrow> if rm_Protocol req = ProtocolTicketGranting then view (fst (login_call q r req st)) else view st)"
proof -
  define st1 where "st1 = upd_of r (c_lastSeen_update (\<lambda>_. pe_now env)) st"
  have v: "view st1 = view st" and same: "c_fragBuf (conn_of st1 r) = c_fragBuf (conn_of st r)" "\<not> ep_Secure (t_ep st1)"
    using assms by (simp_all add: st1_def)
  have hooks: "sv_OnConnect (login_service q) = None" "sv_OnDisconnect (login_service q) = None" "gm_get (sv_custom (login_service q)) t = None" for t
    by (simp_all add: login_service_def Register_def new_service_def)
  have close: "view (close (login_service q) r st2) = view st2" for st2
    by (simp add: close_def run_hook_def hooks split_beta)
  have connect: "view (fst (processCONNECT (login_service q) env r p st1)) = view st"
    using same(2) v by (simp add: processCONNECT_def processLoginRequest_def connected_def run_hook_def hooks Let_def)
  have ack: "c_fragBuf (conn_of (sendAck r p st1) r) = c_fragBuf (conn_of st1 r)"
    by (simp add: sendAck_def)
  have data: "view (processData (login_service q) r p st1) = (case message_of st r p of
       None \<Rightarrow> view st
     | Some req \<Rightarrow> if rm_Protocol req = ProtocolTicketGranting then view (fst (login_call q r req st)) else view st)" if "p_Type p = PacketDATA"
    using that v same(1) ack
    by (auto simp: processData_def message_of_def reassemble_def Let_def ackPackets_def login_dispatch_view [OF _ assms(1)] split: option.split)
  show ?thesis
  proof (cases "p_Type p = PacketDATA")
    case True
    then show ?thesis
      using data by (simp add: handlePacket_def packet_consts Let_def flip: st1_def)
  next
    case False
    then show ?thesis
      using v connect close hooks by (simp add: handlePacket_def Let_def processPing_def message_of_def flip: st1_def)
  qed
qed

lemma login_packet_auth:
  assumes "r < length (ep_sockets (t_ep st))" and "\<not> ep_Secure (t_ep st)"
  shows "t_auth (fst (handlePacket (login_service q) env r p st)) =
    (case login_log q st r p of
       [] \<Rightarrow> t_auth st
     | (h, pid, t) # _ \<Rightarrow> RememberAuthPID (le_recall (li_env q)) (c_RemoteAddr (conn_of st r)) pid (t_auth st))"
proof -
  have "t_auth (fst (login_call q r req st)) = (case accepted_login q req (ls_resolver st) of
      None \<Rightarrow> t_auth st | Some pid \<Rightarrow> RememberAuthPID (le_recall (li_env q)) (c_RemoteAddr (conn_of st r)) pid (t_auth st))" for req
    using AuthHandler_auth [of q "authCfg (li_host q) (li_port q)" "li_env q" "c_RemoteAddr (conn_of st r)" req "ls_resolver st" "t_auth st"]
    by (simp add: login_call_def split_beta)
  then show ?thesis
    using arg_cong [OF login_packet_view [OF assms, of q env p], of vw_auth] by (simp add: login_log_def split: option.splits if_splits)
qed

lemma login_packet_frame:
  assumes "r < length (ep_sockets (t_ep st))" and "\<not> ep_Secure (t_ep st)"
  shows "same_hosts (t_ep st) (t_ep (fst (handlePacket (login_service q) env r p st)))"
proof -
  let ?v = "view (fst (handlePacket (login_service q) env r p st))"
  have "vw_hosts ?v = vw_hosts (view st)" "vw_Settings ?v = vw_Settings (view st)" "vw_Secure ?v = vw_Secure (view st)"
    "vw_SecureKey ?v = vw_SecureKey (view st)"
    unfolding login_packet_view [OF assms] by (simp_all add: login_call_def split_beta split: option.split)
  then show ?thesis
    by (simp add: same_hosts_def)
qed

section \<open>The composed program\<close>

record app =
  ap_login :: login_server
  ap_secure :: server
  ap_disk :: "string option"
  ap_log :: "(string \<times> pid \<times> gotime) list"
  ap_tickets :: "byte list list"

text \<open>The goroutines and socket events of the login endpoint; it has no reaper and no dashboard.\<close>

inductive login_background :: "login_server \<Rightarrow> login_server \<Rightarrow> bool" where
  lb_buffer: "login_background st (upd_of r (c_recvBuf_update (\<lambda>_. rest)) st)"
| lb_close: "login_background st (close (login_service q) r st)"
| lb_send: "login_background st (sender_turn i st)"
| lb_retransmit: "login_background st (retransmit_turn i ids st)"

text \<open>
  The events of the program. A login connection is accepted directly or through the proxy. Both endpoints read and write
  one recall table; where it is first used, the bytes of the file are decoded as they are then. The flusher replaces them, or the write
  fails and they stay. A restart loses everything but the file. The addresses of sockets are ASCII.
\<close>

definition disk_of :: "app \<Rightarrow> (string, authRecallPersisted) gomap option" where
  "disk_of a = Option.bind (ap_disk a) unmarshal_recall"

definition share_login :: "app \<Rightarrow> login_server \<Rightarrow> app" where
  "share_login a l = a\<lparr>ap_login := l, ap_secure := (ap_secure a)\<lparr>t_auth := t_auth l\<rparr>\<rparr>"

definition share_secure :: "app \<Rightarrow> server \<Rightarrow> app" where
  "share_secure a s = a\<lparr>ap_secure := s, ap_login := (ap_login a)\<lparr>t_auth := t_auth s\<rparr>\<rparr>"

inductive app_step :: "app \<Rightarrow> app \<Rightarrow> bool" where
  app_accept: "ascii addr \<Longrightarrow> app_step a (a\<lparr>ap_login := (ap_login a)\<lparr>t_ep := open_socket addr (t_ep (ap_login a))\<rparr>\<rparr>)"
| app_accept_proxy: "ascii peer \<Longrightarrow> Accept eof peer bs = Some pc \<Longrightarrow>
    app_step a (a\<lparr>ap_login := (ap_login a)\<lparr>t_ep := open_socket (RemoteAddr pc) (t_ep (ap_login a))\<rparr>\<rparr>)"
| app_login_packet: "r < length (ep_sockets (t_ep (ap_login a))) \<Longrightarrow> re_saved (le_recall (li_env q)) = disk_of a \<Longrightarrow>
    app_step a ((share_login a (fst (handlePacket (login_service q) env r p (ap_login a))))
      \<lparr>ap_log := login_log q (ap_login a) r p @ ap_log a\<rparr>)"
| app_login_background: "login_background (ap_login a) l \<Longrightarrow> app_step a (share_login a l)"
| app_open: "app_step a (a\<lparr>ap_secure := (ap_secure a)\<lparr>t_ep := open_socket addr (t_ep (ap_secure a))\<rparr>\<rparr>)"
| app_secure_packet: "r < length (ep_sockets (t_ep (ap_secure a))) \<Longrightarrow> re_saved (pe_recall env) = disk_of a \<Longrightarrow>
    app_step a ((share_secure a (fst (handlePacket (secure_service q) env r p (ap_secure a))))
      \<lparr>ap_tickets := (if p_Type p = PacketCONNECT \<and> p_Payload p \<noteq> [] then [p_Payload p] else []) @ ap_tickets a\<rparr>)"
| app_background: "background_step (ap_secure a) s \<Longrightarrow> app_step a (share_secure a s)"
| app_flush: "authRecallFlusher now ord (t_auth (ap_secure a)) = (auth, Some out) \<Longrightarrow>
    app_step a ((share_secure a ((ap_secure a)\<lparr>t_auth := auth\<rparr>))\<lparr>ap_disk := (if written then Some (marshal_recall out) else ap_disk a)\<rparr>)"
| app_restart: "app_step a (a\<lparr>ap_login := login_start, ap_secure := secure_start e\<rparr>)"

definition app_init :: "app \<Rightarrow> bool" where
  "app_init a \<longleftrightarrow> (\<exists>e. a = \<lparr>ap_login = login_start, ap_secure = secure_start e, ap_disk = None, ap_log = [], ap_tickets = []\<rparr>)"

text \<open>The part of the program that remembers logins, as the recall system.\<close>

definition recall_of :: "app \<Rightarrow> recall_sys" where
  "recall_of a = \<lparr>rs_state = t_auth (ap_secure a), rs_disk = disk_of a, rs_log = ap_log a\<rparr>"

section \<open>The recall table is that of the recall system\<close>

definition fixed_part :: "'a view \<Rightarrow> string list \<times> settings \<times> bool \<times> byte list" where
  "fixed_part v = (vw_hosts v, vw_Settings v, vw_Secure v, vw_SecureKey v)"

lemma frame_fixed: "keeps_frame st st' \<Longrightarrow> fixed_part (view st') = fixed_part (view st) \<and> vw_auth (view st') = vw_auth (view st)"
  by (simp add: keeps_frame_def fixed_part_def)

interpretation secure_view: guarded_service "secure_service q"
  "\<lambda>v. fixed_part v = F \<and> recall_step\<^sup>*\<^sup>* s (s\<lparr>rs_state := vw_auth v\<rparr>)" "\<lambda>_ _ _. True" "\<lambda>env. re_saved env = rs_disk s" for q F s
proof
  fix st :: server and env :: recall_env and addr
  assume st: "fixed_part (view st) = F \<and> recall_step\<^sup>*\<^sup>* s (s\<lparr>rs_state := vw_auth (view st)\<rparr>)" and env: "re_saved env = rs_disk s"
  have "recall_step (s\<lparr>rs_state := t_auth st\<rparr>) (s\<lparr>rs_state := fst (RecallAuthPID env addr (t_auth st))\<rparr>)"
    using step_recall [of env "s\<lparr>rs_state := t_auth st\<rparr>" addr] env by simp
  then show "fixed_part (view (st\<lparr>t_auth := fst (RecallAuthPID env addr (t_auth st))\<rparr>)) = F \<and>
      recall_step\<^sup>*\<^sup>* s (s\<lparr>rs_state := vw_auth (view (st\<lparr>t_auth := fst (RecallAuthPID env addr (t_auth st))\<rparr>))\<rparr>)"
    using st by (auto simp: fixed_part_def)
next
  fix k h and st :: server and r req
  assume "handler (secure_service q) k = Some h"
  then have "keeps_frame st (fst (h r req st))"
    by (rule secure_handler_frame)
  then show "fixed_part (view st) = F \<and> recall_step\<^sup>*\<^sup>* s (s\<lparr>rs_state := vw_auth (view st)\<rparr>) \<Longrightarrow>
      fixed_part (view (fst (h r req st))) = F \<and> recall_step\<^sup>*\<^sup>* s (s\<lparr>rs_state := vw_auth (view (fst (h r req st)))\<rparr>)"
    using frame_fixed by metis
qed (auto simp: secure_service_def Register_def new_service_def run_hook_def drop_player_def note_call_def fixed_part_def)

text \<open>What holds of the composed program: the endpoints share the table, and their keys are those of the start.\<close>

definition secure_settings :: settings where
  "secure_settings = NewSwitchSettings accessKey nexVersion"

definition secure_key :: "byte list" where
  "secure_key = DeriveKey secure_settings (bytes_of securePassword) securePID"

definition app_ok :: "app \<Rightarrow> bool" where
  "app_ok a \<longleftrightarrow> t_auth (ap_login a) = t_auth (ap_secure a) \<and> \<not> ep_Secure (t_ep (ap_login a)) \<and> ep_Secure (t_ep (ap_secure a)) \<and>
     ep_Settings (t_ep (ap_secure a)) = secure_settings \<and> ep_SecureKey (t_ep (ap_secure a)) = secure_key \<and>
     list_all ascii (map c_RemoteAddr (ep_sockets (t_ep (ap_login a)))) \<and> (\<forall>(h, p, t) \<in> set (ap_log a). ascii h)"

lemma start_ok:
  "t_auth login_start = empty_auth" "t_auth (secure_start e) = empty_auth" "\<not> ep_Secure (t_ep login_start)" "ep_Secure (t_ep (secure_start e))" "ep_sockets (t_ep (secure_start e)) = []" "ep_sockets (t_ep login_start) = []"
  "ep_Settings (t_ep (secure_start e)) = secure_settings" "ep_SecureKey (t_ep (secure_start e)) = secure_key"
  by (simp_all add: login_start_def secure_start_def NewEndpoint_def SetSecureAccount_def secure_settings_def secure_key_def)

lemma secure_packet_sim:
  assumes "r < length (ep_sockets (t_ep st))" and "re_saved (pe_recall env) = rs_disk s" and "rs_state s = t_auth st"
  shows "fixed_part (view (fst (handlePacket (secure_service q) env r p st))) = fixed_part (view st) \<and>
    recall_step\<^sup>*\<^sup>* s (s\<lparr>rs_state := t_auth (fst (handlePacket (secure_service q) env r p st))\<rparr>)"
proof -
  have "s = s\<lparr>rs_state := t_auth st\<rparr>"
    using assms(3) by (cases s) simp
  then have "recall_step\<^sup>*\<^sup>* s (s\<lparr>rs_state := t_auth st\<rparr>)"
    by (metis rtranclp.rtrancl_refl)
  then show ?thesis
    using secure_view.handlePacket_ok [where F = "fixed_part (view st)" and s = s and st = st and r = r and env = env and q = q and p = p] assms
    by simp
qed

lemma login_background_view: "login_background st st' \<Longrightarrow> view st' = view st"
proof (induction rule: login_background.induct)
  case (lb_close st q r)
  have "sv_OnDisconnect (login_service q) = None"
    by (simp add: login_service_def Register_def new_service_def)
  then show ?case
    by (simp add: close_def run_hook_def split_beta)
qed simp_all

lemma share_simps [simp]:
  "ap_login (share_login a l) = l" "ap_secure (share_login a l) = (ap_secure a)\<lparr>t_auth := t_auth l\<rparr>" "ap_secure (share_secure a s) = s"
  "ap_login (share_secure a s) = (ap_login a)\<lparr>t_auth := t_auth s\<rparr>" "ap_disk (share_login a l) = ap_disk a" "ap_disk (share_secure a s) = ap_disk a"
  "ap_log (share_login a l) = ap_log a" "ap_log (share_secure a s) = ap_log a" "ap_tickets (share_login a l) = ap_tickets a"
  "disk_of (share_login a l) = disk_of a" "disk_of (share_secure a s) = disk_of a"
  "ap_tickets (share_secure a s) = ap_tickets a"
  by (simp_all add: share_login_def share_secure_def disk_of_def)

lemma disk_of_simps [simp]:
  "disk_of (a\<lparr>ap_login := l\<rparr>) = disk_of a" "disk_of (a\<lparr>ap_secure := s\<rparr>) = disk_of a" "disk_of (a\<lparr>ap_log := lg\<rparr>) = disk_of a"
  "disk_of (a\<lparr>ap_tickets := ts\<rparr>) = disk_of a" "disk_of (a\<lparr>ap_disk := d\<rparr>) = Option.bind d unmarshal_recall"
  by (simp_all add: disk_of_def)

lemma login_log_ascii:
  assumes "r < length (ep_sockets (t_ep st))" and "list_all ascii (map c_RemoteAddr (ep_sockets (t_ep st)))" and "(h, pid, t) \<in> set (login_log q st r p)"
  shows "ascii h"
  using assms by (auto simp: login_log_def list_all_iff conn_at_def intro!: ascii_ipHost split: option.splits if_splits)

lemma app_step_ok:
  assumes "app_step a a'" and "app_ok a"
  shows "app_ok a'"
  using assms
proof (induction rule: app_step.induct)
  case (app_login_packet r a q p env)
  then have "\<forall>(h, p, t) \<in> set (login_log q (ap_login a) r p). ascii h"
    using login_log_ascii [of r "ap_login a"] by (auto simp: app_ok_def)
  then show ?case
    using app_login_packet login_packet_frame [of r "ap_login a" q env p] by (auto simp: app_ok_def same_hosts_def)
next
  case (app_login_background a l)
  then have v: "view l = view (ap_login a)"
    by (simp add: login_background_view)
  show ?case
    using app_login_background.prems arg_cong [OF v, of vw_auth] arg_cong [OF v, of vw_Secure] arg_cong [OF v, of vw_hosts] by (simp add: app_ok_def)
next
  case (app_secure_packet r a env p q)
  then show ?case
    using secure_packet_sim [of r "ap_secure a" env "recall_of a" q p] by (simp add: app_ok_def recall_of_def fixed_part_def)
next
  case (app_background a s)
  then show ?case
    using frame_fixed [OF background_frame [of "ap_secure a" s]] by (simp add: app_ok_def fixed_part_def)
next
  case (app_accept_proxy peer eof bs pc a)
  then show ?case
    using ascii_RemoteAddr [of eof peer bs pc] by (simp add: app_ok_def open_socket_def NewConnection_def)
qed (simp_all add: app_ok_def open_socket_def NewConnection_def start_ok)

text \<open>What the flusher writes is of hosts that logged in, so that the file gives nothing else back.\<close>

lemma table_hosts_valid:
  assumes "app_ok a" and "recall_inv (recall_of a)" and "gm_get (as_table (t_auth (ap_secure a))) h = Some r"
  shows "to_valid h = h"
proof -
  have "logged (ap_log a) h (ar_pid r) (ar_at r)"
    using assms(2,3) by (simp add: recall_inv_def recall_of_def table_logged_def)
  then show ?thesis
    using assms(1) by (auto simp: logged_def app_ok_def intro: ascii_valid)
qed

lemma flushed_file:
  assumes "authRecallFlusher now ord (t_auth (ap_secure a)) = (auth, Some out)" and "app_ok a" and "recall_inv (recall_of a)"
    and "unmarshal_recall (marshal_recall out) = Some m"
  shows "set m \<subseteq> set out"
proof -
  have out: "out = snd (fold (flush_entry now) ord (as_table (t_auth (ap_secure a)), []))"
    using assms(1) by (auto simp: authRecallFlusher_def split: if_splits prod.splits)
  have "gm_wf out \<and> (\<forall>(h, p) \<in> set out. to_valid h = h)"
    unfolding out using table_hosts_valid [OF assms(2,3)] by (intro flush_entries_keep) (auto simp: gm_wf_def)
  then show ?thesis
    using assms(4) by (intro recall_file_sound) auto
qed

lemma app_step_sim:
  assumes "app_step a a'" and "app_ok a" and "recall_inv (recall_of a)"
  shows "recall_step\<^sup>*\<^sup>* (recall_of a) (recall_of a')"
  using assms
proof (induction rule: app_step.induct)
  case (app_login_packet r a q p env)
  let ?s = "recall_of a" and ?a' = "(share_login a (fst (handlePacket (login_service q) env r p (ap_login a))))\<lparr>ap_log := login_log q (ap_login a) r p @ ap_log a\<rparr>"
  have auth: "t_auth (ap_login a) = rs_state ?s" "\<not> ep_Secure (t_ep (ap_login a))"
    using app_login_packet by (simp_all add: app_ok_def recall_of_def)
  note new = login_packet_auth [OF app_login_packet(1) auth(2), of q env p]
  show ?case
  proof (cases "login_log q (ap_login a) r p")
    case Nil
    then have "recall_of ?a' = ?s"
      using new auth(1) by (simp add: recall_of_def)
    then show ?thesis
      by (metis rtranclp.rtrancl_refl)
  next
    case (Cons e es)
    then obtain pid where e: "login_log q (ap_login a) r p = [(ipHost (c_RemoteAddr (conn_of (ap_login a) r)), pid, re_now (le_recall (li_env q)))]"
      by (auto simp: login_log_def split: option.splits if_splits)
    have "re_saved (le_recall (li_env q)) = rs_disk ?s"
      using app_login_packet(2) by (simp add: recall_of_def)
    from step_remember [OF this, of "c_RemoteAddr (conn_of (ap_login a) r)" pid]
    have "recall_step ?s (recall_of ?a')"
      using new auth(1) e by (simp add: recall_of_def)
    then show ?thesis
      by blast
  qed
next
  case (app_login_background a l)
  have "t_auth l = t_auth (ap_secure a)"
    using arg_cong [OF login_background_view [OF app_login_background.hyps], of vw_auth] app_login_background.prems by (simp add: app_ok_def)
  then show ?case
    by (simp add: recall_of_def)
next
  case (app_secure_packet r a env p q)
  then show ?case
    using secure_packet_sim [of r "ap_secure a" env "recall_of a" q p] by (simp add: recall_of_def)
next
  case (app_background a s)
  then show ?case
    using frame_fixed [OF background_frame [of "ap_secure a" s]] by (simp add: recall_of_def)
next
  case (app_flush now ord a auth out written)
  have "case unmarshal_recall (marshal_recall out) of None \<Rightarrow> True | Some m \<Rightarrow> set m \<subseteq> set out"
    using flushed_file [OF app_flush] by (auto split: option.split)
  then have "recall_step (recall_of a) ((recall_of a)\<lparr>rs_state := auth, rs_disk := (if written then unmarshal_recall (marshal_recall out) else disk_of a)\<rparr>)"
    using step_flush [of now ord "recall_of a" auth out "unmarshal_recall (marshal_recall out)" written] app_flush.hyps
    by (cases written) (simp_all add: recall_of_def)
  then show ?case
    by (cases written) (auto simp: recall_of_def disk_of_def)
next
  case (app_restart a e)
  have "recall_step (recall_of a) ((recall_of a)\<lparr>rs_state := empty_auth\<rparr>)"
    by (rule step_restart)
  then show ?case
    by (auto simp: recall_of_def start_ok)
qed (simp_all add: recall_of_def)

lemma app_init_ok: "app_init a \<Longrightarrow> app_ok a \<and> recall_start (recall_of a)"
  by (auto simp: app_init_def app_ok_def recall_start_def recall_of_def disk_of_def start_ok)

interpretation app_run: inductive_invariant app_init app_step app_ok
  by unfold_locales (simp_all add: app_init_ok app_step_ok)

lemma reach_steps: "reach I S x \<Longrightarrow> S\<^sup>*\<^sup>* x y \<Longrightarrow> reach I S y"
  by (rotate_tac 1, induction rule: rtranclp_induct) (auto intro: reach.intros)

text \<open>C28: in the composed program the recall table behaves like the recall system on its own. Whatever packets reach the two
  endpoints, with all their handlers, goroutines, evictions, flushes and restarts, what the program holds of remembered logins (the
  table both endpoints share, its file and the history of accepted logins) is a state the recall system reaches.\<close>

theorem app_refines_recall:
  assumes "reach app_init app_step a"
  shows "reach recall_start recall_step (recall_of a)"
  using assms
proof (induction rule: reach.induct)
  case (reach_init a)
  then show ?case
    using app_init_ok [of a] by (simp add: reach.reach_init)
next
  case (reach_step a a')
  then show ?case
    using reach_steps [OF reach_step.IH] app_step_sim [OF _ app_run.reachable_inv recall.reachable_inv [OF reach_step.IH]] by blast
qed

section \<open>Where the account of a connection comes from\<close>

definition by_login :: "app \<Rightarrow> connection \<Rightarrow> bool" where
  "by_login a c \<longleftrightarrow> (\<exists>t. (ipHost (c_RemoteAddr c), c_PID c, t) \<in> set (ap_log a))"

definition by_ticket :: "app \<Rightarrow> connection \<Rightarrow> bool" where
  "by_ticket a c \<longleftrightarrow>
     (\<exists>payload ticket cid check. payload \<in> set (ap_tickets a) \<and> ticket_login secure_settings secure_key payload = Ok (ticket, cid, check) \<and> st_Source ticket = c_PID c)"

definition provenance :: "app \<Rightarrow> bool" where
  "provenance a \<longleftrightarrow>
     (\<forall>r < length (ep_sockets (t_ep (ap_secure a))).
        let c = conn_of (ap_secure a) r in c_PID c = 0 \<or> by_login a c \<or> by_ticket a c)"

lemma same_hosts_addr:
  "same_hosts ep ep' \<Longrightarrow> r < length (ep_sockets ep) \<Longrightarrow> c_RemoteAddr (conn_at ep' r) = c_RemoteAddr (conn_at ep r)"
  unfolding same_hosts_def conn_at_def by (metis length_map nth_map)

lemma explained_later:
  assumes "by_login a c \<or> by_ticket a c" and "set (ap_log a) \<subseteq> set (ap_log a')" and "set (ap_tickets a) \<subseteq> set (ap_tickets a')"
    and "c_PID c' = c_PID c" and "c_RemoteAddr c' = c_RemoteAddr c"
  shows "by_login a' c' \<or> by_ticket a' c'"
  using assms(1)
proof
  assume "by_login a c"
  then show ?thesis
    using assms(2) unfolding by_login_def assms(4,5) by blast
next
  assume "by_ticket a c"
  then show ?thesis
    using assms(3) unfolding by_ticket_def assms(4) by blast
qed

lemma provenance_later:
  assumes "provenance a" and "set (ap_log a) \<subseteq> set (ap_log a')" and "set (ap_tickets a) \<subseteq> set (ap_tickets a')"
    and "same_hosts (t_ep (ap_secure a)) (t_ep (ap_secure a'))"
    and "\<And>r. r < length (ep_sockets (t_ep (ap_secure a))) \<Longrightarrow>
      c_PID (conn_of (ap_secure a') r) = c_PID (conn_of (ap_secure a) r) \<or> by_login a' (conn_of (ap_secure a') r) \<or> by_ticket a' (conn_of (ap_secure a') r)"
  shows "provenance a'"
  unfolding provenance_def Let_def
proof (intro allI impI)
  fix r
  assume "r < length (ep_sockets (t_ep (ap_secure a')))"
  then have r: "r < length (ep_sockets (t_ep (ap_secure a)))"
    using arg_cong [OF conjunct1 [OF assms(4) [unfolded same_hosts_def]], of length] by simp
  define c c' where "c = conn_of (ap_secure a) r" and "c' = conn_of (ap_secure a') r"
  have addr: "c_RemoteAddr c' = c_RemoteAddr c"
    unfolding c_def c'_def by (rule same_hosts_addr [OF assms(4) r])
  have old: "c_PID c = 0 \<or> by_login a c \<or> by_ticket a c"
    using assms(1) r unfolding provenance_def Let_def c_def by blast
  have "c_PID c' = c_PID c \<or> by_login a' c' \<or> by_ticket a' c'"
    using assms(5) [OF r] unfolding c_def c'_def .
  then show "c_PID (conn_of (ap_secure a') r) = 0 \<or> by_login a' (conn_of (ap_secure a') r) \<or> by_ticket a' (conn_of (ap_secure a') r)"
    unfolding c'_def [symmetric] using old explained_later [OF _ assms(2,3) _ addr] by metis
qed

lemma same_hosts_fixed: "fixed_part (view st') = fixed_part (view st) \<Longrightarrow> same_hosts (t_ep st) (t_ep st')"
  by (simp add: fixed_part_def same_hosts_def)

lemma proven_explained:
  assumes "proven_account env (ap_secure a) r payload (c_PID c)" and "app_ok a" and "recall_inv (recall_of a)"
    and "re_saved (pe_recall env) = disk_of a" and "c_RemoteAddr c = c_RemoteAddr (conn_of (ap_secure a) r)"
    and "ap_log a' = ap_log a" and "payload \<noteq> [] \<Longrightarrow> payload \<in> set (ap_tickets a')"
  shows "by_login a' c \<or> by_ticket a' c"
proof (cases "payload = []")
  case True
  then have "snd (RecallAuthPID (pe_recall env) (c_RemoteAddr c) (rs_state (recall_of a))) = Some (c_PID c)"
    using assms(1,5) ticket_login_empty by (auto simp: proven_account_def recall_of_def)
  moreover have "re_saved (pe_recall env) = rs_disk (recall_of a)"
    using assms(4) by (simp add: recall_of_def)
  ultimately obtain t where "(ipHost (c_RemoteAddr c), c_PID c, t) \<in> set (rs_log (recall_of a))"
    using recalled_logged [OF assms(3)] by blast
  then show ?thesis
    using assms(6) by (auto simp: by_login_def recall_of_def)
next
  case False
  then obtain ticket cid check where "ticket_login secure_settings secure_key payload = Ok (ticket, cid, check)" "st_Source ticket = c_PID c"
    using assms(1,2) by (auto simp: proven_account_def app_ok_def)
  then show ?thesis
    using assms(7) False by (auto simp: by_ticket_def)
qed

lemma provenance_connect:
  assumes "provenance a" and "app_ok a" and "recall_inv (recall_of a)" and "r < length (ep_sockets (t_ep (ap_secure a)))"
    and "re_saved (pe_recall env) = disk_of a"
  shows "provenance ((share_secure a (fst (handlePacket (secure_service q) env r p (ap_secure a))))
      \<lparr>ap_tickets := (if p_Type p = PacketCONNECT \<and> p_Payload p \<noteq> [] then [p_Payload p] else []) @ ap_tickets a\<rparr>)"
proof -
  define st' where "st' = fst (handlePacket (secure_service q) env r p (ap_secure a))"
  define a' where "a' = (share_secure a st')\<lparr>ap_tickets := (if p_Type p = PacketCONNECT \<and> p_Payload p \<noteq> [] then [p_Payload p] else []) @ ap_tickets a\<rparr>"
  have a': "ap_secure a' = st'" "ap_log a' = ap_log a" "set (ap_tickets a) \<subseteq> set (ap_tickets a')"
    "p_Type p = PacketCONNECT \<Longrightarrow> p_Payload p \<noteq> [] \<Longrightarrow> p_Payload p \<in> set (ap_tickets a')"
    by (simp_all add: a'_def)
  have hosts: "same_hosts (t_ep (ap_secure a)) (t_ep st')"
    using secure_packet_sim [of r "ap_secure a" env "recall_of a" q p] assms(4,5) by (simp add: recall_of_def same_hosts_fixed st'_def)
  have "c_PID (conn_of st' k) = c_PID (conn_of (ap_secure a) k) \<or> by_login a' (conn_of st' k) \<or> by_ticket a' (conn_of st' k)"
    if k: "k < length (ep_sockets (t_ep (ap_secure a)))" for k
  proof (cases "c_PID (conn_of st' k) = c_PID (conn_of (ap_secure a) k)")
    case False
    from secure_id.handlePacket_identity [OF assms(4) k this [unfolded st'_def]]
    have kr: "k = r" and con: "p_Type p = PacketCONNECT" and proven: "proven_account env (ap_secure a) r (p_Payload p) (c_PID (conn_of st' r))"
      unfolding st'_def by blast+
    have "by_login a' (conn_of st' r) \<or> by_ticket a' (conn_of st' r)"
      using proven assms(2,3,5) same_hosts_addr [OF hosts assms(4)] a'(2) a'(4) [OF con] by (rule proven_explained)
    then show ?thesis
      unfolding kr by blast
  qed blast
  then have "provenance a'"
    using hosts a' by (intro provenance_later [OF assms(1)]) simp_all
  then show ?thesis
    unfolding a'_def st'_def .
qed

lemma provenance_step:
  assumes "app_step a a'" and "app_ok a" and "recall_inv (recall_of a)" and "provenance a"
  shows "provenance a'"
  using assms
proof (induction rule: app_step.induct)
  case (app_login_packet r a q p env)
  then show ?case
    by (intro provenance_later [OF app_login_packet.prems(3)]) (auto simp: same_hosts_def)
next
  case (app_login_background a l)
  then show ?case
    by (intro provenance_later [OF app_login_background.prems(3)]) (auto simp: same_hosts_def)
next
  case (app_open a addr)
  then show ?case
    by (auto simp: provenance_def by_login_def by_ticket_def open_socket_def conn_at_def nth_append NewConnection_def Let_def)
next
  case (app_secure_packet r a env p q)
  then show ?case
    using provenance_connect by blast
next
  case (app_background a s)
  have "c_PID (conn_of s r) = c_PID (conn_of (ap_secure a) r)" if "r < length (ep_sockets (t_ep (ap_secure a)))" for r
    using background_identity [OF app_background.hyps] that by (simp add: keeps_identity_def)
  then show ?case
    using same_hosts_fixed [OF conjunct1 [OF frame_fixed [OF background_frame [OF app_background.hyps]]]]
    by (intro provenance_later [OF app_background.prems(3)]) auto
next
  case (app_flush now ord a auth out written)
  then show ?case
    by (intro provenance_later [OF app_flush.prems(3)]) (auto simp: same_hosts_def)
qed (simp_all add: provenance_def by_login_def by_ticket_def start_ok Let_def)

interpretation app_accounts: inductive_invariant app_init app_step "\<lambda>a. app_ok a \<and> recall_inv (recall_of a) \<and> provenance a"
proof
  fix a
  assume "app_init a"
  then show "app_ok a \<and> recall_inv (recall_of a) \<and> provenance a"
    using app_init_ok [of a] recall.inv_init by (auto simp: app_init_def provenance_def start_ok)
next
  fix a a'
  assume inv: "app_ok a \<and> recall_inv (recall_of a) \<and> provenance a" and step: "app_step a a'"
  have "recall_inv s'" if "recall_step\<^sup>*\<^sup>* s s'" "recall_inv s" for s s'
    using that by (induction rule: rtranclp_induct) (auto intro: recall_step_inv)
  then show "app_ok a' \<and> recall_inv (recall_of a') \<and> provenance a'"
    using inv step app_step_ok app_step_sim provenance_step by blast
qed

lemma app_recall_inv: "reach app_init app_step a \<Longrightarrow> recall_inv (recall_of a)"
  using app_accounts.reachable_inv by blast

text \<open>C6: every account on the secure endpoint has a login behind it. In every state of the composed program, a connection of the
  secure endpoint that speaks for an account either comes from a host from which the login endpoint accepted a login for that account, in
  this process or, through the file, in an earlier one; or a ticket was presented that opens under the server's key and
  names the account.\<close>

theorem account_provenance:
  assumes "reach app_init app_step a" and "r < length (ep_sockets (t_ep (ap_secure a)))" and "c_PID (conn_of (ap_secure a) r) \<noteq> 0"
  shows "(\<exists>t. (ipHost (c_RemoteAddr (conn_of (ap_secure a) r)), c_PID (conn_of (ap_secure a) r), t) \<in> set (ap_log a)) \<or>
    (\<exists>payload ticket cid check. payload \<in> set (ap_tickets a) \<and> ticket_login secure_settings secure_key payload = Ok (ticket, cid, check) \<and>
       st_Source ticket = c_PID (conn_of (ap_secure a) r))"
  using app_accounts.reachable_inv [OF assms(1)] assms(2,3) by (auto simp: provenance_def by_login_def by_ticket_def Let_def)

section \<open>The secure endpoint inside the program\<close>

text \<open>Seen from the secure endpoint alone, what the login endpoint, the flusher and the restart do are steps it may take on its
  own. So every state of it inside the program is one that it can reach by itself, and what holds of those, its stores
  being well-formed for one, holds in the program.\<close>

lemma secure_start_reach: "reach secure_init secure_step (secure_start e)"
  by (rule reach_init) (auto simp: secure_init_def)

lemma app_secure_reach: "reach app_init app_step a \<Longrightarrow> reach secure_init secure_step (ap_secure a)"
proof (induction rule: reach.induct)
  case (reach_init a)
  then show ?case
    by (auto simp: app_init_def secure_start_reach)
next
  case (reach_step a a')
  from reach_step.hyps(2) show ?case
  proof (cases rule: app_step.cases)
    case (app_restart e)
    then show ?thesis
      by (simp add: secure_start_reach)
  qed (auto simp: share_login_def share_secure_def intro: reach_step.IH reach.reach_step [OF reach_step.IH] secure_step.intros)
qed

lemma app_stores_wf: "reach app_init app_step a \<Longrightarrow> stores_wf (transport.more (ap_secure a))"
  by (rule secure_run.reachable_inv [OF app_secure_reach])

section \<open>From a login to a connection\<close>

lemma connect_recalled:
  assumes "r < length (ep_sockets (t_ep st))" and "ep_Secure (t_ep st)" and "p_Type p = PacketCONNECT" and "\<not> HasFlag p FlagACK" and "p_Payload p = []"
    and "p_Signature p = LitePacketSignature (AccessKey (ep_Settings (t_ep st))) p (c_connectionSig (conn_of st r))"
    and "snd (RecallAuthPID (pe_recall env) (c_RemoteAddr (conn_of st r)) (t_auth st)) = Some pid"
  shows "c_PID (conn_of (fst (handlePacket (secure_service q) env r p st)) r) = pid"
proof -
  obtain auth where re: "RecallAuthPID (pe_recall env) (c_RemoteAddr (conn_of st r)) (t_auth st) = (auth, Some pid)"
    using assms(7) by (metis prod.collapse)
  define st2 where "st2 = upd_of r (c_PID_update (\<lambda>_. pid)) ((upd_of r (c_lastSeen_update (\<lambda>_. pe_now env)) st)\<lparr>t_auth := auth\<rparr>)"
  have "c_PID (conn_of st2 r) = pid" "r < length (ep_sockets (t_ep st2))"
    using assms(1) by (simp_all add: st2_def)
  then show ?thesis
    using secure_id.connected_keeps [of r st2 q "[]"] connect_recalled_state [OF assms(1-6) re, of q]
    by (simp add: keeps_identity_def flip: st2_def)
qed

text \<open>What may happen between a login from host \<open>h\<close> at time \<open>t\<close> and the CONNECT: every event of the program but a restart and another login
  from the same host. The clock, where the recall or the flusher compares it with the entry of \<open>h\<close>, is still within the lifetime.\<close>

inductive meanwhile :: "string \<Rightarrow> gotime \<Rightarrow> app \<Rightarrow> app \<Rightarrow> bool" for h t where
  mw_accept: "ascii addr \<Longrightarrow> meanwhile h t a (a\<lparr>ap_login := (ap_login a)\<lparr>t_ep := open_socket addr (t_ep (ap_login a))\<rparr>\<rparr>)"
| mw_accept_proxy: "ascii peer \<Longrightarrow> Accept eof peer bs = Some pc \<Longrightarrow>
    meanwhile h t a (a\<lparr>ap_login := (ap_login a)\<lparr>t_ep := open_socket (RemoteAddr pc) (t_ep (ap_login a))\<rparr>\<rparr>)"
| mw_login_packet: "r < length (ep_sockets (t_ep (ap_login a))) \<Longrightarrow> re_saved (le_recall (li_env q)) = disk_of a \<Longrightarrow>
    h \<notin> fst ` set (login_log q (ap_login a) r p) \<Longrightarrow>
    meanwhile h t a ((share_login a (fst (handlePacket (login_service q) env r p (ap_login a))))
      \<lparr>ap_log := login_log q (ap_login a) r p @ ap_log a\<rparr>)"
| mw_login_background: "login_background (ap_login a) l \<Longrightarrow> meanwhile h t a (share_login a l)"
| mw_open: "meanwhile h t a (a\<lparr>ap_secure := (ap_secure a)\<lparr>t_ep := open_socket addr (t_ep (ap_secure a))\<rparr>\<rparr>)"
| mw_secure_packet: "r < length (ep_sockets (t_ep (ap_secure a))) \<Longrightarrow> re_saved (pe_recall env) = disk_of a \<Longrightarrow>
    re_now (pe_recall env) - t \<le> authRecallTTL \<Longrightarrow>
    meanwhile h t a ((share_secure a (fst (handlePacket (secure_service q) env r p (ap_secure a))))
      \<lparr>ap_tickets := (if p_Type p = PacketCONNECT \<and> p_Payload p \<noteq> [] then [p_Payload p] else []) @ ap_tickets a\<rparr>)"
| mw_background: "background_step (ap_secure a) s \<Longrightarrow> meanwhile h t a (share_secure a s)"
| mw_flush: "authRecallFlusher now ord (t_auth (ap_secure a)) = (auth, Some out) \<Longrightarrow> now h - t \<le> authRecallTTL \<Longrightarrow>
    meanwhile h t a ((share_secure a ((ap_secure a)\<lparr>t_auth := auth\<rparr>))\<lparr>ap_disk := (if written then Some (marshal_recall out) else ap_disk a)\<rparr>)"

lemma meanwhile_app_step: "meanwhile h t a b \<Longrightarrow> app_step a b"
  by (induction rule: meanwhile.induct) (rule app_step.intros; assumption)+

definition kept :: "string \<Rightarrow> pid \<Rightarrow> gotime \<Rightarrow> auth_state \<Rightarrow> bool" where
  "kept h pid t auth \<longleftrightarrow> pid \<noteq> 0 \<and> as_once auth \<and> gm_get (as_table auth) h = Some \<lparr>ar_pid = pid, ar_at = t\<rparr>"

lemma kept_recall: "kept h pid t auth \<Longrightarrow> re_now env - t \<le> authRecallTTL \<Longrightarrow> kept h pid t (fst (RecallAuthPID env addr auth))"
  by (auto simp: kept_def RecallAuthPID_def authRecallInit_def Let_def split: option.split)

lemma recall_kept: "kept h pid t auth \<Longrightarrow> re_now env - t \<le> authRecallTTL \<Longrightarrow> ipHost addr = h \<Longrightarrow> snd (RecallAuthPID env addr auth) = Some pid"
  by (simp add: kept_def RecallAuthPID_def authRecallInit_def Let_def)

lemma kept_remember: "kept h pid t auth \<Longrightarrow> ipHost addr \<noteq> h \<Longrightarrow> kept h pid t (RememberAuthPID env addr pid' auth)"
  by (simp add: kept_def RememberAuthPID_def authRecallInit_def Let_def)

lemma remember_kept: "pid \<noteq> 0 \<Longrightarrow> kept (ipHost addr) pid (re_now env) (RememberAuthPID env addr pid auth)"
  by (simp add: kept_def RememberAuthPID_def authRecallInit_def Let_def split: option.split)

lemma kept_flush_entries:
  "gm_get (fst acc) h = Some e \<Longrightarrow> now h - ar_at e \<le> authRecallTTL \<Longrightarrow> gm_get (fst (fold (flush_entry now) ord acc)) h = Some e"
proof (induction ord arbitrary: acc)
  case (Cons ip ord)
  then have "gm_get (fst (flush_entry now ip acc)) h = Some e"
    by (auto simp: flush_entry_def split_beta Let_def split: option.split)
  then show ?case
    using Cons by simp
qed simp

lemma kept_flush:
  assumes "kept h pid t auth" and "now h - t \<le> authRecallTTL" and "authRecallFlusher now ord auth = (auth', out)"
  shows "kept h pid t auth'"
  using assms kept_flush_entries [of "(as_table auth, [])" h "\<lparr>ar_pid = pid, ar_at = t\<rparr>" now ord]
  by (auto simp: kept_def authRecallFlusher_def split: if_splits prod.splits)

interpretation secure_kept: guarded_service "secure_service q" "\<lambda>v. kept h pid t (vw_auth v)" "\<lambda>_ _ _. True"
  "\<lambda>env. re_now env - t \<le> authRecallTTL" for q h pid t
proof
  fix k hd and st :: server and r req
  assume "handler (secure_service q) k = Some hd"
  then have "vw_auth (view (fst (hd r req st))) = vw_auth (view st)"
    using frame_fixed [OF secure_handler_frame] by blast
  then show "kept h pid t (vw_auth (view st)) \<Longrightarrow> kept h pid t (vw_auth (view (fst (hd r req st))))"
    by (simp only:)
qed (auto simp: kept_recall secure_service_def Register_def new_service_def run_hook_def drop_player_def note_call_def)

lemma meanwhile_kept:
  assumes "meanwhile h t a b" and "app_ok a" and "kept h pid t (t_auth (ap_secure a))"
  shows "kept h pid t (t_auth (ap_secure b))"
  using assms
proof (induction rule: meanwhile.induct)
  case (mw_login_packet r a q p env)
  have "t_auth (ap_login a) = t_auth (ap_secure a)" "\<not> ep_Secure (t_ep (ap_login a))"
    using mw_login_packet.prems by (simp_all add: app_ok_def)
  moreover have "ipHost (c_RemoteAddr (conn_of (ap_login a) r)) \<noteq> h" if "login_log q (ap_login a) r p = e # es" for e es
    using that mw_login_packet.hyps(3) by (auto simp: login_log_def split: option.splits if_splits)
  ultimately show ?case
    using mw_login_packet login_packet_auth [of r "ap_login a" q env p]
    by (cases "login_log q (ap_login a) r p") (simp_all add: kept_remember split_beta)
next
  case (mw_login_background a l)
  have "t_auth l = t_auth (ap_secure a)"
    using arg_cong [OF login_background_view [OF mw_login_background.hyps], of vw_auth] mw_login_background.prems by (simp add: app_ok_def)
  then show ?case
    using mw_login_background by simp
next
  case (mw_secure_packet r a env p q)
  then show ?case
    using secure_kept.handlePacket_ok [where st = "ap_secure a" and r = r and env = env and q = q and p = p and h = h and t = t and pid = pid] by simp
next
  case (mw_background a s)
  then show ?case
    using frame_fixed [OF background_frame [OF mw_background.hyps]] by simp
next
  case (mw_flush now ord a auth out written)
  then show ?case
    using kept_flush [of h pid t "t_auth (ap_secure a)" now ord auth] by simp
qed simp_all

lemma meanwhile_run:
  "(meanwhile h t)\<^sup>*\<^sup>* a b \<Longrightarrow> app_ok a \<Longrightarrow> kept h pid t (t_auth (ap_secure a)) \<Longrightarrow> app_ok b \<and> kept h pid t (t_auth (ap_secure b))"
  by (induction rule: rtranclp_induct) (auto intro: meanwhile_kept app_step_ok [OF meanwhile_app_step])

lemma login_kept:
  assumes "app_ok a" and "r < length (ep_sockets (t_ep (ap_login a)))" and "login_log q (ap_login a) r p = [(host, pid, t)]" and "pid \<noteq> 0"
  shows "kept host pid t (t_auth (fst (handlePacket (login_service q) env r p (ap_login a))))"
proof -
  have "host = ipHost (c_RemoteAddr (conn_of (ap_login a) r))" "t = re_now (le_recall (li_env q))"
    using assms(3) by (auto simp: login_log_def split: option.splits if_splits)
  then show ?thesis
    using login_packet_auth [OF assms(2), of q env p] assms by (simp add: app_ok_def remember_kept)
qed

lemma login_connects:
  assumes "app_ok a" and "r < length (ep_sockets (t_ep (ap_login a)))" and "re_saved (le_recall (li_env q)) = disk_of a"
    and "login_log q (ap_login a) r p = [(host, pid, t)]" and "pid \<noteq> 0"
    and "a1 = (share_login a (fst (handlePacket (login_service q) env r p (ap_login a))))\<lparr>ap_log := login_log q (ap_login a) r p @ ap_log a\<rparr>"
    and "(meanwhile host t)\<^sup>*\<^sup>* a1 b"
    and "r' < length (ep_sockets (t_ep (ap_secure b)))" and "ipHost (c_RemoteAddr (conn_of (ap_secure b) r')) = host"
    and "re_now (pe_recall env') - t \<le> authRecallTTL"
    and "p_Type p' = PacketCONNECT" and "\<not> HasFlag p' FlagACK" and "p_Payload p' = []"
    and "p_Signature p' = LitePacketSignature accessKey p' (c_connectionSig (conn_of (ap_secure b) r'))"
  shows "c_PID (conn_of (fst (handlePacket (secure_service q') env' r' p' (ap_secure b))) r') = pid"
proof -
  have "app_ok a1" "kept host pid t (t_auth (ap_secure a1))"
    using app_step_ok [OF app_login_packet [OF assms(2,3), of p env] assms(1)] login_kept [OF assms(1,2,4,5), of env] assms(6) by simp_all
  from meanwhile_run [OF assms(7) this] have b: "app_ok b" "kept host pid t (t_auth (ap_secure b))"
    by simp_all
  then have "snd (RecallAuthPID (pe_recall env') (c_RemoteAddr (conn_of (ap_secure b) r')) (t_auth (ap_secure b))) = Some pid"
    using recall_kept assms(9,10) by blast
  moreover have "AccessKey (ep_Settings (t_ep (ap_secure b))) = accessKey" "ep_Secure (t_ep (ap_secure b))"
    using b by (simp_all add: app_ok_def secure_settings_def NewSwitchSettings_def)
  ultimately show ?thesis
    using assms(8,11-14) by (intro connect_recalled) simp_all
qed

text \<open>C7: a console that logs in is admitted. From any state of the program, let the login endpoint handle a packet with a login that it
  accepts. Then let anything happen but a restart and another login from the same host: sockets are opened, other consoles log
  in, connect and play, the goroutines and the flusher run. A CONNECT without a ticket from that host, on any connection of the secure
  endpoint, at most 24 hours after the login and with the right signature, makes the connection speak for the account of that login. (Another
  login from the same host replaces the account: the statement then applies to the later login.)\<close>

theorem login_admits_connect:
  assumes "reach app_init app_step a" and "r < length (ep_sockets (t_ep (ap_login a)))" and "re_saved (le_recall (li_env q)) = disk_of a"
    and "login_log q (ap_login a) r p = [(host, pid, t)]" and "pid \<noteq> 0"
    and "a1 = (share_login a (fst (handlePacket (login_service q) env r p (ap_login a))))\<lparr>ap_log := login_log q (ap_login a) r p @ ap_log a\<rparr>"
    and "(meanwhile host t)\<^sup>*\<^sup>* a1 b"
    and "r' < length (ep_sockets (t_ep (ap_secure b)))" and "ipHost (c_RemoteAddr (conn_of (ap_secure b) r')) = host"
    and "re_now (pe_recall env') - t \<le> authRecallTTL"
    and "p_Type p' = PacketCONNECT" and "\<not> HasFlag p' FlagACK" and "p_Payload p' = []"
    and "p_Signature p' = LitePacketSignature accessKey p' (c_connectionSig (conn_of (ap_secure b) r'))"
  shows "c_PID (conn_of (fst (handlePacket (secure_service q') env' r' p' (ap_secure b))) r') = pid"
  using login_connects [OF app_run.reachable_inv [OF assms(1)] assms(2-14)] .

section \<open>From a login to a connection after a restart\<close>

definition after_flush :: "auth_state \<Rightarrow> (string, authRecallPersisted) gomap \<Rightarrow> app \<Rightarrow> app" where
  "after_flush auth out a = (share_secure a ((ap_secure a)\<lparr>t_auth := auth\<rparr>))\<lparr>ap_disk := Some (marshal_recall out)\<rparr>"

definition after_restart :: "main_env \<Rightarrow> app \<Rightarrow> app" where
  "after_restart e a = a\<lparr>ap_login := login_start, ap_secure := secure_start e\<rparr>"

definition after_open :: "string \<Rightarrow> app \<Rightarrow> app" where
  "after_open addr a = a\<lparr>ap_secure := (ap_secure a)\<lparr>t_ep := open_socket addr (t_ep (ap_secure a))\<rparr>\<rparr>"

lemma after_steps:
  "authRecallFlusher now ord (t_auth (ap_secure a)) = (auth, Some out) \<Longrightarrow> app_step a (after_flush auth out a)"
  "app_step a (after_restart e a)" "app_step a (after_open addr a)"
  using app_flush [of now ord a auth out True] by (simp_all add: after_flush_def after_restart_def after_open_def app_restart app_open)

lemma restarted_simps:
  "length (ep_sockets (t_ep (ap_secure (after_open addr (after_restart e a))))) = 1"
  "c_RemoteAddr (conn_of (ap_secure (after_open addr (after_restart e a))) 0) = addr"
  "c_connectionSig (conn_of (ap_secure (after_open addr (after_restart e a))) 0) = []"
  "t_auth (ap_secure (after_open addr (after_restart e a))) = empty_auth"
  "disk_of (after_open addr (after_restart e (after_flush auth out a))) = unmarshal_recall (marshal_recall out)"
  by (simp_all add: after_open_def after_restart_def after_flush_def open_socket_def NewConnection_def start_ok conn_at_def)

text \<open>C8: a console that logged in is admitted after a restart. From any state of the program, when the flusher has written the remembered logins and the
  process is started anew, a CONNECT without a ticket from a host that logged in makes the connection speak for the account of that login, until 24
  hours after the whole second of the login. The new process knows nothing but the bytes of the file.\<close>

theorem login_survives_restart:
  assumes "reach app_init app_step a" and "gm_get (as_table (t_auth (ap_secure a))) (ipHost addr) = Some r" and "ar_pid r \<noteq> 0" and "ipHost addr \<noteq> []"
    and "\<forall>h r. gm_get (as_table (t_auth (ap_secure a))) h = Some r \<longrightarrow> in_int64 (ar_at r)"
    and "visits ord (as_table (t_auth (ap_secure a)))" and "length ord \<le> authRecallMax" and "now (ipHost addr) - ar_at r \<le> authRecallTTL"
    and "authRecallFlusher now ord (t_auth (ap_secure a)) = (auth, Some out)" and "a' = after_open addr (after_restart e (after_flush auth out a))"
    and "re_file (pe_recall env) \<noteq> []" and "re_saved (pe_recall env) = disk_of a'"
    and "re_load_now (pe_recall env) (ipHost addr) - ar_at r div 1000000000 * 1000000000 \<le> authRecallTTL"
    and "re_now (pe_recall env) - ar_at r div 1000000000 * 1000000000 \<le> authRecallTTL"
    and "p_Type p = PacketCONNECT" and "\<not> HasFlag p FlagACK" and "p_Payload p = []" and "p_Signature p = LitePacketSignature accessKey p []"
  shows "reach app_init app_step a' \<and> c_PID (conn_of (fst (handlePacket (secure_service q) env 0 p (ap_secure a'))) 0) = ar_pid r"
proof
  show reach: "reach app_init app_step a'"
    using reach_step [OF reach_step [OF reach_step [OF assms(1) after_steps(1) [OF assms(9)]] after_steps(2)] after_steps(3)] assms(10) by simp
  have "\<forall>h r. gm_get (as_table (t_auth (ap_secure a))) h = Some r \<longrightarrow> to_valid h = h \<and> in_int64 (ar_at r)"
    using assms(5) table_hosts_valid [OF app_run.reachable_inv [OF assms(1)] app_recall_inv [OF assms(1)]] by blast
  from recall_survives_restart [OF this assms(6,7,9,2,3,4,8,11) _ assms(13,14)]
  have "snd (RecallAuthPID (pe_recall env) addr empty_auth) = Some (ar_pid r)"
    using assms(10,12) by (simp add: restarted_simps)
  moreover have "app_ok a'"
    by (rule app_run.reachable_inv [OF reach])
  ultimately show "c_PID (conn_of (fst (handlePacket (secure_service q) env 0 p (ap_secure a'))) 0) = ar_pid r"
    using assms(10,15-18) by (intro connect_recalled) (simp_all add: restarted_simps app_ok_def secure_settings_def NewSwitchSettings_def)
qed

text \<open>A console that logs in by its account number and then connects from another port.\<close>

definition demo_inputs :: login_inputs where
  "demo_inputs = \<lparr>li_gate = plain_gate, li_account = open_account,
     li_env = \<lparr>le_recall = sample_recall, le_sessionKey = Some (replicate 32 0), le_ticketKey = None, le_ticketDate = 0, le_replyDate = 0\<rparr>,
     li_host = ''127.0.0.1'', li_port = 60003\<rparr>"

definition demo_login :: Packet where
  "demo_login = zero_packet\<lparr>p_Type := PacketDATA,
     p_Payload := rmc_Encode (NewRMCRequest secure_settings ProtocolTicketGranting MethodLogin 1 (out_String (nat_str 1800000007)))\<rparr>"

definition demo_start :: app where
  "demo_start = \<lparr>ap_login = login_start, ap_secure = secure_start plain_main, ap_disk = None, ap_log = [], ap_tickets = []\<rparr>"

definition demo_open :: app where
  "demo_open = demo_start\<lparr>ap_login := login_start\<lparr>t_ep := open_socket ''82.6.1.9:50000'' (t_ep login_start)\<rparr>,
     ap_secure := (secure_start plain_main)\<lparr>t_ep := open_socket ''82.6.1.9:50321'' (t_ep (secure_start plain_main))\<rparr>\<rparr>"

lemma reach_demo_open: "reach app_init app_step demo_open"
proof -
  have "reach app_init app_step demo_start"
    by (rule reach_init) (auto simp: app_init_def demo_start_def)
  from reach_step [where step = app_step, OF this app_accept [of "''82.6.1.9:50000''" demo_start]]
  have "reach app_init app_step (demo_start\<lparr>ap_login := login_start\<lparr>t_ep := open_socket ''82.6.1.9:50000'' (t_ep login_start)\<rparr>\<rparr>)"
    by (simp add: demo_start_def code_of_def)
  from reach_step [where step = app_step, OF this app_open [of _ "''82.6.1.9:50321''"]] show ?thesis
    by (simp add: demo_open_def demo_start_def)
qed

lemma demo_open_simps:
  "length (ep_sockets (t_ep (ap_login demo_open))) = 1" "length (ep_sockets (t_ep (ap_secure demo_open))) = 1"
  "c_RemoteAddr (conn_of (ap_login demo_open) 0) = ''82.6.1.9:50000''" "c_RemoteAddr (conn_of (ap_secure demo_open) 0) = ''82.6.1.9:50321''"
  "c_fragBuf (conn_of (ap_login demo_open) 0) = []" "ep_Settings (t_ep (ap_login demo_open)) = secure_settings"
  "ls_resolver (ap_login demo_open) = no_resolutions" "disk_of demo_open = None"
  by (simp_all add: disk_of_def demo_open_def demo_start_def login_start_def secure_start_def open_socket_def NewEndpoint_def SetSecureAccount_def
      NewConnection_def conn_at_def secure_settings_def no_resolutions_def)

lemma demo_hosts: "ipHost ''82.6.1.9:50000'' = ''82.6.1.9''" "ipHost ''82.6.1.9:50321'' = ''82.6.1.9''"
  by code_simp+

lemma demo_resolved:
  "snd (resolveUser plain_gate open_account (nat_str 1800000007) [] no_resolutions) = Some (1800000007, source_key (nat_str 1800000007))"
proof -
  have n: "ParseUint (nat_str 1800000007) = Some 1800000007"
    using ParseUint_nat_str [of 1800000007] by simp
  have "nextendoPIDFromToken [] t u = None" for t u
    by (simp add: nextendoPIDFromToken_def)
  then show ?thesis
    by (simp add: resolveUser_def n numeric_user_def checked_def open_account_allows plain_gate_def
        requireSignedToken_def env_true_def)
qed

lemma demo_logged: "login_log demo_inputs (ap_login demo_open) 0 demo_login = [(''82.6.1.9'', 1800000007, 1)]"
proof -
  define req where "req = NewRMCRequest secure_settings ProtocolTicketGranting MethodLogin 1 (out_String (nat_str 1800000007))"
  have len: "length (nat_str 1800000007) = 10"
    by (simp add: nat_str.simps)
  have "rmc_wf req"
    using len by (simp add: req_def rmc_wf_def NewRMCRequest_def ProtocolTicketGranting_def out_String_def Let_def)
  then have "ParseRMC secure_settings (rmc_Encode req) = Some req"
    using ParseRMC_Encode [of req] by (simp add: req_def NewRMCRequest_def)
  then have "message_of (ap_login demo_open) 0 demo_login = Some req"
    by (simp add: message_of_def demo_login_def demo_open_simps HasFlag_def zero_packet_def flip: req_def) (simp add: req_def NewRMCRequest_def)
  moreover have "login_fields req = (nat_str 1800000007, [])"
    using readsD [OF reads_String, of "nat_str 1800000007" "[]" "[]"] len
    by (simp add: login_fields_def req_def NewRMCRequest_def NewStreamIn_stream_at run_in_ReadAll string_ok_def)
  ultimately show ?thesis
    by (simp add: login_log_def accepted_login_def demo_open_simps demo_hosts demo_inputs_def demo_resolved sample_recall_def req_def NewRMCRequest_def)
qed

definition demo_in :: app where
  "demo_in = (share_login demo_open (fst (handlePacket (login_service demo_inputs) sample_penv 0 demo_login (ap_login demo_open))))
     \<lparr>ap_log := login_log demo_inputs (ap_login demo_open) 0 demo_login @ ap_log demo_open\<rparr>"

definition demo_connect :: Packet where
  "demo_connect = zero_packet\<lparr>p_Type := PacketCONNECT\<rparr>"

definition demo_on :: "inputs \<Rightarrow> app" where
  "demo_on q = (share_secure demo_in (fst (handlePacket (secure_service q) sample_penv 0 demo_connect (ap_secure demo_in))))
     \<lparr>ap_tickets := (if p_Type demo_connect = PacketCONNECT \<and> p_Payload demo_connect \<noteq> [] then [p_Payload demo_connect] else []) @ ap_tickets demo_in\<rparr>"

lemma reach_demo_in: "reach app_init app_step demo_in"
  unfolding demo_in_def
  by (rule reach_step [where step = app_step, OF reach_demo_open app_login_packet]) (simp_all add: demo_open_simps demo_inputs_def sample_recall_def)

lemma demo_in_simps: "t_ep (ap_secure demo_in) = t_ep (ap_secure demo_open)" "disk_of demo_in = None" "ap_log demo_in = [(''82.6.1.9'', 1800000007, 1)]"
  by (simp_all add: demo_in_def demo_logged demo_open_simps) (simp add: demo_open_def demo_start_def)

lemma reach_demo_on: "reach app_init app_step (demo_on q)"
  unfolding demo_on_def
  by (rule reach_step [where step = app_step, OF reach_demo_in app_secure_packet])
    (simp_all add: demo_in_simps demo_open_simps sample_penv_def sample_recall_def)

lemma demo_connect_simps:
  "p_Type demo_connect = PacketCONNECT" "\<not> HasFlag demo_connect FlagACK" "p_Payload demo_connect = []"
  "p_Signature demo_connect = LitePacketSignature key demo_connect sig"
  by (simp_all add: demo_connect_def zero_packet_def HasFlag_def LitePacketSignature_def)

lemma demo_account: "c_PID (conn_of (ap_secure (demo_on q)) 0) = 1800000007"
proof -
  have "c_PID (conn_of (fst (handlePacket (secure_service q) sample_penv 0 demo_connect (ap_secure demo_in))) 0) = 1800000007"
    by (rule login_connects [OF app_run.reachable_inv [OF reach_demo_open] _ _ demo_logged _ demo_in_def rtranclp.rtrancl_refl])
      (simp_all add: demo_in_simps demo_open_simps demo_hosts demo_connect_simps demo_inputs_def sample_penv_def sample_recall_def authRecallTTL_def)
  then show ?thesis
    by (simp add: demo_on_def)
qed

theorem app_refines_recall_witness: "reach recall_start recall_step (recall_of demo_in) \<and> rs_log (recall_of demo_in) = [(''82.6.1.9'', 1800000007, 1)]"
  using app_refines_recall [OF reach_demo_in] by (simp add: recall_of_def demo_in_simps)

theorem account_provenance_witness:
  "\<forall>q. c_PID (conn_of (ap_secure (demo_on q)) 0) = 1800000007 \<and> (\<exists>t. (''82.6.1.9'', 1800000007, t) \<in> set (ap_log (demo_on q)))"
proof
  fix q
  have log: "ap_log (demo_on q) = [(''82.6.1.9'', 1800000007, 1)]" "ap_tickets (demo_on q) = []"
    by (simp_all add: demo_on_def demo_in_simps demo_connect_simps) (simp add: demo_in_def demo_open_def demo_start_def)
  have "same_hosts (t_ep (ap_secure demo_in)) (t_ep (ap_secure (demo_on q)))"
    unfolding demo_on_def
    using same_hosts_fixed [OF conjunct1 [OF secure_packet_sim [of 0 "ap_secure demo_in" sample_penv "recall_of demo_in" q demo_connect]]]
    by (simp add: recall_of_def demo_in_simps demo_open_simps sample_penv_def sample_recall_def)
  then have "0 < length (ep_sockets (t_ep (ap_secure (demo_on q))))"
    using map_eq_imp_length_eq [of c_RemoteAddr "ep_sockets (t_ep (ap_secure (demo_on q)))" c_RemoteAddr "ep_sockets (t_ep (ap_secure demo_open))"]
    by (simp add: same_hosts_def demo_in_simps(1) demo_open_simps)
  from account_provenance [OF reach_demo_on this] show "c_PID (conn_of (ap_secure (demo_on q)) 0) = 1800000007 \<and> (\<exists>t. (''82.6.1.9'', 1800000007, t) \<in> set (ap_log (demo_on q)))"
    using demo_account [of q] log by simp
qed

text \<open>The same console after the process was started anew.\<close>

definition demo_auth :: auth_state where
  "demo_auth = \<lparr>as_table = [(''82.6.1.9'', \<lparr>ar_pid = 1800000007, ar_at = 1\<rparr>)], as_dirty = True, as_once = True\<rparr>"

lemma demo_table: "t_auth (ap_secure demo_in) = demo_auth"
proof -
  have "\<not> ep_Secure (t_ep (ap_login demo_open))" "t_auth (ap_login demo_open) = empty_auth" "re_file sample_recall = []" "re_now sample_recall = 1"
    by (simp_all add: demo_open_def start_ok open_socket_def sample_recall_def)
  then show ?thesis
    using login_packet_auth [of 0 "ap_login demo_open" demo_inputs sample_penv demo_login] demo_logged
    by (simp add: demo_in_def demo_open_simps demo_hosts demo_auth_def demo_inputs_def RememberAuthPID_def authRecallInit_def empty_auth_def Let_def)
qed

definition demo_file :: "(string, authRecallPersisted) gomap" where
  "demo_file = [(''82.6.1.9'', \<lparr>ap_PID = 1800000007, ap_At = 0\<rparr>)]"

text \<open>Before the console connects, the flusher runs and the console opens a second connection; it connects on that one.\<close>

definition demo_later :: app where
  "demo_later = after_open ''82.6.1.9:50555'' (after_flush (demo_auth\<lparr>as_dirty := False\<rparr>) demo_file demo_in)"

lemma demo_flush: "authRecallFlusher (\<lambda>_. 2) [''82.6.1.9''] (t_auth (ap_secure demo_in)) = (demo_auth\<lparr>as_dirty := False\<rparr>, Some demo_file)"
  by (simp add: demo_table demo_auth_def demo_file_def authRecallFlusher_def flush_entry_def authRecallTTL_def authRecallMax_def)

lemma demo_meanwhile: "(meanwhile ''82.6.1.9'' 1)\<^sup>*\<^sup>* demo_in demo_later"
proof -
  let ?f = "after_flush (demo_auth\<lparr>as_dirty := False\<rparr>) demo_file demo_in"
  have "meanwhile ''82.6.1.9'' 1 demo_in ?f"
    using mw_flush [OF demo_flush, where h = "''82.6.1.9''" and t = 1 and written = True] by (simp add: after_flush_def authRecallTTL_def)
  moreover have "meanwhile ''82.6.1.9'' 1 ?f demo_later"
    unfolding demo_later_def after_open_def by (rule mw_open)
  ultimately show ?thesis
    by (rule converse_rtranclp_into_rtranclp [OF _ r_into_rtranclp])
qed

lemma demo_later_simps:
  "length (ep_sockets (t_ep (ap_secure demo_later))) = 2" "ipHost (c_RemoteAddr (conn_of (ap_secure demo_later) (Suc 0))) = ''82.6.1.9''"
proof -
  have "ipHost ''82.6.1.9:50555'' = ''82.6.1.9''"
    by code_simp
  then show "length (ep_sockets (t_ep (ap_secure demo_later))) = 2" "ipHost (c_RemoteAddr (conn_of (ap_secure demo_later) (Suc 0))) = ''82.6.1.9''"
    using demo_open_simps(2) by (simp_all add: demo_later_def after_open_def after_flush_def demo_in_simps open_socket_def NewConnection_def conn_at_def nth_append)
qed

theorem login_admits_connect_witness:
  "\<forall>q. c_PID (conn_of (fst (handlePacket (secure_service q) sample_penv 1 demo_connect (ap_secure demo_later))) 1) = 1800000007"
proof
  fix q
  show "c_PID (conn_of (fst (handlePacket (secure_service q) sample_penv 1 demo_connect (ap_secure demo_later))) 1) = 1800000007"
    by (rule login_admits_connect [OF reach_demo_open _ _ demo_logged _ demo_in_def demo_meanwhile])
      (simp_all add: demo_later_simps demo_open_simps demo_connect_simps demo_inputs_def sample_penv_def sample_recall_def authRecallTTL_def)
qed

definition demo_restart :: app where
  "demo_restart = after_open ''82.6.1.9:50321'' (after_restart plain_main (after_flush (demo_auth\<lparr>as_dirty := False\<rparr>) demo_file demo_in))"

definition demo_reread :: packet_env where
  "demo_reread = sample_penv\<lparr>pe_recall := \<lparr>re_file = ''recall.json'', re_saved = disk_of demo_restart, re_load_now = \<lambda>_. 3, re_now = 4\<rparr>\<rparr>"

theorem login_survives_restart_witness:
  "\<forall>q. reach app_init app_step demo_restart \<and>
     c_PID (conn_of (fst (handlePacket (secure_service q) demo_reread 0 demo_connect (ap_secure demo_restart))) 0) = 1800000007"
proof
  fix q
  show "reach app_init app_step demo_restart \<and>
      c_PID (conn_of (fst (handlePacket (secure_service q) demo_reread 0 demo_connect (ap_secure demo_restart))) 0) = 1800000007"
    using login_survives_restart [OF reach_demo_in _ _ _ _ _ _ _ demo_flush demo_restart_def, of "\<lparr>ar_pid = 1800000007, ar_at = 1\<rparr>" demo_reread demo_connect q]
    by (simp add: demo_hosts demo_table demo_auth_def demo_reread_def demo_connect_simps visits_def in_int64_def authRecallTTL_def authRecallMax_def)
qed

end
