(* ===== verification/Spec2Isabelle.thy ===== *)
theory Spec2Isabelle
  imports Nex_Handlers Nex_Tournament Nex_Prudp Nex_Stations Nex_Login Nex_Transport Nex_Dispatch Nex_Render Nex_App
begin

text \<open>
  A verification development for the matchmaking server of this repository: the NEX protocol library
  \<^verbatim>\<open>nextendo-nex/\<close> and the server built on it, \<^verbatim>\<open>server/\<close>.

  \<^bold>\<open>The program.\<close> A console logs in on the login endpoint, which decides which account it speaks for and issues a
  Kerberos ticket. With the ticket, or recalled by its address when it has none, it connects to the secure
  endpoint. There it registers its station URLs, creates, finds and joins gatherings, learns the addresses of the
  other players, takes part in tournaments and leaderboards, and gets notifications. Both endpoints exchange RMC
  messages, cut into PRUDP-Lite packets, over WebSockets. A dashboard shows the state and can close connections; a
  reaper closes dead ones.

  \<^bold>\<open>Conventions.\<close> Integers are words of the source's width; a Go \<open>int\<close> that can leave its range is wrapped explicitly.
  A string is a char list, a byte slice a list of 8-bit words. A Go map is an association list with distinct keys; where the
  code ranges over a map the order is an argument, with the hypothesis that it visits the map. The clock, random bytes,
  environment variables and file contents are arguments. A panic and an error are values. A connection is an index into the
  list of all sockets of its endpoint, so that sharing is explicit. Mutexes are held for a whole operation, which is then one step;
  goroutines are steps of their own. Helpers that translate a part of a function stand before it.

  \<^bold>\<open>Theories, from the wire upwards.\<close>

  \<^item> \<^verbatim>\<open>Nex_Prelude\<close>: maps, results, bytes, visiting orders, and the locale \<open>inductive_invariant\<close> of step relations.
  \<^item> \<^verbatim>\<open>Nex_Stream\<close> (\<^verbatim>\<open>stream.go\<close>, \<^verbatim>\<open>settings.go\<close>): readers as a state monad, writers as byte lists; the locales
    \<open>codec\<close>, \<open>nonempty_codec\<close> and \<open>map_codec\<close> give lists, maps and framed structures their round trips once.
  \<^item> \<^verbatim>\<open>Nex_Types\<close> (\<^verbatim>\<open>types.go\<close>, \<^verbatim>\<open>resultcodes.go\<close>), \<^verbatim>\<open>Nex_RMC\<close> (\<^verbatim>\<open>rmc.go\<close>), \<^verbatim>\<open>Nex_Sessions\<close> (\<^verbatim>\<open>matchmaking.go\<close>, the
    structures of \<^verbatim>\<open>matchmaking_acnh.go\<close> and \<^verbatim>\<open>notification.go\<close>), \<^verbatim>\<open>Nex_Time\<close> (calendar dates): what is sent is read back.
  \<^item> \<^verbatim>\<open>Nex_Prudp\<close> (\<^verbatim>\<open>prudp_lite.go\<close>, \<open>Feed\<close>): packets round-trip, and how the stream is cut into frames does not matter.
  \<^item> \<^verbatim>\<open>Nex_Crypto\<close>, \<^verbatim>\<open>Nex_Kerberos\<close> (\<^verbatim>\<open>kerberos.go\<close>): MD5, SHA-256, HMAC and RC4 as the standard library computes them, key
    derivation, tickets and their round trips.
  \<^item> \<^verbatim>\<open>Nex_Config\<close>, \<^verbatim>\<open>Nex_Net\<close>: the functions of Go's \<open>strings\<close>, \<open>strconv\<close>, \<open>net\<close> and \<open>encoding\<close> packages
    that the code calls, and the environment readers.
  \<^item> \<^verbatim>\<open>Nex_Json\<close>: \<open>encoding/json\<close> on bytes: the parser, the decoders of the Go types the code decodes into, the printer. A printed
    value parses back; the locale \<open>json_codec\<close> lifts a type's round trip to files that hold a list or a map of it.
  \<^item> \<^verbatim>\<open>Nex_Reservations\<close>, \<^verbatim>\<open>Nex_Nat\<close>, \<^verbatim>\<open>Nex_Matchmaking\<close> (\<^verbatim>\<open>matchmaking_handlers.go\<close>, \<^verbatim>\<open>matchmaking_acnh.go\<close>,
    \<^verbatim>\<open>matchmaking_notifdata.go\<close>, \<^verbatim>\<open>matchmaking_reservations.go\<close>, \<^verbatim>\<open>solo_isolate.go\<close>): the store, its seats and every handler. Seats
    implement the abstract \<open>seat_store\<close>.
  \<^item> \<^verbatim>\<open>Nex_Lobby\<close>, \<^verbatim>\<open>Nex_Handlers\<close>: what holds of the store in every reachable state (capacity, distinct players, fresh ids), and the
    behaviour of each handler on its branches: what a search discloses, what a disconnect removes, and what an account may do to the gatherings
    of others.
  \<^item> \<^verbatim>\<open>Nex_Dispatch\<close>: the method tables of the matchmaking protocols and the goroutine that waits for a host's URL.
  \<^item> \<^verbatim>\<open>Nex_Stations\<close> (\<^verbatim>\<open>secureconnection.go\<close>, \<^verbatim>\<open>natbridge.go\<close>, \<^verbatim>\<open>nattraversal.go\<close>): station registration, the NAT bridge, probes.
  \<^item> \<^verbatim>\<open>Nex_Tournament\<close> (\<^verbatim>\<open>tournament.go\<close>), \<^verbatim>\<open>Nex_Profiles\<close>, \<^verbatim>\<open>Nex_Ranking\<close> (\<^verbatim>\<open>ranking.go\<close>, \<^verbatim>\<open>ranking_board.go\<close>): the stores behind
    them, that they survive a restart, and that leaderboards show the best results.
  \<^item> \<^verbatim>\<open>Nex_Auth\<close> (\<^verbatim>\<open>ticketgranting.go\<close>), \<^verbatim>\<open>Nex_Login\<close> (\<^verbatim>\<open>gates.go\<close>, \<^verbatim>\<open>authbinding.go\<close>, \<open>resolveUser\<close> of \<^verbatim>\<open>main.go\<close>),
    \<^verbatim>\<open>Nex_Listener\<close> (\<^verbatim>\<open>proxyproto.go\<close>, the routes and ping frames of \<^verbatim>\<open>server.go\<close>): who a login is, what is remembered of it and under
    which address. The account service is asked by HTTP requests and its answers are decoded from their bodies.
  \<^item> \<^verbatim>\<open>Nex_Files\<close>: the files of recalled logins, leaderboards and tournaments byte by byte, each an interpretation of \<open>json_codec\<close>, and what a
    restart reads back from them.
  \<^item> \<^verbatim>\<open>Nex_Endpoint\<close>, \<^verbatim>\<open>Nex_Transport\<close> (\<^verbatim>\<open>endpoint.go\<close>, \<^verbatim>\<open>reaper.go\<close>, \<^verbatim>\<open>server.go\<close>): connections, packets, logins by ticket,
    fragments, acknowledgements. Three locales state what a service has to promise: \<open>identity_service\<close> (no handler changes
    an account), \<open>guarded_service\<close> (a handler changes a view of the server only in a permitted way) and its sublocale \<open>stable_service\<close> (every
    handler keeps an invariant of the server's stores); in them the transport is shown to keep each promise. A message is delivered however its goroutine
    interleaves with other connections, as long as no second message is sent on the same one.
  \<^item> \<^verbatim>\<open>Nex_Dedup\<close> (\<^verbatim>\<open>rmc_dedup.go\<close>): repeated calls, with all interleavings of concurrent retries. A call that finds the table full is let past it, and
    the theorems say what still holds then.
  \<^item> \<^verbatim>\<open>Nex_Dashboard\<close> (\<^verbatim>\<open>dashboard.go\<close>, \<^verbatim>\<open>dashboard_data.go\<close>), \<^verbatim>\<open>Nex_Utility\<close> (\<^verbatim>\<open>utility.go\<close>, \<open>SendNotification\<close>),
    \<^verbatim>\<open>Nex_Render\<close> (the bodies of the dashboard's answers, the geolocation answer, the time stamps of \<^verbatim>\<open>diag.go\<close>).
  \<^item> \<^verbatim>\<open>Nex_Server\<close> (\<open>main\<close>): the two endpoints with their handlers and hooks. It interprets the locales of the transport on the
    real services, makes everything that happens on the secure side one step relation, and concludes that every reachable server has
    well-formed stores, that accounts change only by a proven login and that eviction closes exactly the connections it means. The events of the WebSocket library are sequences of its steps.
  \<^item> \<^verbatim>\<open>Nex_App\<close>: the composed program: accepted sockets on both listeners, the account service, the recall table, its flusher and its file, and
    restarts, as one step relation. It refines the small system of \<^verbatim>\<open>Nex_Auth\<close> in which logins are recalled by address; every account on the
    secure endpoint comes from a login or a proven ticket, a login is admitted on a later connect whatever else happens in between, short of a restart or another login from the
    same host, and it is still admitted after a restart
    that reads the flushed bytes.

  \<^bold>\<open>Loops and bounds.\<close> Functions are total with proved termination. Two loops may run long and are partial functions: the padding of an
  attribute list, which is shown to return for every index but the largest, and the wait for a host's URL, shown to end after at most 25 polls.
  The JSON parser has fuel of twice the length of its input plus two; of two successive calls at least one consumes a byte.
  A message is delivered whole up to 256 fragments, the range of the fragment number.

  \<^bold>\<open>Parameters.\<close> The account service is a function from HTTP requests to status and body, or to no answer; the geolocation service answers a
  body. The upgrade of a request to a WebSocket is an input, and the addresses of sockets are ASCII, as Go prints them. The friend list and the
  hooks a game may set are fields of the store. The cryptographic functions are computed; that they cannot be forged is not claimed.

  \<^bold>\<open>Not modelled.\<close> The text of log lines (\<open>logRMC\<close>, \<open>logNATResult\<close>, \<open>natBridgeSkip\<close>), which nothing depends on.
  Listening sockets, TLS and the HTTP upgrade, which are calls into \<open>net/http\<close>, \<open>crypto/tls\<close> and the gws library. A write of a file is one
  step: the code writes a second file and renames it. Two more things follow from steps being whole operations: two calls
  of one connection do not interleave within a handler, and a handler that never returns does not block the others, although in the program it keeps the
  store's mutex. Readers and writers of small signed integers and of single-precision numbers have no caller.
\<close>

end
